(* ===== verification/Prelude.thy ===== *)
theory Prelude
  imports Main "HOL-Library.Word"
begin

unbundle bit_operations_syntax

text \<open>
  Names, automation and generic lemmas shared by the whole development.

  The kernel of student-distrib/ is 32-bit C. Its \<open>uint8_t\<close>, \<open>uint16_t\<close> and \<open>uint32_t\<close>
  are words of that width; a signed \<open>int32_t\<close> result (\<open>-1\<close>, a byte count, a file
  descriptor) is an \<open>int\<close>, obtained by \<open>sint\<close> where the code converts an unsigned value.
  Memory is the flat 32-bit address space, a function from addresses to bytes: pointers are
  addresses, pointer arithmetic wraps, and overlapping objects alias as they do on the machine.
\<close>

type_synonym u8 = "8 word"
type_synonym u16 = "16 word"
type_synonym u32 = "32 word"
type_synonym i32 = int
type_synonym mem = "u32 \<Rightarrow> u8"

named_theorems frame_simps \<open>state fields an operation leaves unchanged\<close>
named_theorems region_simps \<open>membership and disjointness of address regions\<close>
named_theorems inv_intros \<open>operations that keep an invariant\<close>

section \<open>Words as indices\<close>

lemma unat_lt_2p32: "unat (x :: u32) < 4294967296"
proof -
  have "unat x < 2 ^ LENGTH(32)" by (rule unsigned_less)
  then show ?thesis by simp
qed

lemma unat_of_nat32: "n < 4294967296 \<Longrightarrow> unat (of_nat n :: u32) = n"
  by (simp add: unat_of_nat take_bit_eq_mod)

lemma of_nat32_eq_iff:
  "i < 4294967296 \<Longrightarrow> j < 4294967296 \<Longrightarrow> (of_nat i :: u32) = of_nat j \<longleftrightarrow> i = j"
  by (metis unat_of_nat32)

lemma unat_Suc32: "i < (n :: u32) \<Longrightarrow> unat (i + 1) = Suc (unat i)"
  by unat_arith

lemma of_nat_unat_plus1: "(of_nat (Suc n) :: u32) = of_nat n + 1"
  by simp

section \<open>Signed values\<close>

lemma sint_small: "unat (x :: u32) < 2147483648 \<Longrightarrow> sint x = int (unat x)"
proof -
  assume "unat x < 2147483648"
  then have "int (unat x) < 2147483648" by linarith
  then have u: "uint x < 2 ^ 31" by simp
  have "sint x = signed_take_bit 31 (uint x)" by (simp add: sint_uint)
  also have "\<dots> = uint x" by (rule signed_take_bit_int_eq_self) (use u in \<open>auto intro: order_trans [OF _ unsigned_greater_eq]\<close>)
  finally show ?thesis by simp
qed

lemma nat_of_int32: "0 \<le> n \<Longrightarrow> n < 2147483648 \<Longrightarrow> unat (of_int n :: u32) = nat n"
  by (simp add: unsigned_of_int take_bit_int_eq_self)

section \<open>Regions\<close>

text \<open>
  The \<open>n\<close> bytes at address \<open>a\<close>. An address \<open>x\<close> lies in the region when its offset from
  \<open>a\<close>, taken modulo \<open>2 ^ 32\<close>, is below \<open>n\<close>; a region may wrap around the top of memory.
\<close>

definition in_region :: "u32 \<Rightarrow> nat \<Rightarrow> u32 \<Rightarrow> bool" where
  "in_region a n x \<longleftrightarrow> unat (x - a) < n"

definition disjoint_regions :: "u32 \<Rightarrow> nat \<Rightarrow> u32 \<Rightarrow> nat \<Rightarrow> bool" where
  "disjoint_regions a n b k \<longleftrightarrow> (\<forall>i < n. \<not> in_region b k (a + of_nat i))"

lemma in_region_offset [region_simps]:
  "i < 4294967296 \<Longrightarrow> in_region a n (a + of_nat i) \<longleftrightarrow> i < n"
  by (simp add: in_region_def unat_of_nat32)

lemma in_region_ex:
  assumes "in_region a n x"
  shows "\<exists>i < n. x = a + of_nat i"
proof -
  have "x = a + of_nat (unat (x - a))" by simp
  with assms show ?thesis unfolding in_region_def by blast
qed

lemma in_region_self [region_simps]: "0 < n \<Longrightarrow> in_region a n a"
  by (simp add: in_region_def)

lemma in_region_mono: "in_region a n x \<Longrightarrow> n \<le> k \<Longrightarrow> in_region a k x"
  by (simp add: in_region_def)

lemma in_region_offset': "i < n \<Longrightarrow> in_region a n (a + of_nat i)"
  using le_less_trans [OF take_bit_nat_less_eq_self]
  by (simp add: in_region_def unat_of_nat)

lemma disjoint_regionsD:
  "disjoint_regions a n b k \<Longrightarrow> i < n \<Longrightarrow> j < k \<Longrightarrow> a + of_nat i \<noteq> b + of_nat j"
  by (metis disjoint_regions_def in_region_offset')

lemma disjoint_regions_notin:
  "disjoint_regions a n b k \<Longrightarrow> in_region a n x \<Longrightarrow> in_region b k x \<Longrightarrow> False"
  by (metis disjoint_regions_def in_region_ex)

lemma disjoint_regions_sym: "disjoint_regions a n b k \<Longrightarrow> disjoint_regions b k a n"
  by (metis disjoint_regions_def disjoint_regions_notin in_region_offset')

lemma disjoint_regions_mono:
  "disjoint_regions a n b k \<Longrightarrow> n' \<le> n \<Longrightarrow> k' \<le> k \<Longrightarrow> disjoint_regions a n' b k'"
  by (meson disjoint_regions_def in_region_mono less_le_trans)

text \<open>Regions one after the other in memory are disjoint.\<close>

lemma disjoint_regions_sep:
  assumes "unat a + n \<le> unat b" "unat b + k \<le> 4294967296"
  shows "disjoint_regions a n b k"
  unfolding disjoint_regions_def in_region_def
proof (intro allI impI notI)
  fix i assume i: "i < n" and lt: "unat (a + of_nat i - b) < k"
  have "unat (a + of_nat i) = unat a + i"
    using assms i unat_lt_2p32 [of b] by (simp add: unat_word_ariths unat_of_nat take_bit_eq_mod)
  then have "unat (a + of_nat i - b) = unat a + i + 4294967296 - unat b"
    using assms i by (simp add: unat_sub_if' word_le_nat_alt)
  with lt assms i show False by linarith
qed

end
