(* ===== verification/Bytes.thy ===== *)
theory Bytes
  imports Prelude
begin

text \<open>
  Byte memory: reading a region as a list, writing a list to a region and little-endian 32-bit
  loads and stores. This is what the pointer accesses of the source mean on the machine; no
  single source line defines it.
\<close>

section \<open>Reading and writing regions\<close>

definition bytes :: "mem \<Rightarrow> u32 \<Rightarrow> nat \<Rightarrow> u8 list" where
  "bytes m a n = map (\<lambda>i. m (a + of_nat i)) [0..<n]"

fun write_bytes :: "mem \<Rightarrow> u32 \<Rightarrow> u8 list \<Rightarrow> mem" where
  "write_bytes m a [] = m"
| "write_bytes m a (b # bs) = write_bytes (m(a := b)) (a + 1) bs"

lemma write_bytes_Cons: "write_bytes m a (b # bs) = write_bytes (m(a := b)) (a + 1) bs"
  by (rule write_bytes.simps(2))

declare write_bytes.simps(2) [simp del] write_bytes_Cons [simp]

lemma length_bytes [simp]: "length (bytes m a n) = n"
  by (simp add: bytes_def)

lemma nth_bytes [simp]: "i < n \<Longrightarrow> bytes m a n ! i = m (a + of_nat i)"
  by (simp add: bytes_def)

lemma bytes_0 [simp]: "bytes m a 0 = []"
  by (simp add: bytes_def)

lemma bytes_Suc: "bytes m a (Suc n) = m a # bytes m (a + 1) n"
  by (rule nth_equalityI) (auto simp: nth_Cons add_ac split: nat.splits)

lemma bytes_add: "bytes m a (n + k) = bytes m a n @ bytes m (a + of_nat n) k"
  by (induction n arbitrary: a) (auto simp: bytes_Suc add_ac)

lemma take_bytes: "take k (bytes m a n) = bytes m a (min k n)"
  by (rule nth_equalityI) auto

lemma drop_bytes: "drop k (bytes m a n) = bytes m (a + of_nat k) (n - k)"
  by (rule nth_equalityI) (auto simp: add_ac)

lemma bytes_cong: "(\<And>i. i < n \<Longrightarrow> m (a + of_nat i) = m' (a' + of_nat i)) \<Longrightarrow> bytes m a n = bytes m' a' n"
  by (rule nth_equalityI) auto

lemma write_bytes_append: "write_bytes m a (xs @ ys) = write_bytes (write_bytes m a xs) (a + of_nat (length xs)) ys"
  by (induction xs arbitrary: m a) (auto simp: add_ac)

text \<open>The value of each address after a write, for a write that does not wrap onto itself.\<close>

lemma write_bytes_apply:
  "length bs \<le> 4294967296 \<Longrightarrow>
   write_bytes m a bs x = (if in_region a (length bs) x then bs ! unat (x - a) else m x)"
proof (induction bs arbitrary: m a)
  case Nil
  then show ?case by (simp add: in_region_def)
next
  case (Cons b bs)
  have IH: "write_bytes (m(a := b)) (a + 1) bs x =
      (if in_region (a + 1) (length bs) x then bs ! unat (x - (a + 1)) else (m(a := b)) x)"
    using Cons by simp
  show ?case
  proof (cases "x = a")
    case True
    have "unat (- 1 :: u32) = 4294967295" by (simp add: unsigned_minus_1_eq_mask mask_eq_exp_minus_1)
    with IH True Cons.prems show ?thesis by (simp add: in_region_def)
  next
    case False
    then have "unat (x - a) = Suc (unat (x - (a + 1)))"
      by unat_arith
    with IH False show ?thesis by (simp add: in_region_def)
  qed
qed

lemma write_bytes_in:
  "length bs \<le> 4294967296 \<Longrightarrow> i < length bs \<Longrightarrow> write_bytes m a bs (a + of_nat i) = bs ! i"
  by (simp add: write_bytes_apply region_simps unat_of_nat32)

lemma write_bytes_out:
  "\<not> in_region a (length bs) x \<Longrightarrow> write_bytes m a bs x = m x"
proof (induction bs arbitrary: m a)
  case (Cons b bs)
  have "x \<noteq> a" using Cons.prems by (auto simp: in_region_def)
  moreover have "\<not> in_region (a + 1) (length bs) x"
  proof
    assume "in_region (a + 1) (length bs) x"
    then have "unat (x - (a + 1)) < length bs" by (simp add: in_region_def)
    moreover have "unat (x - a) \<le> Suc (unat (x - (a + 1)))" by unat_arith
    ultimately show False using Cons.prems by (simp add: in_region_def)
  qed
  ultimately show ?case using Cons.IH by simp
qed simp

lemma bytes_write_same:
  "length bs \<le> 4294967296 \<Longrightarrow> bytes (write_bytes m a bs) a (length bs) = bs"
  by (rule nth_equalityI) (auto simp: write_bytes_in)

lemma bytes_write_disjoint:
  "disjoint_regions b n a (length bs) \<Longrightarrow> bytes (write_bytes m a bs) b n = bytes m b n"
  by (rule bytes_cong) (simp add: write_bytes_out disjoint_regions_def)

lemma write_bytes_snoc: "write_bytes m a (xs @ [y]) = (write_bytes m a xs)(a + of_nat (length xs) := y)"
  by (simp add: write_bytes_append)

lemma write_bytes_upd_out:
  "\<not> in_region a (length bs) x \<Longrightarrow> write_bytes (m(x := v)) a bs = (write_bytes m a bs)(x := v)"
proof (induction bs arbitrary: m a)
  case (Cons b bs)
  from Cons.prems have "x \<noteq> a" and "\<not> in_region (a + 1) (length bs) x"
    unfolding in_region_def by (auto, unat_arith)
  then show ?case using Cons.IH by (simp add: fun_upd_twist del: fun_upd_apply)
qed simp

text \<open>Two states that agree on every address of the written region and outside it are equal.\<close>

lemma write_bytes_eqI:
  assumes "length bs \<le> 4294967296"
    and "\<And>i. i < length bs \<Longrightarrow> m' (a + of_nat i) = bs ! i"
    and "\<And>x. \<not> in_region a (length bs) x \<Longrightarrow> m' x = m x"
  shows "m' = write_bytes m a bs"
proof
  fix x
  show "m' x = write_bytes m a bs x"
  proof (cases "in_region a (length bs) x")
    case True
    then obtain i where "i < length bs" "x = a + of_nat i" using in_region_ex by blast
    with assms show ?thesis by (simp add: write_bytes_in)
  next
    case False
    with assms show ?thesis by (simp add: write_bytes_out)
  qed
qed

section \<open>Little-endian 32-bit accesses\<close>

definition load32 :: "mem \<Rightarrow> u32 \<Rightarrow> u32" where
  "load32 m a = ucast (m a) OR push_bit 8 (ucast (m (a + 1)))
     OR push_bit 16 (ucast (m (a + 2))) OR push_bit 24 (ucast (m (a + 3)))"

definition store32 :: "mem \<Rightarrow> u32 \<Rightarrow> u32 \<Rightarrow> mem" where
  "store32 m a v = m(a := ucast v, a + 1 := ucast (drop_bit 8 v),
     a + 2 := ucast (drop_bit 16 v), a + 3 := ucast (drop_bit 24 v))"

lemma load_store32: "load32 (store32 m a v) a = v"
proof -
  have "a \<noteq> a + 1" "a \<noteq> a + 2" "a \<noteq> a + 3" "a + 1 \<noteq> a + 2" "a + 1 \<noteq> a + 3" "a + 2 \<noteq> a + 3"
    by simp_all
  then have "load32 (store32 m a v) a = ucast (ucast v :: u8) OR push_bit 8 (ucast (ucast (drop_bit 8 v) :: u8))
      OR push_bit 16 (ucast (ucast (drop_bit 16 v) :: u8)) OR push_bit 24 (ucast (ucast (drop_bit 24 v) :: u8))"
    by (simp add: load32_def store32_def)
  also have "\<dots> = v"
  proof (rule bit_word_eqI)
    fix n assume "n < LENGTH(32)"
    then consider "n < 8" | "8 \<le> n" "n < 16" | "16 \<le> n" "n < 24" | "24 \<le> n" "n < 32" by force
    then show "bit (ucast (ucast v :: u8) OR push_bit 8 (ucast (ucast (drop_bit 8 v) :: u8))
      OR push_bit 16 (ucast (ucast (drop_bit 16 v) :: u8))
      OR push_bit 24 (ucast (ucast (drop_bit 24 v) :: u8)) :: u32) n = bit v n"
      by cases (auto simp: bit_simps)
  qed
  finally show ?thesis .
qed

lemma load32_cong:
  "(\<And>i. i < 4 \<Longrightarrow> m' (a + of_nat i) = m (a + of_nat i)) \<Longrightarrow> load32 m' a = load32 m a"
proof -
  assume eq: "\<And>i. i < 4 \<Longrightarrow> m' (a + of_nat i) = m (a + of_nat i)"
  from eq [of 0] eq [of 1] eq [of 2] eq [of 3] show ?thesis
    by (simp add: load32_def)
qed

lemma load32_write_disjoint:
  "disjoint_regions b 4 a (length bs) \<Longrightarrow> load32 (write_bytes m a bs) b = load32 m b"
  by (rule load32_cong) (simp add: write_bytes_out disjoint_regions_def)

end
