(* ===== verification/MemOps.thy ===== *)
theory MemOps
  imports Bytes
begin

text \<open>
  The block operations of student-distrib/lib.c: \<open>memset\<close>, \<open>memset_word\<close>, \<open>memset_dword\<close>,
  \<open>memcpy\<close> and \<open>memmove\<close>. Each is inline assembly; the definitions follow its labels,
  registers and \<open>rep\<close> instructions, so the aligned 32-bit fast path of \<open>memset\<close> and
  \<open>memcpy\<close> and the direction flag of \<open>memmove\<close> are in the model. The lemmas show that
  each is the plain byte-list write it is meant to be.
\<close>

section \<open>String instructions with a \<open>rep\<close> prefix\<close>

fun rep_stosl :: "mem \<Rightarrow> u32 \<Rightarrow> u32 \<Rightarrow> nat \<Rightarrow> mem" where
  "rep_stosl m eax edi 0 = m"
| "rep_stosl m eax edi (Suc n) = rep_stosl (store32 m edi eax) eax (edi + 4) n"

fun rep_stosw :: "mem \<Rightarrow> u32 \<Rightarrow> u32 \<Rightarrow> nat \<Rightarrow> mem" where
  "rep_stosw m eax edi 0 = m"
| "rep_stosw m eax edi (Suc n) =
     rep_stosw (m(edi := ucast eax, edi + 1 := ucast (drop_bit 8 eax))) eax (edi + 2) n"

fun rep_movsl :: "mem \<Rightarrow> u32 \<Rightarrow> u32 \<Rightarrow> nat \<Rightarrow> mem" where
  "rep_movsl m edi esi 0 = m"
| "rep_movsl m edi esi (Suc n) = rep_movsl (store32 m edi (load32 m esi)) (edi + 4) (esi + 4) n"

fun rep_movsb :: "bool \<Rightarrow> mem \<Rightarrow> u32 \<Rightarrow> u32 \<Rightarrow> nat \<Rightarrow> mem" where
  "rep_movsb df m edi esi 0 = m"
| "rep_movsb df m edi esi (Suc n) =
     (if df then rep_movsb df (m(edi := m esi)) (edi - 1) (esi - 1) n
      else rep_movsb df (m(edi := m esi)) (edi + 1) (esi + 1) n)"

section \<open>memset\<close>

text \<open>
  The labels of the assembly: \<open>.memset_top\<close> stores single bytes until \<open>edi\<close> is 4-aligned,
  \<open>.memset_aligned\<close> runs \<open>rep stosl\<close>, \<open>.memset_bottom\<close> stores the last one to three bytes.
\<close>

fun memset_bottom :: "mem \<Rightarrow> u32 \<Rightarrow> u32 \<Rightarrow> nat \<Rightarrow> mem" where
  "memset_bottom m eax edi 0 = m"
| "memset_bottom m eax edi (Suc edx) = memset_bottom (m(edi := ucast eax)) eax (edi + 1) edx"

definition memset_aligned :: "mem \<Rightarrow> u32 \<Rightarrow> u32 \<Rightarrow> u32 \<Rightarrow> mem" where
  "memset_aligned m eax edi ecx =
     (let edx = ecx AND 3; ecx = drop_bit 2 ecx
      in memset_bottom (rep_stosl m eax edi (unat ecx)) eax (edi + 4 * ecx) (unat edx))"

function memset_top :: "mem \<Rightarrow> u32 \<Rightarrow> u32 \<Rightarrow> u32 \<Rightarrow> mem" where
  "memset_top m eax edi ecx =
     (if ecx = 0 then m
      else if edi AND 3 = 0 then memset_aligned m eax edi ecx
      else memset_top (m(edi := ucast eax)) eax (edi + 1) (ecx - 1))"
  by pat_completeness auto
termination
  by (relation "measure (\<lambda>(m, eax, edi, ecx). unat ecx)") (auto, unat_arith)

declare memset_top.simps [simp del]

definition memset :: "mem \<Rightarrow> u32 \<Rightarrow> u32 \<Rightarrow> u32 \<Rightarrow> mem" where
  "memset m s c n =
     (let c = c AND 0xFF
      in memset_top m (push_bit 24 c OR push_bit 16 c OR push_bit 8 c OR c) s n)"

definition memset_word :: "mem \<Rightarrow> u32 \<Rightarrow> u32 \<Rightarrow> u32 \<Rightarrow> mem" where
  "memset_word m s c n = rep_stosw m c s (unat n)"

definition memset_dword :: "mem \<Rightarrow> u32 \<Rightarrow> u32 \<Rightarrow> u32 \<Rightarrow> mem" where
  "memset_dword m s c n = rep_stosl m c s (unat n)"

section \<open>memcpy and memmove\<close>

fun memcpy_bottom :: "mem \<Rightarrow> u32 \<Rightarrow> u32 \<Rightarrow> nat \<Rightarrow> mem" where
  "memcpy_bottom m edi esi 0 = m"
| "memcpy_bottom m edi esi (Suc edx) = memcpy_bottom (m(edi := m esi)) (edi + 1) (esi + 1) edx"

definition memcpy_aligned :: "mem \<Rightarrow> u32 \<Rightarrow> u32 \<Rightarrow> u32 \<Rightarrow> mem" where
  "memcpy_aligned m edi esi ecx =
     (let edx = ecx AND 3; ecx = drop_bit 2 ecx
      in memcpy_bottom (rep_movsl m edi esi (unat ecx)) (edi + 4 * ecx) (esi + 4 * ecx) (unat edx))"

function memcpy_top :: "mem \<Rightarrow> u32 \<Rightarrow> u32 \<Rightarrow> u32 \<Rightarrow> mem" where
  "memcpy_top m edi esi ecx =
     (if ecx = 0 then m
      else if edi AND 3 = 0 then memcpy_aligned m edi esi ecx
      else memcpy_top (m(edi := m esi)) (edi + 1) (esi + 1) (ecx - 1))"
  by pat_completeness auto
termination
  by (relation "measure (\<lambda>(m, edi, esi, ecx). unat ecx)") (auto, unat_arith)

declare memcpy_top.simps [simp del]

definition memcpy :: "mem \<Rightarrow> u32 \<Rightarrow> u32 \<Rightarrow> u32 \<Rightarrow> mem" where
  "memcpy m dest src n = memcpy_top m dest src n"

text \<open>
  \<open>memmove\<close> compares the pointers unsigned and copies upwards or, after \<open>std\<close>, downwards
  from the last byte. The result also holds the direction flag the call returns with.
\<close>

definition memmove :: "mem \<Rightarrow> u32 \<Rightarrow> u32 \<Rightarrow> u32 \<Rightarrow> mem \<times> bool" where
  "memmove m dest src n =
     (if dest \<le> src then (rep_movsb False m dest src (unat n), False)
      else (rep_movsb True m (dest + n - 1) (src + n - 1) (unat n), True))"

section \<open>memset fills a region\<close>

lemma unat_split4: "unat (n :: u32) = 4 * unat (drop_bit 2 n) + unat (n AND 3)"
proof -
  have "unat (drop_bit 2 n) = unat n div 4"
    by (simp add: unat_drop_bit_eq drop_bit_eq_div unat_div)
  moreover have "n AND 3 = take_bit 2 n"
    by (simp add: take_bit_eq_mask mask_eq_exp_minus_1)
  then have "unat (n AND 3) = unat n mod 4"
    by (simp only: unsigned_take_bit_eq) (simp add: take_bit_eq_mod)
  ultimately show ?thesis by simp
qed

lemma store32_write: "store32 m a v =
    write_bytes m a [ucast v, ucast (drop_bit 8 v), ucast (drop_bit 16 v), ucast (drop_bit 24 v)]"
  by (simp add: store32_def add_ac)

lemma of_nat_4_drop: "(of_nat (4 * unat (drop_bit 2 n)) :: u32) = 4 * drop_bit 2 n"
  by simp

definition same_bytes :: "u32 \<Rightarrow> u8 \<Rightarrow> bool" where
  "same_bytes eax b \<longleftrightarrow> ucast eax = b \<and> ucast (drop_bit 8 eax) = b
     \<and> ucast (drop_bit 16 eax) = b \<and> ucast (drop_bit 24 eax) = b"

lemma rep_stosl_same:
  "same_bytes eax b \<Longrightarrow> rep_stosl m eax edi n = write_bytes m edi (replicate (4 * n) b)"
proof (induction n arbitrary: m edi)
  case (Suc n)
  have "replicate (4 * Suc n) b = [b, b, b, b] @ replicate (4 * n) b"
    by (simp add: numeral_eq_Suc)
  with Suc show ?case
    by (simp only: write_bytes_append rep_stosl.simps)
      (simp add: store32_write same_bytes_def del: fun_upd_apply)
qed simp

lemma memset_bottom_same:
  "memset_bottom m eax edi n = write_bytes m edi (replicate n (ucast eax))"
  by (induction n arbitrary: m edi) auto

lemma memset_aligned_same:
  assumes "same_bytes eax b"
  shows "memset_aligned m eax edi ecx = write_bytes m edi (replicate (unat ecx) b)"
proof -
  have "ucast eax = b" using assms by (simp add: same_bytes_def)
  then show ?thesis
    by (subst unat_split4 [of ecx])
      (simp add: memset_aligned_def Let_def rep_stosl_same [OF assms] memset_bottom_same
        replicate_add write_bytes_append of_nat_4_drop)
qed

lemma memset_top_same:
  "same_bytes eax b \<Longrightarrow> memset_top m eax edi ecx = write_bytes m edi (replicate (unat ecx) b)"
proof (induction m eax edi ecx rule: memset_top.induct)
  case (1 m eax edi ecx)
  show ?case
  proof (cases "ecx = 0 \<or> edi AND 3 = 0")
    case True
    then show ?thesis
      using memset_aligned_same [OF 1(2)] by (subst memset_top.simps) auto
  next
    case False
    then have "unat ecx = Suc (unat (ecx - 1))" by unat_arith
    with False 1 show ?thesis
      by (subst memset_top.simps) (simp add: same_bytes_def del: fun_upd_apply)
  qed
qed

lemma memset_eax: "same_bytes (let c = c AND 0xFF in push_bit 24 c OR push_bit 16 c OR push_bit 8 c OR c) (ucast c)"
proof -
  have "c AND 0xFF = take_bit 8 c"
    by (simp add: take_bit_eq_mask mask_eq_exp_minus_1)
  then show ?thesis
    unfolding same_bytes_def Let_def
    by (intro conjI bit_word_eqI) (auto simp: bit_simps dest: bit_imp_le_length)
qed

lemma memset_write: "memset m s c n = write_bytes m s (replicate (unat n) (ucast c))"
  using memset_top_same [OF memset_eax [of c]] by (simp add: memset_def Let_def)

section \<open>memcpy copies a region\<close>

lemma store32_load32: "store32 m a (load32 m' b) = write_bytes m a (bytes m' b 4)"
proof -
  have high: "\<not> bit w (k + n)" if "8 \<le> k" for w :: u8 and k n
    using that by (auto dest: bit_imp_le_length)
  have "ucast (load32 m' b) = m' b" "ucast (drop_bit 8 (load32 m' b)) = m' (b + 1)"
    "ucast (drop_bit 16 (load32 m' b)) = m' (b + 2)" "ucast (drop_bit 24 (load32 m' b)) = m' (b + 3)"
    unfolding load32_def
    by (auto intro!: bit_word_eqI simp: bit_simps high)
  then show ?thesis
    by (simp add: store32_write numeral_eq_Suc bytes_Suc add_ac)
qed

lemma disjoint_regions_shift:
  "disjoint_regions a n b k \<Longrightarrow> i + n' \<le> n \<Longrightarrow> j + k' \<le> k \<Longrightarrow>
   disjoint_regions (a + of_nat i) n' (b + of_nat j) k'"
  unfolding disjoint_regions_def
proof (intro allI impI notI)
  fix x
  assume dis: "\<forall>i < n. \<not> in_region b k (a + of_nat i)" and i: "i + n' \<le> n" and j: "j + k' \<le> k"
    and x: "x < n'" and inb: "in_region (b + of_nat j) k' (a + of_nat i + of_nat x)"
  obtain y where y: "y < k'" "a + of_nat i + of_nat x = b + of_nat j + of_nat y"
    using in_region_ex [OF inb] by blast
  then have "a + of_nat (i + x) = b + of_nat (j + y)"
    by (simp add: add_ac)
  moreover have "i + x < n" "j + y < k" using i j x y(1) by simp_all
  ultimately show False using dis by (metis in_region_offset')
qed

lemma rep_movsl_copy:
  "disjoint_regions edi (4 * n) esi (4 * n) \<Longrightarrow>
   rep_movsl m edi esi n = write_bytes m edi (bytes m esi (4 * n))"
proof (induction n arbitrary: m edi esi)
  case (Suc n)
  let ?m = "write_bytes m edi (bytes m esi 4)"
  have d: "disjoint_regions (edi + 4) (4 * n) (esi + 4) (4 * n)"
    using disjoint_regions_shift [OF Suc.prems, of 4 "4 * n" 4 "4 * n"] by simp
  have "disjoint_regions (esi + 4) (4 * n) edi 4"
    using disjoint_regions_sym [OF disjoint_regions_shift [OF Suc.prems, of 0 4 4 "4 * n"]] by simp
  then have "bytes ?m (esi + 4) (4 * n) = bytes m (esi + 4) (4 * n)"
    by (simp add: bytes_write_disjoint)
  moreover have "bytes m esi (4 * Suc n) = bytes m esi 4 @ bytes m (esi + 4) (4 * n)"
    using bytes_add [of m esi 4 "4 * n"] by simp
  ultimately show ?case
    using Suc.IH [OF d, of ?m] by (simp add: store32_load32 write_bytes_append)
qed simp

lemma memcpy_step:
  assumes "disjoint_regions edi (Suc n) esi (Suc n)"
  shows "disjoint_regions (edi + 1) n (esi + 1) n"
    and "bytes (m(edi := m esi)) (esi + 1) n = bytes m (esi + 1) n"
proof -
  show "disjoint_regions (edi + 1) n (esi + 1) n"
    using disjoint_regions_shift [OF assms, of 1 n 1 n] by simp
  have "disjoint_regions (esi + 1) n edi 1"
    using disjoint_regions_sym [OF disjoint_regions_shift [OF assms, of 0 1 1 n]] by simp
  then show "bytes (m(edi := m esi)) (esi + 1) n = bytes m (esi + 1) n"
    using bytes_write_disjoint [of "esi + 1" n edi "[m esi]" m] by simp
qed

lemma memcpy_bottom_copy:
  "disjoint_regions edi n esi n \<Longrightarrow> memcpy_bottom m edi esi n = write_bytes m edi (bytes m esi n)"
proof (induction n arbitrary: m edi esi)
  case (Suc n)
  then show ?case by (simp add: bytes_Suc memcpy_step del: fun_upd_apply)
qed simp

lemma memcpy_aligned_copy:
  assumes "disjoint_regions edi (unat ecx) esi (unat ecx)"
  shows "memcpy_aligned m edi esi ecx = write_bytes m edi (bytes m esi (unat ecx))"
proof -
  let ?k = "4 * unat (drop_bit 2 ecx)" and ?r = "unat (ecx AND 3)"
  let ?m = "write_bytes m edi (bytes m esi ?k)"
  have n: "unat ecx = ?k + ?r" by (rule unat_split4)
  have d1: "disjoint_regions edi ?k esi ?k"
    using disjoint_regions_mono [OF assms] n by simp
  have d2: "disjoint_regions (edi + of_nat ?k) ?r (esi + of_nat ?k) ?r"
    using disjoint_regions_shift [OF assms, of ?k ?r ?k ?r] n by simp
  have "disjoint_regions (esi + of_nat ?k) ?r edi ?k"
    using disjoint_regions_sym [OF disjoint_regions_shift [OF assms, of 0 ?k ?k ?r]] n by simp
  then have "bytes ?m (esi + of_nat ?k) ?r = bytes m (esi + of_nat ?k) ?r"
    by (simp add: bytes_write_disjoint)
  moreover have "memcpy_aligned m edi esi ecx
      = write_bytes ?m (edi + of_nat ?k) (bytes ?m (esi + of_nat ?k) ?r)"
    unfolding memcpy_aligned_def Let_def rep_movsl_copy [OF d1] of_nat_4_drop [symmetric]
    by (rule memcpy_bottom_copy [OF d2])
  ultimately show ?thesis
    by (simp add: n bytes_add write_bytes_append)
qed

lemma memcpy_top_copy:
  "disjoint_regions edi (unat ecx) esi (unat ecx) \<Longrightarrow>
   memcpy_top m edi esi ecx = write_bytes m edi (bytes m esi (unat ecx))"
proof (induction m edi esi ecx rule: memcpy_top.induct)
  case (1 m edi esi ecx)
  show ?case
  proof (cases "ecx = 0 \<or> edi AND 3 = 0")
    case True
    then show ?thesis
      using memcpy_aligned_copy [OF "1.prems"] by (subst memcpy_top.simps) auto
  next
    case False
    then have n: "unat ecx = Suc (unat (ecx - 1))" by unat_arith
    with False 1 show ?thesis
      by (subst memcpy_top.simps) (simp add: bytes_Suc memcpy_step del: fun_upd_apply)
  qed
qed

lemma memcpy_write:
  "disjoint_regions dest (unat n) src (unat n) \<Longrightarrow>
   memcpy m dest src n = write_bytes m dest (bytes m src (unat n))"
  by (simp add: memcpy_def memcpy_top_copy)

section \<open>memmove copies overlapping regions\<close>

lemma add_of_nat_less_iff:
  assumes "unat (a :: u32) + n \<le> 4294967296" "i < n"
  shows "unat (a + of_nat i) = unat a + i"
  using assms unat_lt_2p32 [of a]
  by (simp add: unat_word_ariths unat_of_nat take_bit_eq_mod)

lemma rep_movsb_up:
  "dest \<le> src \<Longrightarrow> unat src + n \<le> 4294967296 \<Longrightarrow>
   rep_movsb False m dest src n = write_bytes m dest (bytes m src n)"
proof (induction n arbitrary: m dest src)
  case (Suc n)
  show ?case
  proof (cases "n = 0")
    case True
    then show ?thesis by (simp add: bytes_Suc del: fun_upd_apply)
  next
    case False
    with Suc.prems have src1: "unat (src + 1) = unat src + 1"
      using add_of_nat_less_iff [of src "Suc n" 1] by simp
    with Suc.prems(1) have le: "dest + 1 \<le> src + 1"
      by (simp add: word_le_nat_alt unat_word_ariths)
    have "src + 1 + of_nat i \<noteq> dest" if "i < n" for i
      using add_of_nat_less_iff [of "src + 1" n i] src1 Suc.prems that by (auto simp: word_le_nat_alt)
    then have "bytes (m(dest := m src)) (src + 1) n = bytes m (src + 1) n"
      by (intro bytes_cong) auto
    moreover have "rep_movsb False (m(dest := m src)) (dest + 1) (src + 1) n
        = write_bytes (m(dest := m src)) (dest + 1) (bytes (m(dest := m src)) (src + 1) n)"
      using le src1 Suc.prems by (intro Suc.IH) auto
    ultimately show ?thesis by (simp add: bytes_Suc del: fun_upd_apply)
  qed
qed simp

lemma rep_movsb_down:
  "src < dest \<Longrightarrow> unat dest + n \<le> 4294967296 \<Longrightarrow>
   rep_movsb True m (dest + of_nat n - 1) (src + of_nat n - 1) n = write_bytes m dest (bytes m src n)"
proof (induction n arbitrary: m)
  case (Suc n)
  let ?m = "m(dest + of_nat n := m (src + of_nat n))"
  have ne: "src + of_nat i \<noteq> dest + of_nat n" if "i < n" for i
  proof -
    have "unat (dest + of_nat n) = unat dest + n"
      using add_of_nat_less_iff [of dest "Suc n" n] Suc.prems by simp
    moreover have "unat (src + of_nat i) = unat src + i"
      using add_of_nat_less_iff [of src "Suc n" i] Suc.prems that by (simp add: word_less_nat_alt)
    ultimately show ?thesis using Suc.prems that by (auto simp: word_less_nat_alt)
  qed
  then have same: "bytes ?m src n = bytes m src n"
    by (intro bytes_cong) auto
  have out: "\<not> in_region dest n (dest + of_nat n)"
    using Suc.prems unat_lt_2p32 [of src] by (simp add: in_region_def unat_of_nat32 word_less_nat_alt)
  have "rep_movsb True m (dest + of_nat (Suc n) - 1) (src + of_nat (Suc n) - 1) (Suc n)
      = rep_movsb True ?m (dest + of_nat n - 1) (src + of_nat n - 1) n"
    by (simp del: fun_upd_apply)
  also have "\<dots> = write_bytes ?m dest (bytes m src n)"
    using Suc.IH [of ?m] Suc.prems same by (simp del: fun_upd_apply)
  also have "\<dots> = write_bytes m dest (bytes m src n @ [m (src + of_nat n)])"
    using out by (simp add: write_bytes_snoc write_bytes_upd_out)
  finally show ?case using bytes_add [of m src n 1] by (simp add: bytes_Suc)
qed simp

lemma memmove_write:
  assumes "unat dest + unat n \<le> 4294967296" "unat src + unat n \<le> 4294967296"
  shows "fst (memmove m dest src n) = write_bytes m dest (bytes m src (unat n))"
  using assms rep_movsb_up [of dest src "unat n" m] rep_movsb_down [of src dest "unat n" m]
  by (simp add: memmove_def)

lemma memmove_direction_flag: "snd (memmove m dest src n) \<longleftrightarrow> src < dest"
  by (auto simp: memmove_def)

section \<open>Properties\<close>

text \<open>
  \<open>memset\<close> with its aligned 32-bit fast path stores the low byte of \<open>c\<close> in each of the
  \<open>n\<close> bytes at \<open>s\<close> and touches no other byte, for every alignment and length.
\<close>

theorem memset_fills: "memset m s c n = write_bytes m s (replicate (unat n) (ucast c))"
  by (rule memset_write)

text \<open>
  C29: \<open>memcpy\<close> with its aligned 32-bit fast path copies the \<open>n\<close> bytes at \<open>src\<close> to \<open>dest\<close>
  and touches no other byte, when the two regions do not overlap.
\<close>

theorem memcpy_copies:
  assumes "disjoint_regions dest (unat n) src (unat n)"
  shows "memcpy m dest src n = write_bytes m dest (bytes m src (unat n))"
  using assms by (rule memcpy_write)

theorem memcpy_copies_witness:
  "memcpy (\<lambda>a. ucast a) 0x1001 0x2003 7
     = write_bytes (\<lambda>a. ucast a) 0x1001 (bytes (\<lambda>a. ucast a) 0x2003 7)"
  using memcpy_copies [of "0x1001" 7 "0x2003" "\<lambda>a. ucast a"]
  by (simp add: disjoint_regions_sep)

text \<open>
  C28: \<open>memmove\<close> copies the region correctly even when source and destination overlap, as long
  as neither region wraps around the top of memory; it returns with the direction flag set
  exactly when the destination lies above the source.
\<close>

theorem memmove_copies:
  assumes "unat dest + unat n \<le> 4294967296" "unat src + unat n \<le> 4294967296"
  shows "memmove m dest src n = (write_bytes m dest (bytes m src (unat n)), src < dest)"
  using memmove_write [OF assms, of m] memmove_direction_flag [of m dest src n]
  by (simp add: prod_eq_iff)

theorem memmove_copies_witness:
  "memmove (\<lambda>a. ucast a) 0x1002 0x1000 8
     = (write_bytes (\<lambda>a. ucast a) 0x1002 (bytes (\<lambda>a. ucast a) 0x1000 8), True)"
  using memmove_copies [of "0x1002" 8 "0x1000" "\<lambda>a. ucast a"] by simp

end
