(* ===== verification/CString.thy ===== *)
theory CString
  imports MemOps
begin

text \<open>
  The string functions of student-distrib/lib.c (\<open>strlen\<close>, \<open>strrev\<close>, \<open>itoa\<close>, \<open>strncmp\<close>,
  \<open>strcpy\<close>, \<open>strncpy\<close>) on byte memory. A loop that the source does not bound is a
  \<open>partial_function\<close>: \<open>None\<close> means that the call does not return. The lemmas relate each
  function to NUL-terminated byte lists (\<open>cstr\<close>), under the disjointness the copies need.
\<close>

section \<open>The functions\<close>

partial_function (option) strlen_from :: "mem \<Rightarrow> u32 \<Rightarrow> u32 \<Rightarrow> u32 option" where
  "strlen_from m s len = (if m (s + len) \<noteq> 0 then strlen_from m s (len + 1) else Some len)"

definition strlen :: "mem \<Rightarrow> u32 \<Rightarrow> u32 option" where
  "strlen m s = strlen_from m s 0"

text \<open>\<open>beg\<close> and \<open>end\<close> (\<open>fin\<close> below) are \<open>int32_t\<close>; the empty string starts with \<open>end = -1\<close>.\<close>

function strrev_loop :: "mem \<Rightarrow> u32 \<Rightarrow> i32 \<Rightarrow> i32 \<Rightarrow> mem" where
  "strrev_loop m s beg fin =
     (if beg < fin then
        let tmp = m (s + of_int fin);
            m = m(s + of_int fin := m (s + of_int beg));
            m = m(s + of_int beg := tmp)
        in strrev_loop m s (beg + 1) (fin - 1)
      else m)"
  by pat_completeness auto
termination
  by (relation "measure (\<lambda>(m, s, beg, fin). nat (fin - beg))") auto

declare strrev_loop.simps [simp del]

definition strrev :: "mem \<Rightarrow> u32 \<Rightarrow> mem option" where
  "strrev m s = (case strlen m s of None \<Rightarrow> None
     | Some len \<Rightarrow> Some (strrev_loop m s 0 (sint (len - 1))))"

text \<open>
  The digit table of \<open>itoa\<close> is a 36-character string literal with its NUL. Reading past it, a
  radix of 0 (the divide fault loops in its handler) and a radix of 1 (\<open>newval\<close> never
  shrinks) have no result.
\<close>

definition itoa_lookup :: "u32 \<Rightarrow> u8 option" where
  "itoa_lookup i =
     (if i < 10 then Some (48 + ucast i)
      else if i < 36 then Some (55 + ucast i)
      else if i = 36 then Some 0
      else None)"

partial_function (option) itoa_digits :: "mem \<Rightarrow> u32 \<Rightarrow> u32 \<Rightarrow> u32 \<Rightarrow> (mem \<times> u32) option" where
  "itoa_digits m newval newbuf radix =
     (if newval > 0 then
        if radix = 0 then None
        else case itoa_lookup (newval mod radix) of None \<Rightarrow> None
          | Some d \<Rightarrow> itoa_digits (m(newbuf := d)) (newval div radix) (newbuf + 1) radix
      else Some (m, newbuf))"

definition itoa :: "mem \<Rightarrow> u32 \<Rightarrow> u32 \<Rightarrow> u32 \<Rightarrow> mem option" where
  "itoa m v buf radix =
     (if v = 0 then Some (m(buf := 48, buf + 1 := 0))
      else case itoa_digits m v buf radix of None \<Rightarrow> None
        | Some (m, newbuf) \<Rightarrow> strrev (m(newbuf := 0)) buf)"

text \<open>
  \<open>strncmp\<close> compares plain \<open>char\<close>s, which are signed on this target. The index is an
  \<open>int32_t\<close> compared with an unsigned bound, so the comparison is unsigned.
\<close>

function strncmp_from :: "mem \<Rightarrow> u32 \<Rightarrow> u32 \<Rightarrow> u32 \<Rightarrow> u32 \<Rightarrow> i32" where
  "strncmp_from m s1 s2 n i =
     (if i < n then
        if m (s1 + i) \<noteq> m (s2 + i) \<or> m (s1 + i) = 0 then sint (m (s1 + i)) - sint (m (s2 + i))
        else strncmp_from m s1 s2 n (i + 1)
      else 0)"
  by pat_completeness auto
termination
  by (relation "measure (\<lambda>(m, s1, s2, n, i). unat n - unat i)") (auto, unat_arith)

declare strncmp_from.simps [simp del]

definition strncmp :: "mem \<Rightarrow> u32 \<Rightarrow> u32 \<Rightarrow> u32 \<Rightarrow> i32" where
  "strncmp m s1 s2 n = strncmp_from m s1 s2 n 0"

partial_function (option) strcpy_from :: "mem \<Rightarrow> u32 \<Rightarrow> u32 \<Rightarrow> u32 \<Rightarrow> mem option" where
  "strcpy_from m dest src i =
     (if m (src + i) \<noteq> 0 then strcpy_from (m(dest + i := m (src + i))) dest src (i + 1)
      else Some (m(dest + i := 0)))"

definition strcpy :: "mem \<Rightarrow> u32 \<Rightarrow> u32 \<Rightarrow> mem option" where
  "strcpy m dest src = strcpy_from m dest src 0"

function strncpy_copy :: "mem \<Rightarrow> u32 \<Rightarrow> u32 \<Rightarrow> u32 \<Rightarrow> u32 \<Rightarrow> mem \<times> u32" where
  "strncpy_copy m dest src n i =
     (if m (src + i) \<noteq> 0 \<and> i < n
      then strncpy_copy (m(dest + i := m (src + i))) dest src n (i + 1)
      else (m, i))"
  by pat_completeness auto
termination
  by (relation "measure (\<lambda>(m, dest, src, n, i). unat n - unat i)") (auto, unat_arith)

function strncpy_pad :: "mem \<Rightarrow> u32 \<Rightarrow> u32 \<Rightarrow> u32 \<Rightarrow> mem" where
  "strncpy_pad m dest n i =
     (if i < n then strncpy_pad (m(dest + i := 0)) dest n (i + 1) else m)"
  by pat_completeness auto
termination
  by (relation "measure (\<lambda>(m, dest, n, i). unat n - unat i)") (auto, unat_arith)

declare strncpy_copy.simps [simp del] strncpy_pad.simps [simp del]

definition strncpy :: "mem \<Rightarrow> u32 \<Rightarrow> u32 \<Rightarrow> u32 \<Rightarrow> mem" where
  "strncpy m dest src n = (case strncpy_copy m dest src n 0 of (m, i) \<Rightarrow> strncpy_pad m dest n i)"

section \<open>NUL-terminated strings\<close>

definition cstr :: "mem \<Rightarrow> u32 \<Rightarrow> u8 list \<Rightarrow> bool" where
  "cstr m s str \<longleftrightarrow> length str < 4294967296 \<and> 0 \<notin> set str \<and> bytes m s (Suc (length str)) = str @ [0]"

text \<open>The string in the first \<open>n\<close> bytes at \<open>s\<close>, up to a NUL if there is one.\<close>

definition strn :: "mem \<Rightarrow> u32 \<Rightarrow> nat \<Rightarrow> u8 list" where
  "strn m s n = takeWhile (\<lambda>b. b \<noteq> 0) (bytes m s n)"

lemma cstrD:
  assumes "cstr m s str"
  shows cstr_length: "length str < 4294967296"
    and cstr_nth: "i < length str \<Longrightarrow> m (s + of_nat i) = str ! i"
    and cstr_nth_nonzero: "i < length str \<Longrightarrow> str ! i \<noteq> 0"
    and cstr_end: "m (s + of_nat (length str)) = 0"
proof -
  have eq: "bytes m s (Suc (length str)) = str @ [0]" and z: "0 \<notin> set str"
    and l: "length str < 4294967296"
    using assms by (auto simp: cstr_def)
  show "length str < 4294967296" by (rule l)
  show "i < length str \<Longrightarrow> m (s + of_nat i) = str ! i"
    using arg_cong [OF eq, of "\<lambda>xs. xs ! i"] by (simp add: nth_append)
  show "i < length str \<Longrightarrow> str ! i \<noteq> 0" using z by (metis nth_mem)
  show "m (s + of_nat (length str)) = 0"
    using arg_cong [OF eq, of "\<lambda>xs. xs ! length str"] by simp
qed

lemma cstrI:
  assumes "length str < 4294967296" "\<And>i. i < length str \<Longrightarrow> str ! i \<noteq> 0"
    and "\<And>i. i < length str \<Longrightarrow> m (s + of_nat i) = str ! i" "m (s + of_nat (length str)) = 0"
  shows "cstr m s str"
  unfolding cstr_def
proof (intro conjI)
  show "0 \<notin> set str" using assms(2) by (auto simp: in_set_conv_nth)
  show "bytes m s (Suc (length str)) = str @ [0]"
    using assms(3,4) by (intro nth_equalityI) (auto simp: nth_append less_Suc_eq)
qed (rule assms(1))

lemma cstr_exists:
  assumes "m a = 0"
  shows "\<exists>str. cstr m s str"
proof -
  define n where "n = (LEAST n. m (s + of_nat n) = 0)"
  have a: "m (s + of_nat (unat (a - s))) = 0" using assms by simp
  have zero: "m (s + of_nat n) = 0" unfolding n_def using a by (rule LeastI)
  have less: "m (s + of_nat i) \<noteq> 0" if "i < n" for i
    using that not_less_Least unfolding n_def by blast
  have "n \<le> unat (a - s)" unfolding n_def using a by (rule Least_le)
  then have "n < 4294967296" using unat_lt_2p32 le_less_trans by blast
  then have "cstr m s (bytes m s n)"
    using zero less by (intro cstrI) auto
  then show ?thesis ..
qed

lemma cstr_write_disjoint:
  assumes "cstr m s str" "disjoint_regions s (Suc (length str)) a (length bs)"
  shows "cstr (write_bytes m a bs) s str"
  using assms by (simp add: cstr_def bytes_write_disjoint)

lemma cstr_write:
  assumes "0 \<notin> set str" "length str < 4294967296"
  shows "cstr (write_bytes m s (str @ [0])) s str"
  using assms bytes_write_same [of "str @ [0]" m s] by (simp add: cstr_def)

section \<open>strlen\<close>

lemma strlen_from_run:
  assumes "k \<le> n" "\<And>i. k \<le> i \<Longrightarrow> i < n \<Longrightarrow> m (s + of_nat i) \<noteq> 0" "m (s + of_nat n) = 0"
  shows "strlen_from m s (of_nat k) = Some (of_nat n)"
  using assms
proof (induction k rule: inc_induct)
  case base
  then show ?case by (simp add: strlen_from.simps)
next
  case (step k)
  then have "strlen_from m s (of_nat k + 1) = Some (of_nat n)" by (simp add: add.commute)
  with step show ?case by (subst strlen_from.simps) simp
qed

lemma strlen_cstr: "cstr m s str \<Longrightarrow> strlen m s = Some (of_nat (length str))"
  using strlen_from_run [of 0 "length str" m s] cstrD [of m s str] by (simp add: strlen_def)

lemma strlen_from_zero:
  assumes "strlen_from m s len = Some r"
  shows "m (s + r) = 0"
proof (rule strlen_from.raw_induct [where P = "\<lambda>m s len r. m (s + r) = 0", OF _ assms])
  fix f :: "mem \<Rightarrow> u32 \<Rightarrow> u32 \<Rightarrow> u32 option" and m s len r
  assume "\<And>m s len r. f m s len = Some r \<Longrightarrow> m (s + r) = 0"
    and "(if m (s + len) \<noteq> 0 then f m s (len + 1) else Some len) = Some r"
  then show "m (s + r) = 0" by (auto split: if_splits)
qed

lemma strlen_None_iff: "strlen m s = None \<longleftrightarrow> (\<forall>a. m a \<noteq> 0)"
proof
  show "\<forall>a. m a \<noteq> 0" if "strlen m s = None"
    using that cstr_exists [of m _ s] strlen_cstr [of m s] by auto
  show "strlen m s = None" if "\<forall>a. m a \<noteq> 0"
    using that strlen_from_zero [of m s 0] by (cases "strlen m s") (auto simp: strlen_def)
qed

section \<open>strncmp\<close>

lemma strn_Suc: "strn m s (Suc n) = (if m s = 0 then [] else m s # strn m (s + 1) n)"
  by (simp add: strn_def bytes_Suc)

lemma strn_0 [simp]: "strn m s 0 = []"
  by (simp add: strn_def)

lemma sint_eq_iff8: "sint (a :: u8) = sint b \<longleftrightarrow> a = b" "sint (a :: u8) = 0 \<longleftrightarrow> a = 0"
  by (metis signed_word_eqI, metis signed_0 signed_word_eqI)

lemma strncmp_from_iff:
  "strncmp_from m s1 s2 n i = 0 \<longleftrightarrow>
   strn m (s1 + i) (unat n - unat i) = strn m (s2 + i) (unat n - unat i)"
proof (induction m s1 s2 n i rule: strncmp_from.induct)
  case (1 m s1 s2 n i)
  show ?case
  proof (cases "i < n")
    case True
    then have n: "unat n - unat i = Suc (unat n - unat (i + 1))"
      by unat_arith
    show ?thesis
      using 1 True by (subst strncmp_from.simps) (auto simp: n strn_Suc add_ac sint_eq_iff8)
  next
    case False
    then have "unat n - unat i = 0" by unat_arith
    with False show ?thesis by (subst strncmp_from.simps) simp
  qed
qed

lemma strncmp_iff: "strncmp m s1 s2 n = 0 \<longleftrightarrow> strn m s1 (unat n) = strn m s2 (unat n)"
  using strncmp_from_iff [of m s1 s2 n 0] by (simp add: strncmp_def)

lemma strn_cstr: "cstr m s str \<Longrightarrow> strn m s n = take n str"
proof (induction n arbitrary: s str)
  case (Suc n)
  show ?case
  proof (cases str)
    case Nil
    with Suc.prems cstr_end [of m s "[]"] show ?thesis by (simp add: strn_Suc)
  next
    case (Cons c cs)
    with Suc.prems have "cstr m (s + 1) cs" "m s = c" "c \<noteq> 0"
      by (auto simp: cstr_def bytes_Suc [of m s])
    with Suc.IH Cons show ?thesis by (simp add: strn_Suc)
  qed
qed simp

section \<open>strcpy and strncpy\<close>

lemma strcpy_from_run:
  assumes str: "cstr m src str" and dis: "disjoint_regions dest (Suc (length str)) src (Suc (length str))"
    and "k \<le> length str"
  shows "strcpy_from (write_bytes m dest (take k str)) dest src (of_nat k)
      = Some (write_bytes m dest (str @ [0]))"
  using assms(3)
proof (induction k rule: inc_induct)
  have src: "write_bytes m dest (take k str) (src + of_nat k) = m (src + of_nat k)"
    if "k \<le> length str" for k
  proof (rule write_bytes_out)
    have "\<not> in_region dest (Suc (length str)) (src + of_nat k)"
      using disjoint_regions_sym [OF dis] that by (simp add: disjoint_regions_def)
    then show "\<not> in_region dest (length (take k str)) (src + of_nat k)"
      by (simp add: in_region_def)
  qed
  {
    case base
    then show ?case using src [of "length str"] cstr_end [OF str]
      by (subst strcpy_from.simps) (simp add: write_bytes_snoc)
  next
    case (step k)
    have "m (src + of_nat k) = str ! k" "str ! k \<noteq> 0"
      using str step.hyps by (auto intro: cstr_nth dest: cstr_nth_nonzero)
    moreover have "write_bytes m dest (take (Suc k) str)
        = (write_bytes m dest (take k str))(dest + of_nat k := str ! k)"
      using step.hyps by (simp add: take_Suc_conv_app_nth write_bytes_snoc)
    ultimately show ?case
      using step.IH step.hyps src [of k]
      by (subst strcpy_from.simps) (simp add: add.commute del: fun_upd_apply)
  }
qed

lemma strcpy_cstr:
  assumes "cstr m src str" "disjoint_regions dest (Suc (length str)) src (Suc (length str))"
  shows "strcpy m dest src = Some (write_bytes m dest (str @ [0]))"
  using strcpy_from_run [OF assms, of 0] by (simp add: strcpy_def)

lemma strncpy_pad_write:
  "unat n - unat i = k \<Longrightarrow> strncpy_pad m dest n i = write_bytes m (dest + i) (replicate k 0)"
proof (induction k arbitrary: m i)
  case 0
  then have "\<not> i < n" by unat_arith
  then show ?case by (subst strncpy_pad.simps) simp
next
  case (Suc k)
  then have "i < n" "unat n - unat (i + 1) = k" by unat_arith+
  with Suc.IH [of "i + 1"] show ?case
    by (subst strncpy_pad.simps) (simp add: add.assoc del: fun_upd_apply)
qed

lemma strncpy_copy_write:
  "disjoint_regions (dest + i) (unat n - unat i) (src + i) (unat n - unat i) \<Longrightarrow> i \<le> n \<Longrightarrow>
   strncpy_copy m dest src n i =
     (let str = strn m (src + i) (unat n - unat i)
      in (write_bytes m (dest + i) str, i + of_nat (length str)))"
proof (induction m dest src n i rule: strncpy_copy.induct)
  case (1 m dest src n i)
  show ?case
  proof (cases "i < n")
    case False
    with "1.prems"(2) show ?thesis by (subst strncpy_copy.simps) simp
  next
    case True
    define k where "k = unat n - unat (i + 1)"
    have n: "unat n - unat i = Suc k" and le: "i + 1 \<le> n"
      using True unfolding k_def by unat_arith+
    let ?m = "m(dest + i := m (src + i))"
    have d: "disjoint_regions (dest + i + 1) k (src + i + 1) k"
      using disjoint_regions_shift [OF "1.prems"(1), of 1 k 1 k] n by simp
    have "disjoint_regions (src + i + 1) k (dest + i) 1"
      using disjoint_regions_sym [OF disjoint_regions_shift [OF "1.prems"(1), of 0 1 1 k]] n by simp
    then have same: "strn ?m (src + i + 1) k = strn m (src + i + 1) k"
      using bytes_write_disjoint [of "src + i + 1" k "dest + i" "[m (src + i)]" m]
      by (simp add: strn_def del: fun_upd_apply)
    show ?thesis
    proof (cases "m (src + i) = 0")
      case True
      then show ?thesis by (subst strncpy_copy.simps) (simp add: n strn_Suc)
    next
      case False
      have "strncpy_copy ?m dest src n (i + 1) = (let str = strn m (src + i + 1) k
          in (write_bytes ?m (dest + i + 1) str, i + 1 + of_nat (length str)))"
        using "1.IH" False True d le same
        by (simp add: k_def add.assoc del: fun_upd_apply)
      with False True show ?thesis
        by (subst strncpy_copy.simps) (simp add: n strn_Suc Let_def del: fun_upd_apply)
    qed
  qed
qed

lemma length_strn: "length (strn m s n) \<le> n"
  using length_takeWhile_le [of _ "bytes m s n"] by (simp add: strn_def)

lemma strncpy_write:
  assumes "disjoint_regions dest (unat n) src (unat n)"
  shows "strncpy m dest src n
    = (let str = strn m src (unat n) in write_bytes m dest (str @ replicate (unat n - length str) 0))"
proof -
  let ?str = "strn m src (unat n)"
  have "length ?str < 4294967296"
    using length_strn [of m src "unat n"] unat_lt_2p32 [of n] by simp
  then have "strncpy_pad (write_bytes m dest ?str) dest n (of_nat (length ?str))
      = write_bytes m dest (?str @ replicate (unat n - length ?str) 0)"
    by (subst strncpy_pad_write [OF refl]) (simp add: write_bytes_append unat_of_nat32)
  then show ?thesis
    using strncpy_copy_write [of dest 0 n src m] assms by (simp add: strncpy_def Let_def)
qed

section \<open>strrev\<close>

lemma of_int_eq_iff32:
  "0 \<le> i \<Longrightarrow> i < 4294967296 \<Longrightarrow> 0 \<le> j \<Longrightarrow> j < 4294967296 \<Longrightarrow> (of_int i :: u32) = of_int j \<longleftrightarrow> i = j"
  by (simp add: word_of_int_eq_iff take_bit_eq_mod)

lemma strrev_loop_apply:
  "0 \<le> beg \<Longrightarrow> fin < 4294967296 \<Longrightarrow> 0 \<le> i \<Longrightarrow> i < 4294967296 \<Longrightarrow>
   strrev_loop m s beg fin (s + of_int i)
     = (if beg \<le> i \<and> i \<le> fin then m (s + of_int (beg + fin - i)) else m (s + of_int i))"
proof (induction m s beg fin rule: strrev_loop.induct)
  case (1 m s beg fin)
  show ?case
  proof (cases "beg < fin")
    case False
    have "beg + fin - i = i" if "beg \<le> i \<and> i \<le> fin" using that False by linarith
    then have "(if beg \<le> i \<and> i \<le> fin then m (s + of_int (beg + fin - i)) else m (s + of_int i))
        = m (s + of_int i)" by simp
    with False show ?thesis by (subst strrev_loop.simps) simp
  next
    case True
    define m' where "m' = m(s + of_int fin := m (s + of_int beg), s + of_int beg := m (s + of_int fin))"
    have m': "m' (s + of_int j) = (if j = beg then m (s + of_int fin)
        else if j = fin then m (s + of_int beg) else m (s + of_int j))"
      if "0 \<le> j" "j < 4294967296" for j
      using that "1.prems" True by (simp add: m'_def of_int_eq_iff32)
    have "strrev_loop m s beg fin = strrev_loop m' s (beg + 1) (fin - 1)"
      using True by (subst strrev_loop.simps)
        (simp add: Let_def m'_def of_int_eq_iff32 "1.prems" del: fun_upd_apply)
    moreover have "strrev_loop m' s (beg + 1) (fin - 1) (s + of_int i)
        = (if beg + 1 \<le> i \<and> i \<le> fin - 1 then m' (s + of_int (beg + fin - i)) else m' (s + of_int i))"
      using "1.IH" [OF True refl refl] "1.prems" True unfolding m'_def
      by (simp add: add_ac diff_add_eq del: fun_upd_apply)
    ultimately show ?thesis using "1.prems" True m' [of "beg + fin - i"] m' [of i] by auto
  qed
qed

lemma sint_len_minus1:
  assumes "n < 2147483648"
  shows "sint (of_nat n - 1 :: u32) = int n - 1"
proof -
  have "sint (of_nat n - 1 :: u32) = sint (of_int (int n - 1) :: u32)" by simp
  also have "\<dots> = signed_take_bit 31 (int n - 1)"
    by (simp only: signed_of_int) simp
  also have "\<dots> = int n - 1"
    using assms by (intro signed_take_bit_int_eq_self) auto
  finally show ?thesis .
qed

lemma strrev_cstr:
  assumes str: "cstr m s str" and len: "length str < 2147483648"
  shows "strrev m s = Some (write_bytes m s (rev str))"
proof -
  let ?fin = "int (length str) - 1"
  have "strrev_loop m s 0 ?fin = write_bytes m s (rev str)"
  proof (rule write_bytes_eqI)
    fix i assume "i < length (rev str)"
    then have i: "i < length str" by simp
    have c: "int i \<le> ?fin" and e: "?fin < 4294967296" and i32: "int i < 4294967296"
      using i len by linarith+
    have idx: "0 + ?fin - int i = int (length str - Suc i)" using i by linarith
    have "strrev_loop m s 0 ?fin (s + of_int (int i)) = m (s + of_int (int (length str - Suc i)))"
      unfolding idx [symmetric]
      using strrev_loop_apply [OF order_refl e of_nat_0_le_iff i32, of m s] c
      by (simp only: of_nat_0_le_iff simp_thms if_True)
    moreover have "rev str ! i = m (s + of_nat (length str - Suc i))"
      using i by (simp only: rev_nth cstr_nth [OF str, of "length str - Suc i"] diff_Suc_less)
    ultimately show "strrev_loop m s 0 ?fin (s + of_nat i) = rev str ! i"
      by (simp only: of_int_of_nat_eq)
  next
    fix x assume out: "\<not> in_region s (length (rev str)) x"
    have x: "x = s + of_int (uint (x - s))" by simp
    have u: "uint (x - s) < 4294967296" "0 \<le> uint (x - s)" using uint_bounded [of "x - s"] by simp_all
    have e: "?fin < 4294967296" using len by linarith
    have "\<not> uint (x - s) \<le> ?fin"
      using out unfolding in_region_def uint_nat length_rev by linarith
    then have "strrev_loop m s 0 ?fin (s + of_int (uint (x - s))) = m (s + of_int (uint (x - s)))"
      using strrev_loop_apply [OF order_refl e u(2,1), of m s] by (simp only: simp_thms if_False)
    then show "strrev_loop m s 0 ?fin x = m x" unfolding x [symmetric] .
  qed (use len in simp)
  then show ?thesis
    using strlen_cstr [OF str] sint_len_minus1 [OF len] by (simp add: strrev_def)
qed

section \<open>itoa\<close>

text \<open>The digits of a number, least significant first, and the value they denote.\<close>

fun digits_rev :: "nat \<Rightarrow> nat \<Rightarrow> nat list" where
  "digits_rev r n = (if n = 0 \<or> r < 2 then [] else n mod r # digits_rev r (n div r))"

declare digits_rev.simps [simp del]

definition digit_char :: "nat \<Rightarrow> u8" where
  "digit_char d = (if d < 10 then 48 + of_nat d else 55 + of_nat d)"

definition char_digit :: "u8 \<Rightarrow> nat" where
  "char_digit b = (if unat b < 58 then unat b - 48 else unat b - 55)"

definition numeral_value :: "nat \<Rightarrow> u8 list \<Rightarrow> nat" where
  "numeral_value r bs = foldl (\<lambda>acc b. acc * r + char_digit b) 0 bs"

lemma digits_rev_less: "2 \<le> r \<Longrightarrow> d \<in> set (digits_rev r n) \<Longrightarrow> d < r"
proof (induction r n rule: digits_rev.induct)
  case (1 r n)
  then show ?case by (subst (asm) digits_rev.simps) (auto split: if_splits)
qed

lemma digit_char_small:
  assumes "d < 36"
  shows "unat (digit_char d) = (if d < 10 then 48 + d else 55 + d)"
  using assms by (auto simp: digit_char_def unat_word_ariths unat_of_nat take_bit_eq_mod)

lemma char_digit_char: "d < 36 \<Longrightarrow> char_digit (digit_char d) = d"
  using digit_char_small [of d] by (simp add: char_digit_def)

lemma digit_char_nonzero: "d < 36 \<Longrightarrow> digit_char d \<noteq> 0"
  using digit_char_small [of d] by (auto split: if_splits)

lemma digits_rev_value:
  "2 \<le> r \<Longrightarrow> r \<le> 36 \<Longrightarrow> numeral_value r (rev (map digit_char (digits_rev r n))) = n"
proof (induction r n rule: digits_rev.induct)
  case (1 r n)
  show ?case
  proof (cases "n = 0")
    case True
    then show ?thesis by (simp add: digits_rev.simps numeral_value_def)
  next
    case False
    have "n mod r < 36" using "1.prems" by (simp add: less_le_trans [OF mod_less_divisor])
    with False 1 show ?thesis
      by (subst digits_rev.simps) (simp add: numeral_value_def char_digit_char)
  qed
qed

lemma digits_rev_length:
  "2 \<le> r \<Longrightarrow> n < 2 ^ k \<Longrightarrow> length (digits_rev r n) \<le> k"
proof (induction k arbitrary: n)
  case 0
  then show ?case by (simp add: digits_rev.simps)
next
  case (Suc k)
  show ?case
  proof (cases "n = 0")
    case False
    have "n div r \<le> n div 2" using Suc.prems by (simp add: div_le_mono2)
    also have "\<dots> < 2 ^ k" using Suc.prems by simp
    finally show ?thesis using Suc False by (subst digits_rev.simps) simp
  qed (simp add: digits_rev.simps)
qed

lemma itoa_lookup_digit: "i < 36 \<Longrightarrow> itoa_lookup i = Some (digit_char (unat i))"
  by (auto simp: itoa_lookup_def digit_char_def word_less_nat_alt)

lemma itoa_digits_write:
  assumes "2 \<le> radix" "radix \<le> 36"
  shows "itoa_digits m v buf radix =
     (let ds = map digit_char (digits_rev (unat radix) (unat v))
      in Some (write_bytes m buf ds, buf + of_nat (length ds)))"
proof (induction "unat v" arbitrary: m v buf rule: less_induct)
  case less
  have r: "2 \<le> unat radix" using assms(1) by (simp add: word_le_nat_alt)
  show ?case
  proof (cases "v = 0")
    case True
    then show ?thesis by (subst itoa_digits.simps) (simp add: digits_rev.simps)
  next
    case False
    then have v: "0 < unat v" by (simp add: unat_gt_0)
    have q: "unat (v div radix) = unat v div unat radix" by (rule unat_div)
    have "unat (v div radix) < unat v" using v r by (simp add: q)
    note IH = less [OF this]
    have "v mod radix < radix" using assms(1) by (intro word_mod_less_divisor) (auto simp: word_le_nat_alt word_less_nat_alt)
    then have "itoa_lookup (v mod radix) = Some (digit_char (unat v mod unat radix))"
      using assms(2) by (simp add: itoa_lookup_digit unat_mod)
    moreover have "radix \<noteq> 0" using assms(1) by auto
    ultimately show ?thesis
      using False v r IH [of "m(buf := digit_char (unat v mod unat radix))" "buf + 1"]
      by (subst itoa_digits.simps, subst digits_rev.simps)
        (simp add: Let_def q word_neq_0_conv add_ac del: fun_upd_apply)
  qed
qed

definition numeral_string :: "nat \<Rightarrow> nat \<Rightarrow> u8 list" where
  "numeral_string r n = (if n = 0 then [48] else rev (map digit_char (digits_rev r n)))"

lemma numeral_string_value:
  "2 \<le> r \<Longrightarrow> r \<le> 36 \<Longrightarrow> numeral_value r (numeral_string r n) = n"
  using digits_rev_value [of r n]
  by (auto simp: numeral_string_def numeral_value_def char_digit_def)

lemma numeral_string_length:
  assumes "2 \<le> r" "n < 2 ^ 32"
  shows "0 < length (numeral_string r n) \<and> length (numeral_string r n) \<le> 32"
  using digits_rev_length [OF assms] assms(1) by (auto simp: numeral_string_def digits_rev.simps [of r n])

lemma numeral_string_nonzero:
  assumes "2 \<le> r" "r \<le> 36"
  shows "0 \<notin> set (numeral_string r n)"
proof -
  have "digit_char d \<noteq> 0" if "d \<in> set (digits_rev r n)" for d
    using digits_rev_less [OF assms(1) that] assms(2) by (simp add: digit_char_nonzero)
  then show ?thesis by (auto simp: numeral_string_def)
qed

lemma itoa_write:
  assumes "2 \<le> radix" "radix \<le> 36"
  shows "itoa m v buf radix = Some (write_bytes m buf (numeral_string (unat radix) (unat v) @ [0]))"
proof (cases "v = 0")
  case True
  then show ?thesis by (simp add: itoa_def numeral_string_def)
next
  case False
  let ?ds = "map digit_char (digits_rev (unat radix) (unat v))"
  have r: "2 \<le> unat radix" "unat radix \<le> 36" using assms by (auto simp: word_le_nat_alt)
  have len: "length ?ds \<le> 32"
    using digits_rev_length [OF r(1), of "unat v" 32] unat_lt_2p32 [of v] by simp
  have v: "unat v \<noteq> 0" using False unsigned_eq_0_iff by blast
  then have nz: "0 \<notin> set ?ds"
    using numeral_string_nonzero [OF r, of "unat v"] by (simp add: numeral_string_def)
  have "itoa m v buf radix = strrev (write_bytes m buf (?ds @ [0])) buf"
    using False by (simp add: itoa_def itoa_digits_write [OF assms] Let_def write_bytes_snoc)
  also have "\<dots> = Some (write_bytes (write_bytes m buf (?ds @ [0])) buf (rev ?ds))"
    using len nz by (intro strrev_cstr cstr_write) auto
  also have "write_bytes (write_bytes m buf (?ds @ [0])) buf (rev ?ds)
      = write_bytes m buf (rev ?ds @ [0])"
  proof (rule write_bytes_eqI)
    fix i assume i: "i < length (rev ?ds @ [0])"
    show "write_bytes (write_bytes m buf (?ds @ [0])) buf (rev ?ds) (buf + of_nat i) = (rev ?ds @ [0]) ! i"
      using i len by (auto simp: write_bytes_apply region_simps unat_of_nat32 nth_append)
  qed (use len in \<open>auto simp: write_bytes_apply in_region_def\<close>)
  finally show ?thesis using v by (simp add: numeral_string_def)
qed

section \<open>Properties\<close>

text \<open>A memory that holds a byte list at an address and zeros elsewhere, for the witnesses.\<close>

definition mem_of :: "u32 \<Rightarrow> u8 list \<Rightarrow> mem" where
  "mem_of a bs = write_bytes (\<lambda>_. 0) a bs"

lemma cstr_mem_of: "0 \<notin> set str \<Longrightarrow> length str < 4294967296 \<Longrightarrow> cstr (mem_of a (str @ [0])) a str"
  unfolding mem_of_def by (rule cstr_write)

text \<open>
  \<open>strlen\<close> returns the number of bytes before the first NUL, and the only memory on which
  it does not return is one without any NUL byte.
\<close>

theorem strlen_total:
  "(if \<exists>a. m a = 0 then (\<exists>str. cstr m s str \<and> strlen m s = Some (of_nat (length str)))
    else strlen m s = None)"
  using cstr_exists [of m _ s] strlen_cstr [of m s] strlen_None_iff [of m s] by auto

text \<open>
  \<open>strncmp\<close> returns 0 exactly when the two strings agree up to the first NUL or the first
  \<open>n\<close> bytes, whichever comes first.
\<close>

theorem strncmp_zero_iff: "strncmp m s1 s2 n = 0 \<longleftrightarrow> strn m s1 (unat n) = strn m s2 (unat n)"
  by (rule strncmp_iff)

text \<open>
  \<open>strcpy\<close> of a NUL-terminated string into memory that does not overlap it returns, with
  the string and its NUL at the destination and no other byte changed.
\<close>

theorem strcpy_copies:
  assumes "cstr m src str" "disjoint_regions dest (Suc (length str)) src (Suc (length str))"
  shows "strcpy m dest src = Some (write_bytes m dest (str @ [0]))
    \<and> cstr (write_bytes m dest (str @ [0])) dest str"
  using strcpy_cstr [OF assms] cstr_write [of str m dest] assms(1) by (simp add: cstr_def)

theorem strcpy_copies_witness:
  "strcpy (mem_of 0x100 [104, 105, 0]) 0x200 0x100
     = Some (write_bytes (mem_of 0x100 [104, 105, 0]) 0x200 [104, 105, 0])"
  using strcpy_copies [of "mem_of 0x100 [104, 105, 0]" "0x100" "[104, 105]" "0x200"]
    cstr_mem_of [of "[104, 105]" "0x100"]
  by (simp add: disjoint_regions_sym [OF disjoint_regions_sep])

text \<open>
  \<open>strncpy\<close> writes exactly \<open>n\<close> bytes: the source string cut at \<open>n\<close> bytes, then NULs up
  to \<open>n\<close>; a source of \<open>n\<close> bytes or more leaves the destination without a NUL.
\<close>

theorem strncpy_copies:
  assumes "disjoint_regions dest (unat n) src (unat n)"
  shows "strncpy m dest src n = write_bytes m dest
      (strn m src (unat n) @ replicate (unat n - length (strn m src (unat n))) 0)
    \<and> length (strn m src (unat n) @ replicate (unat n - length (strn m src (unat n))) (0 :: u8)) = unat n"
  using strncpy_write [OF assms, of m] length_strn [of m src "unat n"] by (simp add: Let_def)

theorem strncpy_copies_witness:
  "strncpy (mem_of 0x100 [104, 105, 0]) 0x200 0x100 4
     = write_bytes (mem_of 0x100 [104, 105, 0]) 0x200 [104, 105, 0, 0]"
proof -
  have "strn (mem_of 0x100 [104, 105, 0]) 0x100 4 = [104, 105]"
    using strn_cstr [OF cstr_mem_of [of "[104, 105]" "0x100"], of 4] by simp
  moreover have "replicate 2 (0 :: u8) = [0, 0]" by (simp add: numeral_2_eq_2)
  ultimately show ?thesis
    using strncpy_copies [of "0x200" 4 "0x100" "mem_of 0x100 [104, 105, 0]"]
    by (simp add: disjoint_regions_sym [OF disjoint_regions_sep])
qed

text \<open>
  C30: for every radix from 2 to 36 \<open>itoa\<close> returns, leaves a NUL-terminated string of at most
  32 digits at \<open>buf\<close> and changes nothing else, and reading the string back in that radix gives
  the number.
\<close>

theorem itoa_roundtrip:
  assumes "2 \<le> radix" "radix \<le> 36"
  shows "\<exists>str. itoa m v buf radix = Some (write_bytes m buf (str @ [0]))
    \<and> cstr (write_bytes m buf (str @ [0])) buf str
    \<and> 0 < length str \<and> length str \<le> 32 \<and> numeral_value (unat radix) str = unat v"
proof (intro exI conjI)
  have r: "2 \<le> unat radix" "unat radix \<le> 36" using assms by (auto simp: word_le_nat_alt)
  let ?str = "numeral_string (unat radix) (unat v)"
  show "itoa m v buf radix = Some (write_bytes m buf (?str @ [0]))"
    by (rule itoa_write [OF assms])
  have len: "0 < length ?str \<and> length ?str \<le> 32"
    using numeral_string_length [OF r(1), of "unat v"] unat_lt_2p32 [of v] by simp
  then show "0 < length ?str" "length ?str \<le> 32" by simp_all
  show "cstr (write_bytes m buf (?str @ [0])) buf ?str"
    using numeral_string_nonzero [OF r] len by (intro cstr_write) auto
  show "numeral_value (unat radix) ?str = unat v"
    by (rule numeral_string_value [OF r])
qed

theorem itoa_roundtrip_witness:
  "\<exists>str. itoa (\<lambda>_. 0) 48879 0x500 16 = Some (write_bytes (\<lambda>_. 0) 0x500 (str @ [0]))
     \<and> numeral_value 16 str = 48879"
  using itoa_roundtrip [of 16 "\<lambda>_. 0" 48879 "0x500"] by auto

end
