(* ===== verification/Machine.thy ===== *)
theory Machine
  imports MemOps CString
begin

text \<open>
  The machine under the kernel: byte memory, the I/O ports (\<open>outb\<close> and \<open>inb\<close> of
  student-distrib/lib.h) and the interrupt flag (\<open>cli\<close>, \<open>sti\<close>).

  What a device answers to an \<open>inb\<close> is not code of the repository, so it is the parameter
  \<open>dev\<close>: a function of the port accesses made so far and the port. No operation changes it.
  The components extend this record with the global variables of their C files; an operation
  works on every extension, so the operations compose as the C functions do.
\<close>

datatype ioevent = Out u16 u8 | In u16

record machine =
  ram :: mem
  ioev :: "ioevent list"
  ifl :: bool
  dev :: "ioevent list \<Rightarrow> u16 \<Rightarrow> u8"

definition outb :: "u8 \<Rightarrow> u16 \<Rightarrow> 'a machine_scheme \<Rightarrow> 'a machine_scheme" where
  "outb data port s = s\<lparr>ioev := Out port data # ioev s\<rparr>"

definition inb :: "u16 \<Rightarrow> 'a machine_scheme \<Rightarrow> u32 \<times> 'a machine_scheme" where
  "inb port s = (ucast (dev s (ioev s) port), s\<lparr>ioev := In port # ioev s\<rparr>)"

definition cli :: "'a machine_scheme \<Rightarrow> 'a machine_scheme" where
  "cli s = s\<lparr>ifl := False\<rparr>"

definition sti :: "'a machine_scheme \<Rightarrow> 'a machine_scheme" where
  "sti s = s\<lparr>ifl := True\<rparr>"

text \<open>The last value written to a port: what a data latch behind the port holds.\<close>

fun last_out :: "ioevent list \<Rightarrow> u16 \<Rightarrow> u8 option" where
  "last_out [] p = None"
| "last_out (Out q v # h) p = (if q = p then Some v else last_out h p)"
| "last_out (In q # h) p = last_out h p"

abbreviation port :: "'a machine_scheme \<Rightarrow> u16 \<Rightarrow> u8 option" where
  "port s p \<equiv> last_out (ioev s) p"

lemma outb_fields [simp]:
  "ram (outb v p s) = ram s" "ifl (outb v p s) = ifl s" "dev (outb v p s) = dev s"
  "port (outb v p s) q = (if p = q then Some v else port s q)"
  by (simp_all add: outb_def)

lemma inb_fields [simp]:
  "fst (inb p s) = ucast (dev s (ioev s) p)"
  "ram (snd (inb p s)) = ram s" "ifl (snd (inb p s)) = ifl s" "dev (snd (inb p s)) = dev s"
  "port (snd (inb p s)) q = port s q"
  by (simp_all add: inb_def)

lemma cli_fields [simp]:
  "ram (cli s) = ram s" "ifl (cli s) = False" "dev (cli s) = dev s" "ioev (cli s) = ioev s"
  by (simp_all add: cli_def)

lemma sti_fields [simp]:
  "ram (sti s) = ram s" "ifl (sti s) = True" "dev (sti s) = dev s" "ioev (sti s) = ioev s"
  by (simp_all add: sti_def)

end
