(* ===== verification/Pic.thy ===== *)
theory Pic
  imports Machine
begin

text \<open>
  student-distrib/i8259.c: initialising the two interrupt controllers, masking and unmasking
  one line, end-of-interrupt. The controllers' answer to a read of a mask register is a
  hypothesis (\<open>pic_dev\<close>): the documented read-back of the last mask written.
\<close>

record pic = machine +
  master :: u8
  slave :: u8

definition i8259_init :: "'a pic_scheme \<Rightarrow> 'a pic_scheme" where
  "i8259_init s =
     (let s = s\<lparr>master := 0xFB, slave := 0xFF\<rparr>;
          s = outb 0xFF 0x21 s;
          s = outb 0xFF 0xA1 s;
          s = outb 0x11 0x20 s;
          s = outb 0x20 0x21 s;
          s = outb 0x04 0x21 s;
          s = outb 0x01 0x21 s;
          s = outb 0x11 0xA0 s;
          s = outb 0x28 0xA1 s;
          s = outb 0x02 0xA1 s;
          s = outb 0x01 0xA1 s;
          s = outb (master s) 0x21 s
      in outb (slave s) 0xA1 s)"

text \<open>
  \<open>1 << n\<close> on a 32-bit register: the processor takes the shift count modulo 32. Both
  branches read the master's data port, as the source does.
\<close>

definition shl1 :: "u32 \<Rightarrow> u32" where
  "shl1 n = push_bit (unat n mod 32) 1"

definition enable_irq :: "u32 \<Rightarrow> 'a machine_scheme \<Rightarrow> 'a machine_scheme" where
  "enable_irq irq_num s =
     (let s = cli s;
          s = (if irq_num \<le> 7 then
                 let (v, s) = inb 0x21 s; mask = ucast (v AND NOT (shl1 irq_num))
                 in outb mask 0x21 s
               else
                 let (v, s) = inb 0x21 s; mask = ucast (v AND NOT (shl1 (irq_num - 8)))
                 in outb mask 0xA1 s)
      in sti s)"

definition disable_irq :: "u32 \<Rightarrow> 'a machine_scheme \<Rightarrow> 'a machine_scheme" where
  "disable_irq irq_num s =
     (let s = cli s;
          s = (if irq_num \<le> 7 then
                 let (v, s) = inb 0x21 s; mask = ucast (v OR shl1 irq_num)
                 in outb mask 0x21 s
               else
                 let (v, s) = inb 0x21 s; mask = ucast (v OR shl1 (irq_num - 8))
                 in outb mask 0xA1 s)
      in sti s)"

definition send_eoi :: "u32 \<Rightarrow> 'a machine_scheme \<Rightarrow> 'a machine_scheme" where
  "send_eoi irq_num s =
     (if irq_num \<le> 7 then outb (ucast (0x60 OR irq_num)) 0x20 s
      else outb (ucast (0x60 OR 2 :: u32)) 0x20 (outb (ucast (0x60 OR (irq_num - 8))) 0xA0 s))"

section \<open>Masks\<close>

definition pic_dev :: "(ioevent list \<Rightarrow> u16 \<Rightarrow> u8) \<Rightarrow> bool" where
  "pic_dev d \<longleftrightarrow> (\<forall>h v. last_out h 0x21 = Some v \<longrightarrow> d h 0x21 = v)"

text \<open>A controller that satisfies the hypothesis, for the witnesses.\<close>

definition latch_dev :: "ioevent list \<Rightarrow> u16 \<Rightarrow> u8" where
  "latch_dev h p = (case last_out h p of None \<Rightarrow> 0xFF | Some v \<Rightarrow> v)"

lemma latch_dev_pic: "pic_dev latch_dev"
  by (simp add: pic_dev_def latch_dev_def)

text \<open>One line of a mask byte.\<close>

abbreviation line :: "u32 \<Rightarrow> u8" where
  "line n \<equiv> ucast (shl1 n)"

lemma irq_fields [simp]:
  "ram (enable_irq n s) = ram s" "dev (enable_irq n s) = dev s" "ifl (enable_irq n s) = True"
  "ram (disable_irq n s) = ram s" "dev (disable_irq n s) = dev s" "ifl (disable_irq n s) = True"
  "ram (send_eoi n s) = ram s" "dev (send_eoi n s) = dev s" "ifl (send_eoi n s) = ifl s"
  by (simp_all add: enable_irq_def disable_irq_def send_eoi_def split_def Let_def)

lemma enable_irq_port:
  assumes "pic_dev (dev s)" "port s 0x21 = Some m"
  shows "port (enable_irq n s) p = (if n \<le> 7 then if p = 0x21 then Some (m AND NOT (line n)) else port s p
     else if p = 0xA1 then Some (m AND NOT (line (n - 8))) else port s p)"
proof -
  have v: "dev s (ioev s) 0x21 = m" using assms by (simp add: pic_dev_def)
  have c: "ucast (ucast m AND NOT (shl1 k) :: u32) = m AND NOT (line k)" for k
    by (rule bit_word_eqI) (auto simp: bit_simps)
  show ?thesis by (auto simp: enable_irq_def Let_def split_def v c)
qed

lemma disable_irq_port:
  assumes "pic_dev (dev s)" "port s 0x21 = Some m"
  shows "port (disable_irq n s) p = (if n \<le> 7 then if p = 0x21 then Some (m OR line n) else port s p
     else if p = 0xA1 then Some (m OR line (n - 8)) else port s p)"
proof -
  have v: "dev s (ioev s) 0x21 = m" using assms by (simp add: pic_dev_def)
  have c: "ucast (ucast m OR shl1 k :: u32) = m OR line k" for k
    by (rule bit_word_eqI) (auto simp: bit_simps)
  show ?thesis by (auto simp: disable_irq_def Let_def split_def v c)
qed

section \<open>The critical section around screen output\<close>

text \<open>
  The bracket that lib.c and keyboard.c put around their work on the screen: \<open>cli\<close>, disable
  the timer, keyboard and clock lines, work, enable them again, \<open>sti\<close>.
\<close>

definition mask_irqs :: "'a machine_scheme \<Rightarrow> 'a machine_scheme" where
  "mask_irqs s = disable_irq 8 (disable_irq 1 (disable_irq 0 (cli s)))"

definition unmask_irqs :: "'a machine_scheme \<Rightarrow> 'a machine_scheme" where
  "unmask_irqs s = sti (enable_irq 0 (enable_irq 1 (enable_irq 8 s)))"

lemma bracket_fields [simp]:
  "ram (mask_irqs s) = ram s" "dev (mask_irqs s) = dev s" "ifl (mask_irqs s) = True"
  "ram (unmask_irqs s) = ram s" "dev (unmask_irqs s) = dev s" "ifl (unmask_irqs s) = True"
  by (simp_all add: mask_irqs_def unmask_irqs_def)

text \<open>
  What the bracket needs of an interrupt controller: a state property \<open>ok\<close> that both
  operations keep, and the effect of each on a master line and on a slave line.
\<close>

locale irq_lines =
  fixes dis en :: "u32 \<Rightarrow> 's \<Rightarrow> 's"
    and mmask smask :: "'s \<Rightarrow> u8"
    and ok :: "'s \<Rightarrow> bool"
  assumes dis_ok: "ok s \<Longrightarrow> ok (dis n s)"
    and en_ok: "ok s \<Longrightarrow> ok (en n s)"
    and dis_master: "ok s \<Longrightarrow> n \<le> 7 \<Longrightarrow> mmask (dis n s) = mmask s OR line n"
    and en_master: "ok s \<Longrightarrow> n \<le> 7 \<Longrightarrow> mmask (en n s) = mmask s AND NOT (line n)"
    and dis_slave: "ok s \<Longrightarrow> \<not> n \<le> 7 \<Longrightarrow> mmask (dis n s) = mmask s"
    and en_slave: "ok s \<Longrightarrow> \<not> n \<le> 7 \<Longrightarrow>
      mmask (en n s) = mmask s \<and> smask (en n s) = mmask s AND NOT (line (n - 8))"
    and en_master_slave: "ok s \<Longrightarrow> n \<le> 7 \<Longrightarrow> smask (en n s) = smask s"
begin

lemmas laws = dis_ok en_ok dis_master en_master dis_slave en_slave en_master_slave

lemma line_values: "line 0 = 1" "line 1 = 2"
  by (simp_all add: shl1_def)

lemma mask_algebra: "(m AND - 3) AND - 2 = (m AND - 4 :: u8)" "(m AND - 2) AND - 3 = (m AND - 4 :: u8)"
  "(m OR 3) AND - 4 = (m AND - 4 :: u8)"
  by (simp_all add: and.assoc bit.conj_disj_distrib2)

lemma masked: "ok s \<Longrightarrow> ok (dis 8 (dis 1 (dis 0 s))) \<and> mmask (dis 8 (dis 1 (dis 0 s))) = mmask s OR 3"
  using line_values by (simp add: laws or.assoc)

lemma unmasked:
  "ok t \<Longrightarrow> ok (en 0 (en 1 (en 8 t))) \<and> mmask (en 0 (en 1 (en 8 t))) = mmask t AND NOT 3
     \<and> smask (en 0 (en 1 (en 8 t))) AND NOT 2 = mmask t AND NOT 3"
  using line_values by (simp add: laws mask_algebra)

text \<open>
  Work between the two halves that keeps the other master lines leaves those lines as they
  were, lines 0 and 1 open, and the slave's lines from 2 up equal to the master's.
\<close>

lemma bracket:
  assumes s: "ok s" and t: "t = dis 8 (dis 1 (dis 0 s))"
    and body: "ok (f t)" "mmask (f t) AND NOT 3 = mmask t AND NOT 3"
  shows "mmask (en 0 (en 1 (en 8 (f t)))) = mmask s AND NOT 3"
    and "smask (en 0 (en 1 (en 8 (f t)))) AND NOT 2 = mmask s AND NOT 3"
    and "ok (en 0 (en 1 (en 8 (f t))))"
  using unmasked [OF body(1)] body(2) masked [OF s] t by (simp_all add: mask_algebra)

end

definition pic_ok :: "'a machine_scheme \<Rightarrow> bool" where
  "pic_ok s \<longleftrightarrow> pic_dev (dev s) \<and> port s 0x21 \<noteq> None"

abbreviation master_mask :: "'a machine_scheme \<Rightarrow> u8" where
  "master_mask s \<equiv> the (port s 0x21)"

abbreviation slave_mask :: "'a machine_scheme \<Rightarrow> u8" where
  "slave_mask s \<equiv> the (port s 0xA1)"

interpretation i8259: irq_lines disable_irq enable_irq master_mask slave_mask pic_ok
  by unfold_locales
    (auto simp: pic_ok_def enable_irq_port disable_irq_port)

lemma pic_ok_update [simp]:
  "pic_ok (cli s) = pic_ok s" "pic_ok (sti s) = pic_ok s" "pic_ok (s\<lparr>ram := m\<rparr>) = pic_ok s"
  by (simp_all add: pic_ok_def)

lemma critical_section:
  fixes s :: "'a machine_scheme" and f :: "'a machine_scheme \<Rightarrow> 'a machine_scheme"
  assumes "pic_ok s" "pic_ok (f (mask_irqs s))"
    and "master_mask (f (mask_irqs s)) AND NOT 3 = master_mask (mask_irqs s) AND NOT 3"
  shows "pic_ok (unmask_irqs (f (mask_irqs s)))"
    and "master_mask (unmask_irqs (f (mask_irqs s))) = master_mask s AND NOT 3"
    and "slave_mask (unmask_irqs (f (mask_irqs s))) AND NOT 2 = master_mask s AND NOT 3"
  using i8259.bracket [of "cli s" _ f, OF _ refl] assms
  by (simp_all add: mask_irqs_def unmask_irqs_def)

lemma mask_irqs_ok: "pic_ok s \<Longrightarrow> pic_ok (mask_irqs s)"
  using i8259.masked [of "cli s"] by (simp add: mask_irqs_def)

section \<open>Properties\<close>

text \<open>
  \<open>i8259_init\<close> sends the four initialisation words of each controller in order, first the
  master's and then the slave's, between two writes that mask every line, and ends with every
  line masked except the master's cascade line 2.
\<close>

theorem i8259_init_sequence:
  "ioev (i8259_init s) = rev
     [Out 0x21 0xFF, Out 0xA1 0xFF,
      Out 0x20 0x11, Out 0x21 0x20, Out 0x21 0x04, Out 0x21 0x01,
      Out 0xA0 0x11, Out 0xA1 0x28, Out 0xA1 0x02, Out 0xA1 0x01,
      Out 0x21 0xFB, Out 0xA1 0xFF] @ ioev s
   \<and> port (i8259_init s) 0x21 = Some (NOT (line 2)) \<and> port (i8259_init s) 0xA1 = Some (NOT 0)"
  by (simp add: i8259_init_def Let_def outb_def shl1_def)

text \<open>
  Enabling or disabling a line of the master controller changes that line of its mask and
  no other, leaves the slave's mask alone, and returns with interrupts enabled whatever the
  interrupt flag was before.
\<close>

theorem master_irq_effect:
  assumes "pic_dev (dev s)" "port s 0x21 = Some m" "n \<le> 7"
  shows "port (enable_irq n s) 0x21 = Some (m AND NOT (line n))
    \<and> port (disable_irq n s) 0x21 = Some (m OR line n)
    \<and> port (enable_irq n s) 0xA1 = port s 0xA1 \<and> port (disable_irq n s) 0xA1 = port s 0xA1
    \<and> ifl (enable_irq n s) \<and> ifl (disable_irq n s)"
  using assms by (simp add: enable_irq_port disable_irq_port)

text \<open>A machine with the latching controller and nothing else, for the witnesses.\<close>

definition latch_machine :: "mem \<Rightarrow> u8 \<Rightarrow> u8 \<Rightarrow> machine" where
  "latch_machine m mask1 mask2 =
     \<lparr>ram = m, ioev = [Out 0x21 mask1, Out 0xA1 mask2], ifl = False, dev = latch_dev\<rparr>"

theorem master_irq_effect_witness:
  "port (enable_irq 1 (latch_machine (\<lambda>_. 0) 0xFB 0xFF)) 0x21 = Some 0xF9
   \<and> ifl (enable_irq 1 (latch_machine (\<lambda>_. 0) 0xFB 0xFF))"
  using master_irq_effect [of "latch_machine (\<lambda>_. 0) 0xFB 0xFF" "0xFB" 1]
  by (simp add: latch_machine_def latch_dev_pic shl1_def)

text \<open>
  For a line of the slave controller both operations read the master's data port, so the
  slave's mask becomes a copy of the master's with one line changed, whatever it was before.
\<close>

theorem slave_irq_copies_master:
  assumes "pic_dev (dev s)" "port s 0x21 = Some m" "8 \<le> n"
  shows "port (enable_irq n s) 0xA1 = Some (m AND NOT (line (n - 8)))
    \<and> port (disable_irq n s) 0xA1 = Some (m OR line (n - 8))"
proof -
  have "\<not> n \<le> 7" using assms(3) by unat_arith
  then show ?thesis using assms(1,2) by (simp add: enable_irq_port disable_irq_port)
qed

theorem slave_irq_copies_master_witness:
  "port (enable_irq 8 (latch_machine (\<lambda>_. 0) 0xF8 0xFF)) 0xA1 = Some 0xF8"
  using slave_irq_copies_master [of "latch_machine (\<lambda>_. 0) 0xF8 0xFF" "0xF8" 8]
  by (simp add: latch_machine_def latch_dev_pic shl1_def)

end
