(* ===== verification/Console.thy ===== *)
theory Console
  imports Pic
begin

text \<open>
  The text screen of student-distrib/lib.c: \<open>set_cursor\<close>, \<open>clear\<close>, \<open>scroll\<close>, \<open>putc\<close>,
  \<open>backspace\<close>, \<open>test_interrupts\<close>, \<open>puts\<close> and \<open>printf\<close>. The displayed terminal is drawn at
  the video memory 0xB8000, the other terminals in their buffers in memory, two bytes for each
  of 25 rows of 80 cells.
\<close>

section \<open>State\<close>

text \<open>
  The arrays indexed by a terminal number are functions of that number; every index the code
  uses is below 3 (\<open>term_ok\<close>). Cursor coordinates are \<open>int\<close>s: \<open>screen_ok\<close> bounds them far
  below the range of an \<open>int32_t\<close>. \<open>disp_terminal\<close> is defined in keyboard.c and
  \<open>scheduled_terminal\<close> in syscall.h; lib.c reads both.
\<close>

record console = pic +
  screen_x :: "u8 \<Rightarrow> i32"
  screen_y :: "u8 \<Rightarrow> i32"
  disp_terminal :: u8
  scheduled_terminal :: u8

definition get_disp_terminal :: "'a console_scheme \<Rightarrow> u8" where
  "get_disp_terminal s = disp_terminal s"

abbreviation video_mem :: u32 where
  "video_mem \<equiv> 0xB8000"

definition color :: "u8 \<Rightarrow> u8" where
  "color t = (if t = 0 then 0xF else if t = 1 then 0xE else if t = 2 then 0x2 else 0)"

definition video_mem_phys_addr :: "u8 \<Rightarrow> u32" where
  "video_mem_phys_addr t =
     (if t = 0 then 0xBA000 else if t = 1 then 0xBC000 else if t = 2 then 0xBE000 else 0)"

text \<open>The address \<open>base + ((NUM_COLS * row + col) << 1)\<close> of a cell; its attribute byte follows.\<close>

definition cell :: "u32 \<Rightarrow> i32 \<Rightarrow> i32 \<Rightarrow> u32" where
  "cell base row col = base + of_int (2 * (80 * row + col))"

section \<open>Operations\<close>

definition set_cursor :: "i32 \<Rightarrow> i32 \<Rightarrow> 'a machine_scheme \<Rightarrow> 'a machine_scheme" where
  "set_cursor row col s =
     (let position = of_int (row * 80 + col) :: u16;
          s = outb 0x0F 0x3D4 s;
          s = outb (ucast (position AND 0xFF)) 0x3D5 s;
          s = outb 0x0E 0x3D4 s
      in outb (ucast (drop_bit 8 position AND 0xFF)) 0x3D5 s)"

definition clear_cell :: "u8 \<Rightarrow> mem \<Rightarrow> nat \<Rightarrow> mem" where
  "clear_cell col m i = m(video_mem + of_nat (2 * i) := 0x20, video_mem + of_nat (2 * i) + 1 := col)"

definition clear :: "'a console_scheme \<Rightarrow> 'a console_scheme" where
  "clear s =
     (let disp_idx = get_disp_terminal s;
          s = mask_irqs s;
          s = s\<lparr>ram := foldl (clear_cell (color disp_idx)) (ram s) [0..<25 * 80]\<rparr>;
          s = unmask_irqs s;
          s = set_cursor 0 0 s;
          s = s\<lparr>screen_x := (screen_x s)(disp_idx := 0)\<rparr>
      in s\<lparr>screen_y := (screen_y s)(disp_idx := 0)\<rparr>)"

text \<open>
  The loops of \<open>scroll\<close>: each cell takes the character below it and the terminal's colour.
  The loop over the last line clears the characters of row 24 but writes the colour bytes of
  row 23, as the source does.
\<close>

definition scroll_cell :: "u32 \<Rightarrow> u8 \<Rightarrow> nat \<Rightarrow> mem \<Rightarrow> nat \<Rightarrow> mem" where
  "scroll_cell base colr row m col =
     (let m = m(base + of_nat (2 * (80 * (row - 1) + col)) := m (base + of_nat (2 * (80 * row + col))))
      in m(base + of_nat (2 * (80 * (row - 1) + col)) + 1 := colr))"

definition scroll_row :: "u32 \<Rightarrow> u8 \<Rightarrow> mem \<Rightarrow> nat \<Rightarrow> mem" where
  "scroll_row base colr m row = foldl (scroll_cell base colr row) m [0..<80]"

definition scroll_last :: "u32 \<Rightarrow> u8 \<Rightarrow> mem \<Rightarrow> nat \<Rightarrow> mem" where
  "scroll_last base colr m col =
     (let row = 24; m = m(base + of_nat (2 * (80 * row + col)) := 0)
      in m(base + of_nat (2 * (80 * (row - 1) + col)) + 1 := colr))"

definition scroll_mem :: "u32 \<Rightarrow> u8 \<Rightarrow> mem \<Rightarrow> mem" where
  "scroll_mem base colr m =
     foldl (scroll_last base colr) (foldl (scroll_row base colr) m [1..<25]) [0..<80]"

definition scroll :: "u32 \<Rightarrow> 'a console_scheme \<Rightarrow> 'a console_scheme" where
  "scroll disp_terminal_on s =
     (let s = mask_irqs s;
          s = (if disp_terminal_on = 0 then
                 let t = scheduled_terminal s
                 in s\<lparr>ram := scroll_mem (video_mem_phys_addr t) (color t) (ram s)\<rparr>
               else s\<lparr>ram := scroll_mem video_mem (color (get_disp_terminal s)) (ram s)\<rparr>)
      in unmask_irqs s)"

text \<open>
  The two halves of \<open>putc\<close> are the same code, once for the scheduled terminal and its buffer
  and once for the displayed terminal and video memory; \<open>t\<close> is the terminal and \<open>base\<close> its
  memory.
\<close>

definition putc_newline :: "u32 \<Rightarrow> u8 \<Rightarrow> 'a console_scheme \<Rightarrow> 'a console_scheme" where
  "putc_newline on t s =
     (let s = s\<lparr>screen_y := (screen_y s)(t := screen_y s t + 1)\<rparr>;
          s = (if screen_y s t \<ge> 25 then
                 let s = scroll on s in s\<lparr>screen_y := (screen_y s)(t := 24)\<rparr>
               else s)
      in s\<lparr>screen_x := (screen_x s)(t := 0)\<rparr>)"

definition put_cell :: "u32 \<Rightarrow> u8 \<Rightarrow> u8 \<Rightarrow> 'a console_scheme \<Rightarrow> 'a console_scheme" where
  "put_cell base t c s =
     (let a = cell base (screen_y s t) (screen_x s t)
      in s\<lparr>ram := (ram s)(a := c, a + 1 := color t)\<rparr>)"

definition putc_char :: "u32 \<Rightarrow> u32 \<Rightarrow> u8 \<Rightarrow> u8 \<Rightarrow> 'a console_scheme \<Rightarrow> 'a console_scheme" where
  "putc_char on base t c s =
     (let s = put_cell base t c s;
          s = s\<lparr>screen_x := (screen_x s)(t := screen_x s t + 1)\<rparr>;
          s = (if screen_x s t div 80 > 0 then
                 let s = s\<lparr>screen_y := (screen_y s)(t := screen_y s t + 1)\<rparr>
                 in s\<lparr>screen_x := (screen_x s)(t := 0)\<rparr>
               else s)
      in if screen_y s t \<ge> 25 then
           let s = scroll on s in s\<lparr>screen_y := (screen_y s)(t := 24)\<rparr>
         else s)"

definition putc :: "u8 \<Rightarrow> u32 \<Rightarrow> 'a console_scheme \<Rightarrow> 'a console_scheme" where
  "putc c disp_terminal_on s =
     (let disp_idx = get_disp_terminal s;
          s = mask_irqs s;
          s = set_cursor (screen_y s disp_idx) (screen_x s disp_idx) s;
          s = (if disp_terminal_on = 0 then
                 let t = scheduled_terminal s
                 in if c = 10 \<or> c = 13 then putc_newline disp_terminal_on t s
                    else putc_char disp_terminal_on (video_mem_phys_addr t) t c s
               else
                 let s = (if c = 10 \<or> c = 13 then putc_newline disp_terminal_on disp_idx s
                          else putc_char disp_terminal_on video_mem disp_idx c s)
                 in set_cursor (screen_y s disp_idx) (screen_x s disp_idx) s)
      in unmask_irqs s)"

definition backspace :: "'a console_scheme \<Rightarrow> 'a console_scheme" where
  "backspace s =
     (let s = mask_irqs s;
          t = get_disp_terminal s;
          s = (if screen_x s t = 0 then
                 let s = s\<lparr>screen_y := (screen_y s)(t := screen_y s t - 1)\<rparr>
                 in s\<lparr>screen_x := (screen_x s)(t := 79)\<rparr>
               else s\<lparr>screen_x := (screen_x s)(t := screen_x s t - 1)\<rparr>);
          s = put_cell video_mem t 0x20 s;
          s = set_cursor (screen_y s t) (screen_x s t) s
      in unmask_irqs s)"

definition test_interrupts :: "'a console_scheme \<Rightarrow> 'a console_scheme" where
  "test_interrupts s =
     s\<lparr>ram := foldl (\<lambda>m i. m(video_mem + of_nat (2 * i) := m (video_mem + of_nat (2 * i)) + 1))
        (ram s) [0..<25 * 80]\<rparr>"

section \<open>Frames\<close>

lemma machine_ops_console [simp]:
  "screen_x (outb v p s) = screen_x s" "screen_y (outb v p s) = screen_y s"
  "disp_terminal (outb v p s) = disp_terminal s" "scheduled_terminal (outb v p s) = scheduled_terminal s"
  "console.more (outb v p s) = console.more s"
  "screen_x (cli s) = screen_x s" "screen_y (cli s) = screen_y s"
  "disp_terminal (cli s) = disp_terminal s" "scheduled_terminal (cli s) = scheduled_terminal s"
  "console.more (cli s) = console.more s"
  "screen_x (sti s) = screen_x s" "screen_y (sti s) = screen_y s"
  "disp_terminal (sti s) = disp_terminal s" "scheduled_terminal (sti s) = scheduled_terminal s"
  "console.more (sti s) = console.more s"
  by (simp_all add: outb_def cli_def sti_def)

lemma irq_ops_console [simp]:
  "screen_x (enable_irq n s) = screen_x s" "screen_y (enable_irq n s) = screen_y s"
  "disp_terminal (enable_irq n s) = disp_terminal s" "scheduled_terminal (enable_irq n s) = scheduled_terminal s"
  "console.more (enable_irq n s) = console.more s"
  "screen_x (disable_irq n s) = screen_x s" "screen_y (disable_irq n s) = screen_y s"
  "disp_terminal (disable_irq n s) = disp_terminal s" "scheduled_terminal (disable_irq n s) = scheduled_terminal s"
  "console.more (disable_irq n s) = console.more s"
  by (simp_all add: enable_irq_def disable_irq_def Let_def inb_def)

lemma bracket_console [simp]:
  "screen_x (mask_irqs s) = screen_x s" "screen_y (mask_irqs s) = screen_y s"
  "disp_terminal (mask_irqs s) = disp_terminal s" "scheduled_terminal (mask_irqs s) = scheduled_terminal s"
  "console.more (mask_irqs s) = console.more s"
  "screen_x (unmask_irqs s) = screen_x s" "screen_y (unmask_irqs s) = screen_y s"
  "disp_terminal (unmask_irqs s) = disp_terminal s" "scheduled_terminal (unmask_irqs s) = scheduled_terminal s"
  "console.more (unmask_irqs s) = console.more s"
  by (simp_all add: mask_irqs_def unmask_irqs_def)

lemma set_cursor_fields [simp]:
  "ram (set_cursor r c s) = ram s" "dev (set_cursor r c s) = dev s" "ifl (set_cursor r c s) = ifl s"
  "screen_x (set_cursor r c s) = screen_x s" "screen_y (set_cursor r c s) = screen_y s"
  "disp_terminal (set_cursor r c s) = disp_terminal s"
  "scheduled_terminal (set_cursor r c s) = scheduled_terminal s"
  "console.more (set_cursor r c s) = console.more s"
  by (simp_all add: set_cursor_def Let_def)

lemma set_cursor_port: "p \<noteq> 0x3D4 \<Longrightarrow> p \<noteq> 0x3D5 \<Longrightarrow> port (set_cursor r c s) p = port s p"
  by (simp add: set_cursor_def Let_def)

lemma scroll_fields [simp]:
  "screen_x (scroll on s) = screen_x s" "screen_y (scroll on s) = screen_y s"
  "disp_terminal (scroll on s) = disp_terminal s" "scheduled_terminal (scroll on s) = scheduled_terminal s"
  "dev (scroll on s) = dev s" "ifl (scroll on s) = True" "console.more (scroll on s) = console.more s"
  by (simp_all add: scroll_def Let_def)

section \<open>The effect of \<open>putc\<close>\<close>

text \<open>The terminal \<open>putc\<close> writes to, and the memory of its screen.\<close>

definition target :: "u32 \<Rightarrow> 'a console_scheme \<Rightarrow> u8" where
  "target on s = (if on = 0 then scheduled_terminal s else disp_terminal s)"

definition target_base :: "u32 \<Rightarrow> 'a console_scheme \<Rightarrow> u32" where
  "target_base on s = (if on = 0 then video_mem_phys_addr (scheduled_terminal s) else video_mem)"

definition is_newline :: "u8 \<Rightarrow> bool" where
  "is_newline c \<longleftrightarrow> c = 10 \<or> c = 13"

text \<open>Where the cursor \<open>(x, y)\<close> goes after a character, and when that scrolls the screen.\<close>

definition wraps :: "u8 \<Rightarrow> i32 \<Rightarrow> bool" where
  "wraps c x \<longleftrightarrow> is_newline c \<or> x \<ge> 79"

definition next_x :: "u8 \<Rightarrow> i32 \<Rightarrow> i32" where
  "next_x c x = (if wraps c x then 0 else x + 1)"

definition next_y :: "u8 \<Rightarrow> i32 \<Rightarrow> i32 \<Rightarrow> i32" where
  "next_y c x y = (if wraps c x then min (y + 1) 24 else y)"

definition drawn :: "u8 \<Rightarrow> u32 \<Rightarrow> u8 \<Rightarrow> i32 \<Rightarrow> i32 \<Rightarrow> mem \<Rightarrow> mem" where
  "drawn c base colr x y m =
     (let m = (if is_newline c then m else m(cell base y x := c, cell base y x + 1 := colr))
      in if wraps c x \<and> y \<ge> 24 then scroll_mem base colr m else m)"

lemma scroll_ram:
  "ram (scroll on s) = scroll_mem (target_base on s) (color (target on s)) (ram s)"
  by (simp add: scroll_def Let_def target_base_def target_def get_disp_terminal_def)

lemma put_cell_fields [simp]:
  "screen_x (put_cell b t c s) = screen_x s" "screen_y (put_cell b t c s) = screen_y s"
  "disp_terminal (put_cell b t c s) = disp_terminal s"
  "scheduled_terminal (put_cell b t c s) = scheduled_terminal s"
  "dev (put_cell b t c s) = dev s" "ifl (put_cell b t c s) = ifl s" "ioev (put_cell b t c s) = ioev s"
  "console.more (put_cell b t c s) = console.more s"
  "ram (put_cell b t c s) = (ram s)(cell b (screen_y s t) (screen_x s t) := c,
     cell b (screen_y s t) (screen_x s t) + 1 := color t)"
  by (simp_all add: put_cell_def Let_def)

lemma target_update [simp]:
  "target on (s\<lparr>ram := m\<rparr>) = target on s" "target on (s\<lparr>screen_x := f\<rparr>) = target on s"
  "target on (s\<lparr>screen_y := f\<rparr>) = target on s" "target on (mask_irqs s) = target on s"
  "target on (set_cursor r c s) = target on s" "target on (put_cell b t v s) = target on s"
  "target_base on (s\<lparr>ram := m\<rparr>) = target_base on s" "target_base on (s\<lparr>screen_x := f\<rparr>) = target_base on s"
  "target_base on (s\<lparr>screen_y := f\<rparr>) = target_base on s" "target_base on (mask_irqs s) = target_base on s"
  "target_base on (set_cursor r c s) = target_base on s"
  "target_base on (put_cell b t v s) = target_base on s"
  by (simp_all add: target_def target_base_def)

lemma putc_newline_effect:
  assumes "t = target on s" "screen_y s t < 25"
  shows "ram (putc_newline on t s) = drawn 10 (target_base on s) (color t) (screen_x s t) (screen_y s t) (ram s)"
    and "screen_x (putc_newline on t s) = (screen_x s)(t := 0)"
    and "screen_y (putc_newline on t s) = (screen_y s)(t := min (screen_y s t + 1) 24)"
  using assms by (auto simp: putc_newline_def Let_def drawn_def is_newline_def wraps_def scroll_ram)

lemma putc_char_effect:
  assumes "t = target on s" "base = target_base on s" "screen_y s t < 25" "0 \<le> screen_x s t" "\<not> is_newline c"
  shows "ram (putc_char on base t c s) = drawn c base (color t) (screen_x s t) (screen_y s t) (ram s)"
    and "screen_x (putc_char on base t c s) = (screen_x s)(t := next_x c (screen_x s t))"
    and "screen_y (putc_char on base t c s) = (screen_y s)(t := next_y c (screen_x s t) (screen_y s t))"
proof -
  have div: "(screen_x s t + 1) div 80 > 0 \<longleftrightarrow> screen_x s t \<ge> 79"
    using assms(4) by (simp add: pos_imp_zdiv_pos_iff)
  show "ram (putc_char on base t c s) = drawn c base (color t) (screen_x s t) (screen_y s t) (ram s)"
    using assms div by (auto simp: putc_char_def Let_def drawn_def wraps_def scroll_ram)
  show "screen_x (putc_char on base t c s) = (screen_x s)(t := next_x c (screen_x s t))"
    using assms div by (auto simp: putc_char_def Let_def next_x_def wraps_def)
  show "screen_y (putc_char on base t c s) = (screen_y s)(t := next_y c (screen_x s t) (screen_y s t))"
    using assms div by (auto simp: putc_char_def Let_def next_y_def wraps_def)
qed

lemma putc_branch_fields [simp]:
  "disp_terminal (putc_newline on t s) = disp_terminal s"
  "scheduled_terminal (putc_newline on t s) = scheduled_terminal s"
  "dev (putc_newline on t s) = dev s" "console.more (putc_newline on t s) = console.more s"
  "disp_terminal (putc_char on b t c s) = disp_terminal s"
  "scheduled_terminal (putc_char on b t c s) = scheduled_terminal s"
  "dev (putc_char on b t c s) = dev s" "console.more (putc_char on b t c s) = console.more s"
  by (simp_all add: putc_newline_def putc_char_def Let_def)

lemma putc_fields [simp]:
  "disp_terminal (putc c on s) = disp_terminal s" "scheduled_terminal (putc c on s) = scheduled_terminal s"
  "dev (putc c on s) = dev s" "ifl (putc c on s) = True" "console.more (putc c on s) = console.more s"
  by (simp_all add: putc_def Let_def)

definition cursor_ok :: "u8 \<Rightarrow> 'a console_scheme \<Rightarrow> bool" where
  "cursor_ok t s \<longleftrightarrow> 0 \<le> screen_x s t \<and> screen_x s t < 80 \<and> 0 \<le> screen_y s t \<and> screen_y s t < 25"

lemma putc_effect:
  assumes "cursor_ok t s" "t = target on s"
  shows "ram (putc c on s) = drawn c (target_base on s) (color t) (screen_x s t) (screen_y s t) (ram s)"
    and "screen_x (putc c on s) = (screen_x s)(t := next_x c (screen_x s t))"
    and "screen_y (putc c on s) = (screen_y s)(t := next_y c (screen_x s t) (screen_y s t))"
proof -
  let ?s = "set_cursor (screen_y s (disp_terminal s)) (screen_x s (disp_terminal s)) (mask_irqs s)"
  have nl: "drawn c b k x y m = drawn 10 b k x y m" "next_x c x = 0" "next_y c x y = min (y + 1) 24"
    if "c = 10 \<or> c = 13" for b k x y m
    using that by (auto simp: drawn_def is_newline_def wraps_def next_x_def next_y_def)
  have y: "screen_y s t < 25" and x: "0 \<le> screen_x s t" using assms(1) by (simp_all add: cursor_ok_def)
  note e = putc_newline_effect [of t on ?s] putc_char_effect [of t on ?s "target_base on s" c]
  have b: "target_base 0 s = video_mem_phys_addr (scheduled_terminal s)"
    "on \<noteq> 0 \<Longrightarrow> target_base on s = video_mem"
    "target 0 s = scheduled_terminal s" "on \<noteq> 0 \<Longrightarrow> target on s = disp_terminal s"
    by (simp_all add: target_base_def target_def)
  show "ram (putc c on s) = drawn c (target_base on s) (color t) (screen_x s t) (screen_y s t) (ram s)"
    using assms(2) e x y nl b
    by (cases "c = 10 \<or> c = 13"; cases "on = 0")
      (auto simp: putc_def Let_def is_newline_def get_disp_terminal_def)
  show "screen_x (putc c on s) = (screen_x s)(t := next_x c (screen_x s t))"
    using assms(2) e x y nl b
    by (cases "c = 10 \<or> c = 13"; cases "on = 0")
      (auto simp: putc_def Let_def is_newline_def get_disp_terminal_def)
  show "screen_y (putc c on s) = (screen_y s)(t := next_y c (screen_x s t) (screen_y s t))"
    using assms(2) e x y nl b
    by (cases "c = 10 \<or> c = 13"; cases "on = 0")
      (auto simp: putc_def Let_def is_newline_def get_disp_terminal_def)
qed

section \<open>The cursors stay on the screen\<close>

definition term_ok :: "'a console_scheme \<Rightarrow> bool" where
  "term_ok s \<longleftrightarrow> disp_terminal s < 3 \<and> scheduled_terminal s < 3"

definition screen_ok :: "'a console_scheme \<Rightarrow> bool" where
  "screen_ok s \<longleftrightarrow> term_ok s \<and> cursor_ok 0 s \<and> cursor_ok 1 s \<and> cursor_ok 2 s"

lemma u8_less_3: "(t :: u8) < 3 \<longleftrightarrow> t = 0 \<or> t = 1 \<or> t = 2"
  by unat_arith

lemma screen_ok_cursor: "screen_ok s \<Longrightarrow> t < 3 \<Longrightarrow> cursor_ok t s"
  by (auto simp: screen_ok_def u8_less_3)

lemma term_ok_target: "term_ok s \<Longrightarrow> target on s < 3"
  by (simp add: term_ok_def target_def)

lemma next_cursor_bounds:
  assumes "0 \<le> x" "x < 80" "0 \<le> y" "y < 25"
  shows "0 \<le> next_x c x" "next_x c x < 80" "0 \<le> next_y c x y" "next_y c x y < 25"
  using assms by (auto simp: next_x_def next_y_def wraps_def)

lemma putc_cursor_ok:
  assumes "cursor_ok (target on s) s" "cursor_ok t s"
  shows "cursor_ok t (putc c on s)"
  using assms putc_effect [OF assms(1) refl, of c]
    next_cursor_bounds [of "screen_x s (target on s)" "screen_y s (target on s)" c]
  by (auto simp: cursor_ok_def)

lemma putc_screen_ok [inv_intros]: "screen_ok s \<Longrightarrow> screen_ok (putc c on s)"
  using putc_cursor_ok [of on s] screen_ok_cursor [of s "target on s"] term_ok_target [of s on]
  by (simp add: screen_ok_def term_ok_def)

lemma clear_fields [simp]:
  "disp_terminal (clear s) = disp_terminal s" "scheduled_terminal (clear s) = scheduled_terminal s"
  "screen_x (clear s) = (screen_x s)(disp_terminal s := 0)"
  "screen_y (clear s) = (screen_y s)(disp_terminal s := 0)"
  "dev (clear s) = dev s" "ifl (clear s) = True" "console.more (clear s) = console.more s"
  by (simp_all add: clear_def Let_def get_disp_terminal_def)

lemma clear_screen_ok [inv_intros]: "screen_ok s \<Longrightarrow> screen_ok (clear s)"
  by (simp add: screen_ok_def term_ok_def cursor_ok_def)

section \<open>Scrolling\<close>

lemma scroll_cells_apply:
  assumes "1 \<le> row" "row \<le> 24"
  shows "n \<le> 80 \<Longrightarrow> k < 4294967296 \<Longrightarrow>
     foldl (scroll_cell base colr row) m [0..<n] (base + of_nat k) =
     (if 160 * (row - 1) \<le> k \<and> k < 160 * (row - 1) + 2 * n
      then if even k then m (base + of_nat (k + 160)) else colr
      else m (base + of_nat k))"
proof (induction n arbitrary: k)
  case (Suc n)
  let ?m = "foldl (scroll_cell base colr row) m [0..<n]"
  let ?d = "160 * (row - 1) + 2 * n" and ?e = "Suc (160 * (row - 1) + 2 * n)"
  have d: "2 * (80 * (row - 1) + n) = ?d" "2 * (80 * row + n) = ?d + 160"
    using assms(1) by (simp_all add: algebra_simps)
  have b: "?d < 4000" "?d + 160 < 4294967296" using assms Suc.prems by simp_all
  have src: "?m (base + of_nat (?d + 160)) = m (base + of_nat (?d + 160))"
    using Suc.IH [OF _ b(2)] Suc.prems(1) by simp
  have step: "foldl (scroll_cell base colr row) m [0..<Suc n] =
      ?m(base + of_nat ?d := m (base + of_nat (?d + 160)), base + of_nat ?e := colr)"
    unfolding upt_Suc_append [OF le0] foldl_append
    by (simp only: foldl.simps scroll_cell_def Let_def d src of_nat_Suc add.commute [of 1] add.assoc [symmetric])
  have eq: "base + of_nat k = base + of_nat j \<longleftrightarrow> k = j" if "j < 4294967296" for j
    using that Suc.prems(2) by (simp add: of_nat32_eq_iff)
  have range: "k = ?d \<or> k = ?e \<or> (k < ?d + 2 * 1 \<longleftrightarrow> k < ?d)" by linarith
  show ?case
    unfolding step fun_upd_apply using b eq [of ?d] eq [of ?e] Suc.IH [of k] Suc.prems range
    by (simp del: of_nat_add of_nat_mult of_nat_Suc)
qed auto

lemma scroll_rows_apply:
  "1 \<le> r \<Longrightarrow> r \<le> 25 \<Longrightarrow> k < 4294967296 \<Longrightarrow>
   foldl (scroll_row base colr) m [1..<r] (base + of_nat k) =
     (if k < 160 * (r - 1) then if even k then m (base + of_nat (k + 160)) else colr
      else m (base + of_nat k))"
proof (induction r arbitrary: k)
  case (Suc r)
  show ?case
  proof (cases "r = 0")
    case False
    let ?m = "foldl (scroll_row base colr) m [1..<r]"
    have below: "k + 160 < 4294967296" if "k < 160 * r" using that Suc.prems by linarith
    have "foldl (scroll_row base colr) m [1..<Suc r] (base + of_nat k) = scroll_row base colr ?m r (base + of_nat k)"
      using False by simp
    also have "\<dots> = (if 160 * (r - 1) \<le> k \<and> k < 160 * (r - 1) + 160
      then if even k then ?m (base + of_nat (k + 160)) else colr else ?m (base + of_nat k))"
      using scroll_cells_apply [of r 80 k base colr ?m] Suc.prems False
      by (simp add: scroll_row_def)
    also have "\<dots> = (if k < 160 * (Suc r - 1) then if even k then m (base + of_nat (k + 160)) else colr
      else m (base + of_nat k))"
      using Suc.IH [of k] Suc.IH [of "k + 160"] below Suc.prems False
      by (auto simp del: of_nat_add of_nat_mult)
    finally show ?thesis .
  qed simp
qed simp

text \<open>The contents of every byte after a scroll, relative to the base of the screen.\<close>

definition scrolled :: "u32 \<Rightarrow> u8 \<Rightarrow> mem \<Rightarrow> nat \<Rightarrow> u8" where
  "scrolled base colr m k =
     (if k < 3840 then if even k then m (base + of_nat (k + 160)) else colr
      else if k < 4000 \<and> even k then 0
      else m (base + of_nat k))"

lemma scroll_last_apply:
  "n \<le> 80 \<Longrightarrow> k < 4294967296 \<Longrightarrow>
   foldl (scroll_last base colr) m [0..<n] (base + of_nat k) =
     (if 3840 \<le> k \<and> k < 3840 + 2 * n \<and> even k then 0
      else if 3680 \<le> k \<and> k < 3680 + 2 * n \<and> odd k then colr
      else m (base + of_nat k))"
proof (induction n)
  case (Suc n)
  let ?m = "foldl (scroll_last base colr) m [0..<n]"
  have d: "2 * (80 * 24 + n) = 3840 + 2 * n" "2 * (80 * (24 - 1) + n) = 3680 + 2 * n" by simp_all
  have "foldl (scroll_last base colr) m [0..<Suc n] =
      ?m(base + of_nat (3840 + 2 * n) := 0, base + of_nat (Suc (3680 + 2 * n)) := colr)"
    unfolding upt_Suc_append [OF le0] foldl_append
    by (simp only: foldl.simps scroll_last_def Let_def d of_nat_Suc add.commute [of 1] add.assoc [symmetric])
  moreover have eq: "base + of_nat k = base + of_nat j \<longleftrightarrow> k = j" if "j < 4294967296" for j
    using that Suc.prems(2) by (simp add: of_nat32_eq_iff)
  moreover have "k = 3840 + 2 * n \<or> k = Suc (3840 + 2 * n) \<or> (k < 3840 + 2 * Suc n \<longleftrightarrow> k < 3840 + 2 * n)"
    and "k = 3680 + 2 * n \<or> k = Suc (3680 + 2 * n) \<or> (k < 3680 + 2 * Suc n \<longleftrightarrow> k < 3680 + 2 * n)"
    by auto
  ultimately show ?case
    using Suc.IH Suc.prems eq [of "3840 + 2 * n"] eq [of "Suc (3680 + 2 * n)"]
    by (auto simp del: of_nat_add of_nat_mult of_nat_Suc)
qed auto

lemma scroll_mem_apply:
  "k < 4294967296 \<Longrightarrow> scroll_mem base colr m (base + of_nat k) = scrolled base colr m k"
  using scroll_last_apply [of 80 k base colr "foldl (scroll_row base colr) m [1..<25]"]
    scroll_rows_apply [of 25 k base colr m]
  by (auto simp: scroll_mem_def scrolled_def simp del: of_nat_add of_nat_mult)

lemma scroll_mem_outside:
  assumes "\<not> in_region base 4000 x"
  shows "scroll_mem base colr m x = m x"
proof -
  have "x = base + of_nat (unat (x - base))" by simp
  then show ?thesis
    using scroll_mem_apply [of "unat (x - base)" base colr m] unat_lt_2p32 [of "x - base"] assms
    by (simp add: in_region_def scrolled_def)
qed

section \<open>Interrupt lines across screen output\<close>

lemma pic_ok_console_update [simp]:
  "pic_ok (s\<lparr>screen_x := f\<rparr>) = pic_ok s" "pic_ok (s\<lparr>screen_y := f\<rparr>) = pic_ok s"
  "pic_ok (set_cursor row col s) = pic_ok s" "pic_ok (put_cell b t c s) = pic_ok s"
  by (simp_all add: pic_ok_def set_cursor_port)

lemma scroll_lines:
  assumes "pic_ok s"
  shows "pic_ok (scroll on s)" "master_mask (scroll on s) = master_mask s AND NOT 3"
proof -
  let ?f = "\<lambda>s. if on = 0 then let t = scheduled_terminal s
      in s\<lparr>ram := scroll_mem (video_mem_phys_addr t) (color t) (ram s)\<rparr>
    else s\<lparr>ram := scroll_mem video_mem (color (get_disp_terminal s)) (ram s)\<rparr>"
  have "scroll on s = unmask_irqs (?f (mask_irqs s))"
    by (simp add: scroll_def Let_def)
  moreover have "pic_ok (?f (mask_irqs s))" "master_mask (?f (mask_irqs s)) = master_mask (mask_irqs s)"
    using mask_irqs_ok [OF assms] by (simp_all add: Let_def)
  ultimately show "pic_ok (scroll on s)" "master_mask (scroll on s) = master_mask s AND NOT 3"
    using critical_section [OF assms, of ?f] by simp_all
qed

text \<open>Keeping \<open>pic_ok\<close> and every master line but 0 and 1.\<close>

definition keeps_lines :: "'a machine_scheme \<Rightarrow> 'a machine_scheme \<Rightarrow> bool" where
  "keeps_lines s t \<longleftrightarrow> pic_ok t \<and> master_mask t AND NOT 3 = master_mask s AND NOT 3"

lemma putc_branch_lines:
  assumes "pic_ok s"
  shows "keeps_lines s (putc_newline on t s)" "keeps_lines s (putc_char on b t c s)"
  using assms
  by (auto simp: keeps_lines_def putc_newline_def putc_char_def Let_def scroll_lines and.assoc)

lemma putc_lines:
  assumes "pic_ok s"
  shows "pic_ok (putc c on s)" "master_mask (putc c on s) = master_mask s AND NOT 3"
    and "slave_mask (putc c on s) AND NOT 2 = master_mask s AND NOT 3"
proof -
  let ?f = "\<lambda>s. let disp_idx = disp_terminal s; s = set_cursor (screen_y s disp_idx) (screen_x s disp_idx) s
     in if on = 0 then let t = scheduled_terminal s
         in if c = 10 \<or> c = 13 then putc_newline on t s else putc_char on (video_mem_phys_addr t) t c s
        else let s = (if c = 10 \<or> c = 13 then putc_newline on disp_idx s
                      else putc_char on video_mem disp_idx c s)
         in set_cursor (screen_y s disp_idx) (screen_x s disp_idx) s"
  have eq: "putc c on s = unmask_irqs (?f (mask_irqs s))"
    by (simp add: putc_def Let_def get_disp_terminal_def)
  have "keeps_lines (mask_irqs s) (?f (mask_irqs s))"
    using mask_irqs_ok [OF assms]
    by (auto simp: Let_def keeps_lines_def set_cursor_port
        putc_branch_lines [unfolded keeps_lines_def, simplified])
  then show "pic_ok (putc c on s)" "master_mask (putc c on s) = master_mask s AND NOT 3"
    "slave_mask (putc c on s) AND NOT 2 = master_mask s AND NOT 3"
    using critical_section [OF assms, of ?f] by (simp_all add: eq keeps_lines_def)
qed

section \<open>The screen as a grid of characters\<close>

text \<open>
  The abstract screen of a terminal: the 2000 characters of its 25 rows with the cursor. A
  character is stored at the cursor, a line break or a full row moves to the next row, and on
  the last row the lines move up by one and a blank line appears.
\<close>

definition glyphs :: "mem \<Rightarrow> u32 \<Rightarrow> u8 list" where
  "glyphs m base = map (\<lambda>k. m (base + of_nat (2 * k))) [0..<2000]"

definition advance :: "u8 list \<Rightarrow> u8 list" where
  "advance g = drop 80 g @ replicate 80 0"

definition typed :: "u8 \<Rightarrow> u8 list \<times> i32 \<times> i32 \<Rightarrow> u8 list \<times> i32 \<times> i32" where
  "typed c = (\<lambda>(g, x, y).
     let g = (if is_newline c then g else g[nat (80 * y + x) := c])
     in (if wraps c x \<and> y \<ge> 24 then advance g else g, next_x c x, next_y c x y))"

definition screen_of :: "u8 \<Rightarrow> u32 \<Rightarrow> 'a console_scheme \<Rightarrow> u8 list \<times> i32 \<times> i32" where
  "screen_of t base s = (glyphs (ram s) base, screen_x s t, screen_y s t)"

lemma length_glyphs [simp]: "length (glyphs m base) = 2000"
  by (simp add: glyphs_def)

lemma nth_glyphs: "k < 2000 \<Longrightarrow> glyphs m base ! k = m (base + of_nat (2 * k))"
  by (simp add: glyphs_def)

lemma cell_of_nat:
  assumes "0 \<le> x" "0 \<le> y"
  shows "cell base y x = base + of_nat (2 * nat (80 * y + x))"
proof -
  have "2 * (80 * y + x) = int (2 * nat (80 * y + x))" using assms by simp
  then show ?thesis unfolding cell_def by (metis of_int_of_nat_eq)
qed

lemma glyphs_put:
  assumes "0 \<le> x" "x < 80" "0 \<le> y" "y < 25"
  shows "glyphs (m(cell base y x := c, cell base y x + 1 := colr)) base
    = (glyphs m base)[nat (80 * y + x) := c]"
proof (rule nth_equalityI)
  fix k assume "k < length (glyphs (m(cell base y x := c, cell base y x + 1 := colr)) base)"
  then have k: "k < 2000" by simp
  let ?n = "nat (80 * y + x)"
  have n: "?n < 2000" using assms by linarith
  have odd: "cell base y x + 1 = base + of_nat (Suc (2 * ?n))"
    using assms by (simp add: cell_of_nat)
  have "(base + of_nat (2 * k) = base + of_nat j) \<longleftrightarrow> 2 * k = j" if "j < 4294967296" for j
    using that k by (simp add: of_nat32_eq_iff del: of_nat_mult)
  from this [of "2 * ?n"] this [of "Suc (2 * ?n)"] n assms
  show "glyphs (m(cell base y x := c, cell base y x + 1 := colr)) base ! k
      = (glyphs m base)[nat (80 * y + x) := c] ! k"
    unfolding odd using k
    by (auto simp: nth_glyphs cell_of_nat nth_list_update simp del: of_nat_mult of_nat_Suc)
qed simp

lemma glyphs_scroll: "glyphs (scroll_mem base colr m) base = advance (glyphs m base)"
proof (rule nth_equalityI)
  fix k assume "k < length (glyphs (scroll_mem base colr m) base)"
  then have k: "k < 2000" by simp
  have "2 * (80 + k) = 2 * k + 160" by simp
  with k show "glyphs (scroll_mem base colr m) base ! k = advance (glyphs m base) ! k"
    using scroll_mem_apply [of "2 * k" base colr m]
    by (auto simp: nth_glyphs advance_def nth_append scrolled_def add.commute [of 160]
        simp del: of_nat_mult of_nat_add)
qed (simp add: advance_def)

lemma cell_in_screen:
  assumes "0 \<le> x" "x < 80" "0 \<le> y" "y < 25"
  shows "in_region base 4000 (cell base y x)" "in_region base 4000 (cell base y x + 1)"
proof -
  have "nat (80 * y + x) < 2000" using assms by linarith
  then show "in_region base 4000 (cell base y x)" "in_region base 4000 (cell base y x + 1)"
    using in_region_offset' [of "2 * nat (80 * y + x)" 4000 base]
      in_region_offset' [of "Suc (2 * nat (80 * y + x))" 4000 base] assms
    by (simp_all add: cell_of_nat add_ac)
qed

lemma drawn_outside:
  assumes "0 \<le> x" "x < 80" "0 \<le> y" "y < 25" "\<not> in_region base 4000 a"
  shows "drawn c base colr x y m a = m a"
proof -
  have "a \<noteq> cell base y x" "a \<noteq> cell base y x + 1" using cell_in_screen assms by blast+
  with assms(5) show ?thesis by (simp add: drawn_def Let_def scroll_mem_outside)
qed

lemma glyphs_drawn:
  assumes "0 \<le> x" "x < 80" "0 \<le> y" "y < 25"
  shows "(glyphs (drawn c base colr x y m) base, next_x c x, next_y c x y) = typed c (glyphs m base, x, y)"
  using assms by (simp add: drawn_def typed_def Let_def glyphs_scroll glyphs_put)

lemma putc_typed:
  assumes "screen_ok s"
  shows "screen_of (target on s) (target_base on s) (putc c on s)
    = typed c (screen_of (target on s) (target_base on s) s)"
proof -
  have c: "cursor_ok (target on s) s"
    using assms screen_ok_cursor term_ok_target by (metis screen_ok_def)
  then show ?thesis
    using putc_effect [OF c refl] glyphs_drawn by (simp add: screen_of_def cursor_ok_def)
qed

lemma putc_outside:
  assumes "screen_ok s" "\<not> in_region (target_base on s) 4000 a"
  shows "ram (putc c on s) a = ram s a"
proof -
  have c: "cursor_ok (target on s) s"
    using assms screen_ok_cursor term_ok_target by (metis screen_ok_def)
  then show ?thesis
    using putc_effect [OF c refl] drawn_outside assms(2) by (simp add: cursor_ok_def)
qed

text \<open>\<open>backspace\<close> moves back one cell, blanks it and stays there; at the first cell it would leave the screen.\<close>

lemma backspace_effect:
  assumes "cursor_ok t s" "t = disp_terminal s" "(screen_x s t, screen_y s t) \<noteq> (0, 0)"
  shows "screen_x (backspace s) t = (if screen_x s t = 0 then 79 else screen_x s t - 1)"
    and "screen_y (backspace s) t = (if screen_x s t = 0 then screen_y s t - 1 else screen_y s t)"
    and "cursor_ok t (backspace s)"
    and "80 * screen_y (backspace s) t + screen_x (backspace s) t = 80 * screen_y s t + screen_x s t - 1"
    and "glyphs (ram (backspace s)) video_mem = (glyphs (ram s) video_mem)
       [nat (80 * screen_y s t + screen_x s t - 1) := 0x20]"
proof -
  have x: "screen_x (backspace s) t = (if screen_x s t = 0 then 79 else screen_x s t - 1)"
    and y: "screen_y (backspace s) t = (if screen_x s t = 0 then screen_y s t - 1 else screen_y s t)"
    using assms(2) by (simp_all add: backspace_def Let_def get_disp_terminal_def)
  have m: "ram (backspace s) = (ram s)
      (cell video_mem (screen_y (backspace s) t) (screen_x (backspace s) t) := 0x20,
       cell video_mem (screen_y (backspace s) t) (screen_x (backspace s) t) + 1 := color t)"
    using assms(2) x y by (auto simp: backspace_def Let_def get_disp_terminal_def)
  show x': "screen_x (backspace s) t = (if screen_x s t = 0 then 79 else screen_x s t - 1)"
    and y': "screen_y (backspace s) t = (if screen_x s t = 0 then screen_y s t - 1 else screen_y s t)"
    by (fact x y)+
  show c: "cursor_ok t (backspace s)" and e: "80 * screen_y (backspace s) t + screen_x (backspace s) t
      = 80 * screen_y s t + screen_x s t - 1"
    using assms x y by (auto simp: cursor_ok_def)
  show "glyphs (ram (backspace s)) video_mem = (glyphs (ram s) video_mem)
      [nat (80 * screen_y s t + screen_x s t - 1) := 0x20]"
    using c unfolding m e [symmetric] cursor_ok_def by (simp add: glyphs_put)
qed

lemma backspace_fields [simp]:
  "disp_terminal (backspace s) = disp_terminal s" "scheduled_terminal (backspace s) = scheduled_terminal s"
  "dev (backspace s) = dev s" "ifl (backspace s) = True" "console.more (backspace s) = console.more s"
  "t \<noteq> disp_terminal s \<Longrightarrow> screen_x (backspace s) t = screen_x s t"
  "t \<noteq> disp_terminal s \<Longrightarrow> screen_y (backspace s) t = screen_y s t"
  by (simp_all add: backspace_def Let_def get_disp_terminal_def)

lemma backspace_screen_ok [inv_intros]:
  assumes "screen_ok s" "(screen_x s (disp_terminal s), screen_y s (disp_terminal s)) \<noteq> (0, 0)"
  shows "screen_ok (backspace s)"
proof -
  have "cursor_ok (disp_terminal s) (backspace s)"
    using assms backspace_effect(3) [OF _ refl] screen_ok_cursor by (metis screen_ok_def term_ok_def)
  moreover have "cursor_ok t s \<Longrightarrow> t \<noteq> disp_terminal s \<Longrightarrow> cursor_ok t (backspace s)" for t
    by (simp add: cursor_ok_def)
  ultimately have "cursor_ok t s \<Longrightarrow> cursor_ok t (backspace s)" for t by blast
  with assms(1) show ?thesis by (simp add: screen_ok_def term_ok_def)
qed

section \<open>Properties\<close>

text \<open>A kernel at the start of a screen whose memory is zero, with the latching controller, for the witnesses.\<close>

definition console_start :: "u8 \<Rightarrow> u8 \<Rightarrow> i32 \<Rightarrow> i32 \<Rightarrow> console" where
  "console_start d t x y =
     \<lparr>ram = \<lambda>_. 0, ioev = [Out 0x21 0xFB, Out 0xA1 0xFF], ifl = True, dev = latch_dev,
      master = 0xFB, slave = 0xFF, screen_x = \<lambda>_. x, screen_y = \<lambda>_. y,
      disp_terminal = d, scheduled_terminal = t\<rparr>"

lemma console_start_ok:
  "d < 3 \<Longrightarrow> t < 3 \<Longrightarrow> 0 \<le> x \<Longrightarrow> x < 80 \<Longrightarrow> 0 \<le> y \<Longrightarrow> y < 25 \<Longrightarrow> screen_ok (console_start d t x y)"
  "pic_ok (console_start d t x y)"
  by (simp_all add: console_start_def screen_ok_def term_ok_def cursor_ok_def pic_ok_def latch_dev_pic)

text \<open>
  C25: \<open>putc\<close> refines the abstract screen: on the screen of the terminal it writes to (the
  displayed one in video memory, or the scheduled one in its buffer) it types the character at
  the cursor, and no byte outside the 4000 bytes of that screen and no other terminal's cursor
  changes.
\<close>

theorem putc_refines_screen:
  assumes "screen_ok s"
  shows "screen_of (target on s) (target_base on s) (putc c on s)
      = typed c (screen_of (target on s) (target_base on s) s)
    \<and> (\<forall>a. in_region (target_base on s) 4000 a \<or> ram (putc c on s) a = ram s a)
    \<and> (\<forall>t. t = target on s \<or> screen_x (putc c on s) t = screen_x s t \<and> screen_y (putc c on s) t = screen_y s t)"
proof -
  have "cursor_ok (target on s) s"
    using assms screen_ok_cursor term_ok_target by (metis screen_ok_def)
  from putc_effect [OF this refl] show ?thesis
    using putc_typed [OF assms, of on c] putc_outside [OF assms, of on _ c]
    by (metis fun_upd_apply)
qed

theorem putc_refines_screen_witness:
  "screen_of 1 0xBC000 (putc 65 0 (console_start 0 1 79 24))
    = typed 65 (screen_of 1 0xBC000 (console_start 0 1 79 24))"
  using putc_refines_screen [OF console_start_ok(1) [of 0 1 79 24], of 0 65]
  by (simp add: target_def target_base_def console_start_def video_mem_phys_addr_def)

text \<open>
  The cursors of the three terminals stay on the screen: \<open>putc\<close> and \<open>clear\<close> keep every
  cursor inside the 25 rows of 80 cells, and so does \<open>backspace\<close> when the displayed
  terminal's cursor is not at the first cell.
\<close>

theorem cursors_on_screen:
  assumes "screen_ok s"
  shows "screen_ok (putc c on s) \<and> screen_ok (clear s)
    \<and> ((screen_x s (disp_terminal s), screen_y s (disp_terminal s)) = (0, 0) \<or> screen_ok (backspace s))"
  using assms by (auto intro: inv_intros)

theorem cursors_on_screen_witness: "screen_ok (putc 65 1 (console_start 2 0 79 24))"
  using cursors_on_screen [OF console_start_ok(1) [of 2 0 79 24]] by simp

text \<open>
  What \<open>scroll\<close> leaves in each byte of the screen: the characters of a row are those of
  the row below it and the last row is blank; the attribute bytes of the first 24 rows are the
  terminal's colour, but those of the last row keep their old value, since the loop over the last
  row writes the attributes of the row above. Nothing outside the screen changes.
\<close>

theorem scroll_contents:
  "(\<forall>k < 4000. ram (scroll on s) (target_base on s + of_nat k) =
      (if even k then if k < 3840 then ram s (target_base on s + of_nat (k + 160)) else 0
       else if k < 3840 then color (target on s) else ram s (target_base on s + of_nat k)))
   \<and> (\<forall>a. in_region (target_base on s) 4000 a \<or> ram (scroll on s) a = ram s a)"
  by (simp add: scroll_ram scroll_mem_apply scrolled_def del: of_nat_add)
    (blast intro: scroll_mem_outside)

theorem scroll_contents_witness:
  "ram (scroll 1 (console_start 1 0 0 24)) (0xB8000 + of_nat 3839) = 0xE
   \<and> ram (scroll 1 (console_start 1 0 0 24)) (0xB8000 + of_nat 3841) = 0"
  using scroll_contents [of 1 "console_start 1 0 0 24", THEN conjunct1, rule_format, of 3839]
    scroll_contents [of 1 "console_start 1 0 0 24", THEN conjunct1, rule_format, of 3841]
  by (simp add: target_def target_base_def console_start_def color_def)

text \<open>
  \<open>putc\<close> leaves the timer and keyboard lines open and every other line of the master
  controller as it found it, returns with interrupts enabled, and overwrites the lines 10 to 15
  of the slave controller by the lines 2 to 7 of the master.
\<close>

theorem putc_interrupt_lines:
  assumes "pic_ok s"
  shows "master_mask (putc c on s) = master_mask s AND NOT 3
    \<and> slave_mask (putc c on s) AND NOT 2 = master_mask s AND NOT 3
    \<and> ifl (putc c on s) \<and> pic_ok (putc c on s)"
  using putc_lines [OF assms] by simp

theorem putc_interrupt_lines_witness:
  "master_mask (putc 65 1 (console_start 0 0 0 0)) = 0xF8"
  using putc_interrupt_lines [OF console_start_ok(2), of 65 1 0 0 0 0]
  by (simp add: console_start_def)

end
