(* ===== verification/Paging.thy ===== *)
theory Paging
  imports Console
begin

text \<open>
  student-distrib/paging.c: the page directory and the two page tables, building them and
  changing single entries, and the address translation they stand for.

  Entries are 32-bit words; a bit-field assignment of the source is \<open>set_field\<close>. The tables are
  functions of the entry index; \<open>tlb\<close> is the copy of the three tables that the processor uses
  until the next load of CR3. \<open>ram\<close> is memory as the kernel addresses it. The addresses below
  8 MB map to themselves, so there it is physical memory; the 4 MB from 0x08000000 are the
  physical frame that entry 0x20 of the page directory selects. \<open>user_frames\<close> holds the contents
  of the frames that are not selected, and a load of CR3 that selects another frame swaps them.
\<close>

section \<open>State\<close>

type_synonym page_table = "u32 \<Rightarrow> u32"

record paging = console +
  pageDir :: page_table
  zeroToFourMBTable :: page_table
  videoMem_4kb_Page :: page_table
  tlb :: "page_table \<times> page_table \<times> page_table"
  user_frames :: "u32 \<Rightarrow> u32 \<Rightarrow> u8"
  cr0 :: u32
  cr3 :: u32
  cr4 :: u32

text \<open>A bit-field of \<open>w\<close> bits from bit \<open>p\<close> on.\<close>

definition set_field :: "nat \<Rightarrow> nat \<Rightarrow> u32 \<Rightarrow> u32 \<Rightarrow> u32" where
  "set_field p w v x = (x AND NOT (push_bit p (mask w))) OR push_bit p (v AND mask w)"

abbreviation "Present \<equiv> set_field 0 1"
abbreviation "ReadWrite \<equiv> set_field 1 1"
abbreviation "UserAccess \<equiv> set_field 2 1"
abbreviation "SPageSize \<equiv> set_field 7 1"
abbreviation "pageTablePhysAddr \<equiv> set_field 12 20"

abbreviation user_base :: u32 where
  "user_base \<equiv> 0x08000000"

abbreviation user_size :: nat where
  "user_size \<equiv> 4194304"

section \<open>Operations\<close>

text \<open>
  The frame that the copy of the page directory the processor uses selects for the user page,
  and the exchange of the contents of the user page when CR3 is loaded.
\<close>

definition pde_frame :: "u32 \<Rightarrow> u32 option" where
  "pde_frame pde = (if bit pde 0 \<and> bit pde 7 then Some (pde AND 0xFFC00000) else None)"

definition user_window :: "mem \<Rightarrow> u32 \<Rightarrow> u8" where
  "user_window m off = m (user_base + off)"

definition load_cr3 :: "u32 \<Rightarrow> 'a paging_scheme \<Rightarrow> 'a paging_scheme" where
  "load_cr3 v s =
     (let old = pde_frame (fst (tlb s) 0x20);
          new = pde_frame (pageDir s 0x20);
          s = s\<lparr>cr3 := v, tlb := (pageDir s, zeroToFourMBTable s, videoMem_4kb_Page s)\<rparr>;
          s = (case old of None \<Rightarrow> s
               | Some f \<Rightarrow> s\<lparr>user_frames := (user_frames s)(f := user_window (ram s))\<rparr>)
      in case new of None \<Rightarrow> s
         | Some f \<Rightarrow> s\<lparr>ram := \<lambda>a. if in_region user_base user_size a then user_frames s f (a - user_base)
                                 else ram s a\<rparr>)"

definition enablePaging :: "u32 \<Rightarrow> 'a paging_scheme \<Rightarrow> 'a paging_scheme" where
  "enablePaging pageDirAddr s =
     (let s = load_cr3 pageDirAddr s;
          s = s\<lparr>cr4 := cr4 s OR 0x10\<rparr>
      in s\<lparr>cr0 := cr0 s OR 0x80000000\<rparr>)"

definition flush :: "'a paging_scheme \<Rightarrow> 'a paging_scheme" where
  "flush s = load_cr3 (cr3 s) s"

definition set_kmalloc_page :: "page_table \<Rightarrow> nat \<Rightarrow> page_table" where
  "set_kmalloc_page pd i =
     (let n = 50 + of_nat i;
          pd = pd(n := Present 1 (pd n));
          pd = pd(n := ReadWrite 1 (pd n));
          pd = pd(n := UserAccess 1 (pd n));
          pd = pd(n := pageTablePhysAddr (push_bit 10 (drop_bit 22 (200 * 0x100000 + of_nat i * 0x400000))) (pd n))
      in pd(n := SPageSize 1 (pd n)))"

definition allocate_kmalloc_mem :: "'a paging_scheme \<Rightarrow> 'a paging_scheme" where
  "allocate_kmalloc_mem s = s\<lparr>pageDir := foldl set_kmalloc_page (pageDir s) [0..<10]\<rparr>"

definition set_video_page :: "u32 \<Rightarrow> u32 \<Rightarrow> page_table \<Rightarrow> page_table" where
  "set_video_page idx frame t =
     (let t = t(idx := pageTablePhysAddr frame (t idx));
          t = t(idx := Present 1 (t idx));
          t = t(idx := ReadWrite 1 (t idx))
      in t(idx := UserAccess 1 (t idx)))"

text \<open>\<open>dir\<close>, \<open>low\<close> and \<open>vid\<close> are the addresses the linker gives the three arrays.\<close>

definition pagingInit :: "u32 \<Rightarrow> u32 \<Rightarrow> u32 \<Rightarrow> 'a paging_scheme \<Rightarrow> 'a paging_scheme" where
  "pagingInit dir low vid s =
     (let s = s\<lparr>pageDir := foldl (\<lambda>t i. t(of_nat i := 0)) (pageDir s) [0..<1024]\<rparr>;
          s = s\<lparr>zeroToFourMBTable :=
            foldl (\<lambda>t i. t(of_nat i := of_nat (i * 4096) OR 3)) (zeroToFourMBTable s) [0..<1024]\<rparr>;
          s = s\<lparr>zeroToFourMBTable := (zeroToFourMBTable s)(0 := 0)\<rparr>;
          s = s\<lparr>pageDir := (pageDir s)(0 := low OR 3)\<rparr>;
          s = s\<lparr>pageDir := (pageDir s)(1 := 0x00400083)\<rparr>;
          s = s\<lparr>zeroToFourMBTable := (zeroToFourMBTable s)(0xB8 := 0xB8000 OR 7)\<rparr>;
          s = s\<lparr>zeroToFourMBTable := (zeroToFourMBTable s)(0xBA := 0xBA000 OR 7)\<rparr>;
          s = s\<lparr>zeroToFourMBTable := (zeroToFourMBTable s)(0xBC := 0xBC000 OR 7)\<rparr>;
          s = s\<lparr>zeroToFourMBTable := (zeroToFourMBTable s)(0xBE := 0xBE000 OR 7)\<rparr>;
          s = s\<lparr>pageDir := (pageDir s)(33 := pageTablePhysAddr (drop_bit 12 vid) (pageDir s 33))\<rparr>;
          s = s\<lparr>pageDir := (pageDir s)(33 := Present 1 (pageDir s 33))\<rparr>;
          s = s\<lparr>pageDir := (pageDir s)(33 := ReadWrite 1 (pageDir s 33))\<rparr>;
          s = s\<lparr>pageDir := (pageDir s)(33 := UserAccess 1 (pageDir s 33))\<rparr>;
          s = s\<lparr>pageDir := (pageDir s)(33 := SPageSize 0 (pageDir s 33))\<rparr>;
          s = s\<lparr>videoMem_4kb_Page := set_video_page 0xBA 0xB8 (videoMem_4kb_Page s)\<rparr>;
          s = s\<lparr>videoMem_4kb_Page := set_video_page 0xBC 0xBC (videoMem_4kb_Page s)\<rparr>;
          s = s\<lparr>videoMem_4kb_Page := set_video_page 0xBE 0xBE (videoMem_4kb_Page s)\<rparr>;
          s = allocate_kmalloc_mem s
      in enablePaging dir s)"

definition allocatePage :: "u32 \<Rightarrow> u32 \<Rightarrow> u32 \<Rightarrow> 'a paging_scheme \<Rightarrow> i32 \<times> 'a paging_scheme" where
  "allocatePage page_idx type phys_addr s =
     (let s = s\<lparr>pageDir := (pageDir s)(page_idx := Present 1 (pageDir s page_idx))\<rparr>;
          s = s\<lparr>pageDir := (pageDir s)(page_idx := ReadWrite 1 (pageDir s page_idx))\<rparr>;
          s = s\<lparr>pageDir := (pageDir s)(page_idx := UserAccess 1 (pageDir s page_idx))\<rparr>;
          s = s\<lparr>pageDir := (pageDir s)(page_idx :=
                 pageTablePhysAddr (push_bit 10 (drop_bit 22 phys_addr)) (pageDir s page_idx))\<rparr>;
          s = s\<lparr>pageDir := (pageDir s)(page_idx := SPageSize type (pageDir s page_idx))\<rparr>
      in (0, flush s))"

definition clearPage :: "u32 \<Rightarrow> 'a paging_scheme \<Rightarrow> i32 \<times> 'a paging_scheme" where
  "clearPage page_idx s =
     (let s = s\<lparr>pageDir := (pageDir s)(page_idx := 0)\<rparr> in (0, flush s))"

definition remap_video_memory :: "u8 \<Rightarrow> 'a paging_scheme \<Rightarrow> 'a paging_scheme" where
  "remap_video_memory new_terminal s =
     (let s = s\<lparr>zeroToFourMBTable := (zeroToFourMBTable s)
            (0xB8 + ucast new_terminal * 2 := (0xB8000 + 2 * 0x1000 * ucast new_terminal) OR 7)\<rparr>
      in flush s)"

definition vidmem_alloc :: "u32 \<Rightarrow> u32 \<Rightarrow> 'a paging_scheme \<Rightarrow> 'a paging_scheme" where
  "vidmem_alloc idx phys_addr s =
     (let s = s\<lparr>videoMem_4kb_Page := (videoMem_4kb_Page s)(idx := phys_addr OR 7)\<rparr> in flush s)"

section \<open>Address translation\<close>

text \<open>
  What the processor does with an address: \<open>user\<close> tells whether the access comes from user
  mode. \<open>low\<close> and \<open>vid\<close> are the addresses of the two page tables. This is the walk of a
  processor whose CR0 has paging on and whose CR4 has four-megabyte pages on, as \<open>pagingInit\<close>
  leaves them; every entry that the kernel makes is writable, so the ReadWrite bit decides nothing.
\<close>

definition walk :: "page_table \<times> page_table \<times> page_table \<Rightarrow> u32 \<Rightarrow> u32 \<Rightarrow> bool \<Rightarrow> u32 \<Rightarrow> u32 option" where
  "walk = (\<lambda>(pd, lt, vt) low vid user va.
     (let pde = pd (drop_bit 22 va)
      in if \<not> bit pde 0 \<or> (user \<and> \<not> bit pde 2) then None
         else if bit pde 7 then Some ((pde AND 0xFFC00000) OR (va AND 0x003FFFFF))
         else let idx = drop_bit 12 va AND 0x3FF;
                  pte = (if pde AND 0xFFFFF000 = low then lt idx
                         else if pde AND 0xFFFFF000 = vid then vt idx else 0)
              in if \<not> bit pte 0 \<or> (user \<and> \<not> bit pte 2) then None
                 else Some ((pte AND 0xFFFFF000) OR (va AND 0xFFF))))"

text \<open>The translation the tables describe, and the one the processor uses.\<close>

definition tables :: "'a paging_scheme \<Rightarrow> page_table \<times> page_table \<times> page_table" where
  "tables s = (pageDir s, zeroToFourMBTable s, videoMem_4kb_Page s)"

definition translate :: "u32 \<Rightarrow> u32 \<Rightarrow> bool \<Rightarrow> u32 \<Rightarrow> 'a paging_scheme \<Rightarrow> u32 option" where
  "translate low vid user va s = walk (tlb s) low vid user va"

definition tlb_coherent :: "'a paging_scheme \<Rightarrow> bool" where
  "tlb_coherent s \<longleftrightarrow> tlb s = tables s"

section \<open>Loading CR3\<close>

lemma bit_set_field:
  "n < 32 \<Longrightarrow> p + w \<le> 32 \<Longrightarrow> bit (set_field p w v x) n = (if p \<le> n \<and> n < p + w then bit v (n - p) else bit x n)"
  by (auto simp: set_field_def bit_simps)

lemma load_cr3_fields [simp]:
  "tlb (load_cr3 v s) = tables s" "tables (load_cr3 v s) = tables s"
  "pageDir (load_cr3 v s) = pageDir s" "zeroToFourMBTable (load_cr3 v s) = zeroToFourMBTable s"
  "videoMem_4kb_Page (load_cr3 v s) = videoMem_4kb_Page s" "cr3 (load_cr3 v s) = v"
  "ioev (load_cr3 v s) = ioev s" "ifl (load_cr3 v s) = ifl s" "dev (load_cr3 v s) = dev s"
  "screen_x (load_cr3 v s) = screen_x s" "screen_y (load_cr3 v s) = screen_y s"
  "disp_terminal (load_cr3 v s) = disp_terminal s" "scheduled_terminal (load_cr3 v s) = scheduled_terminal s"
  "paging.more (load_cr3 v s) = paging.more s"
  by (simp_all add: load_cr3_def Let_def tables_def split: option.splits)

definition selected :: "'a paging_scheme \<Rightarrow> u32 option" where
  "selected s = pde_frame (fst (tlb s) 0x20)"

definition frame_contents :: "u32 \<Rightarrow> 'a paging_scheme \<Rightarrow> u32 \<Rightarrow> u8" where
  "frame_contents f s off =
     (if off < 0x400000 then if selected s = Some f then user_window (ram s) off else user_frames s f off
      else 0)"

lemma selected_load_cr3 [simp]: "selected (load_cr3 v s) = pde_frame (pageDir s 0x20)"
  by (simp add: selected_def tables_def)

lemma frame_contents_load_cr3: "frame_contents f (load_cr3 v s) = frame_contents f s"
proof
  fix off
  have "off < 0x400000 \<longleftrightarrow> in_region user_base user_size (user_base + off)"
    by (simp add: in_region_def word_less_nat_alt)
  then show "frame_contents f (load_cr3 v s) off = frame_contents f s off"
    by (auto simp: frame_contents_def load_cr3_def selected_def Let_def user_window_def tables_def split: option.splits)
qed

lemma load_cr3_window:
  "selected (load_cr3 v s) = Some f \<Longrightarrow> off < 0x400000 \<Longrightarrow>
   user_window (ram (load_cr3 v s)) off = frame_contents f s off"
  using frame_contents_load_cr3 [of f v s] by (metis frame_contents_def)

lemma load_cr3_ram: "\<not> in_region user_base user_size a \<Longrightarrow> ram (load_cr3 v s) a = ram s a"
  by (simp add: load_cr3_def Let_def split: option.splits)

lemma foldl_upd_index:
  "n \<le> 4294967296 \<Longrightarrow>
   foldl (\<lambda>t i. t(of_nat i := g i)) t [0..<n] x = (if unat (x :: u32) < n then g (unat x) else t x)"
proof (induction n)
  case (Suc n)
  then have "x = of_nat n \<longleftrightarrow> unat x = n" using unat_of_nat32 [of n] by auto
  with Suc show ?case by auto
qed simp

lemma split_word: "(va :: u32) = push_bit n (drop_bit n va) OR take_bit n va"
  by (rule bit_word_eqI) (auto simp: bit_simps)

section \<open>Four-megabyte pages\<close>

text \<open>The entry that the bit-field assignments of \<open>allocatePage\<close> leave.\<close>

definition big_pde :: "u32 \<Rightarrow> u32 \<Rightarrow> u32 \<Rightarrow> u32" where
  "big_pde type phys x =
     SPageSize type (pageTablePhysAddr (push_bit 10 (drop_bit 22 phys))
       (UserAccess 1 (ReadWrite 1 (Present 1 x))))"

lemma big_pde_bits:
  "bit (big_pde type phys x) 0" "bit (big_pde type phys x) 1" "bit (big_pde type phys x) 2"
  "bit (big_pde type phys x) 7 = bit type 0"
  by (simp_all add: big_pde_def bit_set_field)

lemma big_pde_frame: "big_pde type phys x AND 0xFFC00000 = phys AND 0xFFC00000"
proof -
  have m: "(0xFFC00000 :: u32) = push_bit 22 (mask 10)" by (simp add: mask_eq_exp_minus_1)
  show ?thesis unfolding m
    by (rule bit_word_eqI) (auto simp: big_pde_def bit_set_field bit_simps)
qed

lemma allocatePage_eq:
  "allocatePage i type phys s = (0, flush (s\<lparr>pageDir := (pageDir s)(i := big_pde type phys (pageDir s i))\<rparr>))"
  by (simp add: allocatePage_def big_pde_def)

lemma walk_big:
  assumes "bit (pd (drop_bit 22 va)) 0" "bit (pd (drop_bit 22 va)) 7" "user \<longrightarrow> bit (pd (drop_bit 22 va)) 2"
  shows "walk (pd, lt, vt) low vid user va = Some ((pd (drop_bit 22 va) AND 0xFFC00000) OR (va AND 0x003FFFFF))"
  using assms by (simp add: walk_def Let_def)

lemma allocatePage_walk:
  assumes "bit type 0"
  shows "translate low vid user va (snd (allocatePage i type phys s)) =
    (if drop_bit 22 va = i then Some ((phys AND 0xFFC00000) OR (va AND 0x003FFFFF))
     else walk (tables s) low vid user va)"
  using assms walk_big [of "(pageDir s)(i := big_pde type phys (pageDir s i))" va user]
  by (simp add: translate_def allocatePage_eq flush_def tables_def big_pde_bits big_pde_frame)
    (simp add: walk_def)

lemma foldl_upd_other:
  "(\<And>i. i < n \<Longrightarrow> x \<noteq> k i) \<Longrightarrow> foldl (\<lambda>t i. t(k i := g i (t (k i)))) t [0..<n] x = t x"
  by (induction n) auto

lemma foldl_upd_same:
  assumes "inj_on k {0..<n}"
  shows "i < n \<Longrightarrow> foldl (\<lambda>t i. t(k i := g i (t (k i)))) t [0..<n] (k i) = g i (t (k i))"
  using assms
proof (induction n)
  case (Suc n)
  have "k n \<noteq> k j" if "j < n" for j using Suc.prems(2) that by (metis atLeastLessThan_iff inj_onD le0 lessI less_SucI less_irrefl)
  then have other: "foldl (\<lambda>t i. t(k i := g i (t (k i)))) t [0..<n] (k n) = t (k n)"
    by (rule foldl_upd_other)
  let ?F = "foldl (\<lambda>t i. t(k i := g i (t (k i)))) t [0..<n]"
  have step: "foldl (\<lambda>t i. t(k i := g i (t (k i)))) t [0..<Suc n] = ?F(k n := g n (t (k n)))"
    using other by (simp del: fun_upd_apply)
  have "inj_on k {0..<n}" using Suc.prems(2) by (auto simp: inj_on_def)
  then have IH: "i < n \<Longrightarrow> ?F (k i) = g i (t (k i))" by (rule Suc.IH [rotated])
  have "i < n \<Longrightarrow> k i \<noteq> k n"
    using Suc.prems(2) by (metis atLeastLessThan_iff inj_onD le0 lessI less_SucI less_irrefl)
  with IH Suc.prems(1) show ?case unfolding step by (cases "i = n") auto
qed simp

abbreviation kmalloc_frame :: "nat \<Rightarrow> u32" where
  "kmalloc_frame i \<equiv> 200 * 0x100000 + of_nat i * 0x400000"

lemma set_kmalloc_page_eq:
  "set_kmalloc_page pd i = pd(50 + of_nat i := big_pde 1 (kmalloc_frame i) (pd (50 + of_nat i)))"
  by (simp add: set_kmalloc_page_def big_pde_def Let_def)

lemma kmalloc_pages:
  "foldl set_kmalloc_page pd [0..<10] x =
     (if 50 \<le> x \<and> x < 60 then big_pde 1 (push_bit 22 x) (pd x) else pd x)"
proof (cases "50 \<le> x \<and> x < 60")
  case True
  let ?i = "unat (x - 50)"
  have i: "?i < 10" and x: "x = 50 + of_nat ?i" using True by unat_arith simp
  have inj: "inj_on (\<lambda>i. 50 + of_nat i :: u32) {0..<10}"
    by (auto simp: inj_on_def of_nat32_eq_iff)
  have "kmalloc_frame ?i = push_bit 22 x"
    by (simp add: push_bit_eq_mult algebra_simps)
  with True i x foldl_upd_same [OF inj i, of "\<lambda>i. big_pde 1 (kmalloc_frame i)" pd]
  show ?thesis by (simp add: set_kmalloc_page_eq [abs_def])
next
  case False
  have "x \<noteq> 50 + of_nat i" if "i < 10" for i
  proof
    assume "x = 50 + of_nat i"
    then have "unat x = 50 + i" using that by (simp add: unat_word_ariths unat_of_nat32)
    then show False using False that by (simp add: word_less_nat_alt word_le_nat_alt)
  qed
  with False foldl_upd_other [of 10 x "\<lambda>i. 50 + of_nat i" "\<lambda>i. big_pde 1 (kmalloc_frame i)" pd]
  show ?thesis by (auto simp: set_kmalloc_page_eq [abs_def])
qed

section \<open>The address space after boot\<close>

text \<open>
  The address space after boot: the first page faults, the rest of the first 8 MB is the
  kernel's and maps to itself, three user pages map to the screen and the two screen buffers,
  and the 40 MB from 200 MB on, left to the allocator, map to themselves for everyone.
\<close>

definition boot_map :: "bool \<Rightarrow> u32 \<Rightarrow> u32 option" where
  "boot_map user va =
     (if va < 0x1000 then None
      else if va < 0x800000 then (if user then None else Some va)
      else if 0x84BA000 \<le> va \<and> va < 0x84BB000 then Some (va - 0x84BA000 + 0xB8000)
      else if 0x84BC000 \<le> va \<and> va < 0x84BD000 then Some (va - 0x84BC000 + 0xBC000)
      else if 0x84BE000 \<le> va \<and> va < 0x84BF000 then Some (va - 0x84BE000 + 0xBE000)
      else if 0xC800000 \<le> va \<and> va < 0xF000000 then Some va
      else None)"

lemma take_bit_and: "va AND 0x003FFFFF = take_bit 22 (va :: u32)" "va AND 0xFFF = take_bit 12 va"
  "va AND 0x3FF = take_bit 10 va" "va AND 0xFFC00000 = push_bit 22 (drop_bit 22 va)"
  "va AND 0xFFFFF000 = push_bit 12 (drop_bit 12 va)"
proof -
  have m: "(0x003FFFFF :: u32) = mask 22" "(0xFFF :: u32) = mask 12" "(0x3FF :: u32) = mask 10"
    "(0xFFC00000 :: u32) = push_bit 22 (mask 10)" "(0xFFFFF000 :: u32) = push_bit 12 (mask 20)"
    by (simp_all add: mask_eq_exp_minus_1)
  show "va AND 0x003FFFFF = take_bit 22 (va :: u32)" "va AND 0xFFF = take_bit 12 va"
    "va AND 0x3FF = take_bit 10 va" "va AND 0xFFC00000 = push_bit 22 (drop_bit 22 va)"
    "va AND 0xFFFFF000 = push_bit 12 (drop_bit 12 va)"
    unfolding m by (rule bit_word_eqI; auto simp: bit_simps)+
qed

text \<open>The page directory and the tables after boot.\<close>

definition boot_dir :: "u32 \<Rightarrow> u32 \<Rightarrow> page_table" where
  "boot_dir low vid x =
     (if x = 0 then low OR 3 else if x = 1 then 0x00400083
      else if x = 33 then (vid AND 0xFFFFF000) OR 7
      else if 50 \<le> x \<and> x < 60 then push_bit 22 x OR 0x87
      else 0)"

definition boot_low :: page_table where
  "boot_low x = (if x = 0 then 0
     else if x = 0xB8 \<or> x = 0xBA \<or> x = 0xBC \<or> x = 0xBE then push_bit 12 x OR 7
     else push_bit 12 x OR 3)"

definition boot_vid :: page_table where
  "boot_vid x = (if x = 0xBA then 0xB8007 else if x = 0xBC then 0xBC007
     else if x = 0xBE then 0xBE007 else 0)"

lemma big_pde_zero: "big_pde 1 (push_bit 22 x) 0 = push_bit 22 x OR 0x87"
proof -
  have m: "(0x87 :: u32) = mask 3 OR 2 ^ 7" by (simp add: mask_eq_exp_minus_1)
  show ?thesis unfolding m
    by (rule bit_word_eqI) (auto simp: big_pde_def bit_set_field bit_simps simp del: power_numeral)
qed

lemma video_pde: "SPageSize 0 (UserAccess 1 (ReadWrite 1 (Present 1 (pageTablePhysAddr (drop_bit 12 vid) 0))))
    = (vid AND 0xFFFFF000) OR 7"
proof -
  have m: "(7 :: u32) = mask 3" by (simp add: mask_eq_exp_minus_1)
  show ?thesis unfolding m take_bit_and
    by (rule bit_word_eqI) (auto simp: bit_set_field bit_simps)
qed

lemma set_video_page_eq:
  "set_video_page idx frame t = t(idx := UserAccess 1 (ReadWrite 1 (Present 1 (pageTablePhysAddr frame (t idx)))))"
  by (simp add: set_video_page_def Let_def)

lemma pagingInit_dir:
  "\<forall>x < 1024. pageDir (pagingInit dir low vid s) x = boot_dir low vid x"
proof (intro allI impI)
  fix x :: u32 assume "x < 1024"
  then have z: "foldl (\<lambda>t i. t(of_nat i := 0)) (pageDir s) [0..<1024] x = 0"
    using foldl_upd_index [of 1024 "\<lambda>_. 0" "pageDir s" x] by (simp add: word_less_nat_alt)
  have z33: "foldl (\<lambda>t i. t(of_nat i := 0)) (pageDir s) [0..<1024] 33 = 0"
    using foldl_upd_index [of 1024 "\<lambda>_. 0" "pageDir s" 33] by simp
  have "\<not> (50 \<le> x \<and> x < 60 \<and> (x = 0 \<or> x = 1 \<or> x = 33))" by unat_arith
  then show "pageDir (pagingInit dir low vid s) x = boot_dir low vid x"
    by (auto simp: pagingInit_def enablePaging_def Let_def allocate_kmalloc_mem_def kmalloc_pages
        boot_dir_def z z33 video_pde [unfolded One_nat_def] big_pde_zero simp del: fun_upd_apply)
      (auto simp: z z33 video_pde [unfolded One_nat_def] big_pde_zero)
qed

lemma boot_low_index: "of_nat (unat x * 4096) OR 3 = push_bit 12 x OR (3 :: u32)"
  by (simp add: push_bit_eq_mult)

lemma pagingInit_low:
  "\<forall>x < 1024. zeroToFourMBTable (pagingInit dir low vid s) x = boot_low x"
proof (intro allI impI)
  fix x :: u32 assume "x < 1024"
  then have "foldl (\<lambda>t i. t(of_nat i := of_nat (i * 4096) OR 3)) (zeroToFourMBTable s) [0..<1024] x
      = push_bit 12 x OR 3"
    using foldl_upd_index [of 1024 "\<lambda>i. of_nat (i * 4096) OR 3" "zeroToFourMBTable s" x]
    unfolding boot_low_index by (simp add: word_less_nat_alt)
  moreover have "push_bit 12 0xB8 OR 7 = (0xB8007 :: u32)" "push_bit 12 0xBA OR 7 = (0xBA007 :: u32)"
    "push_bit 12 0xBC OR 7 = (0xBC007 :: u32)" "push_bit 12 0xBE OR 7 = (0xBE007 :: u32)"
    by simp_all
  ultimately show "zeroToFourMBTable (pagingInit dir low vid s) x = boot_low x"
    by (auto simp: pagingInit_def enablePaging_def Let_def allocate_kmalloc_mem_def boot_low_def
        simp del: of_nat_mult push_bit_numeral)
qed

lemma pagingInit_vid:
  assumes "videoMem_4kb_Page s = (\<lambda>_. 0)"
  shows "videoMem_4kb_Page (pagingInit dir low vid s) = boot_vid"
proof -
  have "UserAccess 1 (ReadWrite 1 (Present 1 (pageTablePhysAddr 0xB8 0))) = 0xB8007"
    "UserAccess 1 (ReadWrite 1 (Present 1 (pageTablePhysAddr 0xBC 0))) = 0xBC007"
    "UserAccess 1 (ReadWrite 1 (Present 1 (pageTablePhysAddr 0xBE 0))) = 0xBE007"
    by (simp_all add: set_field_def mask_eq_exp_minus_1)
  then show ?thesis
    by (auto simp: pagingInit_def enablePaging_def Let_def allocate_kmalloc_mem_def boot_vid_def
        set_video_page_eq assms)
qed

lemma pagingInit_tables:
  "tlb (pagingInit dir low vid s) = tables (pagingInit dir low vid s)"
  by (simp add: pagingInit_def enablePaging_def Let_def tables_def)

lemma aligned_table:
  assumes "low AND 0xFFF = (0 :: u32)"
  shows "bit (low OR 3) 0" "\<not> bit (low OR 3) 2" "\<not> bit (low OR 3) 7" "(low OR 3) AND 0xFFFFF000 = low"
    "low AND 0xFFFFF000 = low" "bit (low OR 7) 0" "bit (low OR 7) 2" "\<not> bit (low OR 7) 7"
    "(low OR 7) AND 0xFFFFF000 = low"
proof -
  have b: "\<not> bit low n" if "n < 12" for n
    using assms that unfolding take_bit_and by (metis bit_0_eq bit_take_bit_iff bot_apply bot_bool_def)
  have m: "(3 :: u32) = mask 2" "(7 :: u32) = mask 3" by (simp_all add: mask_eq_exp_minus_1)
  show "bit (low OR 3) 0" "\<not> bit (low OR 3) 2" "\<not> bit (low OR 3) 7"
    "bit (low OR 7) 0" "bit (low OR 7) 2" "\<not> bit (low OR 7) 7"
    using b unfolding m by (simp_all add: bit_simps)
  show "(low OR 3) AND 0xFFFFF000 = low" "low AND 0xFFFFF000 = low" "(low OR 7) AND 0xFFFFF000 = low"
    using b unfolding m take_bit_and
    by (auto intro!: bit_word_eqI simp: bit_simps) (metis not_less le_add_diff_inverse)+
qed

lemma push_take: "push_bit n (drop_bit n va) OR take_bit n va = (va :: u32)"
  "push_bit n a OR take_bit n b = push_bit n a + take_bit n (b :: u32)"
proof -
  show "push_bit n (drop_bit n va) OR take_bit n va = va" using split_word [of va n] by simp
  have "push_bit n a AND take_bit n b = 0" by (rule bit_word_eqI) (auto simp: bit_simps)
  then show "push_bit n a OR take_bit n b = push_bit n a + take_bit n b"
    by (simp add: disjunctive_add_eq_or)
qed

lemma unat_drop22: "unat (drop_bit 22 (va :: u32)) = unat va div 4194304"
  and unat_drop12: "unat (drop_bit 12 (va :: u32)) = unat va div 4096"
  by (simp_all add: drop_bit_eq_div unat_div)

lemma drop12_index: "unat (take_bit 10 (drop_bit 12 (va :: u32))) = unat va div 4096 mod 1024"
  by (simp add: unsigned_take_bit_eq unat_drop12 flip: take_bit_eq_mod) (simp add: take_bit_eq_mod)

lemma boot_low_bits:
  "bit (boot_low i) 0 \<longleftrightarrow> i \<noteq> 0" "i \<noteq> 0 \<Longrightarrow> boot_low i AND 0xFFFFF000 = push_bit 12 (take_bit 20 i)"
proof -
  have m: "(3 :: u32) = mask 2" "(7 :: u32) = mask 3" by (simp_all add: mask_eq_exp_minus_1)
  have "bit (push_bit 12 i OR mask k) 0" "(push_bit 12 i OR mask k) AND 0xFFFFF000 = push_bit 12 (take_bit 20 i)"
    if "k = 2 \<or> k = 3" for k
    using that unfolding take_bit_and by (auto intro!: bit_word_eqI simp: bit_simps)
  from this [of 2] this [of 3] show "bit (boot_low i) 0 \<longleftrightarrow> i \<noteq> 0"
    "i \<noteq> 0 \<Longrightarrow> boot_low i AND 0xFFFFF000 = push_bit 12 (take_bit 20 i)"
    unfolding boot_low_def m by auto
qed


lemma video_window:
  assumes "drop_bit 22 va = (33 :: u32)"
  shows "va \<ge> 0x8400000" "va < 0x8800000"
    "take_bit 10 (drop_bit 12 va) = 0xBA \<longleftrightarrow> 0x84BA000 \<le> va \<and> va < 0x84BB000"
    "take_bit 10 (drop_bit 12 va) = 0xBC \<longleftrightarrow> 0x84BC000 \<le> va \<and> va < 0x84BD000"
    "take_bit 10 (drop_bit 12 va) = 0xBE \<longleftrightarrow> 0x84BE000 \<le> va \<and> va < 0x84BF000"
proof -
  have d: "unat va div 4194304 = 33" using assms unat_drop22 [of va] by simp
  define m where "m = unat va - 138412032"
  have m: "unat va = 138412032 + m" "m < 4194304" using d unfolding m_def by linarith+
  have "(m + 33792 * 4096) div 4096 = 33792 + m div 4096" by (rule div_mult_self1) simp
  moreover have "m + 33792 * 4096 = 138412032 + m" by simp
  ultimately have q: "(138412032 + m) div 4096 = m div 4096 + 33 * 1024" by simp
  have "m div 4096 < 1024" using m(2) by (simp add: less_mult_imp_div_less)
  then have i: "unat (take_bit 10 (drop_bit 12 va)) = m div 4096"
    unfolding drop12_index m(1) q mod_mult_self1 by simp
  show "va \<ge> 0x8400000" "va < 0x8800000"
    using m by (simp_all add: word_le_nat_alt word_less_nat_alt)
  have r: "take_bit 10 (drop_bit 12 va) = k \<longleftrightarrow> 138412032 + unat k * 4096 \<le> unat va
       \<and> unat va < 138412032 + unat k * 4096 + 4096" for k
    unfolding word_unat_eq_iff i m(1) by auto
  from r [of "0xBA"] r [of "0xBC"] r [of "0xBE"]
  show "take_bit 10 (drop_bit 12 va) = 0xBA \<longleftrightarrow> 0x84BA000 \<le> va \<and> va < 0x84BB000"
    "take_bit 10 (drop_bit 12 va) = 0xBC \<longleftrightarrow> 0x84BC000 \<le> va \<and> va < 0x84BD000"
    "take_bit 10 (drop_bit 12 va) = 0xBE \<longleftrightarrow> 0x84BE000 \<le> va \<and> va < 0x84BF000"
    by (simp_all add: word_le_nat_alt word_less_nat_alt)
qed

lemma walk_boot:
  assumes pd: "\<forall>x < 1024. pd x = boot_dir low vid x" and lt: "\<forall>x < 1024. lt x = boot_low x"
    and low: "low AND 0xFFF = 0" and vid: "vid AND 0xFFF = 0" and "low \<noteq> vid"
  shows "walk (pd, lt, boot_vid) low vid user va = boot_map user va"
proof -
  let ?x = "drop_bit 22 va" and ?i = "take_bit 10 (drop_bit 12 va)"
  have x: "?x < 1024" using unat_lt_2p32 [of va] by (simp add: word_less_nat_alt unat_drop22)
  have i: "?i < 1024" using unat_lt_2p32 [of va] by (simp add: word_less_nat_alt drop12_index)
  have va: "va = push_bit 22 ?x + take_bit 22 va" using push_take by metis
  consider "?x = 0" | "?x = 1" | "?x = 33" | "50 \<le> ?x" "?x < 60"
    | "?x \<noteq> 0" "?x \<noteq> 1" "?x \<noteq> 33" "\<not> (50 \<le> ?x \<and> ?x < 60)" by blast
  then show ?thesis
  proof cases
    case 1
    then have small: "unat va < 4194304" by (metis unat_drop22 unat_0 div_eq_0_iff zero_neq_numeral)
    have idx: "?i = drop_bit 12 va"
      by (rule word_unat_eq_iff [THEN iffD2]) (use small in \<open>simp add: drop12_index unat_drop12\<close>)
    have z: "?i = 0 \<longleftrightarrow> va < 0x1000"
      using small by (simp add: unat_eq_zero [symmetric] drop12_index word_less_nat_alt) auto
    have "take_bit 20 ?i = ?i" by (rule bit_word_eqI) (auto simp: bit_simps)
    then have "lt ?i = boot_low ?i" "?i \<noteq> 0 \<Longrightarrow> (lt ?i AND 0xFFFFF000) OR take_bit 12 va = va"
      using i lt boot_low_bits(2) [of ?i] push_take(1) [of 12 va] idx by auto
    moreover have "pd 0 = low OR 3" using pd by (simp add: boot_dir_def)
    moreover have "va < 0x800000" using small by (simp add: word_less_nat_alt)
    ultimately show ?thesis
      using z 1 aligned_table [OF low] boot_low_bits(1) [of ?i]
      by (auto simp: walk_def Let_def boot_map_def take_bit_and)
  next
    case 2
    have pd1: "pd 1 = 0x00400083" using pd by (simp add: boot_dir_def)
    have "unat va div 4194304 = 1" using 2 by (metis unat_drop22 unat_1)
    then have "\<not> va < 0x1000" "va < 0x800000" by (auto simp: word_less_nat_alt)
    moreover have "0x400000 OR take_bit 22 va = va" using push_take(1) [of 22 va] 2 by simp
    ultimately show ?thesis
      using 2 pd1 by (simp add: walk_def Let_def boot_map_def) (simp add: take_bit_and)
  next
    case 3
    have d: "unat va div 4194304 = 33" using 3 unat_drop22 [of va] by simp
    have off: "take_bit 12 va = va - push_bit 12 (0x8400 + k)" if "?i = k" for k
    proof -
      have "drop_bit 12 va = push_bit 10 ?x + ?i"
        using push_take(1) [of 10 "drop_bit 12 va"] push_take(2) [of 10 ?x "drop_bit 12 va"]
        by (simp add: drop_bit_drop_bit)
      moreover have "va = push_bit 12 (drop_bit 12 va) + take_bit 12 va"
        using push_take(1) [of 12 va] push_take(2) [of 12 "drop_bit 12 va" va] by simp
      ultimately have "va = push_bit 12 (push_bit 10 ?x + k) + take_bit 12 va"
        using that by simp
      then show ?thesis using 3 by (simp add: algebra_simps)
    qed
    have pde: "pd 33 = vid OR 7"
      using pd aligned_table(5) [OF vid] by (simp add: boot_dir_def)
    have frame: "0xB8000 OR take_bit 12 va = take_bit 12 va + 0xB8000"
      "0xBC000 OR take_bit 12 va = take_bit 12 va + 0xBC000"
      "0xBE000 OR take_bit 12 va = take_bit 12 va + 0xBE000"
      using push_take(2) [of 12 "0xB8" va] push_take(2) [of 12 "0xBC" va] push_take(2) [of 12 "0xBE" va]
      by (simp_all add: add.commute)
    have "walk (pd, lt, boot_vid) low vid user va =
        (if \<not> bit (boot_vid ?i) 0 \<or> (user \<and> \<not> bit (boot_vid ?i) 2) then None
         else Some ((boot_vid ?i AND 0xFFFFF000) OR take_bit 12 va))"
      using 3 pde \<open>low \<noteq> vid\<close> aligned_table [OF vid] by (simp add: walk_def Let_def take_bit_and)
    also have "\<dots> = (if ?i = 0xBA then Some (take_bit 12 va + 0xB8000)
        else if ?i = 0xBC then Some (take_bit 12 va + 0xBC000)
        else if ?i = 0xBE then Some (take_bit 12 va + 0xBE000) else None)"
      using frame by (simp add: boot_vid_def)
    also have "\<dots> = boot_map user va"
      using video_window [OF 3] off [of "0xBA"] off [of "0xBC"] off [of "0xBE"]
      by (simp add: boot_map_def) (auto simp: word_less_nat_alt word_le_nat_alt)
    finally show ?thesis .
  next
    case 4
    have p: "50 \<le> unat va div 4194304" "unat va div 4194304 < 60"
      using 4 by (simp_all add: word_le_nat_alt word_less_nat_alt unat_drop22)
    then have "\<not> va < 0x1000" "\<not> va < 0x800000" "\<not> va < 0x84BB000" "\<not> va < 0x84BD000" "\<not> va < 0x84BF000"
      "0xC800000 \<le> va" "va < 0xF000000"
      by (auto simp: word_less_nat_alt word_le_nat_alt)
    then have "boot_map user va = Some va" by (simp add: boot_map_def)
    moreover have "pd ?x = big_pde 1 (push_bit 22 ?x) 0"
      using pd x 4 by (auto simp: boot_dir_def big_pde_zero word_le_nat_alt)
    moreover have "push_bit 22 ?x AND 0xFFC00000 = push_bit 22 ?x"
      by (simp add: take_bit_and(4)) (rule bit_word_eqI, auto simp: bit_simps)
    ultimately show ?thesis
      using walk_big [of pd va user lt boot_vid low vid] push_take(1) [of 22 va]
      by (simp add: big_pde_bits big_pde_frame take_bit_and(1))
  next
    case 5
    have "pd ?x = 0" using pd x 5 by (auto simp: boot_dir_def)
    moreover have "unat va div 4194304 \<noteq> 0" "unat va div 4194304 \<noteq> 1" "unat va div 4194304 \<noteq> 33"
      "\<not> (50 \<le> unat va div 4194304 \<and> unat va div 4194304 < 60)"
      using 5 by (simp_all add: word_le_nat_alt word_less_nat_alt unat_drop22 word_unat_eq_iff)
    then have "boot_map user va = None"
      by (auto simp: boot_map_def word_less_nat_alt word_le_nat_alt)
    ultimately show ?thesis by (simp add: walk_def)
  qed
qed

section \<open>Frames of the operations\<close>

lemma flush_fields [simp]:
  "tlb (flush s) = tables s" "tables (flush s) = tables s"
  "pageDir (flush s) = pageDir s" "zeroToFourMBTable (flush s) = zeroToFourMBTable s"
  "videoMem_4kb_Page (flush s) = videoMem_4kb_Page s"
  "ioev (flush s) = ioev s" "ifl (flush s) = ifl s" "dev (flush s) = dev s"
  "screen_x (flush s) = screen_x s" "screen_y (flush s) = screen_y s"
  "disp_terminal (flush s) = disp_terminal s" "scheduled_terminal (flush s) = scheduled_terminal s"
  "paging.more (flush s) = paging.more s"
  by (simp_all add: flush_def)

lemma flush_frames:
  "frame_contents f (flush s) = frame_contents f s"
  "\<not> in_region user_base user_size a \<Longrightarrow> ram (flush s) a = ram s a"
  by (simp_all add: flush_def frame_contents_load_cr3 load_cr3_ram)

lemma tables_update [simp]:
  "tables (s\<lparr>pageDir := d\<rparr>) = (d, zeroToFourMBTable s, videoMem_4kb_Page s)"
  "tables (s\<lparr>videoMem_4kb_Page := d\<rparr>) = (pageDir s, zeroToFourMBTable s, d)"
  "tables (s\<lparr>zeroToFourMBTable := d\<rparr>) = (pageDir s, d, videoMem_4kb_Page s)"
  "tables (s\<lparr>ram := m\<rparr>) = tables s"
  by (simp_all add: tables_def)

lemma frame_contents_update [simp]:
  "frame_contents f (s\<lparr>pageDir := d\<rparr>) = frame_contents f s"
  "frame_contents f (s\<lparr>videoMem_4kb_Page := d\<rparr>) = frame_contents f s"
  "frame_contents f (s\<lparr>zeroToFourMBTable := d\<rparr>) = frame_contents f s"
  "selected (s\<lparr>ram := m\<rparr>) = selected s"
  by (simp_all add: frame_contents_def selected_def fun_eq_iff)

lemma allocatePage_fields [simp]:
  "fst (allocatePage i type phys s) = 0"
  "pageDir (snd (allocatePage i type phys s)) = (pageDir s)(i := big_pde type phys (pageDir s i))"
  "zeroToFourMBTable (snd (allocatePage i type phys s)) = zeroToFourMBTable s"
  "videoMem_4kb_Page (snd (allocatePage i type phys s)) = videoMem_4kb_Page s"
  "ioev (snd (allocatePage i type phys s)) = ioev s" "ifl (snd (allocatePage i type phys s)) = ifl s"
  "dev (snd (allocatePage i type phys s)) = dev s"
  "screen_x (snd (allocatePage i type phys s)) = screen_x s"
  "screen_y (snd (allocatePage i type phys s)) = screen_y s"
  "disp_terminal (snd (allocatePage i type phys s)) = disp_terminal s"
  "scheduled_terminal (snd (allocatePage i type phys s)) = scheduled_terminal s"
  "paging.more (snd (allocatePage i type phys s)) = paging.more s"
  by (simp_all add: allocatePage_eq)

lemma allocatePage_coherent: "tlb_coherent (snd (allocatePage i type phys s))"
  by (simp add: allocatePage_eq tlb_coherent_def)

lemma pde_frame_big: "bit type 0 \<Longrightarrow> pde_frame (big_pde type phys x) = Some (phys AND 0xFFC00000)"
  by (simp add: pde_frame_def big_pde_bits big_pde_frame)

lemma allocate_user_page:
  "frame_contents f (snd (allocatePage 0x20 1 phys s)) = frame_contents f s"
  "selected (snd (allocatePage 0x20 1 phys s)) = Some (phys AND 0xFFC00000)"
  "off < 0x400000 \<Longrightarrow> user_window (ram (snd (allocatePage 0x20 1 phys s))) off
     = frame_contents (phys AND 0xFFC00000) s off"
  "\<not> in_region user_base user_size a \<Longrightarrow> ram (snd (allocatePage 0x20 1 phys s)) a = ram s a"
proof -
  let ?s = "s\<lparr>pageDir := (pageDir s)(0x20 := big_pde 1 phys (pageDir s 0x20))\<rparr>"
  have e: "snd (allocatePage 0x20 1 phys s) = flush ?s" by (simp add: allocatePage_eq)
  show "frame_contents f (snd (allocatePage 0x20 1 phys s)) = frame_contents f s"
    unfolding e flush_frames(1) by simp
  show sel: "selected (snd (allocatePage 0x20 1 phys s)) = Some (phys AND 0xFFC00000)"
    unfolding e by (simp add: flush_def pde_frame_big)
  show "off < 0x400000 \<Longrightarrow> user_window (ram (snd (allocatePage 0x20 1 phys s))) off
      = frame_contents (phys AND 0xFFC00000) s off"
    using load_cr3_window [of "cr3 ?s" ?s "phys AND 0xFFC00000" off] sel
    unfolding e flush_def by simp
  show "\<not> in_region user_base user_size a \<Longrightarrow> ram (snd (allocatePage 0x20 1 phys s)) a = ram s a"
    unfolding e by (simp add: flush_frames(2))
qed

text \<open>The page of the user program with process number \<open>pid\<close>.\<close>

abbreviation process_page :: "u32 \<Rightarrow> u32" where
  "process_page pid \<equiv> 0x800000 + pid * 0x400000"

lemma process_page_frame: "process_page pid AND 0xFFC00000 = process_page pid"
proof -
  have "process_page pid = push_bit 22 (2 + pid)" by (simp add: push_bit_eq_mult algebra_simps)
  then show ?thesis by (simp only: take_bit_and) (rule bit_word_eqI, auto simp: bit_simps)
qed

lemma process_page_inj: "p < 6 \<Longrightarrow> q < 6 \<Longrightarrow> process_page p = process_page q \<longleftrightarrow> p = q"
proof -
  assume "p < 6" "q < 6"
  then have "unat (p * 0x400000) = unat p * 0x400000" "unat (q * 0x400000) = unat q * 0x400000"
    by (simp_all add: unat_word_ariths word_less_nat_alt)
  then have "p * 0x400000 = q * 0x400000 \<longleftrightarrow> p = q" unfolding word_unat_eq_iff by simp
  then show ?thesis by simp
qed

lemma vidmem_alloc_fields [simp]:
  "pageDir (vidmem_alloc i p s) = pageDir s" "zeroToFourMBTable (vidmem_alloc i p s) = zeroToFourMBTable s"
  "videoMem_4kb_Page (vidmem_alloc i p s) = (videoMem_4kb_Page s)(i := p OR 7)"
  "tlb (vidmem_alloc i p s) = (pageDir s, zeroToFourMBTable s, (videoMem_4kb_Page s)(i := p OR 7))"
  "ioev (vidmem_alloc i p s) = ioev s" "ifl (vidmem_alloc i p s) = ifl s" "dev (vidmem_alloc i p s) = dev s"
  "screen_x (vidmem_alloc i p s) = screen_x s" "screen_y (vidmem_alloc i p s) = screen_y s"
  "disp_terminal (vidmem_alloc i p s) = disp_terminal s"
  "scheduled_terminal (vidmem_alloc i p s) = scheduled_terminal s"
  "paging.more (vidmem_alloc i p s) = paging.more s"
  by (simp_all add: vidmem_alloc_def Let_def tables_def)

text \<open>Loading CR3 without selecting another frame leaves memory alone.\<close>

lemma load_cr3_same:
  assumes "tlb_coherent s"
  shows "ram (load_cr3 v (s\<lparr>videoMem_4kb_Page := t\<rparr>)) = ram s"
proof
  fix a
  have "fst (tlb s) = pageDir s" using assms by (simp add: tlb_coherent_def tables_def)
  then show "ram (load_cr3 v (s\<lparr>videoMem_4kb_Page := t\<rparr>)) a = ram s a"
    by (auto simp: load_cr3_def Let_def user_window_def split: option.splits)
qed

lemma vidmem_alloc_ram: "tlb_coherent s \<Longrightarrow> ram (vidmem_alloc i p s) = ram s"
  by (simp add: vidmem_alloc_def flush_def load_cr3_same Let_def)

lemma vidmem_alloc_coherent: "tlb_coherent (vidmem_alloc i p s)"
  by (simp add: tlb_coherent_def tables_def)

section \<open>Properties\<close>

lemma load_cr3_registers: "cr0 (load_cr3 v s) = cr0 s" "cr4 (load_cr3 v s) = cr4 s"
  by (simp_all add: load_cr3_def Let_def split: option.splits)

lemma pagingInit_registers:
  "cr3 (pagingInit dir low vid s) = dir" "cr0 (pagingInit dir low vid s) = cr0 s OR 0x80000000"
  "cr4 (pagingInit dir low vid s) = cr4 s OR 0x10"
  by (simp_all add: pagingInit_def enablePaging_def allocate_kmalloc_mem_def Let_def load_cr3_registers)

lemma bit_numeral_31: "bit (0x80000000 :: u32) n \<longleftrightarrow> n = 31"
proof -
  have "(0x80000000 :: u32) = push_bit 31 1" by simp
  then show ?thesis by (simp only: bit_push_bit_iff bit_1_iff) auto
qed

lemma bit_numeral_4: "bit (0x10 :: u32) n \<longleftrightarrow> n = 4"
proof -
  have "(0x10 :: u32) = push_bit 4 1" by simp
  then show ?thesis by (simp only: bit_push_bit_iff bit_1_iff) auto
qed

text \<open>
  C38: \<open>pagingInit\<close> builds exactly the address space of \<open>boot_map\<close> for page tables at
  page-aligned, distinct addresses: the page at 0 faults, the kernel's 8 MB map to themselves and
  are closed to user programs, the three user pages for the screen map to video memory and two
  screen buffers, the allocator's 40 MB map to themselves, and every other address faults. The
  processor uses these tables when it returns: CR3 holds their address, paging is on in CR0 and
  four-megabyte pages are on in CR4, and no other bit of the two registers changes.
\<close>

theorem paging_boot:
  assumes "videoMem_4kb_Page s = (\<lambda>_. 0)"
    and "low AND 0xFFF = 0" "vid AND 0xFFF = 0" "low \<noteq> vid"
  shows "translate low vid user va (pagingInit dir low vid s) = boot_map user va
    \<and> cr3 (pagingInit dir low vid s) = dir
    \<and> (\<forall>n. bit (cr0 (pagingInit dir low vid s)) n \<longleftrightarrow> n = 31 \<or> bit (cr0 s) n)
    \<and> (\<forall>n. bit (cr4 (pagingInit dir low vid s)) n \<longleftrightarrow> n = 4 \<or> bit (cr4 s) n)"
proof (intro conjI allI)
  show "translate low vid user va (pagingInit dir low vid s) = boot_map user va"
    unfolding translate_def pagingInit_tables unfolding tables_def pagingInit_vid [OF assms(1)]
    by (rule walk_boot [OF pagingInit_dir pagingInit_low assms(2-4)])
  show "bit (cr0 (pagingInit dir low vid s)) n \<longleftrightarrow> n = 31 \<or> bit (cr0 s) n" for n
    unfolding pagingInit_registers bit_or_iff bit_numeral_31 by blast
  show "bit (cr4 (pagingInit dir low vid s)) n \<longleftrightarrow> n = 4 \<or> bit (cr4 s) n" for n
    unfolding pagingInit_registers bit_or_iff bit_numeral_4 by blast
qed (rule pagingInit_registers)

definition paging_start :: paging where
  "paging_start = console.extend (console_start 0 0 0 0)
     \<lparr>pageDir = \<lambda>_. 0, zeroToFourMBTable = \<lambda>_. 0, videoMem_4kb_Page = \<lambda>_. 0,
      tlb = (\<lambda>_. 0, \<lambda>_. 0, \<lambda>_. 0), user_frames = \<lambda>_ _. 0, cr0 = 0, cr3 = 0, cr4 = 0\<rparr>"

theorem paging_boot_witness:
  "bit (cr0 (pagingInit 0x405000 0x406000 0x407000 paging_start)) 31 \<and>
   translate 0x406000 0x407000 True 0x84BC123 (pagingInit 0x405000 0x406000 0x407000 paging_start)
     = Some 0xBC123
   \<and> translate 0x406000 0x407000 True 0x400000 (pagingInit 0x405000 0x406000 0x407000 paging_start) = None"
  using paging_boot [of paging_start "0x406000" "0x407000" True "0x84BC123" "0x405000"]
    paging_boot [of paging_start "0x406000" "0x407000" True "0x400000" "0x405000"]
  by (simp add: paging_start_def console.defs boot_map_def)

text \<open>
  \<open>allocatePage\<close> with a four-megabyte page maps the 4 MB of its directory entry to the
  physical frame, for user programs too, and changes no other translation; the processor's copy
  of the tables is up to date when it returns.
\<close>

theorem allocatePage_maps:
  "translate low vid user va (snd (allocatePage i 1 phys s)) =
     (if drop_bit 22 va = i then Some ((phys AND 0xFFC00000) OR (va AND 0x003FFFFF))
      else walk (tables s) low vid user va)
   \<and> tlb_coherent (snd (allocatePage i 1 phys s))"
  by (simp add: allocatePage_walk allocatePage_coherent)

text \<open>
  C5: the memory of user programs is isolated: after the page of program \<open>p\<close> is selected, and
  whatever is then written to memory, selecting the page of another program \<open>q\<close> shows at the
  user addresses exactly what the frame of \<open>q\<close> held before.
\<close>

theorem process_memory_isolated:
  assumes "p < 6" "q < 6" "p \<noteq> q" "off < 0x400000"
  shows "user_window (ram (snd (allocatePage 0x20 1 (process_page q)
            ((snd (allocatePage 0x20 1 (process_page p) s))\<lparr>ram := m\<rparr>)))) off
       = frame_contents (process_page q) s off"
proof -
  let ?s = "snd (allocatePage 0x20 1 (process_page p) s)"
  have "selected ?s \<noteq> Some (process_page q)"
    using assms process_page_inj by (simp add: allocate_user_page(2) process_page_frame)
  then have "frame_contents (process_page q) (?s\<lparr>ram := m\<rparr>) off = frame_contents (process_page q) ?s off"
    by (simp add: frame_contents_def)
  then show ?thesis
    using assms(4) by (simp add: allocate_user_page process_page_frame)
qed

theorem process_memory_isolated_witness:
  "user_window (ram (snd (allocatePage 0x20 1 (process_page 1)
      ((snd (allocatePage 0x20 1 (process_page 0) (paging_start\<lparr>user_frames := \<lambda>f off. ucast off\<rparr>)))\<lparr>ram := \<lambda>_. 7\<rparr>)))) 5
    = 5"
  using process_memory_isolated [of 0 1 5 "\<lambda>_. 7" "paging_start\<lparr>user_frames := \<lambda>f off. ucast off\<rparr>"]
  by (simp add: frame_contents_def selected_def paging_start_def console.defs pde_frame_def)

end
