(* ===== verification/Process.thy ===== *)
theory Process
  imports Paging
begin

text \<open>
  The process data of student-distrib/syscall.h and the task state segment: process control
  blocks with their file arrays, the process list, the current process and the kernel stack the
  processor switches to.

  A process control block is a record; the store \<open>pcbs\<close> is indexed by its address, which the
  code computes from the process number. A jump table is the constructor of the variable it is
  stored in; \<open>None\<close> is the null pointer.
\<close>

datatype jump_table = rtc_table | file_table | dir_table | stdin_table | stdout_table

record file_element =
  file_op_ptr :: "jump_table option"
  inode :: u32
  file_pos :: u32
  flag :: u32

record pcb =
  file_array :: "i32 \<Rightarrow> file_element"
  parent_pid :: u8
  pid :: u8
  esp0 :: u32
  eip :: u32
  ss0 :: u8
  esp :: u32
  ebp :: u32
  arg :: u32
  ret_addr :: u32

text \<open>The task state segment, with the prefix \<open>tss\<close> on the member names.\<close>

record tss_t =
  tss_prev_task_link :: u16
  tss_prev_task_link_pad :: u16
  tss_esp0 :: u32
  tss_ss0 :: u16
  tss_ss0_pad :: u16
  tss_esp1 :: u32
  tss_ss1 :: u16
  tss_ss1_pad :: u16
  tss_esp2 :: u32
  tss_ss2 :: u16
  tss_ss2_pad :: u16
  tss_cr3 :: u32
  tss_eip :: u32
  tss_eflags :: u32
  tss_eax :: u32
  tss_ecx :: u32
  tss_edx :: u32
  tss_ebx :: u32
  tss_esp :: u32
  tss_ebp :: u32
  tss_esi :: u32
  tss_edi :: u32
  tss_es :: u16
  tss_es_pad :: u16
  tss_cs :: u16
  tss_cs_pad :: u16
  tss_ss :: u16
  tss_ss_pad :: u16
  tss_ds :: u16
  tss_ds_pad :: u16
  tss_fs :: u16
  tss_fs_pad :: u16
  tss_gs :: u16
  tss_gs_pad :: u16
  tss_ldt_segment_selector :: u16
  tss_ldt_pad :: u16
  tss_debug_trap :: "1 word"
  tss_io_pad :: "15 word"
  tss_io_base_addr :: u16

text \<open>As the assembler lays it out: all zero.\<close>

definition zero_tss :: tss_t where
  "zero_tss = \<lparr>tss_prev_task_link = 0, tss_prev_task_link_pad = 0, tss_esp0 = 0, tss_ss0 = 0,
    tss_ss0_pad = 0, tss_esp1 = 0, tss_ss1 = 0, tss_ss1_pad = 0, tss_esp2 = 0,
    tss_ss2 = 0, tss_ss2_pad = 0, tss_cr3 = 0, tss_eip = 0, tss_eflags = 0, tss_eax = 0,
    tss_ecx = 0, tss_edx = 0, tss_ebx = 0, tss_esp = 0, tss_ebp = 0, tss_esi = 0,
    tss_edi = 0, tss_es = 0, tss_es_pad = 0, tss_cs = 0, tss_cs_pad = 0, tss_ss = 0,
    tss_ss_pad = 0, tss_ds = 0, tss_ds_pad = 0, tss_fs = 0, tss_fs_pad = 0, tss_gs = 0,
    tss_gs_pad = 0, tss_ldt_segment_selector = 0, tss_ldt_pad = 0, tss_debug_trap = 0,
    tss_io_pad = 0, tss_io_base_addr = 0\<rparr>"

record PID =
  pid_pid :: u8
  pid_proc :: u32
  pid_flag :: u8

record process = paging +
  pcbs :: "u32 \<Rightarrow> pcb"
  pidlist :: "u32 \<Rightarrow> PID"
  current_pid :: u32
  tss :: tss_t

definition pcb_addr :: "u32 \<Rightarrow> u32" where
  "pcb_addr p = 0x800000 - 0x2000 * (p + 1)"

abbreviation cur_proc :: "'a process_scheme \<Rightarrow> pcb" where
  "cur_proc s \<equiv> pcbs s (pcb_addr (current_pid s))"

abbreviation cur_file :: "'a process_scheme \<Rightarrow> i32 \<Rightarrow> file_element" where
  "cur_file s fd \<equiv> file_array (cur_proc s) fd"

text \<open>Changing the control block at an address, and one file element of the current process.\<close>

definition upd_pcb :: "u32 \<Rightarrow> (pcb \<Rightarrow> pcb) \<Rightarrow> 'a process_scheme \<Rightarrow> 'a process_scheme" where
  "upd_pcb a f s = s\<lparr>pcbs := (pcbs s)(a := f (pcbs s a))\<rparr>"

definition upd_file :: "i32 \<Rightarrow> (file_element \<Rightarrow> file_element) \<Rightarrow> 'a process_scheme \<Rightarrow> 'a process_scheme" where
  "upd_file fd f s =
     upd_pcb (pcb_addr (current_pid s))
       (\<lambda>p. p\<lparr>file_array := (file_array p)(fd := f (file_array p fd))\<rparr>) s"

lemma pcb_addr_inj: "p < 6 \<Longrightarrow> q < 6 \<Longrightarrow> pcb_addr p = pcb_addr q \<longleftrightarrow> p = q"
proof -
  assume "p < 6" "q < 6"
  then have "unat (0x2000 * (p + 1)) = 0x2000 * (unat p + 1)" "unat (0x2000 * (q + 1)) = 0x2000 * (unat q + 1)"
    by (simp_all add: unat_word_ariths word_less_nat_alt)
  then have "0x2000 * (p + 1) = 0x2000 * (q + 1) \<longleftrightarrow> p = q" unfolding word_unat_eq_iff by simp
  then show ?thesis by (simp add: pcb_addr_def)
qed

lemma upd_pcb_fields [simp]:
  "ram (upd_pcb a f s) = ram s" "ioev (upd_pcb a f s) = ioev s" "ifl (upd_pcb a f s) = ifl s"
  "dev (upd_pcb a f s) = dev s" "current_pid (upd_pcb a f s) = current_pid s"
  "pidlist (upd_pcb a f s) = pidlist s" "screen_x (upd_pcb a f s) = screen_x s"
  "screen_y (upd_pcb a f s) = screen_y s" "disp_terminal (upd_pcb a f s) = disp_terminal s"
  "scheduled_terminal (upd_pcb a f s) = scheduled_terminal s" "tlb (upd_pcb a f s) = tlb s"
  "tables (upd_pcb a f s) = tables s" "tss (upd_pcb a f s) = tss s"
  "user_frames (upd_pcb a f s) = user_frames s"
  "process.more (upd_pcb a f s) = process.more s"
  "pcbs (upd_pcb a f s) b = (if a = b then f (pcbs s a) else pcbs s b)"
  by (simp_all add: upd_pcb_def tables_def)

lemma upd_file_fields [simp]:
  "ram (upd_file fd f s) = ram s" "ioev (upd_file fd f s) = ioev s" "ifl (upd_file fd f s) = ifl s"
  "dev (upd_file fd f s) = dev s" "current_pid (upd_file fd f s) = current_pid s"
  "pidlist (upd_file fd f s) = pidlist s" "screen_x (upd_file fd f s) = screen_x s"
  "screen_y (upd_file fd f s) = screen_y s" "disp_terminal (upd_file fd f s) = disp_terminal s"
  "scheduled_terminal (upd_file fd f s) = scheduled_terminal s" "tlb (upd_file fd f s) = tlb s"
  "tables (upd_file fd f s) = tables s" "tss (upd_file fd f s) = tss s"
  "user_frames (upd_file fd f s) = user_frames s"
  "process.more (upd_file fd f s) = process.more s"
  "pcbs (upd_file fd f s) a = (if a = pcb_addr (current_pid s)
     then (cur_proc s)\<lparr>file_array := (file_array (cur_proc s))(fd := f (cur_file s fd))\<rparr> else pcbs s a)"
  by (simp_all add: upd_file_def)

end
