(* ===== verification/Filesys.thy ===== *)
theory Filesys
  imports Process
begin

text \<open>
  student-distrib/filesys.c: the read-only file system in memory and the file and directory
  operations of the jump tables.

  The image is bytes in memory: the boot block with its 64-byte directory entries, one 4 KB
  index node per file, and the 4 KB data blocks; the \<open>*_addr\<close> functions below are the member
  accesses of \<open>boot_block_t\<close>, \<open>dentry_t\<close> and \<open>inode_t\<close>. Where the source has a local
  \<open>dentry_t\<close> the address the compiler gives it is a parameter. \<open>None\<close>: the call does not return
  (a string without end).
\<close>

section \<open>State\<close>

record filesys = process +
  fs_base :: u32
  inode_base :: u32
  num_inode :: u32
  data_base :: u32
  num_dentry :: u32
  num_dblock :: u32
  boot_block_ptr :: u32

abbreviation BLOCKSIZE :: u32 where
  "BLOCKSIZE \<equiv> 4096"

definition dir_entry_addr :: "'a filesys_scheme \<Rightarrow> u32 \<Rightarrow> u32" where
  "dir_entry_addr s i = boot_block_ptr s + 64 + 64 * i"

definition file_type_addr :: "u32 \<Rightarrow> u32" where
  "file_type_addr dentry = dentry + 32"

definition inode_idx_addr :: "u32 \<Rightarrow> u32" where
  "inode_idx_addr dentry = dentry + 36"

definition inode_addr :: "'a filesys_scheme \<Rightarrow> u32 \<Rightarrow> u32" where
  "inode_addr s i = inode_base s + BLOCKSIZE * i"

definition dblock_idx_addr :: "u32 \<Rightarrow> u32 \<Rightarrow> u32" where
  "dblock_idx_addr inode_ptr k = inode_ptr + 4 + 4 * k"

section \<open>Operations\<close>

definition fs_init :: "u32 \<Rightarrow> 'a filesys_scheme \<Rightarrow> 'a filesys_scheme" where
  "fs_init addr s =
     (let s = s\<lparr>fs_base := addr, boot_block_ptr := addr\<rparr>;
          s = s\<lparr>num_dentry := load32 (ram s) (boot_block_ptr s)\<rparr>;
          s = s\<lparr>inode_base := addr + BLOCKSIZE\<rparr>;
          s = s\<lparr>num_inode := load32 (ram s) (boot_block_ptr s + 4)\<rparr>;
          s = s\<lparr>data_base := inode_base s + num_inode s * BLOCKSIZE\<rparr>
      in s\<lparr>num_dblock := load32 (ram s) (boot_block_ptr s + 8)\<rparr>)"

text \<open>Copying type and index node number of entry \<open>e\<close> into the \<open>dentry_t\<close> at \<open>dentry\<close>.\<close>

definition copy_dentry_info :: "u32 \<Rightarrow> u32 \<Rightarrow> mem \<Rightarrow> mem" where
  "copy_dentry_info dentry e m =
     (let m = store32 m (file_type_addr dentry) (load32 m (file_type_addr e))
      in store32 m (inode_idx_addr dentry) (load32 m (inode_idx_addr e)))"

function read_dentry_from :: "u32 \<Rightarrow> u32 \<Rightarrow> u32 \<Rightarrow> 'a filesys_scheme \<Rightarrow> (i32 \<times> 'a filesys_scheme) option" where
  "read_dentry_from fname dentry i s =
     (if i < num_dentry s then
        let e = dir_entry_addr s i
        in if strncmp (ram s) fname e (32 - 1) = 0 then
             case strcpy (ram s) dentry fname of None \<Rightarrow> None
             | Some m \<Rightarrow> Some (0, s\<lparr>ram := copy_dentry_info dentry e m\<rparr>)
           else read_dentry_from fname dentry (i + 1) s
      else Some (-1, s))"
  by pat_completeness auto
termination
  by (relation "measure (\<lambda>(fname, dentry, i, s). unat (num_dentry s) - unat i)") (auto, unat_arith)

declare read_dentry_from.simps [simp del]

definition read_dentry_by_name :: "u32 \<Rightarrow> u32 \<Rightarrow> 'a filesys_scheme \<Rightarrow> (i32 \<times> 'a filesys_scheme) option" where
  "read_dentry_by_name fname dentry s = read_dentry_from fname dentry 0 s"

definition read_dentry_by_index :: "u32 \<Rightarrow> u32 \<Rightarrow> 'a filesys_scheme \<Rightarrow> (i32 \<times> 'a filesys_scheme) option" where
  "read_dentry_by_index index dentry s =
     (if index \<ge> num_dentry s then Some (-1, s)
      else let e = dir_entry_addr s index
           in case strcpy (ram s) dentry e of None \<Rightarrow> None
              | Some m \<Rightarrow> Some (0, s\<lparr>ram := copy_dentry_info dentry e m\<rparr>))"

text \<open>The bytes one round of \<open>read_data\<close> copies: up to the end of the block.\<close>

lemma block_chunk:
  fixes offset len c :: u32
  assumes "0 < len"
  defines "c \<equiv> (if offset mod BLOCKSIZE + len < BLOCKSIZE then len else BLOCKSIZE - offset mod BLOCKSIZE)"
  shows "0 < unat c" "unat c \<le> unat len"
    and "unat offset + unat len < 4294967296 \<Longrightarrow> unat c = min (unat len) (4096 - unat offset mod 4096)"
proof -
  let ?o = "unat offset mod 4096"
  have o: "unat (offset mod BLOCKSIZE) = ?o" "?o < 4096" by (simp_all add: unat_mod)
  have s: "unat (BLOCKSIZE - offset mod BLOCKSIZE) = 4096 - ?o"
    using o by (simp add: unat_sub word_le_nat_alt)
  have l: "0 < unat len" using assms(1) by (simp add: word_less_nat_alt)
  have w: "offset mod BLOCKSIZE + len < BLOCKSIZE \<longleftrightarrow> (?o + unat len) mod 4294967296 < 4096"
    by (simp add: word_less_nat_alt unat_word_ariths o(1))
  show "0 < unat c" using l s o(2) by (simp add: c_def)
  show "unat c \<le> unat len"
  proof (cases "?o + unat len < 4294967296")
    case True
    then show ?thesis using s by (auto simp: c_def w)
  next
    case False
    then have "4096 \<le> unat len" using o(2) by linarith
    then show ?thesis using s by (auto simp: c_def)
  qed
  show "unat c = min (unat len) (4096 - ?o)" if "unat offset + unat len < 4294967296"
  proof -
    have "?o + unat len < 4294967296" using that mod_less_eq_dividend [of "unat offset" 4096] by linarith
    then show ?thesis using s by (auto simp: c_def w)
  qed
qed

function read_data_loop :: "u32 \<Rightarrow> u32 \<Rightarrow> u32 \<Rightarrow> u32 \<Rightarrow> u32 \<Rightarrow> 'a filesys_scheme \<Rightarrow> i32 \<times> 'a filesys_scheme" where
  "read_data_loop inode_ptr offset buf len byte_read s =
     (if len > 0 then
        let block_index = load32 (ram s) (dblock_idx_addr inode_ptr (offset div BLOCKSIZE))
        in if block_index \<ge> num_dblock s then (-1, s)
           else
             let read_start = BLOCKSIZE * block_index + data_base s + offset mod BLOCKSIZE;
                 length_reading = BLOCKSIZE - offset mod BLOCKSIZE;
                 length_reading = (if offset mod BLOCKSIZE + len < BLOCKSIZE then len else length_reading);
                 s = s\<lparr>ram := memcpy (ram s) buf read_start length_reading\<rparr>
             in read_data_loop inode_ptr (offset + length_reading) (buf + length_reading)
                  (len - length_reading) (byte_read + length_reading) s
      else (sint byte_read, s))"
  by pat_completeness auto
termination
proof (relation "measure (\<lambda>(inode_ptr, offset, buf, len, byte_read, s). unat len)", goal_cases)
  case (2 inode_ptr offset buf len byte_read s bi rs l l' s')
  have "l' = (if offset mod BLOCKSIZE + len < BLOCKSIZE then len else BLOCKSIZE - offset mod BLOCKSIZE)"
    using 2 by simp
  then have "0 < unat l'" "unat l' \<le> unat len"
    using block_chunk(1,2) [OF 2(1), of offset] by (simp_all only:)
  then have "unat (len - l') < unat len" by (simp add: unat_sub word_le_nat_alt)
  then show ?case by simp
qed simp

declare read_data_loop.simps [simp del]

definition read_data :: "u32 \<Rightarrow> u32 \<Rightarrow> u32 \<Rightarrow> u32 \<Rightarrow> 'a filesys_scheme \<Rightarrow> i32 \<times> 'a filesys_scheme" where
  "read_data ino offset buf_i len s =
     (let inode_ptr = inode_addr s ino
      in if ino \<ge> num_inode s then (-1, s)
         else if offset \<ge> load32 (ram s) inode_ptr then (0, s)
         else
           let len = (if len + offset \<ge> load32 (ram s) inode_ptr
                      then load32 (ram s) inode_ptr - offset else len)
           in read_data_loop inode_ptr offset buf_i len 0 s)"

text \<open>The file operations of the jump tables. \<open>temp\<close> is the address of a local \<open>dentry_t\<close>.\<close>

definition file_open :: "u32 \<Rightarrow> u32 \<Rightarrow> 'a filesys_scheme \<Rightarrow> (i32 \<times> 'a filesys_scheme) option" where
  "file_open temp filename s =
     (if ram s filename = 0 \<or> ram s filename = 0x20 then Some (-1, s)
      else case read_dentry_by_name filename temp s of None \<Rightarrow> None
           | Some (r, s) \<Rightarrow> if r = -1 then Some (-1, s) else Some (0, s))"

definition file_close :: "i32 \<Rightarrow> 'a filesys_scheme \<Rightarrow> i32 \<times> 'a filesys_scheme" where
  "file_close fd s = (0, s)"

definition file_write :: "i32 \<Rightarrow> u32 \<Rightarrow> i32 \<Rightarrow> 'a filesys_scheme \<Rightarrow> i32 \<times> 'a filesys_scheme" where
  "file_write fd buf nbytes s = (-1, s)"

definition file_read :: "i32 \<Rightarrow> u32 \<Rightarrow> i32 \<Rightarrow> 'a filesys_scheme \<Rightarrow> i32 \<times> 'a filesys_scheme" where
  "file_read fd buf nbytes s =
     (if fd \<le> 1 \<or> fd \<ge> 8 then (-1, s)
      else let (bytesR, s) = read_data (inode (cur_file s fd)) (file_pos (cur_file s fd)) buf (of_int nbytes) s
           in if bytesR = -1 then (-1, s)
              else (bytesR, upd_file fd (\<lambda>f. f\<lparr>file_pos := file_pos f + of_int bytesR\<rparr>) s))"

definition dir_open :: "u32 \<Rightarrow> 'a filesys_scheme \<Rightarrow> i32 \<times> 'a filesys_scheme" where
  "dir_open dirname s = (0, s)"

definition dir_close :: "i32 \<Rightarrow> 'a filesys_scheme \<Rightarrow> i32 \<times> 'a filesys_scheme" where
  "dir_close fd s = (0, s)"

definition dir_write :: "i32 \<Rightarrow> u32 \<Rightarrow> i32 \<Rightarrow> 'a filesys_scheme \<Rightarrow> i32 \<times> 'a filesys_scheme" where
  "dir_write fd buf nbytes s = (-1, s)"

definition dir_read :: "i32 \<Rightarrow> u32 \<Rightarrow> i32 \<Rightarrow> 'a filesys_scheme \<Rightarrow> (i32 \<times> 'a filesys_scheme) option" where
  "dir_read fd buf nbytes s =
     (if fd \<le> 1 \<or> fd \<ge> 8 then Some (-1, s)
      else
        let dentry_idx = file_pos (cur_file s fd);
            s = upd_file fd (\<lambda>f. f\<lparr>file_pos := file_pos f + 1\<rparr>) s;
            fname = dir_entry_addr s dentry_idx;
            s = s\<lparr>ram := strncpy (ram s) buf fname (of_int nbytes)\<rparr>
        in if dentry_idx \<ge> num_dentry s
           then Some (0, upd_file fd (\<lambda>f. f\<lparr>file_pos := 0\<rparr>) s)
           else case strlen (ram s) fname of None \<Rightarrow> None
                | Some n \<Rightarrow> Some (sint n, s))"

section \<open>The contents of a file\<close>

text \<open>
  The abstract file: the bytes its index node names, in order. \<open>good_inode\<close> is what a well-formed
  image promises of an index node: its number and its block numbers are in range, and its length
  fits into the 1023 blocks an index node can name.
\<close>

definition file_length :: "'a filesys_scheme \<Rightarrow> u32 \<Rightarrow> u32" where
  "file_length s i = load32 (ram s) (inode_addr s i)"

definition block_index :: "'a filesys_scheme \<Rightarrow> u32 \<Rightarrow> nat \<Rightarrow> u32" where
  "block_index s i k = load32 (ram s) (dblock_idx_addr (inode_addr s i) (of_nat k))"

definition block_addr :: "'a filesys_scheme \<Rightarrow> u32 \<Rightarrow> nat \<Rightarrow> u32" where
  "block_addr s i k = BLOCKSIZE * block_index s i k + data_base s"

definition content :: "'a filesys_scheme \<Rightarrow> u32 \<Rightarrow> u8 list" where
  "content s i = map (\<lambda>o'. ram s (block_addr s i (o' div 4096) + of_nat (o' mod 4096)))
     [0..<unat (file_length s i)]"

definition good_inode :: "'a filesys_scheme \<Rightarrow> u32 \<Rightarrow> bool" where
  "good_inode s i \<longleftrightarrow> i < num_inode s \<and> unat (file_length s i) \<le> 1023 * 4096
     \<and> (\<forall>k < 1023. 4096 * k < unat (file_length s i) \<longrightarrow> block_index s i k < num_dblock s)"

text \<open>A region of memory that overlaps neither the index node nor the blocks of a file.\<close>

definition outside_file :: "'a filesys_scheme \<Rightarrow> u32 \<Rightarrow> u32 \<Rightarrow> nat \<Rightarrow> bool" where
  "outside_file s i buf n \<longleftrightarrow> disjoint_regions buf n (inode_addr s i) 4096
     \<and> (\<forall>k < 1023. 4096 * k < unat (file_length s i) \<longrightarrow> disjoint_regions buf n (block_addr s i k) 4096)"

lemma length_content [simp]: "length (content s i) = unat (file_length s i)"
  by (simp add: content_def)

lemma nth_content:
  "o' < unat (file_length s i) \<Longrightarrow>
   content s i ! o' = ram s (block_addr s i (o' div 4096) + of_nat (o' mod 4096))"
  by (simp add: content_def)

lemma inode_addr_update [simp]: "inode_addr (s\<lparr>ram := m\<rparr>) i = inode_addr s i"
  by (simp add: inode_addr_def)

lemma outside_fileD:
  assumes "outside_file s i buf n" "unat (file_length s i) \<le> 1023 * 4096" "o' < unat (file_length s i)"
  shows "disjoint_regions buf n (block_addr s i (o' div 4096)) 4096"
proof -
  have "o' div 4096 < 1023" using assms(2,3) by (simp add: less_mult_imp_div_less)
  moreover have "4096 * (o' div 4096) < unat (file_length s i)" using assms(3) by (simp add: le_less_trans)
  ultimately show ?thesis using assms(1) by (simp add: outside_file_def)
qed

lemma write_outside:
  assumes "disjoint_regions buf n b k" "length bs \<le> n" "j < k"
  shows "write_bytes m buf bs (b + of_nat j) = m (b + of_nat j)"
proof (rule write_bytes_out)
  show "\<not> in_region buf (length bs) (b + of_nat j)"
    using assms by (meson disjoint_regions_notin in_region_mono in_region_offset')
qed

lemma load32_outside:
  assumes "disjoint_regions buf n b k" "length bs \<le> n" "j + 4 \<le> k"
  shows "load32 (write_bytes m buf bs) (b + of_nat j) = load32 m (b + of_nat j)"
proof (rule load32_cong)
  fix i assume "i < (4 :: nat)"
  then show "write_bytes m buf bs (b + of_nat j + of_nat i) = m (b + of_nat j + of_nat i)"
    using write_outside [OF assms(1,2), of "j + i" m] assms(3) by (simp add: add.assoc)
qed

lemma file_unchanged:
  assumes "good_inode s i" "outside_file s i buf n" "length bs \<le> n"
  defines "t \<equiv> s\<lparr>ram := write_bytes (ram s) buf bs\<rparr>"
  shows "file_length t i = file_length s i" "\<forall>k < 1023. block_index t i k = block_index s i k"
    and "content t i = content s i" "good_inode t i" "outside_file t i b k = outside_file s i b k"
proof -
  have d: "disjoint_regions buf n (inode_addr s i) 4096" using assms(2) by (simp add: outside_file_def)
  show l: "file_length t i = file_length s i"
    using load32_outside [OF d assms(3), of 0] by (simp add: file_length_def t_def)
  show b: "\<forall>k < 1023. block_index t i k = block_index s i k"
  proof (intro allI impI)
    fix k assume "k < (1023 :: nat)"
    then show "block_index t i k = block_index s i k"
      using load32_outside [OF d assms(3), of "4 + 4 * k"]
      by (simp add: block_index_def dblock_idx_addr_def t_def add.assoc)
  qed
  then have a: "\<forall>k < 1023. block_addr t i k = block_addr s i k" by (simp add: block_addr_def t_def)
  show "content t i = content s i"
  proof (rule nth_equalityI)
    fix x assume "x < length (content t i)"
    then have x: "x < unat (file_length s i)" using l by simp
    have len: "unat (file_length s i) \<le> 1023 * 4096" using assms(1) by (simp add: good_inode_def)
    then have k: "x div 4096 < 1023" using x by (simp add: less_mult_imp_div_less)
    have "ram t (block_addr s i (x div 4096) + of_nat (x mod 4096))
        = ram s (block_addr s i (x div 4096) + of_nat (x mod 4096))"
      using write_outside [OF outside_fileD [OF assms(2) len x] assms(3)] by (simp add: t_def)
    then show "content t i ! x = content s i ! x"
      using nth_content [of x t] nth_content [of x s] l x a k by simp
  qed (simp add: l)
  show "good_inode t i" using assms(1) l b by (simp add: good_inode_def t_def)
  show "outside_file t i b k = outside_file s i b k" using l a by (simp add: outside_file_def t_def)
qed

lemma outside_file_shift:
  assumes "outside_file s i buf n" "a + n' \<le> n"
  shows "outside_file s i (buf + of_nat a) n'"
  using assms disjoint_regions_shift [of buf n _ 4096 a n' 0 4096] by (simp add: outside_file_def)

lemma block_bytes:
  assumes good: "good_inode s i" and off: "unat off + n \<le> unat (file_length s i)"
    and n: "n \<le> 4096 - unat off mod 4096"
  shows "bytes (ram s) (block_addr s i (unat off div 4096) + of_nat (unat off mod 4096)) n
    = take n (drop (unat off) (content s i))"
proof (rule nth_equalityI)
  fix j assume "j < length (bytes (ram s) (block_addr s i (unat off div 4096) + of_nat (unat off mod 4096)) n)"
  then have j: "j < n" by simp
  have o: "unat off mod 4096 < 4096" by simp
  have e: "unat off + j = unat off mod 4096 + j + 4096 * (unat off div 4096)" by simp
  have small: "unat off mod 4096 + j < 4096" using j n o by linarith
  have q: "(unat off mod 4096 + j + 4096 * q) div 4096 = q"
    "(unat off mod 4096 + j + 4096 * q) mod 4096 = unat off mod 4096 + j" for q
    using small by simp_all
  have "(unat off + j) div 4096 = unat off div 4096" "(unat off + j) mod 4096 = unat off mod 4096 + j"
    using q [of "unat off div 4096"] unfolding e [symmetric] by simp_all
  then show "bytes (ram s) (block_addr s i (unat off div 4096) + of_nat (unat off mod 4096)) n ! j
      = take n (drop (unat off) (content s i)) ! j"
    using j off by (simp add: nth_content add.assoc)
qed (use off in simp)

lemma read_start_addr:
  "BLOCKSIZE * load32 (ram s) (dblock_idx_addr (inode_addr s i) (off div BLOCKSIZE)) + data_base s
     + off mod BLOCKSIZE
   = block_addr s i (unat off div 4096) + of_nat (unat off mod 4096)"
proof -
  have "off div BLOCKSIZE = of_nat (unat off div 4096)" "off mod BLOCKSIZE = of_nat (unat off mod 4096)"
    by (simp_all add: word_unat_eq_iff unat_div unat_mod unat_of_nat take_bit_eq_mod)
      (metis mod_less div_le_dividend le_less_trans unat_lt_2p32 mod_less_eq_dividend)+
  then show ?thesis by (simp add: block_addr_def block_index_def)
qed

lemma read_data_loop_run:
  assumes "good_inode s i" "unat off + unat len \<le> unat (file_length s i)" "outside_file s i buf (unat len)"
  shows "read_data_loop (inode_addr s i) off buf len br s
    = (sint (br + len), s\<lparr>ram := write_bytes (ram s) buf (take (unat len) (drop (unat off) (content s i)))\<rparr>)"
  using assms
proof (induction "unat len" arbitrary: off buf len br s rule: less_induct)
  case less
  show ?case
  proof (cases "len = 0")
    case True
    then show ?thesis by (simp add: read_data_loop.simps)
  next
    case False
    then have pos: "0 < len" by (simp add: word_neq_0_conv)
    define c where "c = (if off mod BLOCKSIZE + len < BLOCKSIZE then len else BLOCKSIZE - off mod BLOCKSIZE)"
    have flen: "unat (file_length s i) \<le> 1023 * 4096" using less.prems(1) by (simp add: good_inode_def)
    have c: "0 < unat c" "unat c = min (unat len) (4096 - unat off mod 4096)"
      using block_chunk [OF pos, of off] less.prems(2) flen unfolding c_def by auto
    have l: "unat (len - c) = unat len - unat c" "len - c + c = len"
      using c(2) by (simp_all add: unat_sub word_le_nat_alt)
    have offc: "unat (off + c) = unat off + unat c"
      using c(2) less.prems(2) flen by (simp add: unat_word_ariths)
    let ?k = "unat off div 4096" and ?bs = "take (unat c) (drop (unat off) (content s i))"
    let ?start = "block_addr s i ?k + of_nat (unat off mod 4096)"
    have off: "unat off < unat (file_length s i)" using less.prems(2) False
      by (metis add_leD1 le_neq_implies_less add_le_same_cancel1 le_zero_eq unat_eq_zero)
    have k: "?k < 1023" "4096 * ?k < unat (file_length s i)"
      using off flen by (simp_all add: less_mult_imp_div_less le_less_trans)
    have num: "\<not> num_dblock s \<le> load32 (ram s) (dblock_idx_addr (inode_addr s i) (off div BLOCKSIZE))"
    proof -
      have "off div BLOCKSIZE = of_nat ?k"
        by (simp add: word_unat_eq_iff unat_div unat_of_nat take_bit_eq_mod)
          (metis mod_less div_le_dividend le_less_trans unat_lt_2p32)
      then show ?thesis using less.prems(1) k by (auto simp: good_inode_def block_index_def not_le)
    qed
    have dis: "disjoint_regions buf (unat c) ?start (unat c)"
      using disjoint_regions_shift [OF outside_fileD [OF less.prems(3) flen off], of 0 "unat c" "unat off mod 4096" "unat c"]
        c(2) by simp
    have copy: "memcpy (ram s) buf ?start c = write_bytes (ram s) buf ?bs"
      using memcpy_write [OF dis, of "ram s"] block_bytes [OF less.prems(1), of off "unat c"] c(2) less.prems(2)
      by simp
    let ?s = "s\<lparr>ram := write_bytes (ram s) buf ?bs\<rparr>"
    have bs: "length ?bs = unat c" "length ?bs \<le> unat len" using c(2) less.prems(2) by simp_all
    note un = file_unchanged [OF less.prems(1,3) bs(2)]
    have step: "read_data_loop (inode_addr s i) off buf len br s
        = read_data_loop (inode_addr s i) (off + c) (buf + c) (len - c) (br + c) ?s"
      by (subst read_data_loop.simps) (use pos num copy in \<open>simp add: Let_def read_start_addr flip: c_def\<close>)
    have IH: "read_data_loop (inode_addr ?s i) (off + c) (buf + c) (len - c) (br + c) ?s
      = (sint (br + c + (len - c)), ?s\<lparr>ram := write_bytes (ram ?s) (buf + c)
           (take (unat (len - c)) (drop (unat (off + c)) (content ?s i)))\<rparr>)"
    proof (rule less.hyps)
      show "unat (len - c) < unat len" using l c by simp
      show "good_inode ?s i" by (rule un(4))
      show "unat (off + c) + unat (len - c) \<le> unat (file_length ?s i)"
        using un(1) c(2) l(1) offc less.prems(2) by simp
      have "outside_file s i (buf + of_nat (unat c)) (unat (len - c))"
        using less.prems(3) by (rule outside_file_shift) (use l(1) c(2) in simp)
      then show "outside_file ?s i (buf + c) (unat (len - c))"
        unfolding un(5) by simp
    qed
    have cl: "unat c + unat (len - c) = unat len" using l(1) c(2) by simp
    have "drop (unat c) (drop (unat off) (content s i)) = drop (unat (off + c)) (content s i)"
      unfolding offc drop_drop by (simp only: add.commute)
    then have "take (unat len) (drop (unat off) (content s i))
        = ?bs @ take (unat (len - c)) (drop (unat (off + c)) (content s i))"
      using take_add [of "unat c" "unat (len - c)" "drop (unat off) (content s i)"]
      unfolding cl by (simp only:)
    then show ?thesis
      unfolding step using IH un(3) bs(1) by (simp add: write_bytes_append)
  qed
qed

lemma read_data_content:
  assumes good: "good_inode s i" and n: "unat off + unat n < 4294967296"
    and out: "outside_file s i buf (length (take (unat n) (drop (unat off) (content s i))))"
  shows "read_data i off buf n s
    = (int (length (take (unat n) (drop (unat off) (content s i)))),
       s\<lparr>ram := write_bytes (ram s) buf (take (unat n) (drop (unat off) (content s i)))\<rparr>)"
proof (cases "off \<ge> file_length s i")
  case True
  then have "unat (file_length s i) \<le> unat off" by (simp add: word_le_nat_alt)
  with True show ?thesis
    using good by (simp add: read_data_def good_inode_def file_length_def Let_def linorder_not_le)
next
  case False
  let ?l = "if n + off \<ge> file_length s i then file_length s i - off else n"
  have flen: "unat (file_length s i) \<le> 1023 * 4096" using good by (simp add: good_inode_def)
  have "unat (n + off) = unat n + unat off" using n by (simp add: unat_word_ariths)
  then have l: "unat ?l = length (take (unat n) (drop (unat off) (content s i)))"
    using False by (auto simp: unat_sub word_le_nat_alt)
  have "length (take (unat n) (drop (unat off) (content s i))) \<le> unat (file_length s i)" by simp
  then have lb: "unat ?l < 2147483648" unfolding l using flen by linarith
  have t: "take (unat ?l) (drop (unat off) (content s i)) = take (unat n) (drop (unat off) (content s i))"
    unfolding l by (auto simp: min_def not_le)
  have "\<not> num_inode s \<le> i" "\<not> load32 (ram s) (inode_addr s i) \<le> off"
    using False good by (auto simp: good_inode_def file_length_def)
  then have "read_data i off buf n s = read_data_loop (inode_addr s i) off buf ?l 0 s"
    by (simp add: read_data_def Let_def file_length_def)
  also have "\<dots> = (sint (0 + ?l), s\<lparr>ram := write_bytes (ram s) buf (take (unat ?l) (drop (unat off) (content s i)))\<rparr>)"
  proof (rule read_data_loop_run [OF good])
    show "unat off + unat ?l \<le> unat (file_length s i)"
      unfolding l using False by (simp add: word_le_nat_alt)
    show "outside_file s i buf (unat ?l)" unfolding l by (rule out)
  qed
  also have "sint (0 + ?l) = int (unat ?l)"
    using lb by (simp only: add_0 sint_small)
  finally show ?thesis unfolding t unfolding l .
qed

section \<open>Reading a file in sequence\<close>

text \<open>
  What a program that reads a file relies on: an operation \<open>rd\<close> that delivers up to \<open>n\<close> bytes
  of \<open>data\<close> from the position on into a buffer (\<open>got\<close>), returns their number, and advances the
  position by it. \<open>lim\<close> bounds the requests, \<open>ok\<close> is the state property the operation keeps.
\<close>

fun reads :: "(i32 \<Rightarrow> 's \<Rightarrow> i32 \<times> 's) \<Rightarrow> (nat \<Rightarrow> 's \<Rightarrow> u8 list) \<Rightarrow> i32 list \<Rightarrow> 's \<Rightarrow> u8 list \<times> 's" where
  "reads rd got [] s = ([], s)"
| "reads rd got (n # ns) s =
     (let (r, s) = rd n s; (bs, t) = reads rd got ns s in (got (nat r) s @ bs, t))"

text \<open>The loop of a program that reads to the end of the file, in at most \<open>k\<close> rounds.\<close>

fun read_to_end :: "(i32 \<Rightarrow> 's \<Rightarrow> i32 \<times> 's) \<Rightarrow> (nat \<Rightarrow> 's \<Rightarrow> u8 list) \<Rightarrow> i32 \<Rightarrow> nat \<Rightarrow> 's \<Rightarrow> u8 list option" where
  "read_to_end rd got n 0 s = None"
| "read_to_end rd got n (Suc k) s =
     (let (r, s) = rd n s
      in if r = 0 then Some [] else map_option (append (got (nat r) s)) (read_to_end rd got n k s))"

locale seq_reader =
  fixes rd :: "i32 \<Rightarrow> 's \<Rightarrow> i32 \<times> 's"
    and pos :: "'s \<Rightarrow> nat"
    and data :: "'s \<Rightarrow> u8 list"
    and got :: "nat \<Rightarrow> 's \<Rightarrow> u8 list"
    and ok :: "'s \<Rightarrow> bool"
    and lim :: i32
  assumes rd_ok: "ok s \<Longrightarrow> 0 \<le> n \<Longrightarrow> n \<le> lim \<Longrightarrow> ok (snd (rd n s))"
    and rd_data: "ok s \<Longrightarrow> 0 \<le> n \<Longrightarrow> n \<le> lim \<Longrightarrow> data (snd (rd n s)) = data s"
    and rd_result: "ok s \<Longrightarrow> 0 \<le> n \<Longrightarrow> n \<le> lim \<Longrightarrow>
      fst (rd n s) = int (length (take (nat n) (drop (pos s) (data s))))"
    and rd_got: "ok s \<Longrightarrow> 0 \<le> n \<Longrightarrow> n \<le> lim \<Longrightarrow>
      got (length (take (nat n) (drop (pos s) (data s)))) (snd (rd n s)) = take (nat n) (drop (pos s) (data s))"
    and rd_pos: "ok s \<Longrightarrow> 0 \<le> n \<Longrightarrow> n \<le> lim \<Longrightarrow>
      pos (snd (rd n s)) = pos s + length (take (nat n) (drop (pos s) (data s)))"
begin

lemmas laws = rd_ok rd_data rd_result rd_got rd_pos

lemma step:
  assumes "ok s" "0 \<le> n" "n \<le> lim"
  obtains d t where "rd n s = (int (length d), t)" "d = take (nat n) (drop (pos s) (data s))"
    "got (length d) t = d" "ok t" "data t = data s" "pos t = pos s + length d"
  using laws [OF assms] by (metis prod.collapse)

lemma reads_concat:
  "ok s \<Longrightarrow> \<forall>n \<in> set ns. 0 \<le> n \<and> n \<le> lim \<Longrightarrow>
   fst (reads rd got ns s) = take (sum_list (map nat ns)) (drop (pos s) (data s))"
proof (induction ns arbitrary: s)
  case (Cons n ns)
  then obtain d t where t: "rd n s = (int (length d), t)" "d = take (nat n) (drop (pos s) (data s))"
    "got (length d) t = d" "ok t" "data t = data s" "pos t = pos s + length d"
    using step [of s n] by auto
  have "drop (pos t) (data t) = drop (nat n) (drop (pos s) (data s))"
    unfolding t(5,6) t(2) by (auto simp: min_def add.commute)
  then have "fst (reads rd got ns t) = take (sum_list (map nat ns)) (drop (nat n) (drop (pos s) (data s)))"
    using Cons.IH [OF t(4)] Cons.prems(2) by simp
  then show ?case using t(1,3) t(2) by (simp add: split_def take_add)
qed simp

lemma read_to_end_all:
  assumes "0 < n" "n \<le> lim"
  shows "ok s \<Longrightarrow> length (data s) - pos s < k \<Longrightarrow> read_to_end rd got n k s = Some (drop (pos s) (data s))"
proof (induction k arbitrary: s)
  case (Suc k)
  then obtain d t where t: "rd n s = (int (length d), t)" "d = take (nat n) (drop (pos s) (data s))"
    "got (length d) t = d" "ok t" "data t = data s" "pos t = pos s + length d"
    using step [of s n] assms by auto
  show ?case
  proof (cases "d = []")
    case True
    then have "drop (pos s) (data s) = []" using t(2) assms(1) by (metis take_eq_Nil nat_0_iff not_less)
    with True t(1) show ?thesis by simp
  next
    case False
    then have "length (data t) - pos t < k" using Suc.prems(2) t(2,5,6) by (cases d) auto
    then have "read_to_end rd got n k t = Some (drop (pos t) (data t))"
      using Suc.IH t(4) by blast
    moreover have "d @ drop (pos t) (data t) = drop (pos s) (data s)"
      unfolding t(5,6) using t(2) by (metis add.commute append_take_drop_id drop_drop length_take min.cobounded2
        append_eq_conv_conj)
    ultimately show ?thesis using False t(1,3) by simp
  qed
qed simp

end

section \<open>\<open>file_read\<close>\<close>

lemma file_read_content:
  fixes s :: "'a filesys_scheme" and fd :: i32
  defines "f \<equiv> \<lambda>s. cur_file (s :: 'a filesys_scheme) fd"
  assumes fd: "2 \<le> fd" "fd < 8" and n: "0 \<le> n" "n < 2147483648"
    and good: "good_inode s (inode (f s))" and pos: "unat (file_pos (f s)) \<le> unat (file_length s (inode (f s)))"
    and d: "d = take (nat n) (drop (unat (file_pos (f s))) (content s (inode (f s))))"
    and out: "outside_file s (inode (f s)) buf (length d)"
  shows "file_read fd buf n s = (int (length d),
     upd_file fd (\<lambda>f. f\<lparr>file_pos := file_pos f + of_nat (length d)\<rparr>) (s\<lparr>ram := write_bytes (ram s) buf d\<rparr>))"
proof -
  have "unat (file_pos (f s)) \<le> 1023 * 4096" using pos good by (simp add: good_inode_def)
  then have "unat (file_pos (f s)) + unat (of_int n :: u32) < 4294967296"
    using n by (simp add: nat_of_int32)
  then have "read_data (inode (f s)) (file_pos (f s)) buf (of_int n) s
      = (int (length d), s\<lparr>ram := write_bytes (ram s) buf d\<rparr>)"
    using read_data_content [OF good, of "file_pos (f s)" "of_int n" buf] out
    unfolding d nat_of_int32 [OF n] by blast
  then show ?thesis
    using fd by (simp add: file_read_def f_def)
qed

lemma upd_file_filesys [simp]:
  "fs_base (upd_file fd g s) = fs_base s" "inode_base (upd_file fd g s) = inode_base s"
  "num_inode (upd_file fd g s) = num_inode s" "data_base (upd_file fd g s) = data_base s"
  "num_dentry (upd_file fd g s) = num_dentry s" "num_dblock (upd_file fd g s) = num_dblock s"
  "boot_block_ptr (upd_file fd g s) = boot_block_ptr s" "filesys.more (upd_file fd g s) = filesys.more s"
  by (simp_all add: upd_file_def upd_pcb_def)

lemma upd_file_contents [simp]:
  "file_length (upd_file fd g s) i = file_length s i"
  "content (upd_file fd g s) i = content s i"
  "good_inode (upd_file fd g s) i = good_inode s i"
  "outside_file (upd_file fd g s) i b k = outside_file s i b k"
  by (simp_all add: file_length_def content_def good_inode_def outside_file_def block_addr_def
      block_index_def inode_addr_def)

text \<open>The state property of the reader: descriptor \<open>fd\<close> is open on a well-formed file, and the
  buffer of up to \<open>lim\<close> bytes at \<open>buf\<close> does not overlap the file's image.\<close>

definition reader_ok :: "i32 \<Rightarrow> u32 \<Rightarrow> i32 \<Rightarrow> 'a filesys_scheme \<Rightarrow> bool" where
  "reader_ok fd buf lim s \<longleftrightarrow> 2 \<le> fd \<and> fd < 8 \<and> lim < 2147483648
     \<and> good_inode s (inode (cur_file s fd))
     \<and> unat (file_pos (cur_file s fd)) \<le> unat (file_length s (inode (cur_file s fd)))
     \<and> outside_file s (inode (cur_file s fd)) buf (nat lim)"

lemma outside_file_less: "outside_file s i buf n \<Longrightarrow> k \<le> n \<Longrightarrow> outside_file s i buf k"
  using outside_file_shift [of s i buf n 0 k] by simp

lemma file_read_step:
  assumes ok: "reader_ok fd buf lim s" and n: "0 \<le> n" "n \<le> lim"
  defines "i \<equiv> inode (cur_file s fd)"
  defines "d \<equiv> take (nat n) (drop (unat (file_pos (cur_file s fd))) (content s i))"
  defines "t \<equiv> snd (file_read fd buf n s)"
  shows "fst (file_read fd buf n s) = int (length d)" "inode (cur_file t fd) = i"
    "content t i = content s i" "unat (file_pos (cur_file t fd)) = unat (file_pos (cur_file s fd)) + length d"
    "bytes (ram t) buf (length d) = d" "reader_ok fd buf lim t"
proof -
  have good: "good_inode s i" and pos: "unat (file_pos (cur_file s fd)) \<le> unat (file_length s i)"
    and fd: "2 \<le> fd" "fd < 8" and lim: "lim < 2147483648" and out: "outside_file s i buf (nat lim)"
    using ok by (simp_all add: reader_ok_def i_def)
  have len: "length d \<le> nat lim" "unat (file_pos (cur_file s fd)) + length d \<le> unat (file_length s i)"
    using n pos by (auto simp: d_def)
  have flen: "unat (file_length s i) \<le> 1023 * 4096" using good by (simp add: good_inode_def)
  let ?s = "s\<lparr>ram := write_bytes (ram s) buf d\<rparr>"
  have eq: "file_read fd buf n s = (int (length d),
      upd_file fd (\<lambda>f. f\<lparr>file_pos := file_pos f + of_nat (length d)\<rparr>) ?s)"
    by (rule file_read_content [OF fd])
      (use n lim good pos out len(1) in \<open>auto simp: d_def i_def intro: outside_file_less\<close>)
  note un = file_unchanged [OF good out len(1)]
  have p: "unat (file_pos (cur_file s fd) + of_nat (length d)) = unat (file_pos (cur_file s fd)) + length d"
    using len(2) flen by (simp add: unat_word_ariths unat_of_nat32)
  show "fst (file_read fd buf n s) = int (length d)" by (simp add: eq)
  show i: "inode (cur_file t fd) = i" by (simp add: t_def eq i_def)
  show "content t i = content s i" using un(3) by (simp add: t_def eq)
  show q: "unat (file_pos (cur_file t fd)) = unat (file_pos (cur_file s fd)) + length d"
    using p by (simp add: t_def eq)
  have "length d < 4294967296" using len(2) flen by linarith
  then show "bytes (ram t) buf (length d) = d"
    using bytes_write_same [of d "ram s" buf] by (simp add: t_def eq)
  have "good_inode t i" "file_length t i = file_length s i" "outside_file t i buf (nat lim)"
    using un(1,4) un(5) [of buf "nat lim"] out by (simp_all add: t_def eq)
  then show "reader_ok fd buf lim t"
    using fd lim len(2) q by (simp add: reader_ok_def i)
qed

interpretation file_reader: seq_reader "file_read fd buf" "\<lambda>s. unat (file_pos (cur_file s fd))"
  "\<lambda>s. content s (inode (cur_file s fd))" "\<lambda>k s. bytes (ram s) buf k" "reader_ok fd buf lim" lim
  for fd :: i32 and buf :: u32 and lim :: i32
proof unfold_locales
  fix s :: "'a filesys_scheme" and n assume "reader_ok fd buf lim s" "0 \<le> n" "n \<le> lim"
  note step = file_read_step [OF this]
  show "reader_ok fd buf lim (snd (file_read fd buf n s))" by (rule step)
  show "content (snd (file_read fd buf n s)) (inode (cur_file (snd (file_read fd buf n s)) fd))
      = content s (inode (cur_file s fd))"
    using step(2,3) by simp
  show "fst (file_read fd buf n s)
      = int (length (take (nat n) (drop (unat (file_pos (cur_file s fd))) (content s (inode (cur_file s fd))))))"
    by (rule step)
  show "bytes (ram (snd (file_read fd buf n s))) buf
      (length (take (nat n) (drop (unat (file_pos (cur_file s fd))) (content s (inode (cur_file s fd))))))
      = take (nat n) (drop (unat (file_pos (cur_file s fd))) (content s (inode (cur_file s fd))))"
    by (rule step)
  show "unat (file_pos (cur_file (snd (file_read fd buf n s)) fd)) = unat (file_pos (cur_file s fd))
      + length (take (nat n) (drop (unat (file_pos (cur_file s fd))) (content s (inode (cur_file s fd)))))"
    by (rule step)
qed

section \<open>Directory entries\<close>

text \<open>The name \<open>read_dentry_by_name\<close> compares: the first 31 bytes, up to a NUL.\<close>

definition entry_name :: "'a filesys_scheme \<Rightarrow> u32 \<Rightarrow> u8 list" where
  "entry_name s i = strn (ram s) (dir_entry_addr s i) 31"

definition lookup :: "'a filesys_scheme \<Rightarrow> u8 list \<Rightarrow> nat option" where
  "lookup s name = find (\<lambda>k. entry_name s (of_nat k) = take 31 name) [0..<unat (num_dentry s)]"

lemma read_dentry_from_find:
  assumes "cstr (ram s) fname str" "disjoint_regions dentry (Suc (length str)) fname (Suc (length str))"
  shows "unat i \<le> unat (num_dentry s) \<Longrightarrow> read_dentry_from fname dentry i s =
     (case find (\<lambda>k. entry_name s (of_nat k) = take 31 str) [unat i..<unat (num_dentry s)] of
        None \<Rightarrow> Some (-1, s)
      | Some k \<Rightarrow> Some (0, s\<lparr>ram := copy_dentry_info dentry (dir_entry_addr s (of_nat k))
          (write_bytes (ram s) dentry (str @ [0]))\<rparr>))"
proof (induction "unat (num_dentry s) - unat i" arbitrary: i)
  case 0
  then have "\<not> i < num_dentry s" by (simp add: word_less_nat_alt)
  with 0 show ?case by (simp add: read_dentry_from.simps [of fname])
next
  case (Suc x)
  then have i: "i < num_dentry s" by (simp add: word_less_nat_alt)
  then have suc: "unat (i + 1) = Suc (unat i)" by (rule unat_Suc32)
  have upt: "[unat i..<unat (num_dentry s)] = unat i # [unat (i + 1)..<unat (num_dentry s)]"
    unfolding suc using i by (simp add: upt_conv_Cons word_less_nat_alt)
  have cmp: "strncmp (ram s) fname (dir_entry_addr s i) 31 = 0 \<longleftrightarrow> entry_name s i = take 31 str"
    using strncmp_iff [of "ram s" fname "dir_entry_addr s i" 31] strn_cstr [OF assms(1), of 31]
    by (auto simp: entry_name_def)
  have IH: "read_dentry_from fname dentry (i + 1) s =
     (case find (\<lambda>k. entry_name s (of_nat k) = take 31 str) [unat (i + 1)..<unat (num_dentry s)] of
        None \<Rightarrow> Some (-1, s)
      | Some k \<Rightarrow> Some (0, s\<lparr>ram := copy_dentry_info dentry (dir_entry_addr s (of_nat k))
          (write_bytes (ram s) dentry (str @ [0]))\<rparr>))"
    by (rule Suc.hyps) (use Suc.hyps(2) i in \<open>simp_all add: suc word_less_nat_alt\<close>)
  show ?case
    by (subst read_dentry_from.simps)
      (simp add: i Let_def cmp strcpy_cstr [OF assms] upt IH)
qed

lemma read_dentry_by_name_lookup:
  assumes "cstr (ram s) fname str" "disjoint_regions dentry (Suc (length str)) fname (Suc (length str))"
  shows "read_dentry_by_name fname dentry s = (case lookup s str of
        None \<Rightarrow> Some (-1, s)
      | Some k \<Rightarrow> Some (0, s\<lparr>ram := copy_dentry_info dentry (dir_entry_addr s (of_nat k))
          (write_bytes (ram s) dentry (str @ [0]))\<rparr>))"
  using read_dentry_from_find [OF assms, of 0] by (simp add: read_dentry_by_name_def lookup_def)

text \<open>
  Type and index node of the entry found, for a name that fits the 32 bytes of \<open>file_name\<close> and a
  \<open>dentry_t\<close> that does not overlap the entry. The boot block's entries are 64 bytes apart.
\<close>

definition entry_type :: "'a filesys_scheme \<Rightarrow> u32 \<Rightarrow> u32" where
  "entry_type s i = load32 (ram s) (file_type_addr (dir_entry_addr s i))"

definition entry_inode :: "'a filesys_scheme \<Rightarrow> u32 \<Rightarrow> u32" where
  "entry_inode s i = load32 (ram s) (inode_idx_addr (dir_entry_addr s i))"

lemma store32_write': "store32 m a v = write_bytes m a [ucast v, ucast (drop_bit 8 v),
    ucast (drop_bit 16 v), ucast (drop_bit 24 v)]"
  by (simp add: store32_write)

lemma load32_store32_other:
  assumes "disjoint_regions b 4 a 4"
  shows "load32 (store32 m a v) b = load32 m b"
  unfolding store32_write' using assms by (intro load32_write_disjoint) (simp add: eval_nat_numeral)

lemma copy_dentry_info_fields:
  fixes m t :: mem and dentry e :: u32 and str :: "u8 list"
  assumes "length str \<le> 31" and dis: "disjoint_regions dentry 40 e 64"
  defines "t \<equiv> copy_dentry_info dentry e (write_bytes m dentry (str @ [0]))"
  shows "load32 t (file_type_addr dentry) = load32 m (file_type_addr e)"
    and "load32 t (inode_idx_addr dentry) = load32 m (inode_idx_addr e)"
    and "\<And>x. \<not> in_region dentry 40 x \<Longrightarrow> t x = m x"
proof -
  let ?m = "write_bytes m dentry (str @ [0])"
  have e1: "load32 ?m (file_type_addr e) = load32 m (file_type_addr e)"
    and e2: "load32 ?m (inode_idx_addr e) = load32 m (inode_idx_addr e)"
    using load32_outside [OF dis, of "str @ [0]" 32 m] load32_outside [OF dis, of "str @ [0]" 36 m] assms(1)
    by (simp_all add: file_type_addr_def inode_idx_addr_def)
  let ?v = "load32 m (file_type_addr e)"
  let ?m1 = "store32 ?m (file_type_addr dentry) ?v"
  have d1: "disjoint_regions (inode_idx_addr e) 4 (file_type_addr dentry) 4"
    using disjoint_regions_shift [OF disjoint_regions_sym [OF dis], of 36 4 32 4]
    by (simp add: file_type_addr_def inode_idx_addr_def)
  have d2: "disjoint_regions (file_type_addr dentry) 4 (inode_idx_addr dentry) 4"
  proof -
    have "dentry + 32 + of_nat i - (dentry + 36) = - of_nat (4 - i)" if "i < 4" for i
      using that by (simp add: of_nat_diff)
    moreover have "\<not> unat (- of_nat (4 - i) :: u32) < 4" if "i < 4" for i
    proof -
      from that consider "i = 0" | "i = 1" | "i = 2" | "i = 3" by linarith
      then show ?thesis by cases (simp_all add: unsigned_minus_1_eq_mask mask_eq_exp_minus_1)
    qed
    ultimately show ?thesis
      by (simp add: disjoint_regions_def in_region_def file_type_addr_def inode_idx_addr_def)
  qed
  have t: "t = store32 ?m1 (inode_idx_addr dentry) (load32 m (inode_idx_addr e))"
    using load32_store32_other [OF d1, of ?m] by (simp add: t_def copy_dentry_info_def Let_def e1 e2)
  show "load32 t (file_type_addr dentry) = ?v"
    unfolding t load32_store32_other [OF d2] by (rule load_store32)
  show "load32 t (inode_idx_addr dentry) = load32 m (inode_idx_addr e)"
    unfolding t by (rule load_store32)
  show "t x = m x" if "\<not> in_region dentry 40 x" for x
  proof -
    have "x \<noteq> dentry + of_nat k" if "k < 40" for k
      using that \<open>\<not> in_region dentry 40 x\<close> in_region_offset' by blast
    note ne = this [of 32] this [of 33] this [of 34] this [of 35] this [of 36] this [of 37] this [of 38] this [of 39]
    have "?m x = m x"
      by (rule write_bytes_out) (use that assms(1) in \<open>auto dest: in_region_mono [of _ _ _ 40]\<close>)
    then show ?thesis
      using ne by (simp add: t store32_def file_type_addr_def inode_idx_addr_def add.assoc)
  qed
qed

section \<open>\<open>dir_read\<close>\<close>

lemma dir_read_entry:
  fixes s :: "'a filesys_scheme" and fd :: i32
  assumes fd: "2 \<le> fd" "fd < 8" and n: "0 \<le> n" "n < 2147483648"
    and k: "k = file_pos (cur_file s fd)" "k < num_dentry s"
    and name: "cstr (ram s) (dir_entry_addr s k) str" and small: "length str < 2147483648"
    and dis: "disjoint_regions buf (nat n) (dir_entry_addr s k) (max (nat n) (Suc (length str)))"
  shows "dir_read fd buf n s = Some (int (length str),
     (upd_file fd (\<lambda>f. f\<lparr>file_pos := file_pos f + 1\<rparr>) s)\<lparr>ram := write_bytes (ram s) buf
       (take (nat n) str @ replicate (nat n - length str) 0)\<rparr>)"
proof -
  let ?bs = "take (nat n) str @ replicate (nat n - length str) 0"
  let ?e = "dir_entry_addr s k"
  let ?s = "upd_file fd (\<lambda>f. f\<lparr>file_pos := file_pos f + 1\<rparr>) s"
  have "disjoint_regions buf (nat n) ?e (nat n)" using dis by (rule disjoint_regions_mono) simp_all
  then have copy: "strncpy (ram s) buf ?e (of_int n) = write_bytes (ram s) buf ?bs"
    using strncpy_write [of buf "of_int n" ?e "ram s"] strn_cstr [OF name, of "nat n"]
    unfolding nat_of_int32 [OF n] by (auto simp: Let_def min_def)
  have "length ?bs \<le> nat n" by simp
  then have "disjoint_regions ?e (Suc (length str)) buf (length ?bs)"
    by (rule disjoint_regions_sym [OF disjoint_regions_mono [OF dis]]) simp
  with name have "cstr (write_bytes (ram s) buf ?bs) ?e str" by (rule cstr_write_disjoint)
  then have len: "strlen (write_bytes (ram s) buf ?bs) ?e = Some (of_nat (length str))"
    by (rule strlen_cstr)
  have res: "sint (of_nat (length str) :: u32) = int (length str)"
    using small by (subst sint_small) (simp_all add: unat_of_nat32)
  have e: "dir_entry_addr ?s k = ?e" "ram ?s = ram s" by (simp_all add: dir_entry_addr_def)
  have "\<not> (fd \<le> 1 \<or> 8 \<le> fd)" "\<not> num_dentry s \<le> k" using fd k(2) by simp_all
  then have "dir_read fd buf n s = (case strlen (strncpy (ram s) buf ?e (of_int n)) ?e of None \<Rightarrow> None
      | Some l \<Rightarrow> Some (sint l, ?s\<lparr>ram := strncpy (ram s) buf ?e (of_int n)\<rparr>))"
    unfolding dir_read_def Let_def k(1) [symmetric] e by simp
  then show ?thesis unfolding copy len option.case res .
qed

lemma dir_read_end:
  assumes "2 \<le> fd" "fd < 8" "num_dentry s \<le> file_pos (cur_file s fd)"
  shows "\<exists>m. dir_read fd buf n s = Some (0, upd_file fd (\<lambda>f. f\<lparr>file_pos := 0\<rparr>)
     ((upd_file fd (\<lambda>f. f\<lparr>file_pos := file_pos f + 1\<rparr>) s)\<lparr>ram := m\<rparr>))"
  using assms by (auto simp: dir_read_def Let_def)

section \<open>Properties\<close>

text \<open>
  An image with one file for the witnesses: the boot block at 0x500000, its entry "a" of type 2,
  the index node with three bytes in block 0, and that block. \<open>filesys_start\<close> is the kernel state
  after \<open>fs_init\<close>, with descriptor 2 of process 0 open on the file.
\<close>

definition image_mem :: mem where
  "image_mem a =
     (if a = 0x500000 \<or> a = 0x500004 \<or> a = 0x500008 then 1
      else if a = 0x500040 then 97
      else if a = 0x500060 then 2
      else if a = 0x501000 then 3
      else if a = 0x502000 then 104 else if a = 0x502001 then 105 else if a = 0x502002 then 10
      else if a = 0x600000 then 97
      else 0)"

definition closed_file :: file_element where
  "closed_file = \<lparr>file_op_ptr = None, inode = 0, file_pos = 0, flag = 0\<rparr>"

definition sample_pcb :: pcb where
  "sample_pcb = \<lparr>file_array = (\<lambda>_. closed_file)(2 := \<lparr>file_op_ptr = Some file_table, inode = 0, file_pos = 0, flag = 1\<rparr>),
     parent_pid = 0, pid = 0, esp0 = 0, eip = 0, ss0 = 0, esp = 0, ebp = 0, arg = 0, ret_addr = 0\<rparr>"

definition process_start :: process where
  "process_start = paging.extend (paging_start\<lparr>ram := image_mem\<rparr>)
     \<lparr>pcbs = \<lambda>_. sample_pcb, pidlist = \<lambda>_. \<lparr>pid_pid = 0, pid_proc = 0, pid_flag = 0\<rparr>,
      current_pid = 0, tss = zero_tss\<lparr>tss_ss0 := 0x18\<rparr>\<rparr>"

definition filesys_start :: filesys where
  "filesys_start = fs_init 0x500000 (process.extend process_start
     \<lparr>fs_base = 0, inode_base = 0, num_inode = 0, data_base = 0, num_dentry = 0, num_dblock = 0,
      boot_block_ptr = 0\<rparr>)"

lemma image_words:
  "load32 image_mem 0x500000 = 1" "load32 image_mem 0x500004 = 1" "load32 image_mem 0x500008 = 1"
  "load32 image_mem 0x500060 = 2" "load32 image_mem 0x500064 = 0" "load32 image_mem 0x501000 = 3"
  "load32 image_mem 0x501004 = 0"
  by (simp_all add: load32_def image_mem_def)

lemma filesys_start_fields [simp]:
  "ram filesys_start = image_mem" "num_dentry filesys_start = 1" "num_inode filesys_start = 1"
  "num_dblock filesys_start = 1" "inode_base filesys_start = 0x501000" "data_base filesys_start = 0x502000"
  "boot_block_ptr filesys_start = 0x500000" "current_pid filesys_start = 0"
  "pcbs filesys_start = (\<lambda>_. sample_pcb)"
  by (simp_all add: filesys_start_def fs_init_def Let_def process.defs process_start_def paging.defs image_words)

lemma sample_file [simp]: "file_array sample_pcb 2 = \<lparr>file_op_ptr = Some file_table, inode = 0, file_pos = 0, flag = 1\<rparr>"
  by (simp add: sample_pcb_def)

lemma sample_image:
  "file_length filesys_start 0 = 3" "content filesys_start 0 = [104, 105, 10]" "good_inode filesys_start 0"
proof -
  show len: "file_length filesys_start 0 = 3"
    by (simp add: file_length_def inode_addr_def image_words)
  have "[0..<3] = [0, 1, 2 :: nat]" by (simp add: upt_rec)
  moreover have b: "block_addr filesys_start 0 0 = 0x502000"
    by (simp add: block_addr_def block_index_def inode_addr_def dblock_idx_addr_def image_words)
  ultimately show "content filesys_start 0 = [104, 105, 10]"
    by (simp add: content_def len image_mem_def)
  have "4096 * k < (3 :: nat) \<longleftrightarrow> k = 0" for k by (cases k) simp_all
  then show "good_inode filesys_start 0"
    by (auto simp: good_inode_def len block_index_def inode_addr_def dblock_idx_addr_def image_words)
qed

lemma sample_outside: "n \<le> 4096 \<Longrightarrow> outside_file filesys_start 0 0x700000 n"
proof -
  assume n: "n \<le> 4096"
  have "4096 * k < (3 :: nat) \<longleftrightarrow> k = 0" for k by (cases k) simp_all
  moreover have "disjoint_regions 0x700000 n 0x501000 4096" "disjoint_regions 0x700000 n 0x502000 4096"
    by (rule disjoint_regions_sym, rule disjoint_regions_sep; use n in simp)+
  moreover have "block_addr filesys_start 0 0 = 0x502000"
    by (simp add: block_addr_def block_index_def inode_addr_def dblock_idx_addr_def image_words)
  ultimately show ?thesis by (auto simp: outside_file_def sample_image inode_addr_def)
qed

lemma sample_reader: "lim \<le> 4096 \<Longrightarrow> reader_ok 2 0x700000 lim filesys_start"
  by (simp add: reader_ok_def sample_image sample_outside nat_le_iff)

text \<open>
  C6: \<open>read_data\<close> refines the abstract file: for a well-formed index node and a buffer that does
  not overlap the file's image, it copies the bytes of the file from \<open>offset\<close> on, at most
  \<open>length\<close> of them and none past the end, across block boundaries; it returns their number and
  changes nothing else.
\<close>

theorem read_data_reads_file:
  assumes "good_inode s i" "unat offset + unat n < 4294967296"
    and "d = take (unat n) (drop (unat offset) (content s i))" "outside_file s i buf (length d)"
  shows "read_data i offset buf n s = (int (length d), s\<lparr>ram := write_bytes (ram s) buf d\<rparr>)"
  using read_data_content assms by blast

theorem read_data_reads_file_witness:
  "read_data 0 1 0x700000 100 filesys_start
    = (2, filesys_start\<lparr>ram := write_bytes image_mem 0x700000 [105, 10]\<rparr>)"
  using read_data_reads_file [of filesys_start 0 1 100 "[105, 10]" "0x700000"]
  by (simp add: sample_image sample_outside)

text \<open>
  Successive \<open>file_read\<close>s on an open file deliver consecutive pieces: whatever the sizes of
  the requests, the pieces together are the file's bytes from the old position on, cut at the
  total requested.
\<close>

theorem file_read_sequence:
  assumes "reader_ok fd buf lim s" "\<forall>n \<in> set ns. 0 \<le> n \<and> n \<le> lim"
  shows "fst (reads (file_read fd buf) (\<lambda>k s. bytes (ram s) buf k) ns s)
    = take (sum_list (map nat ns)) (drop (unat (file_pos (cur_file s fd))) (content s (inode (cur_file s fd))))"
  using assms by (rule file_reader.reads_concat)

theorem file_read_sequence_witness:
  "fst (reads (file_read 2 0x700000) (\<lambda>k s. bytes (ram s) 0x700000 k) [2, 0, 7] filesys_start) = [104, 105, 10]"
  using file_read_sequence [OF sample_reader, of 7 "[2, 0, 7]"] by (simp add: sample_image)

text \<open>
  C40: a program that reads with a fixed positive request size until \<open>file_read\<close> returns 0
  stops after at most as many rounds as bytes are left plus one, and has then read the whole rest
  of the file.
\<close>

theorem file_read_to_end:
  assumes "reader_ok fd buf lim s" "0 < n" "n \<le> lim"
    and "unat (file_length s (inode (cur_file s fd))) - unat (file_pos (cur_file s fd)) < k"
  shows "read_to_end (file_read fd buf) (\<lambda>k s. bytes (ram s) buf k) n k s
    = Some (drop (unat (file_pos (cur_file s fd))) (content s (inode (cur_file s fd))))"
  using file_reader.read_to_end_all [OF assms(2,3,1)] assms(4) by simp

theorem file_read_to_end_witness:
  "read_to_end (file_read 2 0x700000) (\<lambda>k s. bytes (ram s) 0x700000 k) 2 4 filesys_start = Some [104, 105, 10]"
  using file_read_to_end [OF sample_reader, of 2 2 4] by (simp add: sample_image)

text \<open>
  \<open>read_dentry_by_name\<close> finds the first directory entry whose first 31 bytes agree with the
  name, copies the name and that entry's type and index node number, and returns 0; without such
  an entry it returns -1 and changes nothing. So two names that differ only from the 32nd
  character on are the same file.
\<close>

theorem read_dentry_finds_first:
  assumes "cstr (ram s) fname str" "disjoint_regions dentry (Suc (length str)) fname (Suc (length str))"
  shows "read_dentry_by_name fname dentry s = (case lookup s str of
        None \<Rightarrow> Some (-1, s)
      | Some k \<Rightarrow> Some (0, s\<lparr>ram := copy_dentry_info dentry (dir_entry_addr s (of_nat k))
          (write_bytes (ram s) dentry (str @ [0]))\<rparr>))"
  using assms by (rule read_dentry_by_name_lookup)

lemma sample_name: "cstr image_mem 0x600000 [97]" "lookup filesys_start [97] = Some 0"
proof -
  show "cstr image_mem 0x600000 [97]"
    by (simp add: cstr_def bytes_Suc image_mem_def)
  have "strn image_mem 0x500040 (Suc (Suc 29)) = [97]" by (simp only: strn_Suc) (simp add: image_mem_def)
  then have "entry_name filesys_start 0 = [97]" by (simp add: entry_name_def dir_entry_addr_def)
  then show "lookup filesys_start [97] = Some 0" by (simp add: lookup_def)
qed

theorem read_dentry_finds_first_witness:
  "read_dentry_by_name 0x600000 0x700000 filesys_start = Some (0, filesys_start\<lparr>ram :=
     copy_dentry_info 0x700000 0x500040 (write_bytes image_mem 0x700000 [97, 0])\<rparr>)"
  using read_dentry_finds_first [of filesys_start "0x600000" "[97]" "0x700000"] sample_name
    disjoint_regions_sym [OF disjoint_regions_sep [of "0x600000" "Suc (Suc 0)" "0x700000" "Suc (Suc 0)"]]
  by (simp add: dir_entry_addr_def)

text \<open>
  \<open>dir_read\<close> on a directory descriptor at position \<open>k\<close> returns the name of entry \<open>k\<close>, cut or
  NUL-padded to the \<open>n\<close> bytes of the buffer, and moves to the next entry. It returns the full
  length of the name, also when that is more than the \<open>n\<close> bytes it stored.
\<close>

theorem dir_read_name:
  assumes "2 \<le> fd" "fd < 8" "0 \<le> n" "n < 2147483648"
    and "k = file_pos (cur_file s fd)" "k < num_dentry s"
    and "cstr (ram s) (dir_entry_addr s k) str" "length str < 2147483648"
    and "disjoint_regions buf (nat n) (dir_entry_addr s k) (max (nat n) (Suc (length str)))"
  shows "dir_read fd buf n s = Some (int (length str),
     (upd_file fd (\<lambda>f. f\<lparr>file_pos := file_pos f + 1\<rparr>) s)\<lparr>ram := write_bytes (ram s) buf
       (take (nat n) str @ replicate (nat n - length str) 0)\<rparr>)"
  using assms by (rule dir_read_entry)

theorem dir_read_name_witness:
  "dir_read 2 0x700000 2 filesys_start = Some (1,
     (upd_file 2 (\<lambda>f. f\<lparr>file_pos := file_pos f + 1\<rparr>) filesys_start)
       \<lparr>ram := write_bytes image_mem 0x700000 [97, 0]\<rparr>)"
proof -
  have "cstr image_mem 0x500040 [97]" by (simp add: cstr_def bytes_Suc image_mem_def)
  then show ?thesis
    using dir_read_name [of 2 2 0 filesys_start "[97]" "0x700000"]
      disjoint_regions_sym [OF disjoint_regions_sep [of "0x500040" "Suc (Suc 0)" "0x700000" 2]]
    by (simp add: dir_entry_addr_def)
qed

end
