(* ===== verification/Printf.thy ===== *)
theory Printf
  imports Console
begin

text \<open>
  \<open>puts\<close> and \<open>printf\<close> of student-distrib/lib.c. The format string, the arguments and the
  conversion buffers are read from and written to memory: \<open>esp\<close> points at the next argument on
  the stack, and \<open>conv_buf c\<close> is the address of the local array in the block of the conversion
  character \<open>c\<close>, which the compiler chooses. \<open>None\<close>: the call does not return.
\<close>

section \<open>Operations\<close>

partial_function (option) puts_from :: "u32 \<Rightarrow> u32 \<Rightarrow> 'a console_scheme \<Rightarrow> (i32 \<times> 'a console_scheme) option" where
  "puts_from p index s =
     (if ram s (p + index) \<noteq> 0 then puts_from p (index + 1) (putc (ram s (p + index)) 1 s)
      else Some (sint index, s))"

definition puts :: "u32 \<Rightarrow> 'a console_scheme \<Rightarrow> (i32 \<times> 'a console_scheme) option" where
  "puts p s = puts_from p 0 s"

text \<open>\<open>itoa\<close> into a buffer and printing from an address, as the conversions do.\<close>

definition itoa_puts :: "u32 \<Rightarrow> u32 \<Rightarrow> u32 \<Rightarrow> u32 \<Rightarrow> 'a console_scheme \<Rightarrow> 'a console_scheme option" where
  "itoa_puts v buf radix start s =
     (case itoa (ram s) v buf radix of None \<Rightarrow> None
      | Some m \<Rightarrow> map_option snd (puts start (s\<lparr>ram := m\<rparr>)))"

fun fill_zeros :: "mem \<Rightarrow> u32 \<Rightarrow> nat \<Rightarrow> nat \<Rightarrow> mem" where
  "fill_zeros m buf i 0 = m"
| "fill_zeros m buf i (Suc n) = fill_zeros (m(buf + of_nat i := 48)) buf (Suc i) n"

definition print_hex8 :: "u32 \<Rightarrow> u32 \<Rightarrow> 'a console_scheme \<Rightarrow> 'a console_scheme option" where
  "print_hex8 v buf s =
     (case itoa (ram s) v (buf + 8) 16 of None \<Rightarrow> None
      | Some m \<Rightarrow> (case strlen m (buf + 8) of None \<Rightarrow> None
        | Some i \<Rightarrow>
            let m = fill_zeros m buf (unat i) (8 - unat i)
            in map_option snd (puts (buf + i) (s\<lparr>ram := m\<rparr>))))"

definition print_signed :: "u32 \<Rightarrow> u32 \<Rightarrow> 'a console_scheme \<Rightarrow> 'a console_scheme option" where
  "print_signed v buf s =
     (if sint v < 0 then itoa_puts (- v) (buf + 1) 10 buf (s\<lparr>ram := (ram s)(buf := 45)\<rparr>)
      else itoa_puts v buf 10 buf s)"

text \<open>
  One conversion, from the character after \<open>%\<close>: the \<open>goto\<close> on \<open>#\<close> is the recursive call. The
  result is the last character consumed, the next argument and the state.
\<close>

partial_function (option) printf_conv ::
  "(u8 \<Rightarrow> u32) \<Rightarrow> u32 \<Rightarrow> u32 \<Rightarrow> bool \<Rightarrow> 'a console_scheme \<Rightarrow> (u32 \<times> u32 \<times> 'a console_scheme) option" where
  "printf_conv conv_buf buf esp alternate s =
     (let c = ram s buf; v = load32 (ram s) esp
      in if c = 37 then Some (buf, esp, putc 37 1 s)
         else if c = 35 then printf_conv conv_buf (buf + 1) esp True s
         else if c = 120 then
           map_option (\<lambda>s. (buf, esp + 4, s))
             (if \<not> alternate then itoa_puts v (conv_buf 120) 16 (conv_buf 120) s
              else print_hex8 v (conv_buf 120) s)
         else if c = 117 then
           map_option (\<lambda>s. (buf, esp + 4, s)) (itoa_puts v (conv_buf 117) 10 (conv_buf 117) s)
         else if c = 100 then
           map_option (\<lambda>s. (buf, esp + 4, s)) (print_signed v (conv_buf 100) s)
         else if c = 99 then Some (buf, esp + 4, putc (ucast v) 1 s)
         else if c = 115 then map_option (\<lambda>(r, s). (buf, esp + 4, s)) (puts v s)
         else Some (buf, esp, s))"

partial_function (option) printf_loop ::
  "(u8 \<Rightarrow> u32) \<Rightarrow> u32 \<Rightarrow> u32 \<Rightarrow> u32 \<Rightarrow> 'a console_scheme \<Rightarrow> (i32 \<times> 'a console_scheme) option" where
  "printf_loop conv_buf format buf esp s =
     (if ram s buf \<noteq> 0 then
        if ram s buf = 37 then
          case printf_conv conv_buf (buf + 1) esp False s of None \<Rightarrow> None
          | Some (buf, esp, s) \<Rightarrow> printf_loop conv_buf format (buf + 1) esp s
        else printf_loop conv_buf format (buf + 1) esp (putc (ram s buf) 1 s)
      else Some (sint (buf - format), s))"

definition printf :: "(u8 \<Rightarrow> u32) \<Rightarrow> u32 \<Rightarrow> u32 \<Rightarrow> 'a console_scheme \<Rightarrow> (i32 \<times> 'a console_scheme) option" where
  "printf conv_buf format esp s = printf_loop conv_buf format format esp s"

text \<open>Printing a string literal: the characters of the literal, one \<open>putc\<close> each.\<close>

definition put_literal :: "u8 list \<Rightarrow> 'a console_scheme \<Rightarrow> 'a console_scheme" where
  "put_literal str s = fold (\<lambda>c. putc c 1) str s"

section \<open>What is printed\<close>

text \<open>A region that the displayed screen does not overlap.\<close>

definition off_screen :: "u32 \<Rightarrow> nat \<Rightarrow> bool" where
  "off_screen a n \<longleftrightarrow> disjoint_regions a n video_mem 4000"

lemma putc_video_outside:
  assumes "screen_ok s" "off_screen a n" "i < n"
  shows "ram (putc c 1 s) (a + of_nat i) = ram s (a + of_nat i)"
  by (rule putc_outside [OF assms(1)])
    (use assms(2,3) in \<open>simp add: off_screen_def disjoint_regions_def target_base_def\<close>)

lemma putc_cstr:
  assumes "screen_ok s" "off_screen p (Suc (length str))" "cstr (ram s) p str"
  shows "cstr (ram (putc c 1 s)) p str"
proof -
  have "bytes (ram (putc c 1 s)) p (Suc (length str)) = bytes (ram s) p (Suc (length str))"
    using putc_video_outside [OF assms(1,2)] by (intro bytes_cong)
  with assms(3) show ?thesis by (simp add: cstr_def)
qed

lemma put_literal_simps [simp]:
  "put_literal [] s = s" "put_literal (c # cs) s = put_literal cs (putc c 1 s)"
  by (simp_all add: put_literal_def)

lemma put_literal_append: "put_literal (xs @ ys) s = put_literal ys (put_literal xs s)"
  by (simp add: put_literal_def)

lemma put_literal_screen_ok [inv_intros]: "screen_ok s \<Longrightarrow> screen_ok (put_literal str s)"
  by (induction str arbitrary: s) (auto intro: inv_intros)

lemma put_literal_fields [simp]:
  "disp_terminal (put_literal str s) = disp_terminal s"
  "scheduled_terminal (put_literal str s) = scheduled_terminal s"
  "dev (put_literal str s) = dev s" "console.more (put_literal str s) = console.more s"
  by (induction str arbitrary: s) auto

lemma put_literal_outside:
  "screen_ok s \<Longrightarrow> off_screen a n \<Longrightarrow> i < n \<Longrightarrow> ram (put_literal str s) (a + of_nat i) = ram s (a + of_nat i)"
  by (induction str arbitrary: s) (auto simp: putc_video_outside putc_screen_ok)

lemma put_literal_typed:
  "screen_ok s \<Longrightarrow> screen_of (disp_terminal s) video_mem (put_literal str s)
     = fold typed str (screen_of (disp_terminal s) video_mem s)"
proof (induction str arbitrary: s)
  case (Cons c cs)
  have "screen_of (disp_terminal s) video_mem (putc c 1 s) = typed c (screen_of (disp_terminal s) video_mem s)"
    using putc_typed [OF Cons.prems, of 1 c] by (simp add: target_def target_base_def)
  then show ?case using Cons.IH [OF putc_screen_ok [OF Cons.prems], of c 1] by simp
qed simp

lemma puts_from_literal:
  assumes "cstr (ram s) p str" "off_screen p (Suc (length str))" "screen_ok s" "k \<le> length str"
  shows "puts_from p (of_nat k) s = Some (sint (of_nat (length str) :: u32), put_literal (drop k str) s)"
  using assms
proof (induction "length str - k" arbitrary: k s)
  case 0
  then have k: "k = length str" by simp
  then show ?case using cstr_end [OF "0.prems"(1)] by (simp add: puts_from.simps)
next
  case (Suc x)
  then have k: "k < length str" by simp
  have c: "ram s (p + of_nat k) = str ! k" "str ! k \<noteq> 0"
    using cstr_nth [OF Suc.prems(1) k] cstr_nth_nonzero [OF Suc.prems(1) k] by simp_all
  have "puts_from p (of_nat (Suc k)) (putc (str ! k) 1 s)
      = Some (sint (of_nat (length str) :: u32), put_literal (drop (Suc k) str) (putc (str ! k) 1 s))"
    by (rule Suc.hyps) (use Suc.hyps(2) Suc.prems k in \<open>auto intro: putc_cstr inv_intros\<close>)
  moreover have "drop k str = str ! k # drop (Suc k) str" using k by (simp add: Cons_nth_drop_Suc)
  ultimately show ?case
    by (subst puts_from.simps) (simp add: c add.commute)
qed

lemma puts_literal:
  assumes "cstr (ram s) p str" "off_screen p (Suc (length str))" "screen_ok s"
  shows "puts p s = Some (sint (of_nat (length str) :: u32), put_literal str s)"
  using puts_from_literal [OF assms, of 0] by (simp add: puts_def)

section \<open>What \<open>printf\<close> prints\<close>

lemma digits_rev_length_pow: "2 \<le> r \<Longrightarrow> n < r ^ k \<Longrightarrow> length (digits_rev r n) \<le> k"
proof (induction k arbitrary: n)
  case 0
  then show ?case by (simp add: digits_rev.simps)
next
  case (Suc k)
  then have "n div r < r ^ k" by (simp add: less_mult_imp_div_less mult.commute)
  then show ?case using Suc by (auto simp: digits_rev.simps [of r n])
qed

lemma numeral_length_pow:
  assumes "2 \<le> r" "n < r ^ k" "0 < k"
  shows "length (numeral_string r n) \<le> k"
  using digits_rev_length_pow [OF assms(1,2)] assms(3) by (simp add: numeral_string_def)

lemma numeral_lengths:
  "length (numeral_string 16 (unat (v :: u32))) \<le> 8" "length (numeral_string 10 (unat (v :: u32))) \<le> 10"
  using unat_lt_2p32 [of v] by (auto intro!: numeral_length_pow)

definition hex8 :: "u32 \<Rightarrow> u8 list" where
  "hex8 v = replicate (8 - length (numeral_string 16 (unat v))) 48 @ numeral_string 16 (unat v)"

definition signed_string :: "u32 \<Rightarrow> u8 list" where
  "signed_string v = (if sint v < 0 then 45 # numeral_string 10 (unat (- v)) else numeral_string 10 (unat v))"

text \<open>The text of one conversion; \<open>strs\<close> gives the string at a pointer that may be printed.\<close>

definition conv_text :: "(u32 \<Rightarrow> u8 list option) \<Rightarrow> u8 \<Rightarrow> bool \<Rightarrow> u32 \<Rightarrow> u8 list" where
  "conv_text strs c alternate v =
     (if c = 120 then if alternate then hex8 v else numeral_string 16 (unat v)
      else if c = 117 then numeral_string 10 (unat v)
      else if c = 100 then signed_string v
      else if c = 99 then [ucast v]
      else the (strs v))"

definition is_conv :: "u8 \<Rightarrow> bool" where
  "is_conv c \<longleftrightarrow> c = 120 \<or> c = 117 \<or> c = 100 \<or> c = 99 \<or> c = 115"

text \<open>The text of a format: plain, or \<open>Some alternate\<close> inside a conversion.\<close>

fun render :: "(u32 \<Rightarrow> u8 list option) \<Rightarrow> bool option \<Rightarrow> u8 list \<Rightarrow> u32 list \<Rightarrow> u8 list" where
  "render strs mode [] args = []"
| "render strs None (c # cs) args =
     (if c = 37 then render strs (Some False) cs args else c # render strs None cs args)"
| "render strs (Some alt) (c # cs) args =
     (if c = 37 then 37 # render strs None cs args
      else if c = 35 then render strs (Some True) cs args
      else if is_conv c then conv_text strs c alt (hd args) @ render strs None cs (tl args)
      else render strs None cs args)"

text \<open>A format in which every conversion is complete and has its argument.\<close>

fun format_ok :: "(u32 \<Rightarrow> u8 list option) \<Rightarrow> bool \<Rightarrow> u8 list \<Rightarrow> u32 list \<Rightarrow> bool" where
  "format_ok strs conv [] args \<longleftrightarrow> \<not> conv"
| "format_ok strs False (c # cs) args \<longleftrightarrow> format_ok strs (c = 37) cs args"
| "format_ok strs True (c # cs) args \<longleftrightarrow>
     (if c = 35 then format_ok strs True cs args
      else if is_conv c then args \<noteq> [] \<and> (c = 115 \<longrightarrow> strs (hd args) \<noteq> None) \<and> format_ok strs False cs (tl args)
      else format_ok strs False cs args)"

text \<open>The local buffers of the three numeric conversions, with their sizes in the source.\<close>

definition conv_size :: "u8 \<Rightarrow> nat" where
  "conv_size c = (if c = 120 then 64 else if c = 117 \<or> c = 100 then 36 else 0)"

definition off_buffers :: "(u8 \<Rightarrow> u32) \<Rightarrow> u32 \<Rightarrow> nat \<Rightarrow> bool" where
  "off_buffers cb a n \<longleftrightarrow> off_screen a n \<and> (\<forall>c. disjoint_regions a n (cb c) (conv_size c))"

definition prints :: "(u8 \<Rightarrow> u32) \<Rightarrow> u8 list \<Rightarrow> 'a console_scheme \<Rightarrow> 'a console_scheme \<Rightarrow> bool" where
  "prints cb out s t \<longleftrightarrow> screen_ok t \<and> disp_terminal t = disp_terminal s
     \<and> screen_of (disp_terminal s) video_mem t = fold typed out (screen_of (disp_terminal s) video_mem s)
     \<and> (\<forall>a. in_region video_mem 4000 a \<or> (\<exists>c. in_region (cb c) (conv_size c) a) \<or> ram t a = ram s a)"

lemma prints_trans: "prints cb xs s t \<Longrightarrow> prints cb ys t u \<Longrightarrow> prints cb (xs @ ys) s u"
  unfolding prints_def by (metis fold_append comp_apply)

lemma prints_refl: "screen_ok s \<Longrightarrow> prints cb [] s s"
  by (simp add: prints_def)

lemma prints_literal: "screen_ok s \<Longrightarrow> prints cb str s (put_literal str s)"
proof -
  assume s: "screen_ok s"
  have "ram (put_literal str s) a = ram s a" if "\<not> in_region video_mem 4000 a" for a
    using put_literal_outside [OF s, of a 1 0 str] that by (simp add: off_screen_def disjoint_regions_def)
  then show ?thesis
    using s by (auto simp: prints_def put_literal_typed put_literal_screen_ok)
qed

lemma glyphs_write_off:
  assumes "off_screen a (length bs)"
  shows "glyphs (write_bytes m a bs) video_mem = glyphs m video_mem"
proof -
  have "write_bytes m a bs (video_mem + of_nat (2 * k)) = m (video_mem + of_nat (2 * k))" if "k < 2000" for k
    by (rule write_bytes_out)
      (use assms that disjoint_regions_notin in_region_offset' [of "2 * k" 4000] in \<open>force simp: off_screen_def\<close>)
  then show ?thesis by (simp add: glyphs_def)
qed

lemma prints_buffer:
  assumes "screen_ok s" "off_screen a (length bs)"
    and "\<And>x. in_region a (length bs) x \<Longrightarrow> in_region (cb c) (conv_size c) x"
  shows "prints cb [] s (s\<lparr>ram := write_bytes (ram s) a bs\<rparr>)"
proof -
  have "write_bytes (ram s) a bs x = ram s x" if "\<not> in_region (cb c) (conv_size c) x" for x
    using that assms(3) by (blast intro: write_bytes_out)
  then show ?thesis
    using assms(1) glyphs_write_off [OF assms(2)]
    by (auto simp: prints_def screen_of_def screen_ok_def term_ok_def cursor_ok_def)
qed

lemma in_region_shift: "in_region (a + of_nat k) n x \<Longrightarrow> k + n \<le> m \<Longrightarrow> m \<le> 4294967296 \<Longrightarrow> in_region a m x"
proof -
  assume "in_region (a + of_nat k) n x" "k + n \<le> m" "m \<le> 4294967296"
  then obtain i where "i < n" "x = a + of_nat k + of_nat i" using in_region_ex by blast
  then show ?thesis using \<open>k + n \<le> m\<close> in_region_offset' [of "k + i" m a] by (simp add: add.assoc)
qed

lemma off_screen_shift: "off_screen a n \<Longrightarrow> k + n' \<le> n \<Longrightarrow> off_screen (a + of_nat k) n'"
  using disjoint_regions_shift [of a n video_mem 4000 k n' 0 4000] by (simp add: off_screen_def)

lemma puts_buffer:
  assumes "screen_ok s" "off_screen p (Suc (length str))" "cstr m p str"
  shows "map_option snd (puts p (s\<lparr>ram := m\<rparr>)) = Some (put_literal str (s\<lparr>ram := m\<rparr>))"
  using assms puts_literal [of "s\<lparr>ram := m\<rparr>" p str]
  by (simp add: screen_ok_def term_ok_def cursor_ok_def)

lemma itoa_puts_prints:
  assumes s: "screen_ok s" and buf: "off_screen (cb c) (conv_size c)" "k + 11 \<le> conv_size c"
    and radix: "radix = 16 \<or> radix = 10"
  shows "\<exists>t. itoa_puts v (cb c) radix (cb c) s = Some t \<and> prints cb (numeral_string (unat radix) (unat v)) s t"
proof -
  let ?n = "numeral_string (unat radix) (unat v)"
  have r: "2 \<le> radix" "radix \<le> 36" "2 \<le> unat radix" "unat radix \<le> 36" using radix by auto
  have len: "length ?n \<le> 10" using numeral_lengths [of v] radix by auto
  let ?t = "s\<lparr>ram := write_bytes (ram s) (cb c) (?n @ [0])\<rparr>"
  have off: "off_screen (cb c) (Suc (length ?n))"
    using off_screen_shift [OF buf(1), of 0 "Suc (length ?n)"] len buf(2) by simp
  have str: "cstr (write_bytes (ram s) (cb c) (?n @ [0])) (cb c) ?n"
    using numeral_string_nonzero [OF r(3,4)] len by (intro cstr_write) auto
  have "itoa_puts v (cb c) radix (cb c) s = Some (put_literal ?n ?t)"
    using puts_buffer [OF s off str] by (simp add: itoa_puts_def itoa_write [OF r(1,2)])
  moreover have "prints cb [] s ?t"
    by (rule prints_buffer [OF s]) (use off len buf(2) in \<open>auto intro: in_region_mono\<close>)
  moreover have "prints cb ?n ?t (put_literal ?n ?t)"
    by (rule prints_literal) (use \<open>prints cb [] s ?t\<close> in \<open>simp add: prints_def\<close>)
  ultimately show ?thesis using prints_trans by fastforce
qed

lemma buffer_prints:
  assumes s: "screen_ok s" and buf: "off_screen (cb c) (conv_size c)" "conv_size c \<le> 64"
    and str: "0 \<notin> set str" and fits: "k + Suc (length str) \<le> conv_size c"
    and m: "m = write_bytes (ram s) (cb c) xs" "length xs \<le> conv_size c" "cstr m (cb c + of_nat k) str"
  shows "\<exists>t. map_option snd (puts (cb c + of_nat k) (s\<lparr>ram := m\<rparr>)) = Some t \<and> prints cb str s t"
proof -
  have off: "off_screen (cb c + of_nat k) (Suc (length str))"
    by (rule off_screen_shift [OF buf(1) fits])
  have "off_screen (cb c) (length xs)" using off_screen_shift [OF buf(1), of 0 "length xs"] m(2) by simp
  then have "prints cb [] s (s\<lparr>ram := m\<rparr>)" unfolding m(1)
    by (rule prints_buffer [OF s]) (use m(2) in \<open>auto intro: in_region_mono\<close>)
  moreover have "prints cb str (s\<lparr>ram := m\<rparr>) (put_literal str (s\<lparr>ram := m\<rparr>))"
    by (rule prints_literal) (use s in \<open>simp add: screen_ok_def term_ok_def cursor_ok_def\<close>)
  ultimately show ?thesis using prints_trans puts_buffer [OF s off m(3)] by fastforce
qed

lemma print_signed_prints:
  assumes s: "screen_ok s" and buf: "off_screen (cb 100) (conv_size 100)"
  shows "\<exists>t. print_signed v (cb 100) s = Some t \<and> prints cb (signed_string v) s t"
proof (cases "sint v < 0")
  case True
  let ?n = "numeral_string 10 (unat (- v))"
  let ?m = "write_bytes (ram s) (cb 100) ((45 # ?n) @ [0])"
  have len: "length ?n \<le> 10" by (rule numeral_lengths)
  have nz: "0 \<notin> set (45 # ?n)" using numeral_string_nonzero [of 10] by simp
  have str: "cstr ?m (cb 100) (45 # ?n)" using nz len by (intro cstr_write) auto
  have "itoa (ram (s\<lparr>ram := (ram s)(cb 100 := 45)\<rparr>)) (- v) (cb 100 + 1) 10 = Some ?m"
    by (subst itoa_write) (simp_all del: fun_upd_apply)
  then have "print_signed v (cb 100) s = map_option snd (puts (cb 100) (s\<lparr>ram := ?m\<rparr>))"
    using True by (simp add: print_signed_def itoa_puts_def del: fun_upd_apply)
  moreover have "signed_string v = 45 # ?n" using True by (simp add: signed_string_def)
  ultimately show ?thesis
    using buffer_prints [of s cb 100 "45 # ?n" 0 ?m "(45 # ?n) @ [0]", OF s buf _ nz] len str
    by (simp add: conv_size_def)
next
  case False
  then show ?thesis
    using itoa_puts_prints [of s cb 100 0 10 v, OF s buf]
    by (simp add: print_signed_def signed_string_def conv_size_def)
qed

lemma fill_zeros_write: "fill_zeros m buf i n = write_bytes m (buf + of_nat i) (replicate n 48)"
  by (induction n arbitrary: m i) (auto simp: add_ac)

lemma write_bytes_hex:
  assumes "length xs \<le> 8" "n = 8 - length xs"
  shows "write_bytes (write_bytes m (buf + 8) (xs @ [0])) (buf + of_nat (length xs)) (replicate n 48)
    = write_bytes m buf (bytes m buf (length xs) @ (replicate n 48 @ xs) @ [0])"
proof (rule write_bytes_eqI)
  let ?l = "length xs"
  let ?w = "write_bytes (write_bytes m (buf + 8) (xs @ [0])) (buf + of_nat ?l) (replicate n 48)"
  have val: "?w (buf + of_nat i) = (if ?l \<le> i \<and> i < 8 then 48
      else if 8 \<le> i \<and> i < 9 + ?l then (xs @ [0]) ! (i - 8) else m (buf + of_nat i))" if "i < 17" for i
  proof -
    have r1: "in_region (buf + of_nat ?l) n (buf + of_nat i) \<longleftrightarrow> ?l \<le> i \<and> i < 8"
      using that assms by (auto simp: in_region_def unat_sub_if' unat_of_nat32 word_le_nat_alt)
    have r2: "in_region (buf + 8) (Suc ?l) (buf + of_nat i) \<longleftrightarrow> 8 \<le> i \<and> i < 9 + ?l"
      "8 \<le> i \<Longrightarrow> unat (buf + of_nat i - (buf + 8)) = i - 8"
      using that assms by (auto simp: in_region_def unat_sub_if' unat_of_nat32 word_le_nat_alt)
    have nn: "unat (buf + of_nat i - (buf + of_nat ?l)) < n" if "?l \<le> i \<and> i < 8"
      using r1 that by (simp add: in_region_def)
    show ?thesis
      using assms r1 r2 nn by (simp add: write_bytes_apply) 
  qed
  show "length (bytes m buf ?l @ (replicate n 48 @ xs) @ [0]) \<le> 4294967296" using assms by simp
  fix i assume i: "i < length (bytes m buf ?l @ (replicate n 48 @ xs) @ [0])"
  then have "i < 17" using assms by simp
  show "?w (buf + of_nat i) = (bytes m buf ?l @ (replicate n 48 @ xs) @ [0]) ! i"
    unfolding val [OF \<open>i < 17\<close>] using i assms by (auto simp: nth_append not_less)
next
  fix x assume x: "\<not> in_region buf (length (bytes m buf (length xs) @ (replicate n 48 @ xs) @ [0])) x"
  have "length (bytes m buf (length xs) @ (replicate n 48 @ xs) @ [0]) = 9 + length xs"
    using assms by simp
  then have y: "\<not> in_region buf (9 + length xs) x" using x by metis
  have "\<not> in_region (buf + of_nat (length xs)) n x"
    using y in_region_shift [of buf "length xs" n x "9 + length xs"] assms by auto
  moreover have "\<not> in_region (buf + of_nat 8) (Suc (length xs)) x"
    by (rule notI, drule in_region_shift [of buf 8 _ x "9 + length xs"]) (use y assms in auto)
  ultimately show "write_bytes (write_bytes m (buf + 8) (xs @ [0])) (buf + of_nat (length xs)) (replicate n 48) x = m x"
    by (simp add: write_bytes_out)
qed

lemma print_hex8_prints:
  assumes s: "screen_ok s" and buf: "off_screen (cb 120) (conv_size 120)"
  shows "\<exists>t. print_hex8 v (cb 120) s = Some t \<and> prints cb (hex8 v) s t"
proof -
  let ?n = "numeral_string 16 (unat v)" and ?b = "cb 120"
  let ?l = "length ?n"
  have len: "?l \<le> 8" by (rule numeral_lengths)
  have nz: "0 \<notin> set ?n" using numeral_string_nonzero [of 16] by simp
  have hz: "0 \<notin> set (hex8 v)" using nz by (simp add: hex8_def)
  have hl: "length (hex8 v) = 8" using len by (simp add: hex8_def)
  let ?m = "write_bytes (ram s) (?b + 8) (?n @ [0])"
  have it: "itoa (ram s) v (?b + 8) 16 = Some ?m" by (subst itoa_write) simp_all
  have "cstr ?m (?b + 8) ?n" using nz len by (intro cstr_write) auto
  then have sl: "strlen ?m (?b + 8) = Some (of_nat ?l)" by (rule strlen_cstr)
  have ul: "unat (of_nat ?l :: u32) = ?l" using len by (simp add: unat_of_nat32)
  let ?xs = "bytes (ram s) ?b ?l @ hex8 v @ [0]"
  let ?m' = "write_bytes (ram s) ?b ?xs"
  have m': "fill_zeros ?m ?b (unat (of_nat ?l :: u32)) (8 - unat (of_nat ?l :: u32)) = ?m'"
    unfolding ul fill_zeros_write using write_bytes_hex [OF len refl, of "ram s" ?b] by (simp add: hex8_def)
  have "?m' = write_bytes (write_bytes (ram s) ?b (bytes (ram s) ?b ?l)) (?b + of_nat ?l) (hex8 v @ [0])"
    by (simp add: write_bytes_append)
  then have str: "cstr ?m' (?b + of_nat ?l) (hex8 v)" using cstr_write [OF hz] hl by simp
  have "print_hex8 v ?b s = map_option snd (puts (?b + of_nat ?l) (s\<lparr>ram := ?m'\<rparr>))"
    unfolding print_hex8_def it option.case sl Let_def m' ..
  then show ?thesis
    using buffer_prints [of s cb 120 "hex8 v" ?l ?m' ?xs, OF s buf _ hz _ refl _ str] len hl
    by (simp add: conv_size_def)
qed

section \<open>The loop of \<open>printf\<close>\<close>

definition args_at :: "u32 list \<Rightarrow> u32 \<Rightarrow> mem \<Rightarrow> bool" where
  "args_at args esp m \<longleftrightarrow> (\<forall>i < length args. load32 m (esp + of_nat (4 * i)) = args ! i)"

text \<open>
  The inputs of a call at a point of its run: the rest \<open>cs\<close> of the format, the rest of the
  arguments and the strings they may point to lie in memory that printing does not touch.
\<close>

definition inputs :: "(u8 \<Rightarrow> u32) \<Rightarrow> (u32 \<Rightarrow> u8 list option) \<Rightarrow> u8 list \<Rightarrow> u32 list \<Rightarrow> u32 \<Rightarrow> u32
    \<Rightarrow> 'a console_scheme \<Rightarrow> bool" where
  "inputs cb strs cs args buf esp s \<longleftrightarrow> screen_ok s \<and> (\<forall>c. off_screen (cb c) (conv_size c))
     \<and> cstr (ram s) buf cs \<and> off_buffers cb buf (Suc (length cs))
     \<and> args_at args esp (ram s) \<and> off_buffers cb esp (4 * length args)
     \<and> (\<forall>v str. strs v = Some str \<longrightarrow> cstr (ram s) v str \<and> off_buffers cb v (Suc (length str)))"

lemma off_buffers_shift: "off_buffers cb a n \<Longrightarrow> k + n' \<le> n \<Longrightarrow> off_buffers cb (a + of_nat k) n'"
  using disjoint_regions_shift [of a n _ _ k n' 0] off_screen_shift [of a n k n']
  by (fastforce simp: off_buffers_def)

lemma prints_off:
  assumes "prints cb out s t" "off_buffers cb a n" "i < n"
  shows "ram t (a + of_nat i) = ram s (a + of_nat i)"
  using assms unfolding prints_def off_buffers_def off_screen_def disjoint_regions_def by blast

lemma prints_cstr: "prints cb out s t \<Longrightarrow> off_buffers cb p (Suc (length str)) \<Longrightarrow> cstr (ram s) p str \<Longrightarrow> cstr (ram t) p str"
  using bytes_cong [of "Suc (length str)" "ram t" p "ram s" p] prints_off [of cb out s t p "Suc (length str)"]
  by (simp add: cstr_def)

lemma prints_load32:
  assumes "prints cb out s t" "off_buffers cb p n" "k + 4 \<le> n"
  shows "load32 (ram t) (p + of_nat k) = load32 (ram s) (p + of_nat k)"
  by (rule load32_cong, rule prints_off [OF assms(1) off_buffers_shift [OF assms(2,3)]])

lemma inputs_prints:
  assumes "inputs cb strs cs args buf esp s" "prints cb out s t"
  shows "inputs cb strs cs args buf esp t"
proof -
  have "load32 (ram t) (esp + of_nat (4 * i)) = load32 (ram s) (esp + of_nat (4 * i))" if "i < length args" for i
    by (rule prints_load32 [OF assms(2), of _ "4 * length args"])
      (use assms(1) that in \<open>auto simp: inputs_def\<close>)
  then have "args_at args esp (ram t)" using assms(1) by (auto simp: args_at_def inputs_def)
  then show ?thesis
    using assms prints_cstr [OF assms(2)] unfolding inputs_def prints_def by blast
qed

lemma cstr_Cons:
  assumes "cstr m p (c # cs)"
  shows "m p = c" "c \<noteq> 0" "cstr m (p + 1) cs"
proof -
  show "m p = c" "c \<noteq> 0" using cstr_nth [OF assms, of 0] cstr_nth_nonzero [OF assms, of 0] by simp_all
  show "cstr m (p + 1) cs" using assms by (simp add: cstr_def bytes_Suc)
qed

lemma inputs_tail:
  assumes "inputs cb strs (c # cs) args buf esp s"
  shows "ram s buf = c" "c \<noteq> 0" "inputs cb strs cs args (buf + 1) esp s"
proof -
  have str: "cstr (ram s) buf (c # cs)" using assms by (simp add: inputs_def)
  show "ram s buf = c" "c \<noteq> 0" using cstr_Cons [OF str] by simp_all
  have "off_buffers cb (buf + of_nat 1) (Suc (length cs))"
    by (rule off_buffers_shift) (use assms in \<open>auto simp: inputs_def\<close>)
  then show "inputs cb strs cs args (buf + 1) esp s"
    using assms cstr_Cons(3) [OF str] by (simp add: inputs_def)
qed

lemma inputs_arg:
  assumes "inputs cb strs cs (v # args) buf esp s"
  shows "load32 (ram s) esp = v" "inputs cb strs cs args buf (esp + 4) s"
proof -
  have a: "args_at (v # args) esp (ram s)" and o: "off_buffers cb esp (4 * length (v # args))"
    using assms by (simp_all add: inputs_def)
  show "load32 (ram s) esp = v" using a by (auto simp: args_at_def dest: spec [of _ 0])
  have "args_at args (esp + 4) (ram s)"
    using a unfolding args_at_def by (auto simp: algebra_simps dest: spec [of _ "Suc _"])
  moreover have "off_buffers cb (esp + of_nat 4) (4 * length args)"
    using o by (rule off_buffers_shift) simp
  ultimately show "inputs cb strs cs args buf (esp + 4) s" using assms by (simp add: inputs_def)
qed

lemma prints_char: "screen_ok s \<Longrightarrow> prints cb [c] s (putc c 1 s)"
  using prints_literal [of s cb "[c]"] by simp

text \<open>One numeric, character or string conversion.\<close>

lemma conv_step:
  assumes inp: "inputs cb strs cs (v # args) buf esp s" and c: "is_conv c" "ram s buf = c"
    and str: "c = 115 \<longrightarrow> strs v \<noteq> None"
  shows "\<exists>t. printf_conv cb buf esp alt s = Some (buf, esp + 4, t) \<and> prints cb (conv_text strs c alt v) s t"
proof -
  have s: "screen_ok s" and b: "off_screen (cb k) (conv_size k)" for k using inp by (auto simp: inputs_def)
  have v: "load32 (ram s) esp = v" using inputs_arg(1) [OF inp] .
  consider "c = 120" "alt" | "c = 120" "\<not> alt" | "c = 117" | "c = 100" | "c = 99" | "c = 115"
    using c(1) by (auto simp: is_conv_def)
  then show ?thesis
  proof cases
    case 1
    with print_hex8_prints [of s cb v, OF s b] show ?thesis
      by (subst printf_conv.simps) (auto simp: c(2) v conv_text_def Let_def)
  next
    case 2
    with itoa_puts_prints [of s cb 120 0 16 v, OF s b] show ?thesis
      by (subst printf_conv.simps) (auto simp: c(2) v conv_text_def conv_size_def Let_def)
  next
    case 3
    with itoa_puts_prints [of s cb 117 0 10 v, OF s b] show ?thesis
      by (subst printf_conv.simps) (auto simp: c(2) v conv_text_def conv_size_def Let_def)
  next
    case 4
    with print_signed_prints [of s cb v, OF s b] show ?thesis
      by (subst printf_conv.simps) (auto simp: c(2) v conv_text_def Let_def)
  next
    case 5
    with prints_char [OF s, of cb "ucast v"] show ?thesis
      by (subst printf_conv.simps) (auto simp: c(2) v conv_text_def Let_def)
  next
    case 6
    then obtain st where st: "strs v = Some st" using str by auto
    then have "cstr (ram s) v st" "off_screen v (Suc (length st))"
      using inp by (auto simp: inputs_def off_buffers_def)
    with 6 st puts_literal [OF _ _ s, of v st] prints_literal [OF s, of cb st] show ?thesis
      by (subst printf_conv.simps) (auto simp: c(2) v conv_text_def Let_def)
  qed
qed

lemma is_conv_values: "is_conv c \<Longrightarrow> c \<noteq> 37 \<and> c \<noteq> 35"
  by (auto simp: is_conv_def)

lemma printf_conv_other:
  "ram s buf = c \<Longrightarrow> \<not> is_conv c \<Longrightarrow> c \<noteq> 37 \<Longrightarrow> c \<noteq> 35 \<Longrightarrow> printf_conv cb buf esp alt s = Some (buf, esp, s)"
  by (subst printf_conv.simps) (simp add: is_conv_def Let_def)

text \<open>
  One conversion of the format, up to and including its last character: what it prints, and the
  rest of the format and of the arguments.
\<close>

lemma printf_conv_run:
  assumes "inputs cb strs cs args buf esp s" "format_ok strs True cs args"
  shows "\<exists>k out rest args' esp' t. printf_conv cb buf esp alt s = Some (buf + of_nat k, esp', t)
     \<and> k < length cs \<and> rest = drop (Suc k) cs \<and> prints cb out s t
     \<and> render strs (Some alt) cs args = out @ render strs None rest args'
     \<and> format_ok strs False rest args' \<and> inputs cb strs rest args' (buf + of_nat (Suc k)) esp' t"
  using assms
proof (induction cs arbitrary: buf alt)
  case (Cons c cs)
  note tail = inputs_tail [OF Cons.prems(1)]
  have s: "screen_ok s" using Cons.prems(1) by (simp add: inputs_def)
  consider "c = 37" | "c = 35" | "is_conv c" "c \<noteq> 37" "c \<noteq> 35" | "\<not> is_conv c" "c \<noteq> 37" "c \<noteq> 35"
    by blast
  then show ?case
  proof cases
    case 1
    have p: "prints cb [37] s (putc 37 1 s)" using s by (rule prints_char)
    have "printf_conv cb buf esp alt s = Some (buf + of_nat 0, esp, putc 37 1 s)"
      using 1 tail(1) by (subst printf_conv.simps) (simp add: Let_def)
    moreover have "inputs cb strs cs args (buf + of_nat (Suc 0)) esp (putc 37 1 s)"
      using inputs_prints [OF tail(3) p] by simp
    moreover have "format_ok strs False cs args" using Cons.prems(2) 1 by (simp add: is_conv_def)
    moreover have "render strs (Some alt) (c # cs) args = [37] @ render strs None cs args" using 1 by simp
    ultimately show ?thesis using p by (metis drop_Suc_Cons drop0 length_greater_0_conv list.distinct(1))
  next
    case 2
    have ok: "format_ok strs True cs args" using Cons.prems(2) 2 by simp
    from Cons.IH [OF tail(3) ok, of True] obtain k out rest args' esp' t where
      IH: "printf_conv cb (buf + 1) esp True s = Some (buf + 1 + of_nat k, esp', t)"
      "k < length cs" "rest = drop (Suc k) cs" "prints cb out s t"
      "render strs (Some True) cs args = out @ render strs None rest args'"
      "format_ok strs False rest args'" "inputs cb strs rest args' (buf + 1 + of_nat (Suc k)) esp' t"
      by blast
    have "printf_conv cb buf esp alt s = Some (buf + of_nat (Suc k), esp', t)"
      using 2 tail(1) IH(1) by (subst printf_conv.simps) (simp add: Let_def add.assoc)
    moreover have "inputs cb strs rest args' (buf + of_nat (Suc (Suc k))) esp' t"
      using IH(7) by (simp add: add.assoc)
    moreover have "render strs (Some alt) (c # cs) args = out @ render strs None rest args'"
      using 2 IH(5) by simp
    ultimately show ?thesis
      using IH(2,3,4,6) by (metis drop_Suc_Cons length_Cons Suc_less_eq)
  next
    case 3
    then have a: "args \<noteq> []" "c = 115 \<longrightarrow> strs (hd args) \<noteq> None" "format_ok strs False cs (tl args)"
      using Cons.prems(2) by simp_all
    then have "inputs cb strs (c # cs) (hd args # tl args) buf esp s" using Cons.prems(1) by simp
    with 3 tail(1) a(2) obtain t where t: "printf_conv cb buf esp alt s = Some (buf + of_nat 0, esp + 4, t)"
      "prints cb (conv_text strs c alt (hd args)) s t"
      using conv_step [of cb strs "c # cs" "hd args" "tl args" buf esp s c alt] by auto
    have "inputs cb strs cs (hd args # tl args) (buf + 1) esp s" using tail(3) a(1) by simp
    then have "inputs cb strs cs (tl args) (buf + 1) (esp + 4) s" by (rule inputs_arg)
    then have "inputs cb strs cs (tl args) (buf + of_nat (Suc 0)) (esp + 4) t"
      using inputs_prints [OF _ t(2)] by simp
    moreover have "render strs (Some alt) (c # cs) args
        = conv_text strs c alt (hd args) @ render strs None cs (tl args)" using 3 by simp
    ultimately show ?thesis using t a(3) by (metis drop_Suc_Cons drop0 length_greater_0_conv list.distinct(1))
  next
    case 4
    have "printf_conv cb buf esp alt s = Some (buf + of_nat 0, esp, s)"
      using printf_conv_other [OF tail(1)] 4 by simp
    moreover have "inputs cb strs cs args (buf + of_nat (Suc 0)) esp s" using tail(3) by simp
    moreover have "format_ok strs False cs args" using Cons.prems(2) 4 by simp
    moreover have "render strs (Some alt) (c # cs) args = [] @ render strs None cs args" using 4 by simp
    ultimately show ?thesis
      using prints_refl [OF s] by (metis drop_Suc_Cons drop0 length_greater_0_conv list.distinct(1))
  qed
qed simp

lemma printf_loop_run:
  "inputs cb strs cs args buf esp s \<Longrightarrow> format_ok strs False cs args \<Longrightarrow>
   \<exists>t. printf_loop cb format buf esp s = Some (sint (buf + of_nat (length cs) - format), t)
     \<and> prints cb (render strs None cs args) s t"
proof (induction "length cs" arbitrary: cs args buf esp s rule: less_induct)
  case less
  have s: "screen_ok s" using less.prems(1) by (simp add: inputs_def)
  show ?case
  proof (cases cs)
    case Nil
    then have "ram s buf = 0" using less.prems(1) cstr_end [of "ram s" buf "[]"] by (simp add: inputs_def)
    then show ?thesis using Nil prints_refl [OF s] by (subst printf_loop.simps) simp
  next
    case (Cons c cs')
    note tail = inputs_tail [OF less.prems(1) [unfolded Cons]]
    show ?thesis
    proof (cases "c = 37")
      case False
      have p: "prints cb [c] s (putc c 1 s)" using s by (rule prints_char)
      have ok: "format_ok strs False cs' args" using less.prems(2) Cons False by simp
      from less.hyps [OF _ inputs_prints [OF tail(3) p] ok] obtain t where
        t: "printf_loop cb format (buf + 1) esp (putc c 1 s) = Some (sint (buf + 1 + of_nat (length cs') - format), t)"
        "prints cb (render strs None cs' args) (putc c 1 s) t" using Cons by auto
      have "printf_loop cb format buf esp s = printf_loop cb format (buf + 1) esp (putc c 1 s)"
        using tail(1,2) False by (subst printf_loop.simps) simp
      with t prints_trans [OF p t(2)] Cons False show ?thesis by (simp add: add.assoc)
    next
      case True
      have ok: "format_ok strs True cs' args" using less.prems(2) Cons True by simp
      from printf_conv_run [OF tail(3) ok, of False] obtain k out rest args' esp' t where
        c: "printf_conv cb (buf + 1) esp False s = Some (buf + 1 + of_nat k, esp', t)"
        "k < length cs'" "rest = drop (Suc k) cs'" "prints cb out s t"
        "render strs (Some False) cs' args = out @ render strs None rest args'"
        "format_ok strs False rest args'" "inputs cb strs rest args' (buf + 1 + of_nat (Suc k)) esp' t"
        by blast
      have "length rest < length cs" using c(2,3) Cons by simp
      from less.hyps [OF this c(7) c(6)] obtain u where
        u: "printf_loop cb format (buf + 1 + of_nat (Suc k)) esp' t
           = Some (sint (buf + 1 + of_nat (Suc k) + of_nat (length rest) - format), u)"
        "prints cb (render strs None rest args') t u" by blast
      have step: "printf_loop cb format buf esp s = printf_loop cb format (buf + 1 + of_nat (Suc k)) esp' t"
        using tail(1,2) True c(1) by (subst printf_loop.simps) (simp add: add_ac)
      have "length cs = Suc (Suc k) + length rest" using c(2,3) Cons by simp
      then have pos: "buf + 1 + of_nat (Suc k) + of_nat (length rest) = buf + of_nat (length cs)"
        by (simp add: add_ac)
      have "render strs None cs args = out @ render strs None rest args'" using c(5) Cons True by simp
      with prints_trans [OF c(4) u(2)] u(1) show ?thesis unfolding step pos by metis
    qed
  qed
qed

section \<open>Properties\<close>

text \<open>
  C26: \<open>printf\<close> refines the interpretation of its format: for a format whose conversions are
  complete and have their arguments, with format, arguments, strings and conversion buffers away
  from the screen, the call returns the length of the format and types exactly the characters of
  \<open>render\<close> on the displayed terminal (\<open>%%\<close>, \<open>%c\<close>, \<open>%s\<close>, unsigned, signed and hexadecimal
  numerals, and 8 digits for \<open>%#x\<close>); apart from that screen it writes only inside its conversion
  buffers of 64 and 36 bytes.
\<close>

theorem printf_renders:
  assumes "inputs cb strs fmt args format esp s" "format_ok strs False fmt args"
    and "length fmt < 2147483648"
  shows "\<exists>t. printf cb format esp s = Some (int (length fmt), t) \<and> prints cb (render strs None fmt args) s t"
proof -
  have "sint (format + of_nat (length fmt) - format) = int (length fmt)"
    using assms(3) by (simp add: sint_small unat_of_nat32)
  then show ?thesis
    using printf_loop_run [OF assms(1,2), of format] by (simp add: printf_def)
qed

definition printf_mem :: mem where
  "printf_mem a = (if a = 0x500000 then 37 else if a = 0x500001 then 35 else if a = 0x500002 then 120
     else if a = 0x500004 then 0xEF else if a = 0x500005 then 0xBE else 0)"

lemma printf_sample_inputs:
  "inputs (\<lambda>_. 0x600000) (\<lambda>_. None) [37, 35, 120] [0xBEEF] 0x500000 0x500004
     (console_start 0 0 0 0\<lparr>ram := printf_mem\<rparr>)"
proof -
  have d: "disjoint_regions a n b k \<and> disjoint_regions b k a n"
    if "unat a + n \<le> unat b" "unat b + k \<le> 4294967296" for a b :: u32 and n k
    using disjoint_regions_sep [OF that] disjoint_regions_sym by blast
  have "screen_ok (console_start 0 0 0 0\<lparr>ram := printf_mem\<rparr>)"
    using console_start_ok(1) [of 0 0 0 0] by (simp add: screen_ok_def term_ok_def cursor_ok_def)
  moreover have "off_screen 0x600000 (conv_size c)" for c
    using d [of video_mem 4000 "0x600000" "conv_size c"] by (simp add: off_screen_def conv_size_def)
  moreover have "off_buffers (\<lambda>_. 0x600000) 0x500000 (Suc (Suc (Suc (Suc 0))))"
    "off_buffers (\<lambda>_. 0x600000) 0x500004 4"
    using d [of "0x500000" "Suc (Suc (Suc (Suc 0)))" "0x600000"] d [of "0x500004" 4 "0x600000"]
      d [of video_mem 4000 "0x500000" "Suc (Suc (Suc (Suc 0)))"] d [of video_mem 4000 "0x500004" 4]
    by (auto simp: off_buffers_def off_screen_def conv_size_def)
  moreover have "cstr printf_mem 0x500000 [37, 35, 120]"
    by (simp add: cstr_def bytes_Suc printf_mem_def)
  moreover have "load32 printf_mem 0x500004 = 0xBEEF" by (simp add: load32_def printf_mem_def)
  ultimately show ?thesis by (simp add: inputs_def args_at_def)
qed

theorem printf_renders_witness:
  "\<exists>t. printf (\<lambda>_. 0x600000) 0x500000 0x500004 (console_start 0 0 0 0\<lparr>ram := printf_mem\<rparr>) = Some (3, t)
    \<and> prints (\<lambda>_. 0x600000) [48, 48, 48, 48, 66, 69, 69, 70]
        (console_start 0 0 0 0\<lparr>ram := printf_mem\<rparr>) t"
proof -
  have "digits_rev 16 48879 = [15, 14, 14, 11]" by (simp add: digits_rev.simps)
  then have n: "numeral_string 16 48879 = [66, 69, 69, 70]" by (simp add: numeral_string_def digit_char_def)
  have "replicate (8 - length [66, 69, 69, 70 :: u8]) (48 :: u8) = [48, 48, 48, 48]"
    by (simp add: numeral_eq_Suc)
  then have "hex8 48879 = [48, 48, 48, 48, 66, 69, 69, 70]" unfolding hex8_def by (simp add: n)
  then have "render (\<lambda>_. None) None [37, 35, 120] [0xBEEF] = [48, 48, 48, 48, 66, 69, 69, 70]"
    by (simp add: conv_text_def is_conv_def)
  with printf_renders [OF printf_sample_inputs] show ?thesis by (simp add: is_conv_def)
qed

end
