(* ===== verification/Terminal.thy ===== *)
theory Terminal
  imports Filesys Printf
begin

text \<open>
  The terminals of student-distrib/keyboard.c: their state, reading and writing, initialisation,
  and switching the displayed one. The interrupt handler of the keyboard is in the theory of that
  name. The arrays indexed by a terminal number and the buffers of 128 bytes are functions of the
  index.

  A loop that waits for an interrupt handler to change a variable is \<open>wait_while\<close>: the handlers
  that run during the wait are a list of state changes, and \<open>None\<close> means that the condition still
  held after all of them.
\<close>

fun wait_while :: "('s \<Rightarrow> bool) \<Rightarrow> ('s \<Rightarrow> 's) list \<Rightarrow> 's \<Rightarrow> 's option" where
  "wait_while c [] s = (if c s then None else Some s)"
| "wait_while c (irq # irqs) s = (if c s then wait_while c irqs (irq s) else Some s)"

section \<open>State\<close>

record terminal =
  shell_pid :: i32
  input_count :: i32
  local_keyboard_buffer :: "i32 \<Rightarrow> u8"
  init :: u8
  term_esp :: u32
  term_ebp :: u32

record terminals = filesys +
  terminals :: "u8 \<Rightarrow> terminal"
  terminal_read_flag :: "u8 \<Rightarrow> i32"
  keyboard_buffer :: "i32 \<Rightarrow> u8"
  terminal_buffer :: "i32 \<Rightarrow> u8"
  kbd_shift :: i32
  kbd_ctrl :: i32
  kbd_alt :: i32
  kbd_caps_lock :: i32
  flag_initialize_terminal :: i32

abbreviation INPUT_SIZE :: i32 where
  "INPUT_SIZE \<equiv> 128"

definition upd_terminal :: "u8 \<Rightarrow> (terminal \<Rightarrow> terminal) \<Rightarrow> 'a terminals_scheme \<Rightarrow> 'a terminals_scheme" where
  "upd_terminal t f s = s\<lparr>terminals := (terminals s)(t := f (terminals s t))\<rparr>"

section \<open>Operations\<close>

definition get_current_flag :: "'a terminals_scheme \<Rightarrow> i32" where
  "get_current_flag s = flag_initialize_terminal s"

definition set_current_flag :: "i32 \<Rightarrow> 'a terminals_scheme \<Rightarrow> 'a terminals_scheme" where
  "set_current_flag v s = s\<lparr>flag_initialize_terminal := v\<rparr>"

definition modify_terminal_curr_pid :: "i32 \<Rightarrow> 'a terminals_scheme \<Rightarrow> 'a terminals_scheme" where
  "modify_terminal_curr_pid p s = upd_terminal (disp_terminal s) (\<lambda>t. t\<lparr>shell_pid := p\<rparr>) s"

definition recover_terminal_curr_pid :: "i32 \<Rightarrow> i32 \<Rightarrow> 'a terminals_scheme \<Rightarrow> 'a terminals_scheme" where
  "recover_terminal_curr_pid cur new s =
     (case find (\<lambda>i. shell_pid (terminals s i) = cur) [0, 1, 2] of None \<Rightarrow> s
      | Some i \<Rightarrow> upd_terminal i (\<lambda>t. t\<lparr>shell_pid := new\<rparr>) s)"

definition terminal_open :: "u32 \<Rightarrow> 'a terminals_scheme \<Rightarrow> i32 \<times> 'a terminals_scheme" where
  "terminal_open filename s = (0, s)"

definition terminal_close :: "i32 \<Rightarrow> 'a terminals_scheme \<Rightarrow> i32 \<times> 'a terminals_scheme" where
  "terminal_close fd s = (0, s)"

text \<open>The copying loop of \<open>terminal_read\<close>, for at most \<open>k\<close> more characters.\<close>

fun read_chars :: "(i32 \<Rightarrow> u8) \<Rightarrow> u32 \<Rightarrow> nat \<Rightarrow> i32 \<Rightarrow> mem \<Rightarrow> mem \<times> i32" where
  "read_chars tb buf 0 i m = (m, i)"
| "read_chars tb buf (Suc k) i m =
     (if tb i = 0 then (m, i) else read_chars tb buf k (i + 1) (m(buf + of_int i := tb i)))"

text \<open>What \<open>terminal_read\<close> does once the line is there.\<close>

definition terminal_take_line :: "u32 \<Rightarrow> i32 \<Rightarrow> 'a terminals_scheme \<Rightarrow> i32 \<times> 'a terminals_scheme" where
  "terminal_take_line buf nbytes s =
     (let limit = (if nbytes < 128 then nbytes else 128);
          (m, i) = read_chars (terminal_buffer s) buf (nat limit) 0 (ram s);
          s = s\<lparr>ram := m(buf + of_int i := 10)\<rparr>;
          s = s\<lparr>terminal_buffer := (terminal_buffer s)(127 := 0)\<rparr>;
          s = s\<lparr>terminal_read_flag := (terminal_read_flag s)(scheduled_terminal s := 0)\<rparr>;
          s = s\<lparr>terminal_buffer := foldl (\<lambda>b i. b(i := 0)) (terminal_buffer s) [0..INPUT_SIZE - 1]\<rparr>
      in (i + 1, s))"

definition terminal_read :: "('a terminals_scheme \<Rightarrow> 'a terminals_scheme) list \<Rightarrow> i32 \<Rightarrow> u32 \<Rightarrow> i32 \<Rightarrow>
    'a terminals_scheme \<Rightarrow> (i32 \<times> 'a terminals_scheme) option" where
  "terminal_read irqs fd buf nbytes s =
     (if nbytes \<le> 0 then Some (-1, s)
      else map_option (terminal_take_line buf nbytes)
        (wait_while (\<lambda>s. terminal_read_flag s (scheduled_terminal s) = 0) irqs s))"

text \<open>The loop of \<open>terminal_write\<close>; a NUL is shown as a blank and not counted.\<close>

fun write_chars :: "u32 \<Rightarrow> u32 \<Rightarrow> nat \<Rightarrow> i32 \<Rightarrow> i32 \<Rightarrow> 'a console_scheme \<Rightarrow> i32 \<times> 'a console_scheme" where
  "write_chars on buf 0 i bytesWritten s = (bytesWritten, s)"
| "write_chars on buf (Suc k) i bytesWritten s =
     (if ram s (buf + of_int i) = 0 then write_chars on buf k (i + 1) bytesWritten (putc 32 on s)
      else write_chars on buf k (i + 1) (bytesWritten + 1) (putc (ram s (buf + of_int i)) on s))"

definition terminal_write :: "i32 \<Rightarrow> u32 \<Rightarrow> i32 \<Rightarrow> 'a console_scheme \<Rightarrow> i32 \<times> 'a console_scheme" where
  "terminal_write fd buf nbytes s =
     (if nbytes \<le> 0 \<or> buf = 0 then (-1, s)
      else
        let s = mask_irqs s;
            (bytesWritten, s) =
              (if scheduled_terminal s = disp_terminal s then write_chars 1 buf (nat nbytes) 0 0 s
               else write_chars 0 buf (nat nbytes) 0 0 s);
            s = unmask_irqs s
        in (bytesWritten, s))"

definition clear_terminal :: "'a terminals_scheme \<Rightarrow> nat \<Rightarrow> 'a terminals_scheme" where
  "clear_terminal s i =
     upd_terminal (of_nat i) (\<lambda>t. t\<lparr>shell_pid := -1, input_count := 0,
       local_keyboard_buffer := foldl (\<lambda>b j. b(j := 0)) (local_keyboard_buffer t) [0..INPUT_SIZE - 1]\<rparr>) s"

definition terminal_init :: "'a terminals_scheme \<Rightarrow> 'a terminals_scheme" where
  "terminal_init s =
     (let s = clear s;
          s = s\<lparr>keyboard_buffer := foldl (\<lambda>b i. b(i := 0)) (keyboard_buffer s) [0..INPUT_SIZE - 1],
                terminal_buffer := foldl (\<lambda>b i. b(i := 0)) (terminal_buffer s) [0..INPUT_SIZE - 1]\<rparr>;
          s = foldl clear_terminal s [0..<3];
          s = upd_terminal 0 (\<lambda>t. t\<lparr>shell_pid := 0\<rparr>) s
      in s\<lparr>flag_initialize_terminal := 1\<rparr>)"

definition copy_buffer :: "(i32 \<Rightarrow> u8) \<Rightarrow> (i32 \<Rightarrow> u8) \<Rightarrow> i32 \<Rightarrow> u8" where
  "copy_buffer from_buf to_buf = foldl (\<lambda>b i. b(i := from_buf i)) to_buf [0..INPUT_SIZE - 1]"

definition switch_terminal :: "u8 \<Rightarrow> 'a terminals_scheme \<Rightarrow> 'a terminals_scheme" where
  "switch_terminal new_terminalID s =
     (let s = vidmem_alloc (0xBA + 2 * ucast new_terminalID) 0xB8000 s
      in if new_terminalID = disp_terminal s then s
         else
           let d = disp_terminal s;
               s = vidmem_alloc (0xBA + 2 * ucast d) (0xBA000 + 2 * 4096 * ucast d) s;
               s = upd_terminal d (\<lambda>t. t\<lparr>local_keyboard_buffer :=
                     copy_buffer (keyboard_buffer s) (local_keyboard_buffer t)\<rparr>) s;
               s = s\<lparr>keyboard_buffer :=
                     copy_buffer (local_keyboard_buffer (terminals s new_terminalID)) (keyboard_buffer s)\<rparr>;
               s = mask_irqs s;
               s = s\<lparr>ram := memcpy (ram s) (video_mem_phys_addr d) 0xB8000 4000\<rparr>;
               s = s\<lparr>ram := memcpy (ram s) 0xB8000 (video_mem_phys_addr new_terminalID) 4000\<rparr>;
               s = set_cursor (screen_y s new_terminalID) (screen_x s new_terminalID) s;
               s = s\<lparr>disp_terminal := new_terminalID\<rparr>
           in unmask_irqs s)"

section \<open>Frames\<close>

lemma upd_terminal_fields [simp]:
  "ram (upd_terminal t f s) = ram s" "ioev (upd_terminal t f s) = ioev s" "ifl (upd_terminal t f s) = ifl s"
  "dev (upd_terminal t f s) = dev s" "screen_x (upd_terminal t f s) = screen_x s"
  "screen_y (upd_terminal t f s) = screen_y s" "disp_terminal (upd_terminal t f s) = disp_terminal s"
  "scheduled_terminal (upd_terminal t f s) = scheduled_terminal s" "tlb (upd_terminal t f s) = tlb s"
  "pageDir (upd_terminal t f s) = pageDir s" "videoMem_4kb_Page (upd_terminal t f s) = videoMem_4kb_Page s"
  "zeroToFourMBTable (upd_terminal t f s) = zeroToFourMBTable s"
  "keyboard_buffer (upd_terminal t f s) = keyboard_buffer s"
  "terminal_buffer (upd_terminal t f s) = terminal_buffer s"
  "terminal_read_flag (upd_terminal t f s) = terminal_read_flag s"
  "kbd_shift (upd_terminal t f s) = kbd_shift s" "kbd_ctrl (upd_terminal t f s) = kbd_ctrl s"
  "kbd_alt (upd_terminal t f s) = kbd_alt s" "kbd_caps_lock (upd_terminal t f s) = kbd_caps_lock s"
  "flag_initialize_terminal (upd_terminal t f s) = flag_initialize_terminal s"
  "terminals (upd_terminal t f s) = (terminals s)(t := f (terminals s t))"
  "current_pid (upd_terminal t f s) = current_pid s" "pcbs (upd_terminal t f s) = pcbs s"
  "pidlist (upd_terminal t f s) = pidlist s" "tss (upd_terminal t f s) = tss s"
  "terminals.more (upd_terminal t f s) = terminals.more s"
  by (simp_all add: upd_terminal_def)

lemma foldl_upd_list: "foldl (\<lambda>b i. b(i := g i)) b xs x = (if x \<in> set xs then g x else b x)"
  by (induction xs arbitrary: b) auto

lemma copy_buffer_apply: "copy_buffer f b i = (if 0 \<le> i \<and> i \<le> 127 then f i else b i)"
  by (simp add: copy_buffer_def foldl_upd_list)

section \<open>One screen for each terminal\<close>

text \<open>
  Where the screen of a terminal is: video memory for the displayed one, its buffer for the
  others. \<open>term_screen\<close> is the abstract screen, whatever memory holds it.
\<close>

definition term_base :: "u8 \<Rightarrow> 'a console_scheme \<Rightarrow> u32" where
  "term_base t s = (if t = disp_terminal s then video_mem else video_mem_phys_addr t)"

definition term_screen :: "u8 \<Rightarrow> 'a console_scheme \<Rightarrow> u8 list \<times> i32 \<times> i32" where
  "term_screen t s = screen_of t (term_base t s) s"

lemma glyphs_bytes: "glyphs m b = map (\<lambda>k. bytes m b 4000 ! (2 * k)) [0..<2000]"
  by (rule nth_equalityI) (simp_all add: nth_glyphs)

lemma glyphs_cong: "bytes m b 4000 = bytes m' b' 4000 \<Longrightarrow> glyphs m b = glyphs m' b'"
  by (simp add: glyphs_bytes)

lemma backing_disjoint:
  assumes "t < 3" "u < 3"
  shows "disjoint_regions video_mem 4000 (video_mem_phys_addr t) 4000"
    "t \<noteq> u \<Longrightarrow> disjoint_regions (video_mem_phys_addr t) 4000 (video_mem_phys_addr u) 4000"
proof -
  have sep: "disjoint_regions a 4000 b 4000" "disjoint_regions b 4000 a 4000"
    if "unat a + 4000 \<le> unat b" "unat b + 4000 \<le> 4294967296" for a b :: u32
    using disjoint_regions_sep [OF that] disjoint_regions_sym by blast+
  have t: "t = 0 \<or> t = 1 \<or> t = 2" and u: "u = 0 \<or> u = 1 \<or> u = 2"
    using assms by (simp_all add: u8_less_3)
  show "disjoint_regions video_mem 4000 (video_mem_phys_addr t) 4000"
    using t by (elim disjE) (simp_all add: video_mem_phys_addr_def sep)
  show "t \<noteq> u \<Longrightarrow> disjoint_regions (video_mem_phys_addr t) 4000 (video_mem_phys_addr u) 4000"
    using t u by (elim disjE) (simp_all add: video_mem_phys_addr_def sep)
qed

lemma term_base_disjoint:
  "t < 3 \<Longrightarrow> u < 3 \<Longrightarrow> t \<noteq> u \<Longrightarrow> disjoint_regions (term_base t s) 4000 (term_base u s) 4000"
  by (cases "t = disp_terminal s"; cases "u = disp_terminal s")
    (auto simp: term_base_def backing_disjoint disjoint_regions_sym [OF backing_disjoint(1)])

section \<open>Writing\<close>

definition put_chars :: "u32 \<Rightarrow> u8 list \<Rightarrow> 'a console_scheme \<Rightarrow> 'a console_scheme" where
  "put_chars on cs s = fold (\<lambda>c. putc c on) cs s"

definition shown :: "u8 \<Rightarrow> u8" where
  "shown c = (if c = 0 then 32 else c)"

lemma shown_simps [simp]: "shown 0 = 32" "c \<noteq> 0 \<Longrightarrow> shown c = c"
  by (simp_all add: shown_def)

lemma put_chars_simps [simp]:
  "put_chars on [] s = s" "put_chars on (c # cs) s = put_chars on cs (putc c on s)"
  by (simp_all add: put_chars_def)

lemma put_chars_screen_ok [inv_intros]: "screen_ok s \<Longrightarrow> screen_ok (put_chars on cs s)"
  by (induction cs arbitrary: s) (auto intro: inv_intros)

lemma target_putc [simp]: "target on (putc c k s) = target on s" "target_base on (putc c k s) = target_base on s"
  by (simp_all add: target_def target_base_def)

lemma put_chars_fields [simp]:
  "disp_terminal (put_chars on cs s) = disp_terminal s"
  "scheduled_terminal (put_chars on cs s) = scheduled_terminal s"
  "dev (put_chars on cs s) = dev s" "console.more (put_chars on cs s) = console.more s"
  by (induction cs arbitrary: s) auto

lemma put_chars_typed:
  "screen_ok s \<Longrightarrow> screen_of (target on s) (target_base on s) (put_chars on cs s)
     = fold typed cs (screen_of (target on s) (target_base on s) s)"
proof (induction cs arbitrary: s)
  case (Cons c cs)
  show ?case
    using Cons.IH [OF putc_screen_ok [OF Cons.prems]] putc_typed [OF Cons.prems, of on c] by simp
qed simp

lemma put_chars_outside:
  "screen_ok s \<Longrightarrow> \<not> in_region (target_base on s) 4000 a \<Longrightarrow> ram (put_chars on cs s) a = ram s a"
proof (induction cs arbitrary: s)
  case (Cons c cs)
  show ?case
    using Cons.IH [OF putc_screen_ok [OF Cons.prems(1)]] putc_outside [OF Cons.prems, of c] Cons.prems(2)
    by simp
qed simp

lemma putc_other_cursor:
  "screen_ok s \<Longrightarrow> t \<noteq> target on s \<Longrightarrow> screen_x (putc c on s) t = screen_x s t \<and> screen_y (putc c on s) t = screen_y s t"
  using putc_effect [of "target on s" s on c] screen_ok_cursor [of s "target on s"] term_ok_target [of s on]
  by (simp add: screen_ok_def)

lemma put_chars_other_cursor:
  "screen_ok s \<Longrightarrow> t \<noteq> target on s \<Longrightarrow>
   screen_x (put_chars on cs s) t = screen_x s t \<and> screen_y (put_chars on cs s) t = screen_y s t"
proof (induction cs arbitrary: s)
  case (Cons c cs)
  then show ?case using Cons.IH [OF putc_screen_ok [OF Cons.prems(1)]] putc_other_cursor [OF Cons.prems] by simp
qed simp

lemma write_chars_put:
  assumes "screen_ok s" "disjoint_regions (buf + of_int i) k (target_base on s) 4000"
  shows "write_chars on buf k i w s =
    (w + int (length (filter (\<lambda>c. c \<noteq> 0) (bytes (ram s) (buf + of_int i) k))),
     put_chars on (map shown (bytes (ram s) (buf + of_int i) k)) s)"
  using assms
proof (induction k arbitrary: i w s)
  case (Suc k)
  let ?b = "buf + of_int i" and ?c = "ram s (buf + of_int i)"
  have d: "disjoint_regions (?b + of_nat 1) k (target_base on s) 4000"
    using disjoint_regions_shift [OF Suc.prems(2), of 1 k 0 4000] by simp
  have "ram (putc c on s) (?b + of_nat 1 + of_nat j) = ram s (?b + of_nat 1 + of_nat j)" if "j < k" for j c
    by (rule putc_outside [OF Suc.prems(1)]) (use d that in \<open>simp add: disjoint_regions_def\<close>)
  then have b: "bytes (ram (putc c on s)) (?b + 1) k = bytes (ram s) (?b + 1) k" for c
    by (intro bytes_cong) simp
  have d': "disjoint_regions (buf + of_int (i + 1)) k (target_base on (putc c on s)) 4000" for c
    using d by (simp add: add.assoc)
  note IH = Suc.IH [OF putc_screen_ok [OF Suc.prems(1)] d']
  have e: "buf + of_int (i + 1) = ?b + 1" by simp
  show ?case
    unfolding bytes_Suc write_chars.simps IH unfolding e b by simp
qed simp

lemma screen_ok_frame [simp]:
  "screen_ok (mask_irqs s) = screen_ok s" "screen_ok (unmask_irqs s) = screen_ok s"
  "term_screen t (mask_irqs s) = term_screen t s" "term_screen t (unmask_irqs s) = term_screen t s"
  "target on (unmask_irqs s) = target on s" "target_base on (unmask_irqs s) = target_base on s"
  by (simp_all add: screen_ok_def term_ok_def cursor_ok_def term_screen_def term_base_def screen_of_def
      target_def target_base_def)

lemma term_base_eq: "disp_terminal t = disp_terminal s \<Longrightarrow> term_base u t = term_base u s"
  by (simp add: term_base_def)

lemma put_chars_term_screen:
  assumes s: "screen_ok s" and t: "t < 3" and base: "target_base on s = term_base (target on s) s"
  shows "term_screen t (put_chars on cs s)
    = (if t = target on s then fold typed cs (term_screen t s) else term_screen t s)"
proof (cases "t = target on s")
  case True
  have b: "term_base u (put_chars on cs s) = term_base u s" for u by (rule term_base_eq) simp
  show ?thesis
    unfolding term_screen_def b True base [symmetric] put_chars_typed [OF s] by (rule if_P [OF refl, symmetric])
next
  case False
  have tgt: "target on s < 3" using s term_ok_target [of s on] by (simp add: screen_ok_def)
  have "ram (put_chars on cs s) (term_base t s + of_nat i) = ram s (term_base t s + of_nat i)" if "i < 4000" for i
    by (rule put_chars_outside [OF s])
      (use term_base_disjoint [OF t tgt False, of s] that in \<open>simp add: disjoint_regions_def base\<close>)
  then have "bytes (ram (put_chars on cs s)) (term_base t s) 4000 = bytes (ram s) (term_base t s) 4000"
    by (intro bytes_cong)
  then have g: "glyphs (ram (put_chars on cs s)) (term_base t s) = glyphs (ram s) (term_base t s)"
    by (rule glyphs_cong)
  have b: "term_base t (put_chars on cs s) = term_base t s" by (rule term_base_eq) simp
  note c = put_chars_other_cursor [OF s False, of cs]
  show ?thesis unfolding term_screen_def b screen_of_def g
    using False c by (simp only: if_False)
qed

lemma terminal_write_put:
  fixes s :: "'a console_scheme"
  defines "on \<equiv> (if scheduled_terminal s = disp_terminal s then 1 else 0) :: u32"
  assumes s: "screen_ok s" and n: "0 < nbytes" "buf \<noteq> 0"
    and d: "disjoint_regions buf (nat nbytes) (term_base (scheduled_terminal s) s) 4000"
  shows "terminal_write fd buf nbytes s =
    (int (length (filter (\<lambda>c. c \<noteq> 0) (bytes (ram s) buf (nat nbytes)))),
     unmask_irqs (put_chars on (map shown (bytes (ram s) buf (nat nbytes))) (mask_irqs s)))"
proof -
  have "target_base on (mask_irqs s) = term_base (scheduled_terminal s) s"
    by (simp add: on_def target_base_def term_base_def)
  then show ?thesis
    using write_chars_put [of "mask_irqs s" buf 0 "nat nbytes" on 0] s d n
    by (auto simp: terminal_write_def Let_def on_def split_def)
qed

lemma terminal_write_screens:
  fixes s :: "'a console_scheme" and fd nbytes :: i32 and buf :: u32
  assumes s: "screen_ok s" and n: "0 < nbytes" "buf \<noteq> 0"
    and d: "disjoint_regions buf (nat nbytes) (term_base (scheduled_terminal s) s) 4000"
  defines "r \<equiv> terminal_write fd buf nbytes s"
  shows "fst r = int (length (filter (\<lambda>c. c \<noteq> 0) (bytes (ram s) buf (nat nbytes))))"
    and "screen_ok (snd r)"
    and "t < 3 \<Longrightarrow> term_screen t (snd r) =
      (if t = scheduled_terminal s
       then fold typed (map shown (bytes (ram s) buf (nat nbytes))) (term_screen t s) else term_screen t s)"
proof -
  let ?on = "(if scheduled_terminal s = disp_terminal s then 1 else 0) :: u32"
  note eq = terminal_write_put [OF s n d, of fd]
  have tgt: "target ?on (mask_irqs s) = scheduled_terminal s"
    "target_base ?on (mask_irqs s) = term_base (target ?on (mask_irqs s)) (mask_irqs s)"
    by (simp_all add: target_def target_base_def term_base_def)
  show "fst r = int (length (filter (\<lambda>c. c \<noteq> 0) (bytes (ram s) buf (nat nbytes))))"
    by (simp add: r_def eq)
  show "screen_ok (snd r)" using put_chars_screen_ok [of "mask_irqs s"] s by (simp add: r_def eq)
  show "t < 3 \<Longrightarrow> term_screen t (snd r) =
      (if t = scheduled_terminal s
       then fold typed (map shown (bytes (ram s) buf (nat nbytes))) (term_screen t s) else term_screen t s)"
    using put_chars_term_screen [of "mask_irqs s" t ?on] s tgt by (simp add: r_def eq)
qed

section \<open>Reading\<close>

lemma read_chars_take:
  "read_chars tb buf k i m =
    (let line = takeWhile (\<lambda>c. c \<noteq> 0) (map (\<lambda>j. tb (i + int j)) [0..<k])
     in (write_bytes m (buf + of_int i) line, i + int (length line)))"
proof (induction k arbitrary: i m)
  case (Suc k)
  have "map (\<lambda>j. tb (i + int j)) [0..<Suc k] = tb i # map (\<lambda>j. tb (i + 1 + int j)) [0..<k]"
    by (simp add: upt_rec [of 0 "Suc k"] map_Suc_upt [symmetric] add_ac comp_def del: upt_Suc)
  then show ?case using Suc by (simp add: Let_def add_ac del: upt_Suc)
qed simp

text \<open>The line a reader gets: the terminal buffer up to a NUL or the requested size.\<close>

definition pending_line :: "i32 \<Rightarrow> 'a terminals_scheme \<Rightarrow> u8 list" where
  "pending_line nbytes s =
     takeWhile (\<lambda>c. c \<noteq> 0) (map (\<lambda>j. terminal_buffer s (int j)) [0..<nat (min nbytes 128)])"

lemma terminal_take_line_eq:
  assumes "0 < nbytes"
  shows "terminal_take_line buf nbytes s = (int (length (pending_line nbytes s)) + 1,
     s\<lparr>ram := write_bytes (ram s) buf (pending_line nbytes s @ [10]),
       terminal_read_flag := (terminal_read_flag s)(scheduled_terminal s := 0),
       terminal_buffer := \<lambda>i. if 0 \<le> i \<and> i \<le> 127 then 0 else terminal_buffer s i\<rparr>)"
proof -
  have "min nbytes 128 = (if nbytes < 128 then nbytes else 128)" by simp
  moreover have "(\<lambda>i. if i \<in> set [0..127] then 0 else ((terminal_buffer s)(127 := 0)) i)
      = (\<lambda>i. if 0 \<le> i \<and> i \<le> 127 then 0 else terminal_buffer s i)" by auto
  moreover have "foldl (\<lambda>b i. b(i := 0)) b [0..INPUT_SIZE - 1] = (\<lambda>i. if i \<in> set [0..127] then 0 else b i)"
    for b :: "i32 \<Rightarrow> u8"
    by (rule ext) (simp add: foldl_upd_list)
  ultimately show ?thesis
    unfolding terminal_take_line_def read_chars_take pending_line_def Let_def
    by (simp add: write_bytes_snoc del: fun_upd_apply)
qed

section \<open>Switching\<close>

text \<open>
  What an operation leaves alone when it changes only a lower layer of the state: the fields of
  the upper layers are those of the unchanged rest of the record.
\<close>

lemma console_frame:
  fixes s t :: "'a terminals_scheme"
  assumes "console.more t = console.more s"
  shows "pageDir t = pageDir s" "zeroToFourMBTable t = zeroToFourMBTable s"
    "videoMem_4kb_Page t = videoMem_4kb_Page s" "tlb t = tlb s" "user_frames t = user_frames s"
    "cr0 t = cr0 s" "cr3 t = cr3 s" "cr4 t = cr4 s" "paging.more t = paging.more s"
  using assms by (cases s rule: terminals.cases_scheme; cases t rule: terminals.cases_scheme; simp)+

lemma paging_frame:
  fixes s t :: "'a terminals_scheme"
  assumes "paging.more t = paging.more s"
  shows "pcbs t = pcbs s" "pidlist t = pidlist s" "current_pid t = current_pid s" "tss t = tss s"
    "fs_base t = fs_base s" "inode_base t = inode_base s" "num_inode t = num_inode s"
    "data_base t = data_base s" "num_dentry t = num_dentry s" "num_dblock t = num_dblock s"
    "boot_block_ptr t = boot_block_ptr s" "terminals t = terminals s"
    "terminal_read_flag t = terminal_read_flag s" "keyboard_buffer t = keyboard_buffer s"
    "terminal_buffer t = terminal_buffer s" "kbd_shift t = kbd_shift s" "kbd_ctrl t = kbd_ctrl s"
    "kbd_alt t = kbd_alt s" "kbd_caps_lock t = kbd_caps_lock s"
    "flag_initialize_terminal t = flag_initialize_terminal s" "terminals.more t = terminals.more s"
  using assms by (cases s rule: terminals.cases_scheme; cases t rule: terminals.cases_scheme; simp)+

lemmas mask_terminals [simp] = console_frame [OF bracket_console(5)] paging_frame [OF console_frame(9) [OF bracket_console(5)]]
lemmas unmask_terminals [simp] = console_frame [OF bracket_console(10)] paging_frame [OF console_frame(9) [OF bracket_console(10)]]
lemmas set_cursor_terminals [simp] =
  console_frame [OF set_cursor_fields(8)] paging_frame [OF console_frame(9) [OF set_cursor_fields(8)]]
lemmas vidmem_terminals [simp] = paging_frame [OF vidmem_alloc_fields(12)]

lemma vidmem_alloc_screen [simp]:
  "screen_ok (vidmem_alloc i p s) = screen_ok s" "term_base u (vidmem_alloc i p s) = term_base u s"
  by (simp_all add: screen_ok_def term_ok_def cursor_ok_def term_base_def)

text \<open>The exchange of the displayed screen with a buffer.\<close>

definition swap_screens :: "u8 \<Rightarrow> u8 \<Rightarrow> mem \<Rightarrow> mem" where
  "swap_screens d t m =
     memcpy (memcpy m (video_mem_phys_addr d) video_mem 4000) video_mem (video_mem_phys_addr t) 4000"

lemma swap_screens_bytes:
  assumes "d < 3" "t < 3" "d \<noteq> t"
  shows "bytes (swap_screens d t m) video_mem 4000 = bytes m (video_mem_phys_addr t) 4000"
    and "bytes (swap_screens d t m) (video_mem_phys_addr d) 4000 = bytes m video_mem 4000"
    and "u < 3 \<Longrightarrow> u \<noteq> d \<Longrightarrow>
      bytes (swap_screens d t m) (video_mem_phys_addr u) 4000 = bytes m (video_mem_phys_addr u) 4000"
proof -
  note bd = backing_disjoint [OF assms(1) assms(2)] backing_disjoint(1) [OF assms(2) assms(1)]
  let ?v = "video_mem_phys_addr"
  have e: "swap_screens d t m = write_bytes (write_bytes m (?v d) (bytes m video_mem 4000)) video_mem (bytes m (?v t) 4000)"
  proof -
    have "memcpy m (?v d) video_mem 4000 = write_bytes m (?v d) (bytes m video_mem 4000)"
      using disjoint_regions_sym [OF bd(1)] by (simp add: memcpy_write)
    moreover have "bytes (write_bytes m (?v d) (bytes m video_mem 4000)) (?v t) 4000 = bytes m (?v t) 4000"
      using disjoint_regions_sym [OF bd(2) [OF assms(3)]] by (simp add: bytes_write_disjoint)
    ultimately show ?thesis using bd(3) by (simp add: swap_screens_def memcpy_write)
  qed
  show "bytes (swap_screens d t m) video_mem 4000 = bytes m (?v t) 4000"
    unfolding e using bytes_write_same [of "bytes m (?v t) 4000"] by simp
  show "bytes (swap_screens d t m) (?v d) 4000 = bytes m video_mem 4000"
    unfolding e using bytes_write_same [of "bytes m video_mem 4000"] disjoint_regions_sym [OF bd(1)]
    by (simp add: bytes_write_disjoint)
  show "bytes (swap_screens d t m) (?v u) 4000 = bytes m (?v u) 4000" if "u < 3" "u \<noteq> d"
    unfolding e using backing_disjoint [OF that(1) assms(1)] that(2)
    by (simp add: bytes_write_disjoint disjoint_regions_sym)
qed

lemma switch_terminal_effect:
  assumes "tlb_coherent s" "t \<noteq> disp_terminal s"
  shows "ram (switch_terminal t s) = swap_screens (disp_terminal s) t (ram s)"
    and "disp_terminal (switch_terminal t s) = t"
    and "screen_x (switch_terminal t s) = screen_x s" "screen_y (switch_terminal t s) = screen_y s"
    and "scheduled_terminal (switch_terminal t s) = scheduled_terminal s"
    and "keyboard_buffer (switch_terminal t s)
      = copy_buffer (local_keyboard_buffer (terminals s t)) (keyboard_buffer s)"
    and "terminals (switch_terminal t s) = (terminals s)(disp_terminal s := (terminals s (disp_terminal s))
      \<lparr>local_keyboard_buffer := copy_buffer (keyboard_buffer s) (local_keyboard_buffer (terminals s (disp_terminal s)))\<rparr>)"
    and "videoMem_4kb_Page (switch_terminal t s) = (videoMem_4kb_Page s)(0xBA + 2 * ucast t := 0xB8000 OR 7,
      0xBA + 2 * ucast (disp_terminal s) := (0xBA000 + 0x2000 * ucast (disp_terminal s)) OR 7)"
  using assms by (simp_all add: switch_terminal_def Let_def vidmem_alloc_ram vidmem_alloc_coherent swap_screens_def)


text \<open>The line typed so far on a terminal: in the keyboard buffer for the displayed one.\<close>

definition typed_line :: "u8 \<Rightarrow> 'a terminals_scheme \<Rightarrow> u8 list" where
  "typed_line t s =
     map (if t = disp_terminal s then keyboard_buffer s else local_keyboard_buffer (terminals s t)) [0..127]"

lemma copy_buffer_map: "map (copy_buffer f b) [0..127] = map f [0..127]"
  by (simp add: copy_buffer_apply)

lemma switch_terminal_same:
  assumes "tlb_coherent s" "t = disp_terminal s"
  shows "switch_terminal t s = vidmem_alloc (0xBA + 2 * ucast t) 0xB8000 s"
  using assms by (simp add: switch_terminal_def Let_def)

lemma switch_terminal_views:
  fixes s :: "'a terminals_scheme"
  assumes "screen_ok s" "tlb_coherent s" "t < 3" "u < 3"
  shows "term_screen u (switch_terminal t s) = term_screen u s"
    and "typed_line u (switch_terminal t s) = typed_line u s"
    and "input_count (terminals (switch_terminal t s) u) = input_count (terminals s u)"
    and "screen_ok (switch_terminal t s)" "disp_terminal (switch_terminal t s) = t"
    and "tlb_coherent (switch_terminal t s)"
proof -
  let ?d = "disp_terminal s" and ?s = "switch_terminal t s"
  have d: "?d < 3" using assms(1) by (simp add: screen_ok_def term_ok_def)
  have same: "ram ?s = ram s" "typed_line u ?s = typed_line u s" "terminals ?s = terminals s" "screen_ok ?s"
    "disp_terminal ?s = ?d" "screen_x ?s = screen_x s" "screen_y ?s = screen_y s" "tlb_coherent ?s" if "t = ?d"
    using assms(1,2) that vidmem_alloc_coherent
    by (simp_all add: switch_terminal_same vidmem_alloc_ram typed_line_def)
  note e = switch_terminal_effect [OF assms(2)]
  show disp: "disp_terminal ?s = t" using same(5) e(2) by (cases "t = ?d") simp_all
  have "bytes (ram ?s) (term_base u ?s) 4000 = bytes (ram s) (term_base u s) 4000" if "t \<noteq> ?d"
    using swap_screens_bytes [OF d assms(3), where m = "ram s"] that e(1) [OF that] assms(4) disp
    by (auto simp: term_base_def)
  then have g: "glyphs (ram ?s) (term_base u ?s) = glyphs (ram s) (term_base u s)"
    using same(1,5) by (cases "t = ?d") (auto simp: term_base_def intro: glyphs_cong)
  have xy: "screen_x ?s = screen_x s" "screen_y ?s = screen_y s" using same(6,7) e(3,4) by blast+
  show "term_screen u ?s = term_screen u s" by (simp add: term_screen_def screen_of_def g xy)
  show "typed_line u ?s = typed_line u s"
  proof (cases "t = ?d")
    case False
    show ?thesis
      unfolding typed_line_def e(2) [OF False] e(6) [OF False] e(7) [OF False]
      using False by (auto simp: copy_buffer_apply)
  qed (use same(2) in blast)
  show "input_count (terminals ?s u) = input_count (terminals s u)"
    using same(3) e(7) by (cases "t = ?d") auto
  show "screen_ok ?s"
  proof (cases "t = ?d")
    case False
    then show ?thesis
      using assms(1,3) e(2,3,4,5) [OF False] by (simp add: screen_ok_def term_ok_def cursor_ok_def)
  qed (use same(4) in blast)
  show "tlb_coherent ?s"
  proof (cases "t = ?d")
    case False
    then show ?thesis using assms(2) by (simp add: switch_terminal_def Let_def tlb_coherent_def tables_def)
  qed (use same(8) in blast)
qed


section \<open>The user programs' video pages\<close>

text \<open>
  The page at which a program of terminal \<open>t\<close> sees its screen (\<open>sys_vidmap\<close>) and what the
  tables must hold for it: the displayed terminal's page maps video memory, the other two their
  buffers.
\<close>

definition fish_page :: "u8 \<Rightarrow> u32" where
  "fish_page t = 0x84BA000 + 0x2000 * ucast t"

definition vidmap_ok :: "u32 \<Rightarrow> 'a paging_scheme \<Rightarrow> bool" where
  "vidmap_ok vid s \<longleftrightarrow> tlb_coherent s \<and> pageDir s 33 = vid OR 7
     \<and> (\<forall>t \<in> {0, 1, 2}. videoMem_4kb_Page s (0xBA + 2 * ucast t) = term_base t s OR 7)"

lemma backing_address: "t < 3 \<Longrightarrow> video_mem_phys_addr t = 0xBA000 + 0x2000 * ucast t"
  unfolding u8_less_3 by (elim disjE) (simp_all add: video_mem_phys_addr_def)

lemma vidmap_translate:
  assumes "vidmap_ok vid s" "vid AND 0xFFF = 0" "low \<noteq> vid" "t < 3" "drop_bit 12 va = drop_bit 12 (fish_page t)"
  shows "translate low vid user va s = Some (term_base t s OR (va AND 0xFFF))"
proof -
  have t: "t = 0 \<or> t = 1 \<or> t = 2" using assms(4) by (simp add: u8_less_3)
  have "drop_bit 22 va = drop_bit 10 (drop_bit 12 va)" by simp
  then have dir: "drop_bit 22 va = 33" and idx: "drop_bit 12 va AND 0x3FF = 0xBA + 2 * ucast t"
    unfolding assms(5) fish_page_def using t by (elim disjE; simp)+
  have e: "videoMem_4kb_Page s (0xBA + 2 * ucast t) = term_base t s OR 7" "pageDir s 33 = vid OR 7"
    "tlb s = (pageDir s, zeroToFourMBTable s, videoMem_4kb_Page s)"
    using assms(1) t by (auto simp: vidmap_ok_def tlb_coherent_def tables_def)
  have base: "term_base t s AND 0xFFF = 0"
    using t by (elim disjE) (simp_all add: term_base_def video_mem_phys_addr_def)
  show ?thesis
    using aligned_table [OF assms(2)] aligned_table [OF base] assms(3)
    by (simp add: translate_def e walk_def Let_def dir idx)
qed

lemma vidmem_index: "(t :: u8) < 3 \<Longrightarrow> (u :: u8) < 3 \<Longrightarrow> (0xBA + 2 * ucast t = (0xBA + 2 * ucast u :: u32)) \<longleftrightarrow> t = u"
  unfolding u8_less_3 by (elim disjE; simp)

lemma switch_terminal_vidmap:
  fixes s :: "'a terminals_scheme"
  assumes "screen_ok s" "vidmap_ok vid s" "t < 3"
  shows "vidmap_ok vid (switch_terminal t s)"
proof -
  let ?d = "disp_terminal s" and ?s = "switch_terminal t s"
  have d: "?d < 3" using assms(1) by (simp add: screen_ok_def term_ok_def)
  have c: "tlb_coherent s" using assms(2) by (simp add: vidmap_ok_def)
  note v = switch_terminal_views [OF assms(1) c assms(3)]
  have dir: "pageDir ?s 33 = pageDir s 33" by (simp add: switch_terminal_def Let_def)
  have "videoMem_4kb_Page ?s (0xBA + 2 * ucast u) = term_base u ?s OR 7" if u: "u < 3" for u
  proof (cases "t = ?d")
    case True
    then show ?thesis
      using assms(2) u vidmem_index [OF u d] v(5) [of 0]
      by (auto simp: vidmap_ok_def u8_less_3 switch_terminal_same [OF c] term_base_def)
  next
    case False
    then show ?thesis
      using assms(2) u vidmem_index [OF u d] vidmem_index [OF u assms(3)] backing_address [OF u]
        switch_terminal_effect(2,8) [OF c False]
      by (auto simp: vidmap_ok_def u8_less_3 term_base_def)
  qed
  then show ?thesis using assms(2) v(6) [of 0] dir by (simp add: vidmap_ok_def u8_less_3)
qed

lemma pagingInit_fields [simp]:
  "screen_x (pagingInit dir low vid s) = screen_x s" "screen_y (pagingInit dir low vid s) = screen_y s"
  "disp_terminal (pagingInit dir low vid s) = disp_terminal s"
  "scheduled_terminal (pagingInit dir low vid s) = scheduled_terminal s"
  "dev (pagingInit dir low vid s) = dev s" "ioev (pagingInit dir low vid s) = ioev s"
  "ifl (pagingInit dir low vid s) = ifl s" "paging.more (pagingInit dir low vid s) = paging.more s"
  by (simp_all add: pagingInit_def enablePaging_def allocate_kmalloc_mem_def Let_def)

lemma enablePaging_ram:
  assumes "selected s = None" "pde_frame (pageDir (enablePaging d s) 0x20) = None"
  shows "ram (enablePaging d s) = ram s"
proof -
  have "pde_frame (pageDir s 0x20) = None" using assms(2) by (simp add: enablePaging_def Let_def)
  then show ?thesis using assms(1) by (simp add: enablePaging_def Let_def load_cr3_def selected_def)
qed

lemma Let_inv: "Q a \<Longrightarrow> (\<And>x. Q x \<Longrightarrow> P (f x)) \<Longrightarrow> P (Let a f)"
  by simp

lemma pagingInit_ram:
  assumes "selected s = None"
  shows "ram (pagingInit dir low vid s) = ram s"
proof -
  have dir: "pde_frame (pageDir (pagingInit dir low vid s) 0x20) = None"
    using pagingInit_dir [of dir low vid s] by (simp add: boot_dir_def pde_frame_def)
  have "\<exists>x. pagingInit dir low vid s = enablePaging dir x \<and> ram x = ram s \<and> tlb x = tlb s"
    unfolding pagingInit_def
    by (intro Let_inv [where Q = "\<lambda>x. ram x = ram s \<and> tlb x = tlb s"
          and P = "\<lambda>y. \<exists>x. y = enablePaging dir x \<and> ram x = ram s \<and> tlb x = tlb s"])
      (auto simp: allocate_kmalloc_mem_def simp del: upt_rec_numeral)
  then obtain x where "pagingInit dir low vid s = enablePaging dir x" "ram x = ram s" "tlb x = tlb s" by blast
  then show ?thesis using enablePaging_ram [of x dir] assms dir by (simp add: selected_def)
qed

lemma pagingInit_vidmap:
  assumes "videoMem_4kb_Page s = (\<lambda>_. 0)" "vid AND 0xFFF = 0" "disp_terminal s = 0"
  shows "vidmap_ok vid (pagingInit dir low vid s)"
  using pagingInit_tables [of dir low vid s] pagingInit_dir [of dir low vid s] aligned_table(5) [OF assms(2)]
  by (simp add: vidmap_ok_def tlb_coherent_def pagingInit_vid [OF assms(1)] boot_vid_def boot_dir_def
      term_base_def assms(3) video_mem_phys_addr_def)

section \<open>Properties\<close>

text \<open>
  A kernel after paging and the file system are set up, for the witnesses: terminal 0 displayed
  with "ab" typed on it, terminal 1 with "c".
\<close>

definition sample_terminal :: "u8 list \<Rightarrow> terminal" where
  "sample_terminal str = \<lparr>shell_pid = -1, input_count = int (length str),
     local_keyboard_buffer = (\<lambda>i. if 0 \<le> i \<and> i < int (length str) then str ! nat i else 0),
     init = 0, term_esp = 0, term_ebp = 0\<rparr>"

definition terminals_start :: terminals where
  "terminals_start = pagingInit 0x405000 0x406000 0x407000 (filesys.extend filesys_start
     \<lparr>terminals = (\<lambda>_. sample_terminal [])(0 := sample_terminal [97, 98], 1 := sample_terminal [99]),
      terminal_read_flag = \<lambda>_. 0, keyboard_buffer = local_keyboard_buffer (sample_terminal [97, 98]),
      terminal_buffer = \<lambda>_. 0, kbd_shift = 0, kbd_ctrl = 0, kbd_alt = 0, kbd_caps_lock = 0,
      flag_initialize_terminal = 1\<rparr>)"

lemma terminals_start_fields [simp]:
  "disp_terminal terminals_start = 0" "scheduled_terminal terminals_start = 0"
  "screen_x terminals_start = (\<lambda>_. 0)" "screen_y terminals_start = (\<lambda>_. 0)" "dev terminals_start = latch_dev"
  "terminals terminals_start = (\<lambda>_. sample_terminal [])(0 := sample_terminal [97, 98], 1 := sample_terminal [99])"
  "terminal_read_flag terminals_start = (\<lambda>_. 0)" "terminal_buffer terminals_start = (\<lambda>_. 0)"
  "keyboard_buffer terminals_start = local_keyboard_buffer (sample_terminal [97, 98])"
  "screen_ok terminals_start" "vidmap_ok 0x407000 terminals_start" "tlb_coherent terminals_start"
  "ram terminals_start = image_mem"
proof -
  let ?s = "filesys.extend filesys_start
     \<lparr>terminals = (\<lambda>_. sample_terminal [])(0 := sample_terminal [97, 98], 1 := sample_terminal [99]),
      terminal_read_flag = \<lambda>_. 0, keyboard_buffer = local_keyboard_buffer (sample_terminal [97, 98]),
      terminal_buffer = \<lambda>_. 0, kbd_shift = 0, kbd_ctrl = 0, kbd_alt = 0, kbd_caps_lock = 0,
      flag_initialize_terminal = 1\<rparr> :: terminals"
  note defs = filesys.defs filesys_start_def fs_init_def Let_def process.defs process_start_def paging.defs
    paging_start_def console.defs console_start_def
  have f: "videoMem_4kb_Page ?s = (\<lambda>_. 0)" "disp_terminal ?s = 0" "scheduled_terminal ?s = 0"
    "screen_x ?s = (\<lambda>_. 0)" "screen_y ?s = (\<lambda>_. 0)" "dev ?s = latch_dev" "ram ?s = image_mem" "selected ?s = None"
    by (simp_all add: defs selected_def pde_frame_def)
  note p = paging_frame [OF pagingInit_fields(8), where s = ?s]
  show "disp_terminal terminals_start = 0" "scheduled_terminal terminals_start = 0"
    "screen_x terminals_start = (\<lambda>_. 0)" "screen_y terminals_start = (\<lambda>_. 0)" "dev terminals_start = latch_dev"
    by (simp_all add: terminals_start_def f)
  then show "screen_ok terminals_start" by (simp add: screen_ok_def term_ok_def cursor_ok_def)
  show "vidmap_ok 0x407000 terminals_start"
    unfolding terminals_start_def by (rule pagingInit_vidmap) (simp_all add: f)
  then show "tlb_coherent terminals_start" by (simp add: vidmap_ok_def)
  show "ram terminals_start = image_mem"
    by (simp add: terminals_start_def pagingInit_ram f)
  show "terminals terminals_start = (\<lambda>_. sample_terminal [])(0 := sample_terminal [97, 98], 1 := sample_terminal [99])"
    "terminal_read_flag terminals_start = (\<lambda>_. 0)" "terminal_buffer terminals_start = (\<lambda>_. 0)"
    "keyboard_buffer terminals_start = local_keyboard_buffer (sample_terminal [97, 98])"
    unfolding terminals_start_def p by (simp_all add: filesys.defs)
qed

text \<open>
  C23: switching the displayed terminal keeps, for every terminal, its screen (wherever memory
  holds it before and after), its cursor and the line typed so far, and displays the new one.
\<close>

theorem switch_terminal_keeps:
  fixes s :: "'a terminals_scheme"
  assumes "screen_ok s" "tlb_coherent s" "t < 3" "u < 3"
  shows "disp_terminal (switch_terminal t s) = t
    \<and> term_screen u (switch_terminal t s) = term_screen u s
    \<and> typed_line u (switch_terminal t s) = typed_line u s
    \<and> input_count (terminals (switch_terminal t s) u) = input_count (terminals s u)"
  using switch_terminal_views [OF assms] by blast

theorem switch_terminal_keeps_witness:
  "disp_terminal (switch_terminal 1 terminals_start) = 1
   \<and> take 3 (typed_line 0 (switch_terminal 1 terminals_start)) = [97, 98, 0]"
proof -
  have "take 3 (typed_line 0 terminals_start) = [97, 98, 0]"
    by (simp add: typed_line_def sample_terminal_def upto_rec1 [of 0 127] upto_rec1 [of 1 127] upto_rec1 [of 2 127])
  then show ?thesis using switch_terminal_keeps [of terminals_start 1 0] by simp
qed

text \<open>
  C27: \<open>terminal_write\<close> types its characters, NULs as blanks, on the screen of the scheduled
  terminal, whether that is displayed or not, leaves the screens and cursors of the other
  terminals alone, and returns how many of the characters were not NUL.
\<close>

theorem terminal_write_types:
  fixes s :: "'a terminals_scheme" and buf :: u32
  assumes "screen_ok s" "0 < nbytes" "buf \<noteq> 0"
    and "disjoint_regions buf (nat nbytes) (term_base (scheduled_terminal s) s) 4000" "t < 3"
  shows "fst (terminal_write fd buf nbytes s) = int (length (filter (\<lambda>c. c \<noteq> 0) (bytes (ram s) buf (nat nbytes))))
    \<and> term_screen t (snd (terminal_write fd buf nbytes s)) =
      (if t = scheduled_terminal s
       then fold typed (map shown (bytes (ram s) buf (nat nbytes))) (term_screen t s) else term_screen t s)"
  using terminal_write_screens [OF assms(1-4)] assms(5) by blast

theorem terminal_write_types_witness:
  "fst (terminal_write 1 0x502000 4 terminals_start) = 3
   \<and> term_screen 0 (snd (terminal_write 1 0x502000 4 terminals_start))
     = fold typed [104, 105, 10, 32] (term_screen 0 terminals_start)"
proof -
  have "disjoint_regions 0x502000 4 (term_base 0 terminals_start) 4000"
    using disjoint_regions_sym [OF disjoint_regions_sep [of video_mem 4000 "0x502000" 4]]
    by (simp add: term_base_def)
  moreover have "bytes image_mem 0x502000 4 = [104, 105, 10, 0]"
    by (simp add: bytes_def upt_rec image_mem_def)
  ultimately show ?thesis
    using terminal_write_types [of terminals_start 4 "0x502000" 0 1] by simp
qed

end
