(* ===== verification/Rtc.thy ===== *)
theory Rtc
  imports Terminal
begin

text \<open>
  student-distrib/rtc.c: the real-time clock, its rate, and waiting for its interrupts; and
  \<open>init_pit\<close> of student-distrib/pit.c.

  The clock's registers are behind two ports, an index port 0x70 and a data port 0x71. What they
  answer to a read is a hypothesis about the device (\<open>cmos_dev\<close>): the last value written to the
  selected register. A loop that may not end is a partial function, \<open>None\<close> when it does not.
\<close>

section \<open>State\<close>

record rtc = terminals +
  curr_rate :: u32
  curr_interrupt :: "u8 \<Rightarrow> i32"

section \<open>Operations\<close>

partial_function (option) calculate_rate_from :: "u32 \<Rightarrow> u32 \<Rightarrow> u32 option" where
  "calculate_rate_from shift freq =
     (if freq \<noteq> 32768 then calculate_rate_from (shift + 1) (push_bit 1 freq) else Some (shift + 1))"

definition calculate_rate :: "u32 \<Rightarrow> u32 option" where
  "calculate_rate freq = calculate_rate_from 0 freq"

text \<open>The comparisons of \<open>check_param\<close> convert the signed \<open>i\<close> to unsigned.\<close>

partial_function (option) check_param_from :: "u32 \<Rightarrow> u32 \<Rightarrow> i32 option" where
  "check_param_from i freq =
     (if i \<le> freq then if freq = i then Some 1 else check_param_from (push_bit 1 i) freq else Some (-1))"

definition check_param :: "u32 \<Rightarrow> i32 option" where
  "check_param freq = check_param_from 1 freq"

text \<open>Reading and writing a register, as the four places that do it.\<close>

definition init_rtc :: "'a rtc_scheme \<Rightarrow> (i32 \<times> 'a rtc_scheme) option" where
  "init_rtc s =
     (let s = outb 0x0B 0x70 s;
          (v, s) = inb 0x71 s; prev = ucast v :: u8;
          s = outb 0x0B 0x70 s;
          s = outb (prev OR 0x40) 0x71 s;
          s = outb 0x0A 0x70 s;
          (v, s) = inb 0x71 s; prev = ucast v :: u8;
          s = outb 0x0A 0x70 s
      in case calculate_rate (curr_rate s) of None \<Rightarrow> None
         | Some r \<Rightarrow>
           let rate = ucast (r AND 0x000F) :: u8;
               s = outb 0x0A 0x70 s;
               s = outb (prev OR rate) 0x71 s;
               s = s\<lparr>curr_interrupt := (curr_interrupt s)(0 := 0)\<rparr>;
               s = s\<lparr>curr_interrupt := (curr_interrupt s)(1 := 0)\<rparr>;
               s = s\<lparr>curr_interrupt := (curr_interrupt s)(2 := 0)\<rparr>;
               s = enable_irq 8 s
           in Some (0, s))"

definition do_rtc_handler :: "'a rtc_scheme \<Rightarrow> 'a rtc_scheme" where
  "do_rtc_handler s =
     (let s = outb 0x0C 0x70 s;
          (v, s) = inb 0x71 s;
          s = send_eoi 8 s;
          s = s\<lparr>curr_interrupt := (curr_interrupt s)(0 := 0)\<rparr>;
          s = s\<lparr>curr_interrupt := (curr_interrupt s)(1 := 0)\<rparr>
      in s\<lparr>curr_interrupt := (curr_interrupt s)(2 := 0)\<rparr>)"

definition open_rtc :: "u32 \<Rightarrow> 'a rtc_scheme \<Rightarrow> (i32 \<times> 'a rtc_scheme) option" where
  "open_rtc filename s = init_rtc s"

text \<open>\<open>KEYBOARD_IRQ\<close> of magic.h is the vector 0x21, not the line 1.\<close>

definition read_rtc :: "('a rtc_scheme \<Rightarrow> 'a rtc_scheme) list \<Rightarrow> i32 \<Rightarrow> u32 \<Rightarrow> i32 \<Rightarrow> 'a rtc_scheme \<Rightarrow>
    (i32 \<times> 'a rtc_scheme) option" where
  "read_rtc irqs fd buf count s =
     (let s = disable_irq 0x21 s;
          s = s\<lparr>curr_interrupt := (curr_interrupt s)(scheduled_terminal s := 1)\<rparr>
      in map_option (\<lambda>s. (0, enable_irq 0x21 s))
           (wait_while (\<lambda>s. curr_interrupt s (scheduled_terminal s) = 1) irqs s))"

abbreviation invalid_parameter :: "u8 list" where
  "invalid_parameter \<equiv> map of_char ''Invalid Parameter!'' @ [10]"

definition write_rtc :: "i32 \<Rightarrow> u32 \<Rightarrow> i32 \<Rightarrow> 'a rtc_scheme \<Rightarrow> (i32 \<times> 'a rtc_scheme) option" where
  "write_rtc fd buf count s =
     (let freq = load32 (ram s) buf
      in if freq > 1024 \<or> freq \<le> 0 then Some (-1, put_literal invalid_parameter s)
         else case check_param freq of None \<Rightarrow> None
         | Some ok \<Rightarrow>
           if ok = -1 then Some (-1, put_literal invalid_parameter s)
           else
             let s = cli s;
                 s = outb 0x0A 0x70 s;
                 (v, s) = inb 0x71 s; prev = ucast (v AND 0xF0) :: u8
             in case calculate_rate freq of None \<Rightarrow> None
                | Some r \<Rightarrow>
                  let rate = ucast (r AND 0x000F) :: u8;
                      s = outb 0x0A 0x70 s;
                      s = outb (prev OR rate) 0x71 s
                  in Some (0, sti s))"

definition close_rtc :: "i32 \<Rightarrow> 'a rtc_scheme \<Rightarrow> i32 \<times> 'a rtc_scheme" where
  "close_rtc fd s = (0, s)"

text \<open>A zero frequency is a divide error.\<close>

definition init_pit :: "u32 \<Rightarrow> u32 \<Rightarrow> 'a machine_scheme \<Rightarrow> 'a machine_scheme option" where
  "init_pit channelnum freq s =
     (let s = enable_irq 0 s
      in if channelnum = 0 then
           if freq = 0 then None
           else
             let data = 1193182 div freq;
                 s = outb 0 0x43 s;
                 s = outb (ucast (data AND 0xFF)) 0x40 s
             in Some (outb (ucast (drop_bit 8 data AND 0xFF)) 0x40 s)
         else Some s)"

section \<open>Frames\<close>

lemma machine_frame:
  fixes s t :: "'a rtc_scheme"
  assumes "machine.more t = machine.more s"
  shows "master t = master s" "slave t = slave s" "screen_x t = screen_x s" "screen_y t = screen_y s"
    "disp_terminal t = disp_terminal s" "scheduled_terminal t = scheduled_terminal s"
    "console.more t = console.more s"
  using assms by (cases s rule: rtc.cases_scheme; cases t rule: rtc.cases_scheme; simp)+

lemma rtc_frame:
  fixes s t :: "'a rtc_scheme"
  assumes "terminals.more t = terminals.more s"
  shows "curr_rate t = curr_rate s" "curr_interrupt t = curr_interrupt s" "rtc.more t = rtc.more s"
  using assms by (cases s rule: rtc.cases_scheme; cases t rule: rtc.cases_scheme; simp)+

lemma machine_ops_more [simp]:
  "machine.more (outb v p s) = machine.more s" "machine.more (snd (inb p s)) = machine.more s"
  "machine.more (cli s) = machine.more s" "machine.more (sti s) = machine.more s"
  "machine.more (enable_irq n s) = machine.more s" "machine.more (disable_irq n s) = machine.more s"
  "machine.more (send_eoi n s) = machine.more s"
  by (simp_all add: outb_def inb_def cli_def sti_def enable_irq_def disable_irq_def send_eoi_def Let_def split_def)

text \<open>The layers above the machine, above the console and above paging, in one rule each.\<close>

lemmas above_paging = paging_frame rtc_frame [OF paging_frame(21)]
lemmas above_console = console_frame above_paging [OF console_frame(9)]
lemmas above_machine = machine_frame above_console [OF machine_frame(7)]

lemmas outb_above [simp] = above_machine [OF machine_ops_more(1)]
lemmas inb_above [simp] = above_machine [OF machine_ops_more(2)]
lemmas cli_above [simp] = above_machine [OF machine_ops_more(3)]
lemmas sti_above [simp] = above_machine [OF machine_ops_more(4)]
lemmas enable_irq_above [simp] = above_machine [OF machine_ops_more(5)]
lemmas disable_irq_above [simp] = above_machine [OF machine_ops_more(6)]
lemmas send_eoi_above [simp] = above_machine [OF machine_ops_more(7)]
lemmas put_literal_above [simp] = above_console [OF put_literal_fields(4)]
lemmas putc_above [simp] = above_console [OF putc_fields(5)]

section \<open>Frequencies and rates\<close>

text \<open>
  The reference: rate \<open>r\<close> from 1 to 15 makes the clock interrupt 32768 >> (r - 1) times a second
  (rate 0 stops it), so frequency \<open>2 ^ k\<close> is rate \<open>16 - k\<close>.
\<close>

definition rtc_frequency :: "u8 \<Rightarrow> u32" where
  "rtc_frequency r = (if r = 0 then 0 else drop_bit (unat r - 1) 32768)"

lemma unat_exp32: "k < 32 \<Longrightarrow> unat (2 ^ k :: u32) = 2 ^ k"
  using unat_of_nat32 [of "2 ^ k"] power_strict_increasing [of k 32 "2 :: nat"] by simp

lemma exp32_eq_iff: "j < 32 \<Longrightarrow> k < 32 \<Longrightarrow> (2 ^ j :: u32) = 2 ^ k \<longleftrightarrow> j = k"
  and exp32_le_iff: "j < 32 \<Longrightarrow> k < 32 \<Longrightarrow> (2 ^ j :: u32) \<le> 2 ^ k \<longleftrightarrow> j \<le> k"
  by (simp_all add: word_unat_eq_iff word_le_nat_alt unat_exp32)

lemma calculate_rate_from_run:
  "k \<le> 15 \<Longrightarrow> calculate_rate_from shift (2 ^ k) = Some (shift + of_nat (16 - k))"
proof (induction "15 - k" arbitrary: k shift)
  case 0
  then have "k = 15" by simp
  then show ?case by (simp add: calculate_rate_from.simps)
next
  case (Suc n)
  then have k: "k < 15" by simp
  then have "(2 :: u32) ^ k \<noteq> 2 ^ 15" using exp32_eq_iff [of k 15] by simp
  moreover have "16 - k = Suc (15 - k)" using k by simp
  ultimately show ?case
    using Suc.hyps(1) [of "Suc k" "shift + 1"] Suc.hyps(2) k
    by (subst calculate_rate_from.simps) (simp add: push_bit_eq_mult mult.commute algebra_simps)
qed

lemma check_param_from_run:
  "k \<le> 31 \<Longrightarrow> freq \<le> 0x80000000 \<Longrightarrow>
   check_param_from (2 ^ k) freq = Some (if \<exists>j \<in> {k..31}. freq = 2 ^ j then 1 else -1)"
proof (induction "31 - k" arbitrary: k)
  case 0
  then have "k = 31" by simp
  moreover have "0x80000000 \<le> freq \<longleftrightarrow> freq = 0x80000000" using 0 by auto
  ultimately show ?case by (simp add: check_param_from.simps)
next
  case (Suc n)
  then have k: "k < 31" by simp
  have step: "{k..31} = insert k {Suc k..31}" using k by auto
  have IH: "check_param_from (2 ^ Suc k) freq = Some (if \<exists>j \<in> {Suc k..31}. freq = 2 ^ j then 1 else -1)"
    by (rule Suc.hyps) (use Suc k in auto)
  show ?case
  proof (cases "2 ^ k \<le> freq")
    case True
    then show ?thesis using IH k
      by (subst check_param_from.simps) (auto simp: push_bit_eq_mult step exp32_eq_iff mult.commute)
  next
    case False
    then have "freq \<noteq> 2 ^ j" if "j \<in> {k..31}" for j using that k by (auto simp: exp32_le_iff)
    with False show ?thesis by (subst check_param_from.simps) simp
  qed
qed

lemma check_param_eq: "freq \<le> 0x80000000 \<Longrightarrow> check_param freq = Some (if \<exists>j \<le> 31. freq = 2 ^ j then 1 else -1)"
  using check_param_from_run [of 0 freq] by (simp add: check_param_def Bex_def)

definition shifted_one :: "u32 \<Rightarrow> bool" where
  "shifted_one i \<longleftrightarrow> i = 0 \<or> (\<exists>j < 32. i = 2 ^ j)"

lemma shifted_one_push: "shifted_one i \<Longrightarrow> shifted_one (push_bit 1 i)"
  unfolding shifted_one_def
proof (elim disjE exE conjE)
  fix j :: nat assume j: "j < 32" "i = 2 ^ j"
  show "push_bit 1 i = 0 \<or> (\<exists>j < 32. push_bit 1 i = 2 ^ j)"
  proof (cases "j = 31")
    case False
    then have "Suc j < 32" "push_bit 1 i = 2 ^ Suc j" using j by (simp_all add: push_bit_eq_mult)
    then show ?thesis by blast
  qed (simp add: j push_bit_eq_mult)
qed simp

lemma check_param_from_diverges:
  assumes "check_param_from i freq = Some r"
  shows "shifted_one i \<longrightarrow> \<not> 0x80000000 < freq"
proof (rule check_param_from.raw_induct
    [where P = "\<lambda>i freq r. shifted_one i \<longrightarrow> \<not> 0x80000000 < freq", OF _ assms])
  fix f :: "u32 \<Rightarrow> u32 \<Rightarrow> i32 option" and i freq r
  assume IH: "\<And>i freq r. f i freq = Some r \<Longrightarrow> shifted_one i \<longrightarrow> \<not> 0x80000000 < freq"
    and eq: "(if i \<le> freq then if freq = i then Some 1 else f (push_bit 1 i) freq else Some (-1)) = Some r"
  show "shifted_one i \<longrightarrow> \<not> 0x80000000 < freq"
  proof (intro impI notI)
    assume i: "shifted_one i"
    have "i \<le> 0x80000000" using i exp32_le_iff [of _ 31] unfolding shifted_one_def by auto
    assume "0x80000000 < freq"
    then have "i \<le> freq" "freq \<noteq> i" using \<open>i \<le> 0x80000000\<close> by auto
    then have "f (push_bit 1 i) freq = Some r" using eq by simp
    with IH shifted_one_push [OF i] \<open>0x80000000 < freq\<close> show False by blast
  qed
qed

lemma check_param_returns_iff: "check_param freq \<noteq> None \<longleftrightarrow> freq \<le> 0x80000000"
proof
  assume "check_param freq \<noteq> None"
  then obtain r where "check_param_from 1 freq = Some r" by (auto simp: check_param_def)
  moreover have "shifted_one 1" unfolding shifted_one_def by (rule disjI2, rule exI [of _ 0]) simp
  ultimately show "freq \<le> 0x80000000" using check_param_from_diverges by (simp add: not_less)
qed (simp add: check_param_eq)

section \<open>The clock's registers\<close>

fun cmos :: "ioevent list \<Rightarrow> u8 \<Rightarrow> u8 option" where
  "cmos [] r = None"
| "cmos (Out p v # h) r = (if p = 0x71 \<and> last_out h 0x70 = Some r then Some v else cmos h r)"
| "cmos (In p # h) r = cmos h r"

definition cmos_dev :: "(ioevent list \<Rightarrow> u16 \<Rightarrow> u8) \<Rightarrow> bool" where
  "cmos_dev d \<longleftrightarrow> (\<forall>h r v. last_out h 0x70 = Some r \<longrightarrow> cmos h r = Some v \<longrightarrow> d h 0x71 = v)"

lemma cmos_io [simp]:
  "cmos (ioev (outb v p s)) r = (if p = 0x71 \<and> port s 0x70 = Some r then Some v else cmos (ioev s) r)"
  "cmos (ioev (snd (inb p s))) r = cmos (ioev s) r"
  by (simp_all add: outb_def inb_def)

lemma cmos_irq [simp]:
  "cmos (ioev (enable_irq n s)) r = cmos (ioev s) r" "cmos (ioev (disable_irq n s)) r = cmos (ioev s) r"
  "cmos (ioev (send_eoi n s)) r = cmos (ioev s) r"
  by (simp_all add: enable_irq_def disable_irq_def send_eoi_def Let_def split_def)

lemma cmos_read:
  "cmos_dev (dev s) \<Longrightarrow> port s 0x70 = Some r \<Longrightarrow> cmos (ioev s) r = Some v \<Longrightarrow> fst (inb 0x71 s) = ucast v"
  by (simp add: cmos_dev_def)

lemma ucast_or [simp]: "ucast (ucast v :: u32) = (v :: u8)"
  by (rule bit_word_eqI) (simp add: bit_simps)

lemma init_rtc_effect:
  assumes "cmos_dev (dev s)" "curr_rate s = 2" "cmos (ioev s) 0x0A = Some a" "cmos (ioev s) 0x0B = Some b"
  shows "\<exists>t. init_rtc s = Some (0, t)
    \<and> cmos (ioev t) r = (if r = 0x0A then Some (a OR 0x0F) else if r = 0x0B then Some (b OR 0x40) else cmos (ioev s) r)
    \<and> curr_interrupt t 0 = 0 \<and> curr_interrupt t 1 = 0 \<and> curr_interrupt t 2 = 0 \<and> ram t = ram s"
proof -
  have "calculate_rate 2 = Some 15"
    using calculate_rate_from_run [of 1 0] by (simp add: calculate_rate_def)
  then show ?thesis
    using assms(1,3,4) by (simp add: init_rtc_def Let_def split_def cmos_dev_def assms(2))
qed

lemma write_rtc_accepts:
  assumes "cmos_dev (dev s)" "cmos (ioev s) 0x0A = Some a" "load32 (ram s) buf = f"
    and "f \<noteq> 0" "f \<le> 1024" "check_param f = Some 1" "calculate_rate f = Some r"
  shows "\<exists>t. write_rtc fd buf count s = Some (0, t)
    \<and> cmos (ioev t) x = (if x = 0x0A then Some ((a AND 0xF0) OR ucast (r AND 0x0F)) else cmos (ioev s) x)
    \<and> ram t = ram s \<and> ifl t"
proof -
  have u: "ucast (ucast a AND (0xF0 :: u32)) = a AND (0xF0 :: u8)"
    by (rule bit_word_eqI) (auto simp: bit_simps)
  have "\<not> (f > 1024 \<or> f \<le> 0)" using assms(4,5) by auto
  then show ?thesis
    using assms(1,2) u by (simp add: write_rtc_def Let_def assms(3,6,7) split_def cmos_dev_def)
qed

lemma write_rtc_rejects:
  assumes "\<not> (\<exists>k \<le> 10. load32 (ram s) buf = 2 ^ k)"
  shows "write_rtc fd buf count s = Some (-1, put_literal invalid_parameter s)"
proof -
  let ?f = "load32 (ram s) buf"
  have "check_param ?f = Some (-1)" if f: "?f \<le> 1024"
  proof -
    have "?f \<noteq> 2 ^ j" if "j \<le> 31" for j
      using assms f exp32_le_iff [of j 10] that by auto
    moreover have "?f \<le> 0x80000000" using f by (rule order_trans) simp
    ultimately show ?thesis by (simp add: check_param_eq)
  qed
  then show ?thesis by (auto simp: write_rtc_def Let_def not_less)
qed

lemma rate_of_exp:
  assumes "k \<le> 10"
  shows "(2 :: u32) ^ k \<noteq> 0" "(2 :: u32) ^ k \<le> 1024" "check_param (2 ^ k) = Some 1"
    "calculate_rate (2 ^ k) = Some (of_nat (16 - k))"
    "ucast (of_nat (16 - k) AND 0x0F :: u32) = (of_nat ((16 - k) mod 16) :: u8)"
    "rtc_frequency (of_nat ((16 - k) mod 16)) = (if k = 0 then 0 else 2 ^ k)"
proof -
  show "(2 :: u32) ^ k \<le> 1024" using exp32_le_iff [of k 10] assms by simp
  show "(2 :: u32) ^ k \<noteq> 0" using exp32_le_iff [of 0 k] assms by auto
  have "(2 :: u32) ^ k \<le> 0x80000000" using exp32_le_iff [of k 31] assms by simp
  then show "check_param (2 ^ k) = Some 1" using check_param_eq assms by (auto intro: exI [of _ k])
  show "calculate_rate (2 ^ k) = Some (of_nat (16 - k))"
    using calculate_rate_from_run [of k 0] assms by (simp add: calculate_rate_def)
  have "k = 0 \<or> k = 1 \<or> k = 2 \<or> k = 3 \<or> k = 4 \<or> k = 5 \<or> k = 6 \<or> k = 7 \<or> k = 8 \<or> k = 9 \<or> k = 10"
    using assms by presburger
  then show "ucast (of_nat (16 - k) AND 0x0F :: u32) = (of_nat ((16 - k) mod 16) :: u8)"
    "rtc_frequency (of_nat ((16 - k) mod 16)) = (if k = 0 then 0 else 2 ^ k)"
    by (elim disjE; simp add: rtc_frequency_def drop_bit_eq_div)+
qed

section \<open>Waiting\<close>

lemma wait_while_done: "\<not> c s \<Longrightarrow> wait_while c irqs s = Some s"
  by (cases irqs) auto

lemma wait_while_append:
  "wait_while c (xs @ ys) s = (case wait_while c xs s of Some t \<Rightarrow> Some t
     | None \<Rightarrow> wait_while c ys (fold id xs s))"
  by (induction xs arbitrary: s) (auto simp: wait_while_done split: option.splits)

lemma wait_while_None:
  "c s \<Longrightarrow> (\<And>f s. f \<in> set irqs \<Longrightarrow> c s \<Longrightarrow> c (f s)) \<Longrightarrow> wait_while c irqs s = None \<and> c (fold id irqs s)"
  by (induction irqs arbitrary: s) auto

lemma wait_while_first:
  assumes "c s" "\<And>f s. f \<in> set irqs \<Longrightarrow> c s \<Longrightarrow> c (f s)" "\<And>s. c s \<Longrightarrow> \<not> c (g s)"
  shows "wait_while c (irqs @ g # rest) s = Some (g (fold id irqs s))"
proof -
  have "wait_while c irqs s = None \<and> c (fold id irqs s)" by (rule wait_while_None) (use assms in auto)
  then show ?thesis using assms(3) by (simp add: wait_while_append wait_while_done)
qed


definition keeps_wait :: "('a rtc_scheme \<Rightarrow> 'a rtc_scheme) \<Rightarrow> bool" where
  "keeps_wait f \<longleftrightarrow> (\<forall>s. curr_interrupt (f s) = curr_interrupt s \<and> scheduled_terminal (f s) = scheduled_terminal s)"

text \<open>The state in which \<open>read_rtc\<close> waits.\<close>

definition rtc_waiting :: "'a rtc_scheme \<Rightarrow> 'a rtc_scheme" where
  "rtc_waiting s = (disable_irq 0x21 s)\<lparr>curr_interrupt := (curr_interrupt s)(scheduled_terminal s := 1)\<rparr>"

lemma read_rtc_wait:
  "read_rtc irqs fd buf count s = map_option (\<lambda>s. (0, enable_irq 0x21 s))
     (wait_while (\<lambda>s. curr_interrupt s (scheduled_terminal s) = 1) irqs (rtc_waiting s))"
  by (simp add: read_rtc_def Let_def rtc_waiting_def)

lemma do_rtc_handler_flags [simp]:
  "curr_interrupt (do_rtc_handler s) = (curr_interrupt s)(0 := 0, 1 := 0, 2 := 0)"
  "scheduled_terminal (do_rtc_handler s) = scheduled_terminal s"
  by (simp_all add: do_rtc_handler_def Let_def split_def)

lemma init_pit_effect:
  assumes "freq \<noteq> 0"
  shows "\<exists>t. init_pit 0 freq s = Some t \<and> ram t = ram s \<and> dev t = dev s \<and>
    ioev t = Out 0x40 (ucast (drop_bit 8 (1193182 div freq) AND 0xFF)) # Out 0x40 (ucast (1193182 div freq AND 0xFF))
      # Out 0x43 0 # ioev (enable_irq 0 s)"
  using assms by (simp add: init_pit_def Let_def outb_def)

section \<open>Properties\<close>

text \<open>A clock whose registers read back what was written, for the witnesses.\<close>

definition rtc_dev :: "ioevent list \<Rightarrow> u16 \<Rightarrow> u8" where
  "rtc_dev h p = (if p = 0x71 then case last_out h 0x70 of None \<Rightarrow> 0
       | Some r \<Rightarrow> (case cmos h r of None \<Rightarrow> 0 | Some v \<Rightarrow> v)
     else latch_dev h p)"

definition rtc_start :: rtc where
  "rtc_start = terminals.extend
     (terminals_start\<lparr>ioev := [Out 0x71 0x26, Out 0x70 0x0A, Out 0x71 0x02, Out 0x70 0x0B, Out 0x21 0xFB],
        dev := rtc_dev, ram := (ram terminals_start)(0x600010 := 16, 0x600020 := 10)\<rparr>)
     \<lparr>curr_rate = 2, curr_interrupt = \<lambda>_. -1\<rparr>"

lemma rtc_start_fields [simp]:
  "curr_rate rtc_start = 2" "dev rtc_start = rtc_dev" "cmos_dev rtc_dev" "scheduled_terminal rtc_start = 0"
  "cmos (ioev rtc_start) 0x0A = Some 0x26" "cmos (ioev rtc_start) 0x0B = Some 0x02"
  "ram rtc_start = image_mem(0x600010 := 16, 0x600020 := 10)" "screen_ok rtc_start"
proof -
  show "cmos_dev rtc_dev" by (simp add: cmos_dev_def rtc_dev_def)
  show "scheduled_terminal rtc_start = 0" "curr_rate rtc_start = 2" "dev rtc_start = rtc_dev"
    "cmos (ioev rtc_start) 0x0A = Some 0x26" "cmos (ioev rtc_start) 0x0B = Some 0x02"
    "ram rtc_start = image_mem(0x600010 := 16, 0x600020 := 10)"
    by (simp_all add: rtc_start_def terminals.defs)
  show "screen_ok rtc_start"
    by (simp add: rtc_start_def terminals.defs screen_ok_def term_ok_def cursor_ok_def)
qed

text \<open>
  \<open>write_rtc\<close> accepts exactly the powers of two from 1 to 1024. It then returns 0 and has
  changed, of the clock's registers, only the low half of register A, to the rate at which the
  clock interrupts as often as requested; the accepted frequency 1 has no rate and stops the
  clock. For every other value it returns -1 and only prints its message.
\<close>

theorem write_rtc_frequency:
  assumes "cmos_dev (dev s)" "cmos (ioev s) 0x0A = Some a"
  shows "if \<exists>k \<le> 10. load32 (ram s) buf = 2 ^ k
    then \<exists>t rate. write_rtc fd buf count s = Some (0, t) \<and> cmos (ioev t) 0x0A = Some ((a AND 0xF0) OR rate)
      \<and> rtc_frequency rate = (if load32 (ram s) buf = 1 then 0 else load32 (ram s) buf)
      \<and> (\<forall>x. x \<noteq> 0x0A \<longrightarrow> cmos (ioev t) x = cmos (ioev s) x) \<and> ram t = ram s \<and> ifl t
    else write_rtc fd buf count s = Some (-1, put_literal invalid_parameter s)"
proof (cases "\<exists>k \<le> 10. load32 (ram s) buf = 2 ^ k")
  case True
  then obtain k where k: "k \<le> 10" "load32 (ram s) buf = 2 ^ k" by blast
  note r = rate_of_exp [OF k(1)]
  have one: "(2 :: u32) ^ k = 1 \<longleftrightarrow> k = 0" using exp32_eq_iff [of k 0] k(1) by simp
  let ?rate = "of_nat ((16 - k) mod 16) :: u8"
  have f: "rtc_frequency ?rate = (if load32 (ram s) buf = 1 then 0 else load32 (ram s) buf)"
    unfolding k(2) one by (rule r(6))
  note acc = write_rtc_accepts [OF assms k(2) r(1-4), unfolded r(5), where fd = fd and count = count]
  from acc [where x = "0x0A"] obtain t where t: "write_rtc fd buf count s = Some (0, t)"
    "cmos (ioev t) 0x0A = Some ((a AND 0xF0) OR ?rate)" "ram t = ram s" "ifl t" by auto
  have "cmos (ioev t) x = cmos (ioev s) x" if "x \<noteq> 0x0A" for x using acc [where x = x] that t(1) by auto
  then show ?thesis using t f True by auto
qed (use write_rtc_rejects in auto)

theorem write_rtc_frequency_witness:
  "(\<exists>t rate. write_rtc 2 0x600010 4 rtc_start = Some (0, t) \<and> cmos (ioev t) 0x0A = Some (0x20 OR rate)
      \<and> rtc_frequency rate = 16)
   \<and> write_rtc 2 0x600020 4 rtc_start = Some (-1, put_literal invalid_parameter rtc_start)"
proof
  have w: "load32 (ram rtc_start) 0x600010 = 16" "load32 (ram rtc_start) 0x600020 = 10"
    by (simp_all add: load32_def image_mem_def)
  have "\<exists>k \<le> 10. (16 :: u32) = 2 ^ k" by (rule exI [of _ 4]) simp
  then show "\<exists>t rate. write_rtc 2 0x600010 4 rtc_start = Some (0, t) \<and> cmos (ioev t) 0x0A = Some (0x20 OR rate)
      \<and> rtc_frequency rate = 16"
    using write_rtc_frequency [of rtc_start "0x26" "0x600010" 2 4] w by auto
  have "\<not> (\<exists>k \<le> 10. (10 :: u32) = 2 ^ k)"
  proof safe
    fix k :: nat assume k: "k \<le> 10" "(10 :: u32) = 2 ^ k"
    then have e: "10 = (2 :: nat) ^ k" using unat_exp32 [of k] arg_cong [OF k(2), of unat] by simp
    have "k = 0 \<or> k = 1 \<or> k = 2 \<or> k = 3 \<or> 4 \<le> k" by presburger
    moreover have "4 \<le> k \<Longrightarrow> (2 :: nat) ^ 4 \<le> 2 ^ k" by (rule power_increasing) simp_all
    ultimately show False using e by auto
  qed
  then show "write_rtc 2 0x600020 4 rtc_start = Some (-1, put_literal invalid_parameter rtc_start)"
    using write_rtc_frequency [of rtc_start "0x26" "0x600020" 2 4] w by auto
qed


text \<open>
  \<open>check_param\<close> returns exactly for the arguments up to \<open>2 ^ 31\<close> and then decides whether
  the argument is a power of two; for every larger argument its counter is shifted out and its
  loop never ends.
\<close>

theorem check_param_returns:
  "check_param freq = (if freq \<le> 0x80000000 then Some (if \<exists>j \<le> 31. freq = 2 ^ j then 1 else -1) else None)"
  using check_param_eq check_param_returns_iff [of freq] by auto

text \<open>
  C39: \<open>read_rtc\<close> returns at the first clock interrupt: whatever other interrupts come before and
  after it, as long as they keep the waiting flags and bring this terminal back, it returns 0 in
  the state the clock's handler leaves; while no clock interrupt comes it does not return.
\<close>

theorem read_rtc_until_tick:
  fixes s :: "'a rtc_scheme"
  assumes "\<forall>f \<in> set pre. keeps_wait f" "scheduled_terminal s < 3"
  shows "read_rtc pre fd buf count s = None
    \<and> read_rtc (pre @ do_rtc_handler # post) fd buf count s
      = Some (0, enable_irq 0x21 (do_rtc_handler (fold id pre (rtc_waiting s))))"
proof -
  let ?c = "\<lambda>x :: 'a rtc_scheme. curr_interrupt x (scheduled_terminal x) = 1 \<and> scheduled_terminal x = scheduled_terminal s"
  let ?w = "\<lambda>x :: 'a rtc_scheme. curr_interrupt x (scheduled_terminal x) = 1"
  have t: "scheduled_terminal s = 0 \<or> scheduled_terminal s = 1 \<or> scheduled_terminal s = 2"
    using assms(2) by (simp add: u8_less_3)
  have keep: "?c (f x)" if "f \<in> set pre" "?c x" for f x
    using assms(1) that by (auto simp: keeps_wait_def)
  have init: "?c (rtc_waiting s)" by (simp add: rtc_waiting_def)
  have stay: "?c x \<Longrightarrow> wait_while ?w fs x = None \<and> ?c (fold id fs x)" if "set fs \<subseteq> set pre" for fs x
    using that keep by (induction fs arbitrary: x) auto
  have n: "wait_while ?w pre (rtc_waiting s) = None" "?c (fold id pre (rtc_waiting s))"
    using stay [OF subset_refl init] by blast+
  let ?x = "fold id pre (rtc_waiting s)"
  have y: "?w ?x" by (rule conjunct1 [OF n(2)])
  have d: "\<not> ?w (do_rtc_handler ?x)" using n(2) t by (auto simp: fun_upd_def)
  have "wait_while ?w (do_rtc_handler # post) ?x = Some (do_rtc_handler ?x)"
    by (subst wait_while.simps) (simp only: y refl if_True wait_while_done [where c = ?w, OF d])
  with n(1) show ?thesis by (simp add: read_rtc_wait wait_while_append)
qed

theorem read_rtc_until_tick_witness:
  "read_rtc ([id] @ do_rtc_handler # []) 2 0 4 rtc_start
    = Some (0, enable_irq 0x21 (do_rtc_handler (rtc_waiting rtc_start)))"
  using read_rtc_until_tick [of "[id]" rtc_start 2 0 4 "[]"] by (simp add: keeps_wait_def)

text \<open>
  For a frequency of at least 19 Hz (the kernel uses 100) the divisor fits into the two bytes
  that \<open>init_pit\<close> sends to channel 0, low byte first, and the timer ticks no slower than
  requested; the timer's line is enabled before.
\<close>

theorem init_pit_divisor:
  assumes "19 \<le> freq"
  shows "\<exists>t lo hi. init_pit 0 freq s = Some t
    \<and> ioev t = Out 0x40 hi # Out 0x40 lo # Out 0x43 0 # ioev (enable_irq 0 s)
    \<and> unat hi * 256 + unat lo = 1193182 div unat freq \<and> unat freq * (unat hi * 256 + unat lo) \<le> 1193182"
proof -
  let ?d = "1193182 div freq"
  have f: "19 \<le> unat freq" "freq \<noteq> 0" using assms by (auto simp: word_le_nat_alt)
  have d: "unat ?d = 1193182 div unat freq" by (simp add: unat_div)
  have lt: "unat ?d < 65536"
    unfolding d using f(1) by (intro order_le_less_trans [OF div_le_mono2 [of 19 "unat freq" 1193182]]) simp_all
  have b: "ucast (x AND 0xFF) = (ucast x :: u8)" for x :: u32
  proof -
    have "x AND 0xFF = take_bit 8 x" by (simp add: take_bit_eq_mask mask_eq_exp_minus_1)
    then show ?thesis by (simp add: bit_word_eqI bit_simps)
  qed
  have lo: "unat (ucast (?d AND 0xFF) :: u8) = unat ?d mod 256"
    unfolding b by (simp add: unsigned_ucast_eq take_bit_eq_mod)
  have "unat (drop_bit 8 ?d) = unat ?d div 256" by (simp add: drop_bit_eq_div unat_div)
  then have hi: "unat (ucast (drop_bit 8 ?d AND 0xFF) :: u8) = unat ?d div 256"
    unfolding b using lt by (simp add: unsigned_ucast_eq take_bit_eq_mod)
  show ?thesis
    using init_pit_effect [OF f(2), of s] lo hi d by auto
qed


theorem init_pit_divisor_witness:
  "\<exists>t lo hi. init_pit 0 100 rtc_start = Some t \<and> unat hi * 256 + unat lo = 11931
    \<and> ioev t = Out 0x40 hi # Out 0x40 lo # Out 0x43 0 # ioev (enable_irq 0 rtc_start)"
  using init_pit_divisor [of 100 rtc_start] by auto

end
