(* ===== verification/Syscall.thy ===== *)
theory Syscall
  imports Rtc
begin

text \<open>
  student-distrib/syscall.c: the process list, the system calls, scheduling and context switches,
  the timer's handler that schedules, and the dispatcher of student-distrib/syscall_handler.S.

  A function that leaves its caller for good ends in an outcome: \<open>Ret\<close> returns to the caller,
  \<open>EnterUser\<close> is the \<open>iret\<close> to a program's entry point, \<open>Resume\<close> loads another kernel stack's
  \<open>esp\<close> and \<open>ebp\<close> and goes on there. \<open>None\<close>: the call never returns (a fault whose handler spins,
  or a loop without end). The addresses that the compiler gives a call's local arrays, and its
  \<open>esp\<close> and \<open>ebp\<close>, are the \<open>frame\<close> of the call. \<open>kmalloc\<close> and \<open>kfree\<close> are not in the repository,
  so they are parameters of the system calls that hand over to them.
\<close>

section \<open>State and outcomes\<close>

record frame =
  fr_program :: u32
  fr_arg :: u32
  fr_temp :: u32
  fr_Magic :: u32
  fr_entry :: u32
  fr_esp :: u32
  fr_ebp :: u32
  fr_halt_ret :: u32

datatype 's outcome =
    Ret i32 's
  | EnterUser (user_eip: u32) (user_esp: u32) (user_cs: u16) (user_ds: u16) (entered: 's)
  | Resume (resume_esp: u32) (resume_ebp: u32) (resumed: 's)

definition EXE_ID :: u32 where "EXE_ID = 0x464c457f"

definition USER_ESP :: u32 where "USER_ESP = 0x083ffffb"

definition KERNEL_DS :: u16 where "KERNEL_DS = 0x0018"

definition USER_CS :: u16 where "USER_CS = 0x0023"

definition USER_DS :: u16 where "USER_DS = 0x002B"

section \<open>The process list\<close>

definition init_pid :: "'a process_scheme \<Rightarrow> 'a process_scheme" where
  "init_pid s =
     (let s = foldl (\<lambda>s i. s\<lparr>pidlist := (pidlist s)(of_nat i :=
                \<lparr>pid_pid = of_nat i, pid_proc = 0, pid_flag = 0\<rparr>)\<rparr>) s [0..<6]
      in s\<lparr>scheduled_terminal := 0\<rparr>)"

definition set_pid_flag :: "u32 \<Rightarrow> u8 \<Rightarrow> 'a process_scheme \<Rightarrow> 'a process_scheme" where
  "set_pid_flag i v s = s\<lparr>pidlist := (pidlist s)(i := (pidlist s i)\<lparr>pid_flag := v\<rparr>)\<rparr>"

text \<open>The first free number of a user program: the loop over \<open>i\<close> from 3.\<close>

function free_process :: "(u32 \<Rightarrow> PID) \<Rightarrow> u8 \<Rightarrow> u8 option" where
  "free_process pl i =
     (if i \<ge> 6 then None else if pid_flag (pl (ucast i)) = 1 then free_process pl (i + 1) else Some i)"
  by pat_completeness auto
termination
  by (relation "measure (\<lambda>(pl, i). 6 - unat i)") (auto simp: not_le word_less_nat_alt unat_word_ariths)

declare free_process.simps [simp del]

text \<open>
  The branch of \<open>sys_execute\<close> that numbers the new process: the number, its parent and the
  state; \<open>None\<close> when the list is full.
\<close>

definition new_process :: "'a rtc_scheme \<Rightarrow> (u8 \<times> i32 \<times> 'a rtc_scheme) option" where
  "new_process s =
     (if get_current_flag s = 1 then
        let s = set_current_flag 0 s;
            i = scheduled_terminal s;
            s = set_pid_flag (ucast i) 1 s;
            s = s\<lparr>current_pid := ucast i\<rparr>
        in Some (i, sint (scheduled_terminal s), s)
      else
        case free_process (pidlist s) 3 of None \<Rightarrow> None
        | Some i \<Rightarrow>
          let s = set_pid_flag (ucast i) 1 s;
              s = s\<lparr>current_pid := ucast i\<rparr>;
              temp_parent_pid = sint (of_int (shell_pid (terminals s (get_disp_terminal s))) :: u8)
          in Some (i, temp_parent_pid, modify_terminal_curr_pid (sint i) s))"

section \<open>Executing a program\<close>

partial_function (option) copy_program :: "u32 \<Rightarrow> u32 \<Rightarrow> u32 \<Rightarrow> u32 \<Rightarrow> mem \<Rightarrow> (mem \<times> u32 \<times> u32) option" where
  "copy_program program command cmd_i idx m =
     (if m (command + cmd_i) \<noteq> 0 \<and> m (command + cmd_i) \<noteq> 32 \<and> m (command + cmd_i) \<noteq> 10
      then copy_program program command (cmd_i + 1) (idx + 1) (m(program + idx := m (command + cmd_i)))
      else Some (m, cmd_i, idx))"

partial_function (option) skip_spaces :: "u32 \<Rightarrow> u32 \<Rightarrow> mem \<Rightarrow> u32 option" where
  "skip_spaces command cmd_i m =
     (if m (command + cmd_i) = 32 then skip_spaces command (cmd_i + 1) m else Some cmd_i)"

partial_function (option) copy_arg :: "u32 \<Rightarrow> u32 \<Rightarrow> u32 \<Rightarrow> u32 \<Rightarrow> mem \<Rightarrow> (mem \<times> u32) option" where
  "copy_arg args command cmd_i idx m =
     (if m (command + cmd_i) \<noteq> 0 \<and> m (command + cmd_i) \<noteq> 10
      then copy_arg args command (cmd_i + 1) (idx + 1) (m(args + idx := m (command + cmd_i)))
      else Some (m, idx))"

definition parse_command :: "u32 \<Rightarrow> u32 \<Rightarrow> u32 \<Rightarrow> mem \<Rightarrow> mem option" where
  "parse_command program args command m =
     (case copy_program program command 0 0 m of None \<Rightarrow> None
      | Some (m, cmd_i, idx) \<Rightarrow>
        let m = m(program + idx := 0)
        in case skip_spaces command cmd_i m of None \<Rightarrow> None
           | Some cmd_i \<Rightarrow>
             (case copy_arg args command cmd_i 0 m of None \<Rightarrow> None
              | Some (m, idx) \<Rightarrow> Some (m(args + idx := 0))))"

definition unused_file :: file_element where
  "unused_file = \<lparr>file_op_ptr = None, inode = 0, file_pos = 0, flag = 0\<rparr>"

definition init_files :: "pcb \<Rightarrow> pcb" where
  "init_files p =
     (let p = p\<lparr>file_array := foldl (\<lambda>fa i. fa(i := unused_file)) (file_array p) [0..7]\<rparr>;
          p = p\<lparr>file_array := (file_array p)(0 := \<lparr>file_op_ptr = Some stdin_table, inode = 0, file_pos = 0, flag = 1\<rparr>)\<rparr>
      in p\<lparr>file_array := (file_array p)(1 := \<lparr>file_op_ptr = Some stdout_table, inode = 0, file_pos = 0, flag = 1\<rparr>)\<rparr>)"

text \<open>The user page is allocated twice when the first attempt fails, as the source does.\<close>

definition allocate_user :: "u32 \<Rightarrow> 'a paging_scheme \<Rightarrow> 'a paging_scheme" where
  "allocate_user phys_addr s =
     (let (r, s) = allocatePage 0x20 1 phys_addr s
      in if r = -1 then
           let (r, s) = clearPage 0x20 s; (r, s) = allocatePage 0x20 1 phys_addr s in s
         else s)"

definition launch :: "frame \<Rightarrow> u32 \<Rightarrow> u8 \<Rightarrow> i32 \<Rightarrow> 'a rtc_scheme \<Rightarrow> 'a rtc_scheme outcome" where
  "launch fr ino i temp_parent_pid s =
     (let phys_addr = 0x800000 + ucast i * 0x400000;
          s = allocate_user phys_addr s;
          (r, s) = read_data ino 24 (fr_entry fr) 4 s;
          (r, s) = read_data ino 0 0x08048000 (0x400000 - 0x48000) s;
          eip_entry = load32 (ram s) (fr_entry fr);
          cur_process = pcb_addr (current_pid s);
          s = upd_pcb cur_process (\<lambda>p. p\<lparr>arg := fr_arg fr\<rparr>) s;
          s = s\<lparr>pidlist := (pidlist s)(ucast i := (pidlist s (ucast i))\<lparr>pid_proc := cur_process\<rparr>)\<rparr>;
          s = upd_pcb cur_process (\<lambda>p. p\<lparr>parent_pid :=
                if temp_parent_pid = 0 then 0 else if temp_parent_pid = 1 then 1
                else if temp_parent_pid = 2 then 2 else of_int temp_parent_pid\<rparr>) s;
          s = upd_pcb cur_process init_files s;
          s = upd_pcb cur_process (\<lambda>p. p\<lparr>pid := ucast (current_pid s), esp := fr_esp fr, ebp := fr_ebp fr,
                ret_addr := fr_halt_ret fr, esp0 := tss_esp0 (tss s), ss0 := ucast (tss_ss0 (tss s))\<rparr>) s;
          s = s\<lparr>tss := (tss s)\<lparr>tss_ss0 := KERNEL_DS\<rparr>\<rparr>;
          s = s\<lparr>tss := (tss s)\<lparr>tss_esp0 := 0x800000 - 0x2000 * current_pid s - 4\<rparr>\<rparr>
      in EnterUser eip_entry USER_ESP USER_CS USER_DS s)"

definition sys_execute :: "frame \<Rightarrow> u32 \<Rightarrow> 'a rtc_scheme \<Rightarrow> 'a rtc_scheme outcome option" where
  "sys_execute fr command s =
     (if ram s command = 0 \<or> ram s command = 32
      then Some (Ret (-1) (put_literal (map of_char ''Invalid command!'' @ [10]) s))
      else
        case parse_command (fr_program fr) (fr_arg fr) command (ram s) of None \<Rightarrow> None
        | Some m \<Rightarrow>
          case read_dentry_by_name (fr_program fr) (fr_temp fr) (s\<lparr>ram := m\<rparr>) of None \<Rightarrow> None
          | Some (r, s) \<Rightarrow>
            if r = -1 then Some (Ret (-1) s)
            else
              let ino = load32 (ram s) (inode_idx_addr (fr_temp fr));
                  (r, s) = read_data ino 0 (fr_Magic fr) 4 s
              in if r = -1 then Some (Ret (-1) (put_literal (map of_char ''Failed to read file.'' @ [10]) s))
                 else if load32 (ram s) (fr_Magic fr) \<noteq> EXE_ID
                 then Some (Ret (-1) (put_literal (map of_char ''Not an executable.'' @ [10]) s))
                 else case new_process s of
                     None \<Rightarrow> Some (Ret 0 (put_literal (map of_char ''Process list full.'' @ [10]) s))
                   | Some (i, temp_parent_pid, s) \<Rightarrow>
                       Some (launch fr (load32 (ram s) (inode_idx_addr (fr_temp fr))) i temp_parent_pid s))"

text \<open>What \<open>sys_execute\<close> does after a later \<open>sys_halt\<close> has resumed it at \<open>halt_ret\<close>.\<close>

definition halt_ret :: "'a machine_scheme \<Rightarrow> 'a machine_scheme outcome" where
  "halt_ret s = Ret 0 (sti s)"

section \<open>Files\<close>

fun find_fd :: "(i32 \<Rightarrow> file_element) \<Rightarrow> nat \<Rightarrow> i32 \<Rightarrow> i32 option" where
  "find_fd fa 0 fd = None"
| "find_fd fa (Suc k) fd = (if flag (fa fd) = 1 then find_fd fa k (fd + 1) else Some fd)"

definition set_file :: "i32 \<Rightarrow> jump_table \<Rightarrow> u32 \<Rightarrow> 'a process_scheme \<Rightarrow> 'a process_scheme" where
  "set_file fd tab ino s = upd_file fd (\<lambda>f. \<lparr>file_op_ptr = Some tab, inode = ino, file_pos = 0, flag = 1\<rparr>) s"

text \<open>\<open>dentry\<close> and \<open>temp\<close> are the local \<open>dentry_t\<close>s of \<open>sys_open\<close> and of \<open>file_open\<close>.\<close>

definition sys_open :: "u32 \<Rightarrow> u32 \<Rightarrow> u32 \<Rightarrow> 'a rtc_scheme \<Rightarrow> (i32 \<times> 'a rtc_scheme) option" where
  "sys_open dentry temp filename s =
     (case find_fd (file_array (cur_proc s)) 8 0 of None \<Rightarrow> Some (-1, s)
      | Some fd \<Rightarrow>
        (case read_dentry_by_name filename dentry s of None \<Rightarrow> None
         | Some (r, s) \<Rightarrow>
           if r = -1 then Some (-1, s)
           else if load32 (ram s) (file_type_addr dentry) = 0 then
             (case open_rtc filename s of None \<Rightarrow> None
              | Some (r, s) \<Rightarrow> if r = -1 then Some (-1, s) else Some (fd, set_file fd rtc_table 0 s))
           else if load32 (ram s) (file_type_addr dentry) = 1 then
             (case dir_open filename s of
                (r, s) \<Rightarrow> if r = -1 then Some (-1, s) else Some (fd, set_file fd dir_table 0 s))
           else if load32 (ram s) (file_type_addr dentry) = 2 then
             (case file_open temp filename s of None \<Rightarrow> None
              | Some (r, s) \<Rightarrow>
                if r = -1 then Some (-1, s)
                else Some (fd, set_file fd file_table (load32 (ram s) (inode_idx_addr dentry)) s))
           else Some (fd, s)))"

definition sys_close :: "i32 \<Rightarrow> 'a process_scheme \<Rightarrow> i32 \<times> 'a process_scheme" where
  "sys_close fd s =
     (if fd < 0 + 2 \<or> fd > 7 then (-1, s)
      else if flag (cur_file s fd) = 0 then (-1, s)
      else (1, upd_file fd (\<lambda>f. f\<lparr>flag := 0, inode := 0, file_pos := 0\<rparr>) s))"

text \<open>The columns of the jump tables that the system calls use; \<open>None\<close> is the null pointer.\<close>

definition table_read :: "jump_table \<Rightarrow> (('a rtc_scheme \<Rightarrow> 'a rtc_scheme) list \<Rightarrow> i32 \<Rightarrow> u32 \<Rightarrow> i32 \<Rightarrow>
    'a rtc_scheme \<Rightarrow> (i32 \<times> 'a rtc_scheme) option) option" where
  "table_read tab =
     (case tab of
        rtc_table \<Rightarrow> Some read_rtc
      | file_table \<Rightarrow> Some (\<lambda>irqs fd buf n s. Some (file_read fd buf n s))
      | dir_table \<Rightarrow> Some (\<lambda>irqs fd buf n s. dir_read fd buf n s)
      | stdin_table \<Rightarrow> Some terminal_read
      | stdout_table \<Rightarrow> None)"

definition table_write :: "jump_table \<Rightarrow> (i32 \<Rightarrow> u32 \<Rightarrow> i32 \<Rightarrow> 'a rtc_scheme \<Rightarrow> (i32 \<times> 'a rtc_scheme) option) option" where
  "table_write tab =
     (case tab of
        rtc_table \<Rightarrow> Some write_rtc
      | file_table \<Rightarrow> Some (\<lambda>fd buf n s. Some (file_write fd buf n s))
      | dir_table \<Rightarrow> Some (\<lambda>fd buf n s. Some (dir_write fd buf n s))
      | stdin_table \<Rightarrow> None
      | stdout_table \<Rightarrow> Some (\<lambda>fd buf n s. Some (terminal_write fd buf n s)))"

text \<open>
  \<open>sys_read\<close> and \<open>sys_write\<close> check of the buffer only that it is not null. Here any other buffer is
  read and written without a fault, and the control blocks, which in the machine are memory that a
  buffer may overlap, are the field \<open>pcbs\<close>.
\<close>

definition sys_read :: "('a rtc_scheme \<Rightarrow> 'a rtc_scheme) list \<Rightarrow> i32 \<Rightarrow> u32 \<Rightarrow> i32 \<Rightarrow> 'a rtc_scheme \<Rightarrow>
    (i32 \<times> 'a rtc_scheme) option" where
  "sys_read irqs fd buf cnt s =
     (if fd < 0 \<or> fd > 7 \<or> buf = 0 \<or> cnt < 0 then Some (-1, s)
      else if flag (cur_file s fd) = 0 then Some (-1, s)
      else case file_op_ptr (cur_file s fd) of None \<Rightarrow> None
        | Some tab \<Rightarrow> (case table_read tab of None \<Rightarrow> Some (-1, s) | Some f \<Rightarrow> f irqs fd buf cnt s))"

definition sys_write :: "i32 \<Rightarrow> u32 \<Rightarrow> i32 \<Rightarrow> 'a rtc_scheme \<Rightarrow> (i32 \<times> 'a rtc_scheme) option" where
  "sys_write fd buf cnt s =
     (if fd < 0 \<or> fd > 7 \<or> buf = 0 \<or> cnt < 0 then Some (-1, s)
      else if flag (cur_file s fd) = 0 then Some (-1, s)
      else case file_op_ptr (cur_file s fd) of None \<Rightarrow> None
        | Some tab \<Rightarrow> (case table_write tab of None \<Rightarrow> Some (-1, s) | Some f \<Rightarrow> f fd buf cnt s))"

section \<open>Halting\<close>

text \<open>\<open>shell\<close> is the address of the string literal.\<close>

definition halt_resume :: "u32 \<Rightarrow> u32 \<Rightarrow> 'a rtc_scheme \<Rightarrow> 'a rtc_scheme outcome" where
  "halt_resume cur phys_addr s =
     (let s = allocate_user phys_addr s in Resume (esp (pcbs s cur)) (ebp (pcbs s cur)) s)"

definition sys_halt :: "frame \<Rightarrow> u32 \<Rightarrow> u8 \<Rightarrow> 'a rtc_scheme \<Rightarrow> 'a rtc_scheme outcome option" where
  "sys_halt fr shell status s =
     (let cur = pcb_addr (current_pid s);
          s = foldl (\<lambda>s fd. snd (sys_close fd s)) s [2..7];
          phys_addr = 0x800000 + ucast (parent_pid (pcbs s cur)) * 0x400000;
          s = s\<lparr>tss := (tss s)\<lparr>tss_ss0 := ucast (ss0 (pcbs s cur))\<rparr>\<rparr>;
          s = s\<lparr>tss := (tss s)\<lparr>tss_esp0 := esp0 (pcbs s cur)\<rparr>\<rparr>;
          s = set_pid_flag (current_pid s) 0 s;
          s = recover_terminal_curr_pid (sint (ucast (current_pid s) :: u8)) (int (unat (parent_pid (pcbs s cur)))) s
      in if current_pid s \<noteq> 0 \<and> current_pid s \<noteq> 1 \<and> current_pid s \<noteq> 2 then
           Some (halt_resume cur phys_addr (s\<lparr>current_pid := ucast (parent_pid (pcbs s cur))\<rparr>))
         else
           case sys_execute fr shell (set_current_flag 1 s) of None \<Rightarrow> None
           | Some (Ret r s) \<Rightarrow> Some (halt_resume cur phys_addr s)
           | Some out \<Rightarrow> Some out)"

section \<open>Arguments and video memory\<close>

definition sys_getargs :: "u32 \<Rightarrow> i32 \<Rightarrow> 'a process_scheme \<Rightarrow> i32 \<times> 'a process_scheme" where
  "sys_getargs buf nbytes s =
     (if ram s (arg (cur_proc s)) = 0 then (-1, s)
      else (0, s\<lparr>ram := strncpy (ram s) buf (arg (cur_proc s)) (of_int nbytes)\<rparr>))"

definition sys_vidmap :: "u32 \<Rightarrow> 'a console_scheme \<Rightarrow> i32 \<times> 'a console_scheme" where
  "sys_vidmap screen_start s =
     (if screen_start < 0x08000000 \<or> screen_start \<ge> 0x08000000 + 0x00400000 then (-1, s)
      else if scheduled_terminal s = 0 then (0, s\<lparr>ram := store32 (ram s) screen_start 0x084ba000\<rparr>)
      else if scheduled_terminal s = 1 then (0, s\<lparr>ram := store32 (ram s) screen_start 0x084bc000\<rparr>)
      else if scheduled_terminal s = 2 then (0, s\<lparr>ram := store32 (ram s) screen_start 0x084be000\<rparr>)
      else (-1, s))"

definition sys_kmalloc :: "(u32 \<Rightarrow> 's \<Rightarrow> u32 \<times> 's) \<Rightarrow> u32 \<Rightarrow> 's \<Rightarrow> u32 \<times> 's" where
  "sys_kmalloc kmalloc n s = kmalloc n s"

definition sys_kfree :: "(u32 \<Rightarrow> 's \<Rightarrow> 's) \<Rightarrow> u32 \<Rightarrow> 's \<Rightarrow> u32 \<times> 's" where
  "sys_kfree kfree physaddr s = (1, kfree physaddr s)"

section \<open>Scheduling\<close>

text \<open>\<open>regs\<close> are the \<open>esp\<close> and \<open>ebp\<close> of the interrupted call.\<close>

definition context_switch :: "frame \<Rightarrow> u32 \<Rightarrow> u32 \<times> u32 \<Rightarrow> u8 \<Rightarrow> u8 \<Rightarrow> 'a rtc_scheme \<Rightarrow>
    'a rtc_scheme outcome option" where
  "context_switch fr shell regs previous_terminal next_terminal s =
     (let s = upd_terminal previous_terminal (\<lambda>t. t\<lparr>term_ebp := snd regs\<rparr>) s;
          s = upd_terminal previous_terminal (\<lambda>t. t\<lparr>term_esp := fst regs\<rparr>) s
      in if shell_pid (terminals s next_terminal) = -1 then
           let s = set_current_flag 1 s;
               s = upd_terminal next_terminal (\<lambda>t. t\<lparr>shell_pid := int (unat next_terminal)\<rparr>) s;
               s = upd_terminal next_terminal (\<lambda>t. t\<lparr>init := 1\<rparr>) s
           in sys_execute fr shell s
         else
           let s = s\<lparr>current_pid := of_int (shell_pid (terminals s next_terminal))\<rparr>;
               phys_addr = 0x800000 + current_pid s * 0x400000;
               (r, s) = allocatePage 0x20 1 phys_addr s;
               s = s\<lparr>tss := (tss s)\<lparr>tss_ss0 := KERNEL_DS\<rparr>\<rparr>;
               s = s\<lparr>tss := (tss s)\<lparr>tss_esp0 := 0x800000 - 0x2000 * current_pid s - 4\<rparr>\<rparr>
           in Some (Resume (term_esp (terminals s next_terminal)) (term_ebp (terminals s next_terminal)) s))"

definition schedule :: "frame \<Rightarrow> u32 \<Rightarrow> u32 \<times> u32 \<Rightarrow> 'a rtc_scheme \<Rightarrow> 'a rtc_scheme outcome option" where
  "schedule fr shell regs s =
     (let temp = scheduled_terminal s;
          s = s\<lparr>scheduled_terminal := of_nat ((unat (scheduled_terminal s) + 1) mod 3)\<rparr>
      in context_switch fr shell regs temp (scheduled_terminal s) s)"

definition do_pit_handler :: "frame \<Rightarrow> u32 \<Rightarrow> u32 \<times> u32 \<Rightarrow> 'a rtc_scheme \<Rightarrow> 'a rtc_scheme outcome option" where
  "do_pit_handler fr shell regs s = schedule fr shell regs (send_eoi 0 s)"

end
