(* ===== verification/Descriptors.thy ===== *)
theory Descriptors
  imports Syscall
begin

text \<open>
  What \<open>sys_open\<close>, \<open>sys_close\<close>, \<open>sys_read\<close> and \<open>sys_write\<close> do to the descriptors of the current
  process: the abstract descriptor table they implement, the invariant of its file array under each
  call (Bounds takes it through every sequence of calls), and reading a file through them.
\<close>

section \<open>The first free descriptor\<close>

lemma find_fd_Some:
  "find_fd fa k fd = Some d \<Longrightarrow>
   fd \<le> d \<and> d < fd + int k \<and> flag (fa d) \<noteq> 1 \<and> (\<forall>e. fd \<le> e \<longrightarrow> e < d \<longrightarrow> flag (fa e) = 1)"
proof (induction k arbitrary: fd)
  case (Suc k)
  then show ?case
  proof (cases "flag (fa fd) = 1")
    case True
    then have IH: "fd + 1 \<le> d \<and> d < fd + 1 + int k \<and> flag (fa d) \<noteq> 1 \<and> (\<forall>e. fd + 1 \<le> e \<longrightarrow> e < d \<longrightarrow> flag (fa e) = 1)"
      using Suc by simp
    have "flag (fa e) = 1" if "fd \<le> e" "e < d" for e
      using IH True that by (cases "e = fd") auto
    with IH show ?thesis by simp
  qed auto
qed simp

lemma find_fd_None: "find_fd fa k fd = None \<longleftrightarrow> (\<forall>e. fd \<le> e \<longrightarrow> e < fd + int k \<longrightarrow> flag (fa e) = 1)"
proof (induction k arbitrary: fd)
  case (Suc k)
  have "(\<forall>e. fd \<le> e \<longrightarrow> e < fd + int (Suc k) \<longrightarrow> flag (fa e) = 1)
      \<longleftrightarrow> flag (fa fd) = 1 \<and> (\<forall>e. fd + 1 \<le> e \<longrightarrow> e < fd + 1 + int k \<longrightarrow> flag (fa e) = 1)"
    (is "?l \<longleftrightarrow> ?r")
  proof
    show ?r if ?l using that by auto
    show ?l if ?r
    proof (intro allI impI)
      fix e assume "fd \<le> e" "e < fd + int (Suc k)"
      with that show "flag (fa e) = 1" by (cases "e = fd") auto
    qed
  qed
  with Suc show ?case by simp
qed simp

section \<open>Directory entries outside the written memory\<close>

definition dir_kept :: "mem \<Rightarrow> 'a filesys_scheme \<Rightarrow> bool" where
  "dir_kept m s \<longleftrightarrow> (\<forall>i < 4096. m (boot_block_ptr s + of_nat i) = ram s (boot_block_ptr s + of_nat i))"

lemma dir_entry_byte:
  "k < 63 \<Longrightarrow> j < 64 \<Longrightarrow> dir_kept m s \<Longrightarrow> m (dir_entry_addr s (of_nat k) + of_nat j) = ram s (dir_entry_addr s (of_nat k) + of_nat j)"
proof -
  assume "k < 63" "j < 64" "dir_kept m s"
  moreover have "dir_entry_addr s (of_nat k) + of_nat j = boot_block_ptr s + of_nat (64 + 64 * k + j)"
    by (simp add: dir_entry_addr_def)
  ultimately show ?thesis by (simp add: dir_kept_def del: of_nat_add)
qed

lemma dir_kept_entries:
  assumes "dir_kept m s" "k < 63"
  shows "entry_name (s\<lparr>ram := m\<rparr>) (of_nat k) = entry_name s (of_nat k)"
    and "entry_type (s\<lparr>ram := m\<rparr>) (of_nat k) = entry_type s (of_nat k)"
    and "entry_inode (s\<lparr>ram := m\<rparr>) (of_nat k) = entry_inode s (of_nat k)"
proof -
  note b = dir_entry_byte [OF assms(2) _ assms(1)]
  have d: "dir_entry_addr (s\<lparr>ram := m\<rparr>) i = dir_entry_addr s i" for i by (simp add: dir_entry_addr_def)
  have "bytes m (dir_entry_addr s (of_nat k)) 31 = bytes (ram s) (dir_entry_addr s (of_nat k)) 31"
    by (rule bytes_cong) (simp add: b)
  then show "entry_name (s\<lparr>ram := m\<rparr>) (of_nat k) = entry_name s (of_nat k)"
    by (simp add: entry_name_def strn_def d)
  have "load32 m (dir_entry_addr s (of_nat k) + of_nat n) = load32 (ram s) (dir_entry_addr s (of_nat k) + of_nat n)"
    if "n \<le> 60" for n
  proof (rule load32_cong)
    fix i :: nat assume "i < 4"
    then show "m (dir_entry_addr s (of_nat k) + of_nat n + of_nat i) = ram s (dir_entry_addr s (of_nat k) + of_nat n + of_nat i)"
      using b [of "n + i"] that by (simp add: add.assoc)
  qed
  from this [of 32] this [of 36]
  show "entry_type (s\<lparr>ram := m\<rparr>) (of_nat k) = entry_type s (of_nat k)"
    "entry_inode (s\<lparr>ram := m\<rparr>) (of_nat k) = entry_inode s (of_nat k)"
    by (simp_all add: entry_type_def entry_inode_def d file_type_addr_def inode_idx_addr_def)
qed

lemma find_cong': "(\<And>x. x \<in> set xs \<Longrightarrow> P x = Q x) \<Longrightarrow> find P xs = find Q xs"
  by (induction xs) auto

lemma dir_kept_lookup:
  assumes "dir_kept m s" "unat (num_dentry s) \<le> 63"
  shows "lookup (s\<lparr>ram := m\<rparr>) str = lookup s str"
  unfolding lookup_def using assms dir_kept_entries(1) [OF assms(1)] by (auto intro!: find_cong')

lemma lookup_Some: "lookup s str = Some k \<Longrightarrow> k < unat (num_dentry s)"
  by (auto simp: lookup_def find_Some_iff)

text \<open>
  A directory entry's name at an address, and a local \<open>dentry_t\<close> that overlaps neither the name
  nor the boot block.
\<close>

definition scratch_dentry :: "u32 \<Rightarrow> u32 \<Rightarrow> u8 list \<Rightarrow> 'a filesys_scheme \<Rightarrow> bool" where
  "scratch_dentry dentry fname str s \<longleftrightarrow>
     disjoint_regions dentry 40 fname (Suc (length str)) \<and> disjoint_regions dentry 40 (boot_block_ptr s) 4096"

lemma read_dentry_scratch:
  assumes "cstr (ram s) fname str" "length str \<le> 31" "unat (num_dentry s) \<le> 63"
    and "scratch_dentry dentry fname str s" "lookup s str = Some k"
  obtains m where "read_dentry_by_name fname dentry s = Some (0, s\<lparr>ram := m\<rparr>)"
    "load32 m (file_type_addr dentry) = entry_type s (of_nat k)"
    "load32 m (inode_idx_addr dentry) = entry_inode s (of_nat k)"
    "\<And>x. \<not> in_region dentry 40 x \<Longrightarrow> m x = ram s x"
proof -
  let ?e = "dir_entry_addr s (of_nat k)"
  have k: "k < 63" using lookup_Some [OF assms(5)] assms(3) by simp
  have "disjoint_regions (boot_block_ptr s) 4096 dentry 40"
    using assms(4) by (simp add: scratch_dentry_def disjoint_regions_sym)
  from disjoint_regions_shift [OF this, of "64 + 64 * k" 64 0 40] k
  have dis: "disjoint_regions dentry 40 ?e 64"
    by (simp add: dir_entry_addr_def disjoint_regions_sym add.assoc)
  have "disjoint_regions dentry (Suc (length str)) fname (Suc (length str))"
    using assms(2,4) by (auto simp: scratch_dentry_def intro: disjoint_regions_mono)
  then have "read_dentry_by_name fname dentry s = Some (0, s\<lparr>ram := copy_dentry_info dentry ?e
      (write_bytes (ram s) dentry (str @ [0]))\<rparr>)"
    using read_dentry_by_name_lookup [OF assms(1)] assms(5) by simp
  from that [OF this] show ?thesis
    using copy_dentry_info_fields [OF assms(2) dis, where m = "ram s"] by (simp add: entry_type_def entry_inode_def)
qed


section \<open>\<open>sys_open\<close>\<close>

lemma set_file_fields [simp]:
  "ram (set_file fd tab ino s) = ram s" "current_pid (set_file fd tab ino s) = current_pid s"
  "pcbs (set_file fd tab ino s) = (pcbs s)(pcb_addr (current_pid s) := (cur_proc s)\<lparr>file_array :=
     (file_array (cur_proc s))(fd := \<lparr>file_op_ptr = Some tab, inode = ino, file_pos = 0, flag = 1\<rparr>)\<rparr>)"
  "process.more (set_file fd tab ino s) = process.more s"
  by (simp_all add: set_file_def fun_eq_iff)

lemma set_file_filesys [simp]:
  "filesys.more (set_file fd tab ino s) = filesys.more s" "boot_block_ptr (set_file fd tab ino s) = boot_block_ptr s"
  "num_dentry (set_file fd tab ino s) = num_dentry s"
  by (simp_all add: set_file_def)

lemma scratch_keeps:
  assumes "scratch_dentry dentry fname str s" "\<And>x. \<not> in_region dentry 40 x \<Longrightarrow> m x = ram s x"
  shows "dir_kept m s" "cstr (ram s) fname str \<Longrightarrow> cstr m fname str"
proof -
  have "m x = ram s x" if "in_region (boot_block_ptr s) 4096 x \<or> in_region fname (Suc (length str)) x" for x
    using assms that by (auto simp: scratch_dentry_def dest: disjoint_regions_notin)
  then have "dir_kept m s" and b: "bytes m fname (Suc (length str)) = bytes (ram s) fname (Suc (length str))"
    using in_region_offset' by (auto simp: dir_kept_def intro!: bytes_cong)
  then show "dir_kept m s" "cstr (ram s) fname str \<Longrightarrow> cstr m fname str" by (simp_all add: cstr_def)
qed

lemma scratch_dentry_update [simp]:
  "scratch_dentry dentry fname str (s\<lparr>ram := m\<rparr>) = scratch_dentry dentry fname str s"
  by (simp add: scratch_dentry_def)

text \<open>A file name that \<open>sys_open\<close> can look up with its two local \<open>dentry_t\<close>s.\<close>

definition openable :: "u32 \<Rightarrow> u32 \<Rightarrow> u32 \<Rightarrow> u8 list \<Rightarrow> nat \<Rightarrow> 'a filesys_scheme \<Rightarrow> bool" where
  "openable dentry temp fname str k s \<longleftrightarrow> cstr (ram s) fname str \<and> length str \<le> 31 \<and> str \<noteq> [] \<and> hd str \<noteq> 32
     \<and> unat (num_dentry s) \<le> 63 \<and> lookup s str = Some k
     \<and> scratch_dentry dentry fname str s \<and> scratch_dentry temp fname str s \<and> disjoint_regions dentry 40 temp 40"

lemma file_open_openable:
  assumes "openable dentry temp fname str k s"
  obtains m where "file_open temp fname s = Some (0, s\<lparr>ram := m\<rparr>)" "\<And>x. \<not> in_region temp 40 x \<Longrightarrow> m x = ram s x"
proof -
  have c: "cstr (ram s) fname str" "length str \<le> 31" "unat (num_dentry s) \<le> 63" "scratch_dentry temp fname str s"
    "lookup s str = Some k" "str \<noteq> []" "hd str \<noteq> 32"
    using assms by (simp_all add: openable_def)
  have first: "ram s fname = hd str" "hd str \<noteq> 0"
    using cstr_nth [OF c(1), of 0] cstr_nth_nonzero [OF c(1), of 0] c(6) by (simp_all add: hd_conv_nth)
  obtain m where m: "read_dentry_by_name fname temp s = Some (0, s\<lparr>ram := m\<rparr>)" "\<And>x. \<not> in_region temp 40 x \<Longrightarrow> m x = ram s x"
    using read_dentry_scratch [OF c(1-5)] by blast
  show ?thesis by (rule that [of m]) (use m first c(7) in \<open>simp_all add: file_open_def\<close>)
qed

lemma sys_open_file:
  assumes o: "openable dentry temp fname str k s" and ty: "entry_type s (of_nat k) = 2"
    and fd: "find_fd (file_array (cur_proc s)) 8 0 = Some fd"
  obtains m where "sys_open dentry temp fname s = Some (fd, set_file fd file_table (entry_inode s (of_nat k)) (s\<lparr>ram := m\<rparr>))"
    "\<And>x. \<not> in_region dentry 40 x \<Longrightarrow> \<not> in_region temp 40 x \<Longrightarrow> m x = ram s x"
proof -
  have c: "cstr (ram s) fname str" "length str \<le> 31" "unat (num_dentry s) \<le> 63" "scratch_dentry dentry fname str s"
    "lookup s str = Some k" "disjoint_regions dentry 40 temp 40"
    using o by (simp_all add: openable_def)
  obtain m where m: "read_dentry_by_name fname dentry s = Some (0, s\<lparr>ram := m\<rparr>)"
    "load32 m (file_type_addr dentry) = entry_type s (of_nat k)"
    "load32 m (inode_idx_addr dentry) = entry_inode s (of_nat k)"
    "\<And>x. \<not> in_region dentry 40 x \<Longrightarrow> m x = ram s x"
    using read_dentry_scratch [OF c(1-5)] by blast
  have "openable dentry temp fname str k (s\<lparr>ram := m\<rparr>)"
    using o scratch_keeps [OF c(4) m(4)] dir_kept_lookup [OF scratch_keeps(1) [OF c(4) m(4)] c(3)]
    by (simp add: openable_def)
  from file_open_openable [OF this] obtain m' where "file_open temp fname (s\<lparr>ram := m\<rparr>) = Some (0, s\<lparr>ram := m\<rparr>\<lparr>ram := m'\<rparr>)"
    "\<And>x. \<not> in_region temp 40 x \<Longrightarrow> m' x = ram (s\<lparr>ram := m\<rparr>) x" by blast
  then have m': "file_open temp fname (s\<lparr>ram := m\<rparr>) = Some (0, s\<lparr>ram := m'\<rparr>)"
    "\<And>x. \<not> in_region temp 40 x \<Longrightarrow> m' x = m x" by simp_all
  have "load32 m' (inode_idx_addr dentry) = load32 m (inode_idx_addr dentry)"
  proof (rule load32_cong)
    fix i :: nat assume "i < 4"
    then have "in_region dentry 40 (dentry + of_nat (36 + i))" by (intro in_region_offset') simp
    then have "\<not> in_region temp 40 (dentry + of_nat (36 + i))" using c(6) disjoint_regions_notin by blast
    with m'(2) show "m' (inode_idx_addr dentry + of_nat i) = m (inode_idx_addr dentry + of_nat i)"
      by (simp add: inode_idx_addr_def add.assoc)
  qed
  then have "sys_open dentry temp fname s = Some (fd, set_file fd file_table (entry_inode s (of_nat k)) (s\<lparr>ram := m'\<rparr>))"
    by (simp add: sys_open_def fd m(1-3) ty m'(1))
  from that [OF this] show ?thesis using m(4) m'(2) by simp
qed

section \<open>The descriptor table\<close>

text \<open>
  The abstract table: what the open descriptors of the current process refer to. \<open>files_ok\<close> is the
  invariant of a file array: every flag is 0 or 1, an open element has a jump table, and 0 and 1 are
  the terminal.
\<close>

definition open_files :: "'a process_scheme \<Rightarrow> i32 \<Rightarrow> (jump_table \<times> u32 \<times> u32) option" where
  "open_files s fd = (if 0 \<le> fd \<and> fd \<le> 7 \<and> flag (cur_file s fd) = 1
     then Some (the (file_op_ptr (cur_file s fd)), inode (cur_file s fd), file_pos (cur_file s fd)) else None)"

definition files_ok :: "(i32 \<Rightarrow> file_element) \<Rightarrow> bool" where
  "files_ok fa \<longleftrightarrow> (\<forall>fd \<in> {0..7}. flag (fa fd) = 0 \<or> flag (fa fd) = 1 \<and> file_op_ptr (fa fd) \<noteq> None)
     \<and> flag (fa 0) = 1 \<and> file_op_ptr (fa 0) = Some stdin_table
     \<and> flag (fa 1) = 1 \<and> file_op_ptr (fa 1) = Some stdout_table"

definition least_free :: "(i32 \<Rightarrow> 'e option) \<Rightarrow> i32 \<Rightarrow> bool" where
  "least_free tab fd \<longleftrightarrow> 0 \<le> fd \<and> fd \<le> 7 \<and> tab fd = None \<and> (\<forall>e \<in> {0..<fd}. tab e \<noteq> None)"

lemma least_free_find:
  assumes "least_free (open_files s) fd"
  shows "find_fd (file_array (cur_proc s)) 8 0 = Some fd"
proof (cases "find_fd (file_array (cur_proc s)) 8 0")
  case None
  then have "flag (cur_file s fd) = 1" using assms by (simp add: find_fd_None least_free_def)
  with assms show ?thesis by (auto simp: least_free_def open_files_def split: if_splits)
next
  case (Some d)
  note d = find_fd_Some [OF Some]
  have "d \<le> fd"
  proof (rule ccontr)
    assume "\<not> d \<le> fd"
    then have "flag (cur_file s fd) = 1" using d assms by (simp add: least_free_def)
    with assms show False by (auto simp: least_free_def open_files_def split: if_splits)
  qed
  moreover have "open_files s d = None" using d by (simp add: open_files_def)
  moreover have "open_files s d \<noteq> None" if "d < fd"
    using assms d that unfolding least_free_def by (intro bspec [of "{0..<fd}" "\<lambda>e. open_files s e \<noteq> None"]) simp_all
  ultimately have "d = fd" by fastforce
  with Some show ?thesis by simp
qed

lemma full_find: "\<forall>fd \<in> {0..7}. open_files s fd \<noteq> None \<Longrightarrow> find_fd (file_array (cur_proc s)) 8 0 = None"
  by (auto simp: find_fd_None open_files_def split: if_splits)

lemma least_free_exists: "tab fd = None \<Longrightarrow> fd \<in> {0..7} \<Longrightarrow> \<exists>d. least_free tab d"
proof -
  assume fd: "tab fd = None" "fd \<in> {0..7}"
  have "tab (int (nat fd)) = None" using fd by simp
  then obtain n where n: "n \<le> nat fd" "\<forall>i < n. tab (int i) \<noteq> None" "tab (int n) = None"
    using ex_least_nat_le [of "\<lambda>n. tab (int n) = None" "nat fd"] by blast
  have "tab e \<noteq> None" if "e \<in> {0..<int n}" for e using spec [OF n(2), of "nat e"] that by auto
  with n(1,3) fd(2) have "least_free tab (int n)" by (auto simp: least_free_def)
  then show ?thesis ..
qed

text \<open>
  What a program relies on, and the results of opening the file again and again: \<open>tab\<close> is the table, \<open>opn\<close> opens a fixed file whose element is \<open>e\<close>,
  \<open>cls\<close> closes a descriptor, \<open>ok\<close> is the state property both keep.
\<close>

primrec opens :: "('s \<Rightarrow> i32 \<times> 's) \<Rightarrow> nat \<Rightarrow> 's \<Rightarrow> i32 list" where
  "opens opn 0 s = []"
| "opens opn (Suc n) s = fst (opn s) # opens opn n (snd (opn s))"

locale descriptor_table =
  fixes tab :: "'s \<Rightarrow> i32 \<Rightarrow> 'e option"
    and opn :: "'s \<Rightarrow> i32 \<times> 's"
    and cls :: "i32 \<Rightarrow> 's \<Rightarrow> i32 \<times> 's"
    and e :: 'e
    and ok :: "'s \<Rightarrow> bool"
  assumes opn_ok: "ok s \<Longrightarrow> ok (snd (opn s))"
    and cls_ok: "ok s \<Longrightarrow> ok (snd (cls fd s))"
    and opn_free: "ok s \<Longrightarrow> least_free (tab s) fd \<Longrightarrow> fst (opn s) = fd \<and> tab (snd (opn s)) = (tab s)(fd \<mapsto> e)"
    and opn_full: "ok s \<Longrightarrow> \<forall>fd \<in> {0..7}. tab s fd \<noteq> None \<Longrightarrow> opn s = (-1, s)"
    and cls_open: "ok s \<Longrightarrow> fd \<in> {2..7} \<Longrightarrow> tab s fd \<noteq> None \<Longrightarrow>
      fst (cls fd s) = 1 \<and> tab (snd (cls fd s)) = (tab s)(fd := None)"
    and cls_bad: "ok s \<Longrightarrow> fd \<notin> {2..7} \<or> tab s fd = None \<Longrightarrow> cls fd s = (-1, s)"
    and std_open: "ok s \<Longrightarrow> tab s 0 \<noteq> None \<and> tab s 1 \<noteq> None"
begin

lemma open_cases:
  assumes "ok s"
  obtains fd where "least_free (tab s) fd" "2 \<le> fd" "fd \<le> 7" "opn s = (fd, snd (opn s))"
      "tab (snd (opn s)) = (tab s)(fd \<mapsto> e)"
  | "\<forall>fd \<in> {0..7}. tab s fd \<noteq> None" "opn s = (-1, s)"
proof (cases "\<forall>fd \<in> {0..7}. tab s fd \<noteq> None")
  case False
  then obtain d where "d \<in> {0..7}" "tab s d = None" by auto
  then obtain fd where fd: "least_free (tab s) fd" using least_free_exists [of "tab s" d] by auto
  have "fd \<noteq> 0" "fd \<noteq> 1" using fd std_open [OF assms] by (auto simp: least_free_def)
  then have "2 \<le> fd" "fd \<le> 7" using fd by (auto simp: least_free_def)
  moreover have "opn s = (fd, snd (opn s))" using opn_free [OF assms fd] by (simp add: prod_eq_iff)
  ultimately show ?thesis using that(1) [OF fd] opn_free [OF assms fd] by simp
next
  case True
  show ?thesis by (rule that(2) [OF True opn_full [OF assms True]])
qed

lemma open_close:
  assumes "ok s" "fst (opn s) \<noteq> -1"
  shows "fst (cls (fst (opn s)) (snd (opn s))) = 1 \<and> tab (snd (cls (fst (opn s)) (snd (opn s)))) = tab s"
proof (rule open_cases [OF assms(1)])
  fix fd assume fd: "least_free (tab s) fd" "2 \<le> fd" "fd \<le> 7" "opn s = (fd, snd (opn s))"
    "tab (snd (opn s)) = (tab s)(fd \<mapsto> e)"
  have "fst (opn s) = fd" using opn_free [OF assms(1) fd(1)] by simp
  moreover have "tab s fd = None" using fd(1) by (simp add: least_free_def)
  ultimately show ?thesis
    using cls_open [OF opn_ok [OF assms(1)], of fd] fd(2,3,5) by (simp add: fun_upd_idem)
qed (use assms(2) in simp)

lemma opens_full: "ok s \<Longrightarrow> \<forall>fd \<in> {0..7}. tab s fd \<noteq> None \<Longrightarrow> opens opn n s = replicate n (-1)"
  by (induction n) (simp_all add: opn_full)

lemma opens_results:
  "ok s \<Longrightarrow> 2 \<le> k \<Longrightarrow> k \<le> 8 \<Longrightarrow> \<forall>fd \<in> {0..7}. tab s fd \<noteq> None \<longleftrightarrow> fd < k \<Longrightarrow>
   opens opn n s = map (\<lambda>i. if k + int i \<le> 7 then k + int i else -1) [0..<n]"
proof (induction n arbitrary: s k)
  case (Suc n)
  show ?case
  proof (cases "k = 8")
    case True
    then have "\<forall>fd \<in> {0..7}. tab s fd \<noteq> None" using Suc.prems(4) by auto
    then show ?thesis
      using opens_full [OF Suc.prems(1), of "Suc n"] True by (simp add: map_replicate_const del: opens.simps upt_Suc)
  next
    case False
    then have k: "least_free (tab s) k" using Suc.prems by (auto simp: least_free_def)
    note o = opn_free [OF Suc.prems(1) k]
    have "opens opn n (snd (opn s)) = map (\<lambda>i. if k + 1 + int i \<le> 7 then k + 1 + int i else -1) [0..<n]"
      by (rule Suc.IH [OF opn_ok]) (use o Suc.prems False in auto)
    then show ?thesis
      using o False Suc.prems(3) by (simp add: upt_rec [of 0] map_Suc_upt [symmetric] add_ac comp_def del: upt_Suc)
  qed
qed simp

end


lemma files_ok_upd:
  "files_ok fa \<Longrightarrow> 2 \<le> fd \<Longrightarrow> flag f = 0 \<or> flag f = 1 \<and> file_op_ptr f \<noteq> None \<Longrightarrow> files_ok (fa(fd := f))"
  by (auto simp: files_ok_def)

lemma open_files_set_file:
  assumes "0 \<le> fd" "fd \<le> 7"
  shows "open_files (set_file fd tab ino s) = (open_files s)(fd \<mapsto> (tab, ino, 0))"
  using assms by (auto simp: open_files_def fun_eq_iff)

lemma open_files_ram [simp]: "open_files (s\<lparr>ram := m\<rparr>) = open_files s"
  by (simp add: open_files_def fun_eq_iff)

lemma openable_cong:
  assumes "openable dentry temp fname str k s" "\<And>x. \<not> in_region dentry 40 x \<Longrightarrow> \<not> in_region temp 40 x \<Longrightarrow> m x = ram s x"
  shows "openable dentry temp fname str k (s\<lparr>ram := m\<rparr>)" "dir_kept m s"
proof -
  have d: "scratch_dentry dentry fname str s" "scratch_dentry temp fname str s" "unat (num_dentry s) \<le> 63"
    using assms(1) by (simp_all add: openable_def)
  have eq: "m x = ram s x" if "in_region (boot_block_ptr s) 4096 x \<or> in_region fname (Suc (length str)) x" for x
    using assms(2) [of x] that d(1,2) by (auto simp: scratch_dentry_def dest: disjoint_regions_notin)
  then show k: "dir_kept m s" using in_region_offset' by (auto simp: dir_kept_def)
  have "bytes m fname (Suc (length str)) = bytes (ram s) fname (Suc (length str))"
    using eq in_region_offset' by (auto intro!: bytes_cong)
  then show "openable dentry temp fname str k (s\<lparr>ram := m\<rparr>)"
    using assms(1) dir_kept_lookup [OF k d(3)] by (simp add: openable_def cstr_def)
qed

lemma filesys_view_cong:
  fixes s t :: "'a filesys_scheme"
  assumes "ram t = ram s" "boot_block_ptr t = boot_block_ptr s" "num_dentry t = num_dentry s"
  shows "openable dentry temp fname str k t = openable dentry temp fname str k s"
    "entry_type t i = entry_type s i" "entry_inode t i = entry_inode s i"
  using assms by (simp_all add: openable_def lookup_def entry_name_def entry_type_def entry_inode_def
      scratch_dentry_def dir_entry_addr_def)

definition file_ready :: "u32 \<Rightarrow> u32 \<Rightarrow> u32 \<Rightarrow> u8 list \<Rightarrow> nat \<Rightarrow> u32 \<Rightarrow> 'a filesys_scheme \<Rightarrow> bool" where
  "file_ready dentry temp fname str k ino s \<longleftrightarrow> files_ok (file_array (cur_proc s))
     \<and> openable dentry temp fname str k s \<and> entry_type s (of_nat k) = 2 \<and> entry_inode s (of_nat k) = ino"

lemma sys_open_ready:
  assumes "file_ready dentry temp fname str k ino s" "least_free (open_files s) fd"
  obtains m where "sys_open dentry temp fname s = Some (fd, set_file fd file_table ino (s\<lparr>ram := m\<rparr>))"
    "file_ready dentry temp fname str k ino (set_file fd file_table ino (s\<lparr>ram := m\<rparr>))"
    "\<And>x. \<not> in_region dentry 40 x \<Longrightarrow> \<not> in_region temp 40 x \<Longrightarrow> m x = ram s x"
proof -
  have r: "files_ok (file_array (cur_proc s))" "openable dentry temp fname str k s" "entry_type s (of_nat k) = 2"
    "entry_inode s (of_nat k) = ino"
    using assms(1) by (simp_all add: file_ready_def)
  obtain m where m: "sys_open dentry temp fname s = Some (fd, set_file fd file_table ino (s\<lparr>ram := m\<rparr>))"
    "\<And>x. \<not> in_region dentry 40 x \<Longrightarrow> \<not> in_region temp 40 x \<Longrightarrow> m x = ram s x"
    using sys_open_file [OF r(2,3) least_free_find [OF assms(2)]] unfolding r(4) by blast
  have k: "k < 63" using lookup_Some [of s str k] r(2) by (simp add: openable_def)
  have "fd \<noteq> 0" "fd \<noteq> 1" "0 \<le> fd" using assms(2) r(1) by (auto simp: least_free_def open_files_def files_ok_def)
  then have "files_ok (file_array (cur_proc (set_file fd file_table ino (s\<lparr>ram := m\<rparr>))))"
    using files_ok_upd [OF r(1), of fd] by simp
  then have "file_ready dentry temp fname str k ino (set_file fd file_table ino (s\<lparr>ram := m\<rparr>))"
    using openable_cong [OF r(2) m(2)] dir_kept_entries [OF _ k, of m s] r(3,4)
      filesys_view_cong [of "set_file fd file_table ino (s\<lparr>ram := m\<rparr>)" "s\<lparr>ram := m\<rparr>"]
    by (simp add: file_ready_def)
  with m that show ?thesis by blast
qed

abbreviation (input) opened :: "u32 \<Rightarrow> u32 \<Rightarrow> u32 \<Rightarrow> 'a rtc_scheme \<Rightarrow> i32 \<times> 'a rtc_scheme" where
  "opened dentry temp fname s \<equiv> (case sys_open dentry temp fname s of Some r \<Rightarrow> r | None \<Rightarrow> (-1, s))"

interpretation file_descriptors: descriptor_table open_files "opened dentry temp fname" sys_close
  "(file_table, ino, 0)" "file_ready dentry temp fname str k ino"
  for dentry temp fname :: u32 and str :: "u8 list" and k :: nat and ino :: u32
proof unfold_locales
  fix s :: "'a rtc_scheme" and fd :: i32 assume ok: "file_ready dentry temp fname str k ino s"
  have r: "files_ok (file_array (cur_proc s))" using ok by (simp add: file_ready_def)
  show full: "opened dentry temp fname s = (-1, s)" if "\<forall>fd \<in> {0..7}. open_files s fd \<noteq> None"
    by (simp add: sys_open_def full_find [OF that])
  show free: "fst (opened dentry temp fname s) = fd
      \<and> open_files (snd (opened dentry temp fname s)) = (open_files s)(fd \<mapsto> (file_table, ino, 0))"
    if fd: "least_free (open_files s) fd"
  proof -
    have "0 \<le> fd" "fd \<le> 7" using fd by (simp_all add: least_free_def)
    moreover obtain m where "sys_open dentry temp fname s = Some (fd, set_file fd file_table ino (s\<lparr>ram := m\<rparr>))"
      using sys_open_ready [OF ok fd] by blast
    ultimately show ?thesis by (simp add: open_files_set_file)
  qed
  show "file_ready dentry temp fname str k ino (snd (opened dentry temp fname s))"
  proof (cases "\<forall>fd \<in> {0..7}. open_files s fd \<noteq> None")
    case False
    then obtain d where "d \<in> {0..7}" "open_files s d = None" by blast
    then obtain fd where "least_free (open_files s) fd" using least_free_exists [of "open_files s" d] by auto
    then show ?thesis using sys_open_ready [OF ok] by (metis option.simps(5) snd_conv)
  qed (simp add: full ok)
  show "open_files s 0 \<noteq> None \<and> open_files s 1 \<noteq> None" using r by (simp add: open_files_def files_ok_def)
  show "sys_close fd s = (-1, s)" if "fd \<notin> {2..7} \<or> open_files s fd = None"
    using that r by (cases "fd \<in> {2..7}") (auto simp: sys_close_def open_files_def files_ok_def split: if_splits)
  show "fst (sys_close fd s) = 1 \<and> open_files (snd (sys_close fd s)) = (open_files s)(fd := None)"
    if "fd \<in> {2..7}" "open_files s fd \<noteq> None"
    using that by (auto simp: sys_close_def open_files_def fun_eq_iff split: if_splits)
  show "file_ready dentry temp fname str k ino (snd (sys_close fd s))"
  proof (cases "fd \<in> {2..7}")
    case True
    have "files_ok ((cur_file s)(fd := f))" if "flag f = 0" for f using files_ok_upd [OF r] True that by auto
    then show ?thesis
      using ok filesys_view_cong [of "snd (sys_close fd s)" s]
      by (auto simp: file_ready_def sys_close_def fun_upd_def)
  qed (use ok in \<open>auto simp: sys_close_def\<close>)
qed

section \<open>The file array under each call\<close>

text \<open>Interrupts, while a read waits for them, leave the fields of the control blocks alone.\<close>

definition keeps_files :: "('a rtc_scheme \<Rightarrow> 'a rtc_scheme) \<Rightarrow> bool" where
  "keeps_files f \<longleftrightarrow> (\<forall>s. pcbs (f s) = pcbs s \<and> current_pid (f s) = current_pid s)"

lemma read_dentry_from_ram:
  "read_dentry_from fname dentry i s = Some (r, t) \<Longrightarrow> \<exists>m. t = s\<lparr>ram := m\<rparr> \<and> (r = 0 \<or> r = -1 \<and> t = s)"
proof (induction fname dentry i s rule: read_dentry_from.induct)
  case (1 fname dentry i s)
  show ?case
  proof (cases "i < num_dentry s \<and> strncmp (ram s) fname (dir_entry_addr s i) 31 \<noteq> 0")
    case True
    then have "read_dentry_from fname dentry (i + 1) s = Some (r, t)"
      using "1.prems" by (simp add: read_dentry_from.simps [of fname dentry i] Let_def)
    then show ?thesis using "1.IH" True by simp
  next
    case False
    then show ?thesis
      using "1.prems" by (auto simp: read_dentry_from.simps [of fname dentry i] Let_def split: if_splits option.splits)
        (metis machine.surjective machine.update_convs(1))
  qed
qed

lemma read_dentry_ram: "read_dentry_by_name fname dentry s = Some (r, t) \<Longrightarrow> \<exists>m. t = s\<lparr>ram := m\<rparr> \<and> (r = 0 \<or> r = -1 \<and> t = s)"
  unfolding read_dentry_by_name_def by (rule read_dentry_from_ram)

lemma wait_while_inv:
  "wait_while c irqs s = Some t \<Longrightarrow> (\<And>f s. f \<in> set irqs \<Longrightarrow> P s \<Longrightarrow> P (f s)) \<Longrightarrow> P s \<Longrightarrow> P t"
  by (induction irqs arbitrary: s) (auto split: if_splits)

definition same_files :: "'a process_scheme \<Rightarrow> 'a process_scheme \<Rightarrow> bool" where
  "same_files s t \<longleftrightarrow> pcbs t = pcbs s \<and> current_pid t = current_pid s"

lemma same_files_ok: "same_files s t \<Longrightarrow> files_ok (file_array (cur_proc t)) = files_ok (file_array (cur_proc s))"
  by (simp add: same_files_def)

lemma wait_same_files:
  fixes s :: "'a rtc_scheme"
  assumes "wait_while c irqs s = Some t" "\<forall>f \<in> set irqs. keeps_files f"
  shows "same_files s t"
  using wait_while_inv [OF assms(1), of "same_files s"] assms(2) by (auto simp: same_files_def keeps_files_def)

lemma terminal_take_line_files: "same_files s (snd (terminal_take_line buf n s))"
  by (simp add: terminal_take_line_def Let_def split_def same_files_def)

lemma terminal_read_files:
  fixes s :: "'a rtc_scheme"
  assumes "terminal_read irqs fd buf n s = Some (r, t)" "\<forall>f \<in> set irqs. keeps_files f"
  shows "same_files s t"
proof (cases "n \<le> 0")
  case False
  then obtain u where u: "wait_while (\<lambda>s. terminal_read_flag s (scheduled_terminal s) = 0) irqs s = Some u"
    "terminal_take_line buf n u = (r, t)" using assms(1) by (auto simp: terminal_read_def)
  have "same_files s u" by (rule wait_same_files [OF u(1) assms(2)])
  moreover have "same_files u t" using terminal_take_line_files [of u buf n] u(2) by simp
  ultimately show ?thesis by (simp add: same_files_def)
qed (use assms(1) in \<open>simp add: terminal_read_def same_files_def\<close>)

lemma read_rtc_files:
  assumes "read_rtc irqs fd buf n s = Some (r, t)" "\<forall>f \<in> set irqs. keeps_files f"
  shows "same_files s t"
proof -
  obtain u where u: "wait_while (\<lambda>s. curr_interrupt s (scheduled_terminal s) = 1) irqs (rtc_waiting s) = Some u"
    "t = enable_irq 0x21 u" using assms(1) by (auto simp: read_rtc_wait)
  have "same_files (rtc_waiting s) u" by (rule wait_same_files [OF u(1) assms(2)])
  then show ?thesis by (simp add: same_files_def u(2) rtc_waiting_def)
qed

lemma write_chars_more: "console.more (snd (write_chars on buf k i w s)) = console.more s"
  by (induction on buf k i w s rule: write_chars.induct) auto

lemma terminal_write_more: "console.more (snd (terminal_write fd buf n s)) = console.more s"
  using write_chars_more [of 1 buf "nat n" 0 0 "mask_irqs s"] write_chars_more [of 0 buf "nat n" 0 0 "mask_irqs s"]
  by (simp add: terminal_write_def Let_def split_def)

lemmas terminal_write_above [simp] = above_console [OF terminal_write_more]

lemma write_rtc_files: "write_rtc fd buf n s = Some (r, t) \<Longrightarrow> same_files s t"
  by (auto simp: write_rtc_def Let_def split_def same_files_def split: if_splits option.splits)

lemma open_rtc_files: "open_rtc fname s = Some (r, t) \<Longrightarrow> same_files s t"
  by (auto simp: open_rtc_def init_rtc_def Let_def split_def same_files_def split: if_splits option.splits)

lemma file_open_files: "file_open temp fname s = Some (r, t) \<Longrightarrow> same_files s t"
  using read_dentry_ram [of fname temp s] by (auto simp: file_open_def same_files_def split: if_splits option.splits)


lemma cur_fileI:
  assumes "cur_file t = (cur_file s)(fd := f)" "files_ok (file_array (cur_proc s))" "2 \<le> fd"
    and "flag f = 0 \<or> flag f = 1 \<and> file_op_ptr f \<noteq> None"
  shows "files_ok (file_array (cur_proc t))"
  unfolding assms(1) by (rule files_ok_upd) (use assms in auto)

lemma set_file_ok:
  assumes "same_files s u" "files_ok (file_array (cur_proc s))" "find_fd (file_array (cur_proc s)) 8 0 = Some fd"
  shows "files_ok (file_array (cur_proc (set_file fd tab ino u)))"
proof -
  have "fd \<noteq> 0" "fd \<noteq> 1" "0 \<le> fd" using find_fd_Some [OF assms(3)] assms(2) by (auto simp: files_ok_def)
  then have "2 \<le> fd" by simp
  then show ?thesis using files_ok_upd [OF assms(2)] assms(1) by (simp add: same_files_def)
qed

lemma same_files_trans: "same_files s t \<Longrightarrow> same_files t u \<Longrightarrow> same_files s u"
  by (simp add: same_files_def)

lemma sys_open_ok:
  assumes "sys_open dentry temp fname s = Some (r, t)" "files_ok (file_array (cur_proc s))"
  shows "files_ok (file_array (cur_proc t))"
proof (cases "find_fd (file_array (cur_proc s)) 8 0")
  case (Some fd)
  obtain r1 u where u: "read_dentry_by_name fname dentry s = Some (r1, u)"
    using assms(1) Some by (auto simp: sys_open_def split: option.splits)
  have su: "same_files s u" using read_dentry_ram [OF u] by (auto simp: same_files_def)
  note ok = set_file_ok [OF same_files_trans [OF su] assms(2) Some] same_files_ok [OF same_files_trans [OF su]]
  have refl: "same_files u u" by (simp add: same_files_def)
  show ?thesis
    using assms u Some ok(1) [OF refl] ok(2) [OF refl] ok(1) [OF open_rtc_files] ok(2) [OF open_rtc_files]
      ok(1) [OF file_open_files] ok(2) [OF file_open_files]
    by (auto simp: sys_open_def dir_open_def split: if_splits option.splits)
qed (use assms in \<open>simp add: sys_open_def\<close>)

lemma sys_close_ok: "files_ok (file_array (cur_proc s)) \<Longrightarrow> files_ok (file_array (cur_proc (snd (sys_close fd s))))"
  using files_ok_upd [of "file_array (cur_proc s)" fd] by (auto simp: sys_close_def fun_upd_def)

lemma file_pos_ok:
  assumes "files_ok (file_array (cur_proc s))" "2 \<le> fd" "fd \<le> 7"
  shows "files_ok (file_array (cur_proc (upd_file fd (\<lambda>f. f\<lparr>file_pos := p f\<rparr>) s)))"
proof -
  have "flag (cur_file s fd) = 0 \<or> flag (cur_file s fd) = 1 \<and> file_op_ptr (cur_file s fd) \<noteq> None"
    using assms by (auto simp: files_ok_def)
  then show ?thesis
    using files_ok_upd [OF assms(1,2), of "(cur_file s fd)\<lparr>file_pos := p (cur_file s fd)\<rparr>"] by simp
qed

lemma read_data_loop_ram: "\<exists>m r. read_data_loop p off b len n s = (r, s\<lparr>ram := m\<rparr>)"
proof (induction p off b len n s rule: read_data_loop.induct)
  case (1 p off b len n s)
  show ?case
  proof (cases "len > 0 \<and> \<not> load32 (ram s) (dblock_idx_addr p (off div BLOCKSIZE)) \<ge> num_dblock s")
    case True
    then show ?thesis
      using "1.IH" [OF _ refl _ refl refl refl refl] by (subst read_data_loop.simps) (fastforce simp: Let_def)
  next
    case False
    then show ?thesis
      by (subst read_data_loop.simps) (auto simp: Let_def intro: exI [of _ "ram s"])
  qed
qed

lemma read_data_ram: "\<exists>m r. read_data i off b len s = (r, s\<lparr>ram := m\<rparr>)"
  using read_data_loop_ram by (auto simp: read_data_def Let_def intro: exI [of _ "ram s"])

lemma file_read_ok:
  assumes "files_ok (file_array (cur_proc s))"
  shows "files_ok (file_array (cur_proc (snd (file_read fd buf n s))))"
proof (cases "fd \<le> 1 \<or> 8 \<le> fd")
  case False
  obtain m r where "read_data (inode (cur_file s fd)) (file_pos (cur_file s fd)) buf (of_int n) s = (r, s\<lparr>ram := m\<rparr>)"
    using read_data_ram by blast
  moreover have "files_ok (file_array (cur_proc (upd_file fd (\<lambda>f. f\<lparr>file_pos := file_pos f + p\<rparr>) (s\<lparr>ram := m\<rparr>))))" for p
    by (rule file_pos_ok) (use assms False in auto)
  ultimately show ?thesis using False assms by (simp add: file_read_def)
qed (use assms in \<open>simp add: file_read_def\<close>)

lemma dir_read_ok:
  assumes "dir_read fd buf n s = Some (r, t)" "files_ok (file_array (cur_proc s))"
  shows "files_ok (file_array (cur_proc t))"
proof (cases "fd \<le> 1 \<or> 8 \<le> fd")
  case False
  have ok: "files_ok (file_array (cur_proc (upd_file fd (\<lambda>f. f\<lparr>file_pos := file_pos f + 1\<rparr>) s)))"
    by (rule file_pos_ok) (use assms False in auto)
  have "files_ok (file_array (cur_proc (upd_file fd (\<lambda>f. f\<lparr>file_pos := 0\<rparr>)
      ((upd_file fd (\<lambda>f. f\<lparr>file_pos := file_pos f + 1\<rparr>) s)\<lparr>ram := m\<rparr>))))" for m
    by (rule file_pos_ok) (use ok False in auto)
  with ok show ?thesis
    using assms False by (auto simp: dir_read_def Let_def split: if_splits option.splits)
qed (use assms in \<open>auto simp: dir_read_def\<close>)

lemma sys_read_ok:
  assumes "sys_read irqs fd buf n s = Some (r, t)" "\<forall>f \<in> set irqs. keeps_files f" "files_ok (file_array (cur_proc s))"
  shows "files_ok (file_array (cur_proc t))"
proof (cases "fd < 0 \<or> fd > 7 \<or> buf = 0 \<or> n < 0 \<or> flag (cur_file s fd) = 0")
  case False
  then obtain tab where tab: "file_op_ptr (cur_file s fd) = Some tab"
    using assms(1) by (auto simp: sys_read_def split: option.splits)
  show ?thesis
    using assms False tab same_files_ok [OF terminal_read_files [OF _ assms(2)]] same_files_ok [OF read_rtc_files [OF _ assms(2)]]
      file_read_ok [OF assms(3), of fd buf n] dir_read_ok
    by (cases tab) (auto simp: sys_read_def table_read_def)
qed (use assms in \<open>auto simp: sys_read_def split: if_splits\<close>)

lemma sys_write_files:
  assumes "sys_write fd buf n s = Some (r, t)"
  shows "same_files s t"
proof (cases "fd < 0 \<or> fd > 7 \<or> buf = 0 \<or> n < 0 \<or> flag (cur_file s fd) = 0")
  case False
  then obtain tab where tab: "file_op_ptr (cur_file s fd) = Some tab"
    using assms(1) by (auto simp: sys_write_def split: option.splits)
  have "same_files s (snd (terminal_write fd buf n s))" by (simp add: same_files_def)
  then have tw: "terminal_write fd buf n s = (r, t) \<Longrightarrow> same_files s t" by simp
  have refl: "same_files s s" by (simp add: same_files_def)
  show ?thesis
    using assms False tab write_rtc_files [of fd buf n s r t] tw refl
    by (cases tab) (auto simp: sys_write_def table_write_def file_write_def dir_write_def)
qed (use assms in \<open>auto simp: sys_write_def same_files_def split: if_splits\<close>)

lemma write_rtc_returns: "write_rtc fd buf n s \<noteq> None"
proof (cases "\<exists>k \<le> 10. load32 (ram s) buf = 2 ^ k")
  case True
  then obtain k where k: "k \<le> 10" "load32 (ram s) buf = 2 ^ k" by blast
  then show ?thesis using rate_of_exp [OF k(1)] by (simp add: write_rtc_def Let_def split_def)
next
  case False
  show ?thesis unfolding write_rtc_rejects [OF False] by (rule option.distinct)
qed

lemma sys_write_total:
  assumes "files_ok (file_array (cur_proc s))"
  shows "sys_write fd buf n s \<noteq> None"
proof (cases "fd < 0 \<or> fd > 7 \<or> buf = 0 \<or> n < 0 \<or> flag (cur_file s fd) = 0")
  case False
  then obtain tab where "file_op_ptr (cur_file s fd) = Some tab" using assms by (auto simp: files_ok_def)
  then show ?thesis using False write_rtc_returns by (cases tab) (auto simp: sys_write_def table_write_def)
qed (auto simp: sys_write_def)

lemma init_files_ok: "files_ok (file_array (init_files p))"
  by (simp add: init_files_def files_ok_def Let_def foldl_upd_list unused_file_def)

section \<open>Reading a file through its descriptor\<close>

lemma write_back:
  assumes "n \<le> 4294967296" "k \<le> 4294967296"
    and "\<And>x. \<not> in_region a n x \<Longrightarrow> \<not> in_region b k x \<Longrightarrow> m x = r x"
  shows "m = write_bytes (write_bytes r a (bytes m a n)) b (bytes m b k)"
proof
  fix x
  have w: "write_bytes q c (bytes m c j) x = (if in_region c j x then m x else q x)" if "j \<le> 4294967296" for q c j
  proof (cases "in_region c j x")
    case True
    then obtain i where "i < j" "x = c + of_nat i" using in_region_ex by blast
    then show ?thesis using that True by (simp add: write_bytes_in)
  qed (simp add: write_bytes_out)
  show "m x = write_bytes (write_bytes r a (bytes m a n)) b (bytes m b k) x"
    using assms by (simp add: w)
qed

lemma file_scratch_unchanged:
  assumes "good_inode s i" "outside_file s i dentry 40" "outside_file s i temp 40"
    and "\<And>x. \<not> in_region dentry 40 x \<Longrightarrow> \<not> in_region temp 40 x \<Longrightarrow> m x = ram s x"
  shows "file_length (s\<lparr>ram := m\<rparr>) i = file_length s i" "content (s\<lparr>ram := m\<rparr>) i = content s i"
    "good_inode (s\<lparr>ram := m\<rparr>) i" "outside_file (s\<lparr>ram := m\<rparr>) i b k = outside_file s i b k"
proof -
  let ?m1 = "write_bytes (ram s) dentry (bytes m dentry 40)"
  let ?s1 = "s\<lparr>ram := ?m1\<rparr>"
  have e: "s\<lparr>ram := m\<rparr> = ?s1\<lparr>ram := write_bytes (ram ?s1) temp (bytes m temp 40)\<rparr>"
    using write_back [of 40 40 dentry temp m "ram s"] assms(4) by simp
  note u1 = file_unchanged [OF assms(1,2), of "bytes m dentry 40"]
  have g1: "good_inode ?s1 i" "outside_file ?s1 i temp 40" using u1(4) u1(5) [of temp 40] assms(3) by simp_all
  note u2 = file_unchanged [OF g1, of "bytes m temp 40"]
  show "file_length (s\<lparr>ram := m\<rparr>) i = file_length s i" "content (s\<lparr>ram := m\<rparr>) i = content s i"
    "good_inode (s\<lparr>ram := m\<rparr>) i" "outside_file (s\<lparr>ram := m\<rparr>) i b k = outside_file s i b k"
    unfolding e using u1(1,3,4) u1(5) [of b k] u2(1,3,4) u2(5) [of b k] by simp_all
qed

text \<open>A program's \<open>read\<close> as a function of the count and the state.\<close>

definition sys_rd :: "('a rtc_scheme \<Rightarrow> 'a rtc_scheme) list \<Rightarrow> i32 \<Rightarrow> u32 \<Rightarrow> i32 \<Rightarrow> 'a rtc_scheme \<Rightarrow> i32 \<times> 'a rtc_scheme" where
  "sys_rd irqs fd buf n s = (case sys_read irqs fd buf n s of None \<Rightarrow> (-1, s) | Some r \<Rightarrow> r)"

definition sys_reader_ok :: "i32 \<Rightarrow> u32 \<Rightarrow> i32 \<Rightarrow> 'a rtc_scheme \<Rightarrow> bool" where
  "sys_reader_ok fd buf lim s \<longleftrightarrow> reader_ok fd buf lim s \<and> buf \<noteq> 0 \<and> flag (cur_file s fd) = 1
     \<and> file_op_ptr (cur_file s fd) = Some file_table"

lemma sys_rd_file: "sys_reader_ok fd buf lim s \<Longrightarrow> 0 \<le> n \<Longrightarrow> sys_rd irqs fd buf n s = file_read fd buf n s"
  by (auto simp: sys_reader_ok_def reader_ok_def sys_rd_def sys_read_def table_read_def)

lemma file_read_open:
  "flag (cur_file (snd (file_read fd buf n s)) fd) = flag (cur_file s fd)"
  "file_op_ptr (cur_file (snd (file_read fd buf n s)) fd) = file_op_ptr (cur_file s fd)"
proof -
  obtain m r where r: "read_data (inode (cur_file s fd)) (file_pos (cur_file s fd)) buf (of_int n) s = (r, s\<lparr>ram := m\<rparr>)"
    using read_data_ram by blast
  show "flag (cur_file (snd (file_read fd buf n s)) fd) = flag (cur_file s fd)"
    "file_op_ptr (cur_file (snd (file_read fd buf n s)) fd) = file_op_ptr (cur_file s fd)"
    by (simp_all add: file_read_def r)
qed

interpretation sys_reader: seq_reader "sys_rd irqs fd buf" "\<lambda>s. unat (file_pos (cur_file s fd))"
  "\<lambda>s. content s (inode (cur_file s fd))" "\<lambda>k s. bytes (ram s) buf k" "sys_reader_ok fd buf lim" lim
  for irqs :: "('a rtc_scheme \<Rightarrow> 'a rtc_scheme) list" and fd :: i32 and buf :: u32 and lim :: i32
proof unfold_locales
  fix s :: "'a rtc_scheme" and n assume ok: "sys_reader_ok fd buf lim s" and n: "0 \<le> n" "n \<le> lim"
  have e: "sys_rd irqs fd buf n s = file_read fd buf n s" by (rule sys_rd_file [OF ok n(1)])
  have r: "reader_ok fd buf lim s" using ok by (simp add: sys_reader_ok_def)
  note laws = file_reader.laws [OF r n]
  show "sys_reader_ok fd buf lim (snd (sys_rd irqs fd buf n s))"
    using ok laws(1) file_read_open [of fd buf n s] by (simp add: e sys_reader_ok_def)
  show "content (snd (sys_rd irqs fd buf n s)) (inode (cur_file (snd (sys_rd irqs fd buf n s)) fd))
      = content s (inode (cur_file s fd))"
    using laws(2) by (simp add: e)
  show "fst (sys_rd irqs fd buf n s)
      = int (length (take (nat n) (drop (unat (file_pos (cur_file s fd))) (content s (inode (cur_file s fd))))))"
    using laws(3) by (simp add: e)
  show "bytes (ram (snd (sys_rd irqs fd buf n s))) buf
      (length (take (nat n) (drop (unat (file_pos (cur_file s fd))) (content s (inode (cur_file s fd))))))
      = take (nat n) (drop (unat (file_pos (cur_file s fd))) (content s (inode (cur_file s fd))))"
    using laws(4) by (simp add: e)
  show "unat (file_pos (cur_file (snd (sys_rd irqs fd buf n s)) fd)) = unat (file_pos (cur_file s fd))
      + length (take (nat n) (drop (unat (file_pos (cur_file s fd))) (content s (inode (cur_file s fd)))))"
    using laws(5) by (simp add: e)
qed

lemma sys_open_reader:
  assumes "file_ready dentry temp fname str k ino s" "least_free (open_files s) fd"
    and "good_inode s ino" "outside_file s ino dentry 40" "outside_file s ino temp 40"
    and "outside_file s ino buf (nat lim)" "buf \<noteq> 0" "lim < 2147483648"
  obtains t where "sys_open dentry temp fname s = Some (fd, t)" "sys_reader_ok fd buf lim t"
    "content t (inode (cur_file t fd)) = content s ino" "file_pos (cur_file t fd) = 0"
    "file_length t (inode (cur_file t fd)) = file_length s ino"
proof -
  obtain m where m: "sys_open dentry temp fname s = Some (fd, set_file fd file_table ino (s\<lparr>ram := m\<rparr>))"
    "\<And>x. \<not> in_region dentry 40 x \<Longrightarrow> \<not> in_region temp 40 x \<Longrightarrow> m x = ram s x"
    using sys_open_ready [OF assms(1,2)] by blast
  let ?t = "set_file fd file_table ino (s\<lparr>ram := m\<rparr>)"
  have "fd \<noteq> 0" "fd \<noteq> 1" "0 \<le> fd" "fd \<le> 7"
    using assms(1,2) by (auto simp: least_free_def open_files_def files_ok_def file_ready_def)
  then have fd: "2 \<le> fd" "fd < 8" by simp_all
  note u = file_scratch_unchanged [OF assms(3-5) m(2)]
  have v: "file_length ?t ino = file_length s ino" "content ?t ino = content s ino" "good_inode ?t ino"
    "outside_file ?t ino buf (nat lim)"
    using u(1-3) u(4) [of buf "nat lim"] assms(6) unfolding set_file_def by simp_all
  show ?thesis
    by (rule that [OF m(1)]) (use fd v assms(7,8) in \<open>simp_all add: sys_reader_ok_def reader_ok_def\<close>)
qed

section \<open>Properties\<close>

text \<open>
  A process that \<open>launch\<close> has just set up (its file array is that of \<open>init_files\<close>), for the
  witnesses.
\<close>

definition fresh_process :: rtc where
  "fresh_process = upd_pcb (pcb_addr (current_pid rtc_start)) init_files rtc_start"

lemma terminals_start_filesys [simp]:
  "num_dentry terminals_start = 1" "num_inode terminals_start = 1" "num_dblock terminals_start = 1"
  "inode_base terminals_start = 0x501000" "data_base terminals_start = 0x502000" "boot_block_ptr terminals_start = 0x500000"
  "current_pid terminals_start = 0" "pcbs terminals_start = (\<lambda>_. sample_pcb)"
  unfolding terminals_start_def paging_frame [OF pagingInit_fields(8)] by (simp_all add: filesys.defs)

lemma rtc_start_filesys [simp]:
  "num_dentry rtc_start = 1" "num_inode rtc_start = 1" "num_dblock rtc_start = 1"
  "inode_base rtc_start = 0x501000" "data_base rtc_start = 0x502000" "boot_block_ptr rtc_start = 0x500000"
  "current_pid rtc_start = 0" "pcbs rtc_start = (\<lambda>_. sample_pcb)"
  by (simp_all add: rtc_start_def terminals.defs)

lemma fresh_process_fields [simp]:
  "ram fresh_process = ram rtc_start" "num_dentry fresh_process = 1" "num_inode fresh_process = 1"
  "num_dblock fresh_process = 1" "inode_base fresh_process = 0x501000" "data_base fresh_process = 0x502000"
  "boot_block_ptr fresh_process = 0x500000"
  by (simp_all add: fresh_process_def upd_pcb_def)

lemma init_files_flag: "0 \<le> i \<Longrightarrow> i \<le> 7 \<Longrightarrow> flag (file_array (init_files p) i) = (if i < 2 then 1 else 0)"
  by (auto simp: init_files_def Let_def upto_rec1 unused_file_def)

lemma fresh_files_ok: "files_ok (file_array (cur_proc fresh_process))"
  by (simp add: fresh_process_def init_files_ok)

lemma fresh_open_files: "fd \<in> {0..7} \<Longrightarrow> open_files fresh_process fd \<noteq> None \<longleftrightarrow> fd < 2"
  using init_files_flag [of fd] by (auto simp: open_files_def fresh_process_def split: if_splits)

lemma fresh_least_free: "least_free (open_files fresh_process) 2"
proof -
  have "open_files fresh_process e \<noteq> None" if "0 \<le> e" "e < 2" for e using fresh_open_files [of e] that by simp
  moreover have "open_files fresh_process 2 = None" using fresh_open_files [of 2] by fastforce
  ultimately show ?thesis by (simp add: least_free_def)
qed

lemma fresh_file_ready: "file_ready 0x700000 0x700100 0x600000 [97] 0 0 fresh_process"
proof -
  let ?m = "ram rtc_start"
  have "cstr ?m 0x600000 [97]" by (simp add: cstr_def bytes_Suc image_mem_def)
  moreover have "strn ?m 0x500040 (Suc (Suc 29)) = [97]" by (simp only: strn_Suc) (simp add: image_mem_def)
  then have "lookup fresh_process [97] = Some 0" by (simp add: lookup_def entry_name_def dir_entry_addr_def)
  moreover have "disjoint_regions a 40 0x600000 2" "disjoint_regions a 40 0x500000 4096"
    if "a = 0x700000 \<or> a = 0x700100" for a :: u32
    by (rule disjoint_regions_sym, rule disjoint_regions_sep; use that in auto)+
  moreover have "disjoint_regions (0x700000 :: u32) 40 0x700100 40" by (rule disjoint_regions_sep) auto
  moreover have "entry_type fresh_process 0 = 2" "entry_inode fresh_process 0 = 0"
    by (simp_all add: entry_type_def entry_inode_def file_type_addr_def inode_idx_addr_def dir_entry_addr_def
        load32_def image_mem_def)
  ultimately show ?thesis
    by (simp add: file_ready_def openable_def scratch_dentry_def numeral_2_eq_2 [symmetric] fresh_files_ok del: One_nat_def)
qed

text \<open>
  C22: opening an ordinary file and closing the descriptor \<open>open\<close> returned gives the process its
  old descriptor table back.
\<close>

theorem open_close_table:
  assumes "file_ready dentry temp fname str k ino s" "sys_open dentry temp fname s = Some (fd, t)" "fd \<noteq> -1"
  shows "fst (sys_close fd t) = 1 \<and> open_files (snd (sys_close fd t)) = open_files s"
  using file_descriptors.open_close [OF assms(1)] assms(2,3) by simp

theorem open_close_table_witness:
  "\<exists>t. sys_open 0x700000 0x700100 0x600000 fresh_process = Some (2, t)
    \<and> fst (sys_close 2 t) = 1 \<and> open_files (snd (sys_close 2 t)) = open_files fresh_process"
proof -
  from sys_open_ready [OF fresh_file_ready fresh_least_free] obtain t where
    "sys_open 0x700000 0x700100 0x600000 fresh_process = Some (2, t)" by blast
  with open_close_table [OF fresh_file_ready this] show ?thesis by simp
qed

text \<open>
  Descriptors are handed out in order: opening a file \<open>n\<close> times in a process whose first free
  descriptor is \<open>k\<close> returns \<open>k\<close>, \<open>k + 1\<close>, ... up to 7, and -1 from then on.
\<close>

theorem descriptors_in_order:
  assumes "file_ready dentry temp fname str k ino s" "2 \<le> d" "d \<le> 8"
    and "\<forall>fd \<in> {0..7}. open_files s fd \<noteq> None \<longleftrightarrow> fd < d"
  shows "opens (opened dentry temp fname) n s = map (\<lambda>i. if d + int i \<le> 7 then d + int i else -1) [0..<n]"
  using assms by (rule file_descriptors.opens_results)

theorem descriptors_in_order_witness:
  "opens (opened 0x700000 0x700100 0x600000) 8 fresh_process = [2, 3, 4, 5, 6, 7, -1, -1]"
  using descriptors_in_order [OF fresh_file_ready, of 2 8] fresh_open_files by (simp add: upt_rec)

text \<open>
  C7: opening an ordinary file and then reading through the descriptor with any positive request
  size until \<open>read\<close> returns 0 delivers the file's whole content, in at most as many reads as it
  has bytes plus one.
\<close>

theorem open_read_file:
  assumes "file_ready dentry temp fname str k ino s" "least_free (open_files s) fd"
    and "good_inode s ino" "outside_file s ino dentry 40" "outside_file s ino temp 40"
    and "outside_file s ino buf (nat n)" "buf \<noteq> 0" "0 < n" "n < 2147483648"
    and "sys_open dentry temp fname s = Some (r, t)"
  shows "r = fd \<and> read_to_end (sys_rd irqs fd buf) (\<lambda>k s. bytes (ram s) buf k) n (Suc (length (content s ino))) t
    = Some (content s ino)"
proof -
  obtain u where "sys_open dentry temp fname s = Some (fd, u)" "sys_reader_ok fd buf n u"
    "content u (inode (cur_file u fd)) = content s ino" "file_pos (cur_file u fd) = 0"
    using sys_open_reader [OF assms(1-7,9)] by blast
  then show ?thesis
    using sys_reader.read_to_end_all [of n n fd buf u "Suc (length (content s ino))"] assms(8,10) by simp
qed

theorem open_read_file_witness:
  "\<exists>t. sys_open 0x700000 0x700100 0x600000 fresh_process = Some (2, t)
     \<and> read_to_end (sys_rd [] 2 0x700200) (\<lambda>k s. bytes (ram s) 0x700200 k) 2 4 t = Some [104, 105, 10]"
proof -
  note l = fresh_least_free
  from sys_open_ready [OF fresh_file_ready l] obtain t where
    t: "sys_open 0x700000 0x700100 0x600000 fresh_process = Some (2, t)" by blast
  have len: "file_length fresh_process 0 = 3" by (simp add: file_length_def inode_addr_def load32_def image_mem_def)
  have b: "block_index fresh_process 0 0 = 0"
    by (simp add: block_index_def inode_addr_def dblock_idx_addr_def load32_def image_mem_def)
  have k: "4096 * k < (3 :: nat) \<longleftrightarrow> k = 0" for k by (cases k) simp_all
  have c: "content fresh_process 0 = [104, 105, 10]"
    by (simp add: content_def len upt_rec block_addr_def b image_mem_def)
  have g: "good_inode fresh_process 0" by (auto simp: good_inode_def len k b)
  have o: "outside_file fresh_process 0 a j" if "0x700000 \<le> a" "unat a + j \<le> 0x800000" for a j
  proof -
    have u: "0x700000 \<le> unat a" using that(1) by (simp add: word_le_nat_alt)
    have "disjoint_regions a j 0x501000 4096" "disjoint_regions a j 0x502000 4096"
      by (rule disjoint_regions_sym, rule disjoint_regions_sep; use that u in auto)+
    then show ?thesis by (auto simp: outside_file_def len k block_addr_def b inode_addr_def)
  qed
  have e: "Suc (length [104, 105, 10 :: u8]) = 4" by simp
  have "read_to_end (sys_rd [] 2 0x700200) (\<lambda>k s. bytes (ram s) 0x700200 k) 2 4 t = Some [104, 105, 10]"
    by (rule open_read_file [OF fresh_file_ready l g _ _ _ _ _ _ t, of "0x700200" 2 "[]", unfolded c e, THEN conjunct2])
      (simp_all add: o)
  with t show ?thesis by blast
qed

end
