(* ===== verification/Lifecycle.thy ===== *)
theory Lifecycle
  imports Descriptors
begin

text \<open>
  Starting and ending processes: what \<open>sys_execute\<close> makes of a command line, the memory, control
  block and registers it gives the new process, what \<open>sys_halt\<close> gives back to the parent, and the
  rotation of the scheduler. The operations are those of Syscall; this theory proves what they do.
\<close>

section \<open>Parsing a command\<close>

text \<open>
  A command is the program's name, blanks, and the argument up to the end of the line.
\<close>

definition command_program :: "u8 list \<Rightarrow> u8 list" where
  "command_program str = takeWhile (\<lambda>b. b \<noteq> 32 \<and> b \<noteq> 10) str"

definition command_arg :: "u8 list \<Rightarrow> u8 list" where
  "command_arg str = takeWhile (\<lambda>b. b \<noteq> 10)
     (dropWhile (\<lambda>b. b = 32) (dropWhile (\<lambda>b. b \<noteq> 32 \<and> b \<noteq> 10) str))"

lemma bytes_upd_out: "\<not> in_region a n x \<Longrightarrow> bytes (m(x := v)) a n = bytes m a n"
  by (rule bytes_cong) (auto dest: in_region_offset')

text \<open>Each loop copies a run of characters up to one that stops it.\<close>

lemma copy_program_run:
  "bytes m (command + c) (Suc (length p)) = p @ [b] \<Longrightarrow> \<forall>x \<in> set p. x \<notin> {0, 10, 32} \<Longrightarrow> b \<in> {0, 10, 32} \<Longrightarrow>
   disjoint_regions (command + c) (Suc (length p)) (program + d) (length p) \<Longrightarrow>
   copy_program program command c d m
     = Some (write_bytes m (program + d) p, c + of_nat (length p), d + of_nat (length p))"
proof (induction p arbitrary: c d m)
  case Nil
  then show ?case by (subst copy_program.simps) (auto simp: bytes_Suc)
next
  case (Cons x p)
  have m: "m (command + c) = x" "bytes m (command + (c + 1)) (Suc (length p)) = p @ [b]"
    using Cons.prems(1) by (simp_all add: bytes_Suc add.assoc)
  have dis: "disjoint_regions (command + (c + 1)) (Suc (length p)) (program + (d + 1)) (length p)"
    using disjoint_regions_shift [OF Cons.prems(4), of 1 "Suc (length p)" 1 "length p"] by (simp add: add.assoc)
  have "\<not> in_region (command + (c + 1)) (Suc (length p)) (program + d)"
    using disjoint_regions_shift [OF Cons.prems(4), of 1 "Suc (length p)" 0 1]
    by (auto simp: add.assoc dest: disjoint_regions_notin simp: region_simps)
  from bytes_upd_out [OF this, of m x] m(2)
  have "copy_program program command (c + 1) (d + 1) (m(program + d := x))
      = Some (write_bytes (m(program + d := x)) (program + (d + 1)) p, c + 1 + of_nat (length p), d + 1 + of_nat (length p))"
    by (intro Cons.IH) (use Cons.prems dis in \<open>simp_all del: fun_upd_apply\<close>)
  then show ?case
    using m(1) Cons.prems(2) by (subst copy_program.simps) (simp add: add_ac)
qed

lemma copy_arg_run:
  "bytes m (command + c) (Suc (length p)) = p @ [b] \<Longrightarrow> \<forall>x \<in> set p. x \<notin> {0, 10} \<Longrightarrow> b \<in> {0, 10} \<Longrightarrow>
   disjoint_regions (command + c) (Suc (length p)) (program + d) (length p) \<Longrightarrow>
   copy_arg program command c d m = Some (write_bytes m (program + d) p, d + of_nat (length p))"
proof (induction p arbitrary: c d m)
  case Nil
  then show ?case by (subst copy_arg.simps) (auto simp: bytes_Suc)
next
  case (Cons x p)
  have m: "m (command + c) = x" "bytes m (command + (c + 1)) (Suc (length p)) = p @ [b]"
    using Cons.prems(1) by (simp_all add: bytes_Suc add.assoc)
  have dis: "disjoint_regions (command + (c + 1)) (Suc (length p)) (program + (d + 1)) (length p)"
    using disjoint_regions_shift [OF Cons.prems(4), of 1 "Suc (length p)" 1 "length p"] by (simp add: add.assoc)
  have "\<not> in_region (command + (c + 1)) (Suc (length p)) (program + d)"
    using disjoint_regions_shift [OF Cons.prems(4), of 1 "Suc (length p)" 0 1]
    by (auto simp: add.assoc dest: disjoint_regions_notin simp: region_simps)
  from bytes_upd_out [OF this, of m x] m(2)
  have "copy_arg program command (c + 1) (d + 1) (m(program + d := x))
      = Some (write_bytes (m(program + d := x)) (program + (d + 1)) p, d + 1 + of_nat (length p))"
    by (intro Cons.IH) (use Cons.prems dis in \<open>simp_all del: fun_upd_apply\<close>)
  then show ?case
    using m(1) Cons.prems(2) by (subst copy_arg.simps) (simp add: add_ac)
qed

lemma skip_spaces_run:
  "bytes m (command + c) (Suc k) = replicate k 32 @ [b] \<Longrightarrow> b \<noteq> 32 \<Longrightarrow>
   skip_spaces command c m = Some (c + of_nat k)"
proof (induction k arbitrary: c)
  case (Suc k)
  then have m: "m (command + c) = 32" "bytes m (command + (c + 1)) (Suc k) = replicate k 32 @ [b]"
    by (simp_all add: bytes_Suc add.assoc)
  then show ?case using Suc.IH [OF m(2) Suc.prems(2)] by (subst skip_spaces.simps) simp
qed (subst skip_spaces.simps, simp add: bytes_Suc)

text \<open>A string as two runs: what a loop copies, and the rest from the stopping character on.\<close>

lemma cstr_suffix:
  assumes "cstr m a (p @ q)"
  shows "cstr m (a + of_nat (length p)) q" "bytes m a (Suc (length p)) = p @ [hd (q @ [0])]"
proof -
  have l: "length (p @ q) < 4294967296" by (rule cstr_length [OF assms])
  show "cstr m (a + of_nat (length p)) q"
  proof (rule cstrI)
    fix i assume "i < length q"
    then show "m (a + of_nat (length p) + of_nat i) = q ! i" "q ! i \<noteq> 0"
      using cstr_nth [OF assms, of "length p + i"] cstr_nth_nonzero [OF assms, of "length p + i"]
      by (simp_all add: add.assoc)
  qed (use l cstr_end [OF assms] in \<open>simp_all add: add.assoc\<close>)
  have "bytes m a (Suc (length (p @ q))) = (p @ q) @ [0]" using assms by (simp add: cstr_def)
  then have "take (Suc (length p)) (bytes m a (Suc (length (p @ q)))) = take (Suc (length p)) ((p @ q) @ [0])" by simp
  then show "bytes m a (Suc (length p)) = p @ [hd (q @ [0])]"
    by (cases q) (simp_all add: take_bytes min_def)
qed

lemma takeWhile_stop: "hd (dropWhile P xs @ [x]) = x \<or> \<not> P (hd (dropWhile P xs @ [x]))"
  by (induction xs) (auto split: if_splits)

lemma dropWhile_blanks: "xs = replicate (length (takeWhile (\<lambda>b. b = c) xs)) c @ dropWhile (\<lambda>b. b = c) xs"
  by (induction xs) auto

lemma parse_command_run:
  assumes str: "cstr m command str"
    and "disjoint_regions command (Suc (length str)) program (Suc (length (command_program str)))"
    and "disjoint_regions command (Suc (length str)) args (Suc (length (command_arg str)))"
  shows "parse_command program args command m =
    Some (write_bytes (write_bytes m program (command_program str @ [0])) args (command_arg str @ [0]))"
proof -
  define p where "p = command_program str"
  define q where "q = dropWhile (\<lambda>b. b \<noteq> 32 \<and> b \<noteq> 10) str"
  define k where "k = length (takeWhile (\<lambda>b. b = 32) q)"
  define r where "r = dropWhile (\<lambda>b. b = 32) q"
  define a where "a = command_arg str"
  define w where "w = dropWhile (\<lambda>b. b \<noteq> 10) r"
  have s: "str = p @ q" by (simp add: p_def q_def command_program_def)
  have q: "q = replicate k 32 @ r" unfolding k_def r_def by (rule dropWhile_blanks)
  have r: "r = a @ w" by (simp add: a_def w_def command_arg_def r_def q_def)
  have z: "0 \<notin> set str" using str by (simp add: cstr_def)
  have dp: "disjoint_regions command (Suc (length str)) program (Suc (length p))" using assms(2) by (simp add: p_def)
  have da: "disjoint_regions command (Suc (length str)) args (Suc (length a))" using assms(3) by (simp add: a_def)
  have str': "cstr m command (p @ q)" using str by (simp add: s)
  have b: "hd (q @ [0]) \<in> {0, 10, 32}" using takeWhile_stop [of "\<lambda>b. b \<noteq> 32 \<and> b \<noteq> 10" str 0]
    unfolding q_def by auto
  have "copy_program program command 0 0 m
      = Some (write_bytes m (program + 0) p, 0 + of_nat (length p), 0 + of_nat (length p))"
  proof (rule copy_program_run)
    show "bytes m (command + 0) (Suc (length p)) = p @ [hd (q @ [0])]" using cstr_suffix(2) [OF str'] by simp
    show "\<forall>x \<in> set p. x \<notin> {0, 10, 32}"
      using z unfolding s by (auto simp: p_def command_program_def dest: set_takeWhileD)
    show "disjoint_regions (command + 0) (Suc (length p)) (program + 0) (length p)"
      using disjoint_regions_mono [OF dp, of "Suc (length p)" "length p"] by (simp add: s)
  qed (rule b)
  then have c1: "copy_program program command 0 0 m = Some (write_bytes m program p, of_nat (length p), of_nat (length p))"
    by simp
  define m1 where "m1 = write_bytes m program (p @ [0])"
  have str1: "cstr m1 command (p @ q)"
    unfolding m1_def by (rule cstr_write_disjoint [OF str']) (use dp in \<open>simp add: s\<close>)
  note q1 = cstr_suffix(1) [OF str1]
  have c2: "skip_spaces command (of_nat (length p)) m1 = Some (of_nat (length p) + of_nat k)"
  proof (rule skip_spaces_run)
    show "bytes m1 (command + of_nat (length p)) (Suc k) = replicate k 32 @ [hd (r @ [0])]"
      using cstr_suffix(2) [of m1 "command + of_nat (length p)" "replicate k 32" r] q1 q by simp
    show "hd (r @ [0]) \<noteq> 32" using takeWhile_stop [of "\<lambda>b. b = 32" q 0] by (auto simp: r_def)
  qed
  have r1: "cstr m1 (command + (of_nat (length p) + of_nat k)) (a @ w)"
    using cstr_suffix(1) [of m1 "command + of_nat (length p)" "replicate k 32" r] q1 q r by (simp add: add.assoc)
  have c3: "copy_arg args command (of_nat (length p) + of_nat k) 0 m1
      = Some (write_bytes m1 (args + 0) a, 0 + of_nat (length a))"
  proof (rule copy_arg_run)
    show "bytes m1 (command + (of_nat (length p) + of_nat k)) (Suc (length a)) = a @ [hd (w @ [0])]"
      by (rule cstr_suffix(2) [OF r1])
    show "\<forall>x \<in> set a. x \<notin> {0, 10}"
      using z unfolding s q r by (auto simp: a_def command_arg_def dest: set_takeWhileD)
    show "hd (w @ [0]) \<in> {0, 10}" using takeWhile_stop [of "\<lambda>b. b \<noteq> 10" r 0] unfolding w_def by auto
    have "disjoint_regions (command + of_nat (length p + k)) (Suc (length a)) args (length a)"
      using disjoint_regions_shift [OF da, of "length p + k" "Suc (length a)" 0 "length a"] by (simp add: s q r)
    then show "disjoint_regions (command + (of_nat (length p) + of_nat k)) (Suc (length a)) (args + 0) (length a)"
      by simp
  qed
  have w1: "(write_bytes m program p)(program + of_nat (length p) := 0) = m1"
    "(write_bytes m1 args a)(args + of_nat (length a) := 0) = write_bytes m1 args (a @ [0])"
    by (simp_all add: m1_def write_bytes_snoc)
  show ?thesis
    using c2 c3 w1 unfolding p_def [symmetric] a_def [symmetric]
    by (simp add: parse_command_def c1 Let_def m1_def [symmetric] del: fun_upd_apply)
qed

section \<open>What a call leaves of the file system's image\<close>

text \<open>Memory that agrees with the state's outside some regions.\<close>

definition agree_outside :: "(u32 \<times> nat) list \<Rightarrow> mem \<Rightarrow> mem \<Rightarrow> bool" where
  "agree_outside rs m m' \<longleftrightarrow> (\<forall>x. (\<forall>r \<in> set rs. \<not> in_region (fst r) (snd r) x) \<longrightarrow> m x = m' x)"

lemma agree_outside_refl [simp]: "agree_outside rs m m"
  by (simp add: agree_outside_def)

lemma agree_outside_trans: "agree_outside rs m m' \<Longrightarrow> agree_outside rs m' m'' \<Longrightarrow> agree_outside rs m m''"
  by (simp add: agree_outside_def)

lemma agree_outside_mono: "agree_outside rs m m' \<Longrightarrow> set rs \<subseteq> set rs' \<Longrightarrow> agree_outside rs' m m'"
  unfolding agree_outside_def by blast

lemma agree_outside_write: "(a, n) \<in> set rs \<Longrightarrow> length bs \<le> n \<Longrightarrow> agree_outside rs (write_bytes m a bs) m"
  unfolding agree_outside_def by (metis fst_conv in_region_mono snd_conv write_bytes_out)

lemma agree_outside_one: "(a, n) \<in> set rs \<Longrightarrow> (\<And>x. \<not> in_region a n x \<Longrightarrow> m x = m' x) \<Longrightarrow> agree_outside rs m m'"
  unfolding agree_outside_def by fastforce

lemma agree_outsideD:
  "agree_outside rs m m' \<Longrightarrow> \<forall>r \<in> set rs. disjoint_regions (fst r) (snd r) b k \<Longrightarrow> in_region b k x \<Longrightarrow> m x = m' x"
  unfolding agree_outside_def using disjoint_regions_notin by blast

lemma agree_outside_bytes:
  "agree_outside rs m m' \<Longrightarrow> \<forall>r \<in> set rs. disjoint_regions (fst r) (snd r) b k \<Longrightarrow> bytes m b k = bytes m' b k"
  by (rule bytes_cong) (meson agree_outsideD in_region_offset')

lemma agree_outside_dir:
  assumes "agree_outside rs m (ram s)" "\<forall>r \<in> set rs. disjoint_regions (fst r) (snd r) (boot_block_ptr s) 4096"
  shows "dir_kept m s"
  unfolding dir_kept_def using agree_outsideD [OF assms] in_region_offset' by blast

lemma agree_outside_file:
  assumes good: "good_inode s i" and a: "agree_outside rs m (ram s)"
    and o: "\<forall>r \<in> set rs. outside_file s i (fst r) (snd r)"
  shows "file_length (s\<lparr>ram := m\<rparr>) i = file_length s i" "content (s\<lparr>ram := m\<rparr>) i = content s i"
    "good_inode (s\<lparr>ram := m\<rparr>) i" "outside_file (s\<lparr>ram := m\<rparr>) i b k = outside_file s i b k"
proof -
  let ?t = "s\<lparr>ram := m\<rparr>"
  have node: "m (inode_addr s i + of_nat j) = ram s (inode_addr s i + of_nat j)" if "j < 4096" for j
    using agree_outsideD [OF a] o that in_region_offset' by (metis outside_file_def)
  have word: "load32 m (inode_addr s i + of_nat n) = load32 (ram s) (inode_addr s i + of_nat n)" if "n + 4 \<le> 4096" for n
  proof (rule load32_cong)
    fix j :: nat assume "j < 4"
    then show "m (inode_addr s i + of_nat n + of_nat j) = ram s (inode_addr s i + of_nat n + of_nat j)"
      using node [of "n + j"] that by (simp add: add.assoc)
  qed
  show len: "file_length ?t i = file_length s i"
    using word [of 0] by (simp add: file_length_def)
  have idx: "block_index ?t i n = block_index s i n" if "n < 1023" for n
    using word [of "4 + 4 * n"] that by (simp add: block_index_def dblock_idx_addr_def add.assoc)
  then have addr: "block_addr ?t i n = block_addr s i n" if "n < 1023" for n using that by (simp add: block_addr_def)
  show "outside_file ?t i b k = outside_file s i b k" by (auto simp: outside_file_def len addr)
  show "good_inode ?t i" using good by (auto simp: good_inode_def len idx)
  have l: "unat (file_length s i) \<le> 1023 * 4096" using good by (simp add: good_inode_def)
  show "content ?t i = content s i"
  proof (rule nth_equalityI)
    fix j assume "j < length (content ?t i)"
    then have j: "j < unat (file_length s i)" by (simp add: len)
    have n: "j div 4096 < 1023" using j l by (simp add: less_mult_imp_div_less)
    have "\<forall>r \<in> set rs. disjoint_regions (fst r) (snd r) (block_addr s i (j div 4096)) 4096"
      using o outside_fileD [OF _ l j] by blast
    with agree_outsideD [OF a] have "m (block_addr s i (j div 4096) + of_nat (j mod 4096))
        = ram s (block_addr s i (j div 4096) + of_nat (j mod 4096))"
      using in_region_offset' [of "j mod 4096" 4096] by simp
    then show "content ?t i ! j = content s i ! j"
      using j by (simp add: nth_content len addr n)
  qed (simp add: len)
qed

section \<open>Numbering a process\<close>

lemma allocate_user_eq: "allocate_user phys s = snd (allocatePage 0x20 1 phys s)"
  by (simp add: allocate_user_def split_def)

lemma succ_small: "(i :: u8) < 6 \<Longrightarrow> unat (i + 1) = Suc (unat i)"
  by (simp add: unat_word_ariths word_less_nat_alt)

lemma free_process_Some: "free_process pl i = Some j \<Longrightarrow> i \<le> j \<and> j < 6 \<and> pid_flag (pl (ucast j)) \<noteq> 1
    \<and> (\<forall>k. i \<le> k \<longrightarrow> k < j \<longrightarrow> pid_flag (pl (ucast k)) = 1)"
proof (induction pl i rule: free_process.induct)
  case (1 pl i)
  show ?case
  proof (cases "6 \<le> i \<or> pid_flag (pl (ucast i)) \<noteq> 1")
    case True
    then show ?thesis using "1.prems" by (auto simp: free_process.simps [of pl i] split: if_splits)
  next
    case False
    then have r: "free_process pl (i + 1) = Some j" using "1.prems" by (simp add: free_process.simps [of pl i])
    note ih = "1.IH" [OF _ _ r]
    have "i + 1 \<le> k \<or> k = i" if "i \<le> k" for k
      using that False succ_small [of i] by (auto simp: word_le_nat_alt word_unat_eq_iff not_le word_less_nat_alt)
    moreover have "i \<le> i + 1" using False succ_small [of i] by (simp add: word_le_nat_alt not_le word_less_nat_alt)
    ultimately show ?thesis using ih False by (auto intro: order_trans)
  qed
qed

lemma free_process_None: "free_process pl i = None \<longleftrightarrow> (\<forall>k. i \<le> k \<longrightarrow> k < 6 \<longrightarrow> pid_flag (pl (ucast k)) = 1)"
proof (induction pl i rule: free_process.induct)
  case (1 pl i)
  have "i \<le> k \<longleftrightarrow> k = i \<or> i + 1 \<le> k" if "\<not> 6 \<le> i" for k
    using that succ_small [of i] by (auto simp: word_le_nat_alt word_unat_eq_iff not_le word_less_nat_alt)
  then show ?case using 1 by (subst free_process.simps) (auto simp: not_le)
qed

lemma new_process_ram:
  "new_process (s\<lparr>ram := m\<rparr>) = map_option (\<lambda>(i, p, t). (i, p, t\<lparr>ram := m\<rparr>)) (new_process s)"
  by (simp add: new_process_def get_current_flag_def set_current_flag_def Let_def set_pid_flag_def
      modify_terminal_curr_pid_def get_disp_terminal_def upd_terminal_def split: option.splits)

lemma new_process_cases:
  assumes "new_process s = Some (i, par, t)"
  obtains (shell) "get_current_flag s = 1" "i = scheduled_terminal s" "par = sint i"
      "t = s\<lparr>flag_initialize_terminal := 0, current_pid := ucast i,
        pidlist := (pidlist s)(ucast i := (pidlist s (ucast i))\<lparr>pid_flag := 1\<rparr>)\<rparr>"
  | (program) "get_current_flag s \<noteq> 1" "free_process (pidlist s) 3 = Some i"
      "par = sint (of_int (shell_pid (terminals s (disp_terminal s))) :: u8)"
      "t = s\<lparr>current_pid := ucast i, pidlist := (pidlist s)(ucast i := (pidlist s (ucast i))\<lparr>pid_flag := 1\<rparr>),
        terminals := (terminals s)(disp_terminal s := (terminals s (disp_terminal s))\<lparr>shell_pid := sint i\<rparr>)\<rparr>"
proof (cases "get_current_flag s = 1")
  case True
  with assms shell show ?thesis
    by (auto simp: new_process_def get_current_flag_def set_current_flag_def Let_def set_pid_flag_def)
next
  case False
  with assms program show ?thesis
    by (auto simp: new_process_def get_current_flag_def Let_def set_pid_flag_def modify_terminal_curr_pid_def
        get_disp_terminal_def upd_terminal_def split: option.splits)
qed

lemma new_process_effect:
  assumes "new_process s = Some (i, par, t)"
  shows "current_pid t = ucast i" "pidlist t = (pidlist s)(ucast i := (pidlist s (ucast i))\<lparr>pid_flag := 1\<rparr>)"
    "ram t = ram s" "pcbs t = pcbs s" "tss t = tss s" "frame_contents f t = frame_contents f s"
    "inode_base t = inode_base s" "num_inode t = num_inode s" "data_base t = data_base s"
    "num_dblock t = num_dblock s" "scheduled_terminal s < 3 \<Longrightarrow> i < 6"
  using assms by (rule new_process_cases; force simp: frame_contents_def selected_def fun_eq_iff word_less_nat_alt
      dest: free_process_Some)+

section \<open>Starting a process\<close>

lemmas allocatePage_above [simp] = above_paging [OF allocatePage_fields(12)]

lemma filesys_view:
  fixes s t :: "'a filesys_scheme"
  assumes "ram t = ram s" "inode_base t = inode_base s" "num_inode t = num_inode s" "data_base t = data_base s"
    "num_dblock t = num_dblock s"
  shows "content t i = content s i" "good_inode t i = good_inode s i" "outside_file t i b k = outside_file s i b k"
    "file_length t i = file_length s i"
  using assms by (simp_all add: content_def good_inode_def outside_file_def block_addr_def block_index_def
      inode_addr_def file_length_def)

lemma frame_contents_ram:
  "(\<And>x. in_region user_base user_size x \<Longrightarrow> m x = ram s x) \<Longrightarrow> frame_contents f (s\<lparr>ram := m\<rparr>) = frame_contents f s"
proof
  fix off assume a: "\<And>x. in_region user_base user_size x \<Longrightarrow> m x = ram s x"
  have "in_region user_base user_size (user_base + off)" if "off < 0x400000"
    using that by (simp add: in_region_def word_less_nat_alt)
  then show "frame_contents f (s\<lparr>ram := m\<rparr>) off = frame_contents f s off"
    using a by (simp add: frame_contents_def user_window_def)
qed

lemma frame_contents_other: "selected s \<noteq> Some f \<Longrightarrow> frame_contents f (s\<lparr>ram := m\<rparr>) = frame_contents f s"
  by (simp add: frame_contents_def fun_eq_iff)

text \<open>The control block of a new process and the task state segment after \<open>launch\<close>.\<close>

definition launched_pcb :: "frame \<Rightarrow> i32 \<Rightarrow> u32 \<Rightarrow> tss_t \<Rightarrow> pcb \<Rightarrow> pcb" where
  "launched_pcb fr par cur ts p = (init_files p)\<lparr>arg := fr_arg fr, parent_pid := of_int par,
     pid := ucast cur, esp := fr_esp fr, ebp := fr_ebp fr, ret_addr := fr_halt_ret fr,
     esp0 := tss_esp0 ts, ss0 := ucast (tss_ss0 ts)\<rparr>"

lemma init_files_update:
  "init_files (p\<lparr>arg := a\<rparr>) = (init_files p)\<lparr>arg := a\<rparr>"
  "init_files (p\<lparr>parent_pid := q\<rparr>) = (init_files p)\<lparr>parent_pid := q\<rparr>"
  by (simp_all add: init_files_def Let_def)

definition launched_tss :: "u32 \<Rightarrow> tss_t \<Rightarrow> tss_t" where
  "launched_tss cur ts = ts\<lparr>tss_ss0 := KERNEL_DS, tss_esp0 := 0x800000 - 0x2000 * cur - 4\<rparr>"

lemma launch_run:
  fixes s :: "'a rtc_scheme"
  assumes "read_data ino 24 (fr_entry fr) 4 (snd (allocatePage 0x20 1 (process_page (ucast i)) s)) = (r1, t)"
    and "read_data ino 0 user_image (0x400000 - 0x48000) t = (r2, u)" "user_image = 0x08048000"
  shows "launch fr ino i par s = EnterUser (load32 (ram u) (fr_entry fr)) USER_ESP USER_CS USER_DS
    (u\<lparr>pcbs := (pcbs u)(pcb_addr (current_pid u) := launched_pcb fr par (current_pid u) (tss u) (pcbs u (pcb_addr (current_pid u)))),
       pidlist := (pidlist u)(ucast i := (pidlist u (ucast i))\<lparr>pid_proc := pcb_addr (current_pid u)\<rparr>),
       tss := launched_tss (current_pid u) (tss u)\<rparr>)"
proof -
  have p: "(if par = 0 then 0 else if par = 1 then 1 else if par = 2 then 2 else of_int par :: u8) = of_int par"
    by simp
  show ?thesis
    using assms(1) assms(2) [unfolded assms(3)]
    by (simp add: launch_def allocate_user_eq Let_def upd_pcb_def p launched_pcb_def launched_tss_def init_files_update)
qed

definition frame_regions :: "frame \<Rightarrow> (u32 \<times> nat) list" where
  "frame_regions fr = [(fr_program fr, 128), (fr_arg fr, 128), (fr_temp fr, 40), (fr_Magic fr, 4), (fr_entry fr, 4)]"

text \<open>
  The local arrays of a call do not overlap each other, the directory, the program's file or user
  memory; the file does not lie in user memory.
\<close>

definition frame_ok :: "frame \<Rightarrow> u32 \<Rightarrow> 'a filesys_scheme \<Rightarrow> bool" where
  "frame_ok fr ino s \<longleftrightarrow>
     sorted_wrt (\<lambda>r q. disjoint_regions (fst r) (snd r) (fst q) (snd q)) (frame_regions fr)
     \<and> (\<forall>r \<in> set (frame_regions fr). disjoint_regions (fst r) (snd r) user_base user_size
          \<and> disjoint_regions (fst r) (snd r) (boot_block_ptr s) 4096 \<and> outside_file s ino (fst r) (snd r))
     \<and> outside_file s ino user_base user_size"

definition command_ok :: "frame \<Rightarrow> u32 \<Rightarrow> u8 list \<Rightarrow> mem \<Rightarrow> bool" where
  "command_ok fr command str m \<longleftrightarrow> cstr m command str \<and> str \<noteq> [] \<and> hd str \<noteq> 32 \<and> length str < 128
     \<and> disjoint_regions command (Suc (length str)) (fr_program fr) 128
     \<and> disjoint_regions command (Suc (length str)) (fr_arg fr) 128"

text \<open>An executable: at least the header with the entry point, and the magic bytes 7F 45 4C 46.\<close>

definition executable_file :: "u32 \<Rightarrow> 'a filesys_scheme \<Rightarrow> bool" where
  "executable_file ino s \<longleftrightarrow> good_inode s ino \<and> 28 \<le> length (content s ino)
     \<and> take 4 (content s ino) = [0x7f, 0x45, 0x4c, 0x46]"

definition entry_point :: "u8 list \<Rightarrow> u32" where
  "entry_point c = ucast (c ! 24) OR push_bit 8 (ucast (c ! 25)) OR push_bit 16 (ucast (c ! 26)) OR push_bit 24 (ucast (c ! 27))"

lemma load32_bytes: "bytes m a 4 = [b0, b1, b2, b3] \<Longrightarrow>
    load32 m a = ucast b0 OR push_bit 8 (ucast b1) OR push_bit 16 (ucast b2) OR push_bit 24 (ucast b3)"
proof -
  assume "bytes m a 4 = [b0, b1, b2, b3]"
  then have "bytes m a (Suc (Suc (Suc (Suc 0)))) = [b0, b1, b2, b3]" by (simp add: numeral_eq_Suc)
  then have "m a = b0 \<and> m (a + 1) = b1 \<and> m (a + 2) = b2 \<and> m (a + 3) = b3"
    by (simp add: bytes_Suc add.assoc)
  then show ?thesis by (simp add: load32_def)
qed

lemma take4: "4 \<le> length c \<Longrightarrow> take 4 c = [c ! 0, c ! 1, c ! 2, c ! 3]"
  by (rule nth_equalityI) (auto simp: less_Suc_eq numeral_eq_Suc nth_Cons split: nat.splits)

lemma command_lengths: "length (command_program str) \<le> length str" "length (command_arg str) \<le> length str"
proof -
  show "length (command_program str) \<le> length str"
    by (simp add: command_program_def length_takeWhile_le)
  show "length (command_arg str) \<le> length str"
    unfolding command_arg_def by (meson length_dropWhile_le length_takeWhile_le order_trans)
qed

lemma command_nonzero: "0 \<notin> set str \<Longrightarrow> 0 \<notin> set (command_program str) \<and> 0 \<notin> set (command_arg str)"
  unfolding command_program_def command_arg_def by (auto dest!: set_takeWhileD set_dropWhileD)

lemma cstr_agree:
  assumes "cstr m a str" "bytes m' a (Suc (length str)) = bytes m a (Suc (length str))"
  shows "cstr m' a str"
  using assms by (simp add: cstr_def)

lemma frame_disjoint:
  assumes "frame_ok fr ino s"
  shows "disjoint_regions (fr_program fr) 128 (fr_arg fr) 128" "disjoint_regions (fr_temp fr) 40 (fr_program fr) 128"
    "disjoint_regions (fr_temp fr) 40 (fr_arg fr) 128" "disjoint_regions (fr_Magic fr) 4 (fr_arg fr) 128"
    "disjoint_regions (fr_entry fr) 4 (fr_arg fr) 128" "disjoint_regions (fr_Magic fr) 4 (fr_temp fr) 40"
    "disjoint_regions (fr_temp fr) 40 (boot_block_ptr s) 4096"
    "disjoint_regions user_base user_size (fr_arg fr) 128" "disjoint_regions user_base user_size (fr_entry fr) 4"
    "\<forall>r \<in> set (frame_regions fr). disjoint_regions (fst r) (snd r) user_base user_size"
    "\<forall>r \<in> set (frame_regions fr). disjoint_regions (fst r) (snd r) (boot_block_ptr s) 4096"
    "\<forall>r \<in> set (frame_regions fr). outside_file s ino (fst r) (snd r)" "outside_file s ino user_base user_size"
  using assms by (auto simp: frame_ok_def frame_regions_def intro: disjoint_regions_sym)

text \<open>Up to the magic number: the name parsed, the file found and its first four bytes read.\<close>

lemma execute_magic:
  fixes s :: "'a rtc_scheme"
  assumes cmd: "command_ok fr command str (ram s)" "length (command_program str) \<le> 31" "unat (num_dentry s) \<le> 63"
    and k: "lookup s (command_program str) = Some k" "entry_inode s (of_nat k) = ino"
    and fr: "frame_ok fr ino s" and good: "good_inode s ino"
  obtains m1 m where "parse_command (fr_program fr) (fr_arg fr) command (ram s) = Some m1"
    "read_dentry_by_name (fr_program fr) (fr_temp fr) (s\<lparr>ram := m1\<rparr>) = Some (0, s\<lparr>ram := m\<rparr>)"
    "read_data ino 0 (fr_Magic fr) 4 (s\<lparr>ram := m\<rparr>) = (int (length (take 4 (content s ino))),
       s\<lparr>ram := write_bytes m (fr_Magic fr) (take 4 (content s ino))\<rparr>)"
    "load32 m (inode_idx_addr (fr_temp fr)) = ino" "agree_outside (frame_regions fr) m (ram s)"
    "cstr m (fr_arg fr) (command_arg str)"
proof -
  let ?p = "command_program str" and ?a = "command_arg str"
  define m1 where "m1 = write_bytes (write_bytes (ram s) (fr_program fr) (?p @ [0])) (fr_arg fr) (?a @ [0])"
  have c: "cstr (ram s) command str" "length str < 128" using cmd(1) by (simp_all add: command_ok_def)
  have len: "Suc (length ?p) \<le> 128" "Suc (length ?a) \<le> 128" using command_lengths [of str] c(2) by simp_all
  have z: "0 \<notin> set ?p" "0 \<notin> set ?a" using command_nonzero c(1) by (auto simp: cstr_def)
  note d = frame_disjoint [OF fr]
  have parse: "parse_command (fr_program fr) (fr_arg fr) command (ram s) = Some m1"
    unfolding m1_def using cmd(1) len
    by (intro parse_command_run) (auto simp: command_ok_def intro: disjoint_regions_mono)
  have a1: "agree_outside (frame_regions fr) m1 (ram s)"
    unfolding m1_def using len
    by (intro agree_outside_trans [OF agree_outside_write agree_outside_write]) (auto simp: frame_regions_def)
  have p1: "cstr m1 (fr_program fr) ?p"
    unfolding m1_def using len z(1) disjoint_regions_mono [OF d(1), of "Suc (length ?p)" "Suc (length ?a)"]
    by (intro cstr_write_disjoint cstr_write) simp_all
  have arg1: "cstr m1 (fr_arg fr) ?a" unfolding m1_def using z(2) len by (intro cstr_write) simp_all
  have k1: "dir_kept m1 s" by (rule agree_outside_dir [OF a1 d(11)])
  have "k < 63" using lookup_Some [OF k(1)] cmd(3) by simp
  then have e1: "entry_inode (s\<lparr>ram := m1\<rparr>) (of_nat k) = ino" "lookup (s\<lparr>ram := m1\<rparr>) ?p = Some k"
    using dir_kept_entries(3) [OF k1] dir_kept_lookup [OF k1 cmd(3)] k by simp_all
  have sc: "scratch_dentry (fr_temp fr) (fr_program fr) ?p (s\<lparr>ram := m1\<rparr>)"
    using d(7) disjoint_regions_mono [OF d(2) order_refl, of "Suc (length ?p)"] len by (simp add: scratch_dentry_def)
  obtain m where m: "read_dentry_by_name (fr_program fr) (fr_temp fr) (s\<lparr>ram := m1\<rparr>) = Some (0, s\<lparr>ram := m\<rparr>)"
    "load32 m (inode_idx_addr (fr_temp fr)) = ino" "\<And>x. \<not> in_region (fr_temp fr) 40 x \<Longrightarrow> m x = m1 x"
    using read_dentry_scratch [of "s\<lparr>ram := m1\<rparr>" "fr_program fr" ?p, OF _ cmd(2) _ sc e1(2)] p1 cmd(3) e1(1) by auto
  have "agree_outside (frame_regions fr) m m1" by (rule agree_outside_one [OF _ m(3)]) (simp_all add: frame_regions_def)
  with a1 have a: "agree_outside (frame_regions fr) m (ram s)" by (rule agree_outside_trans [rotated])
  note f = agree_outside_file [OF good a d(12)]
  have "outside_file s ino (fr_Magic fr) 4" using d(12) by (simp add: frame_regions_def)
  then have "read_data ino 0 (fr_Magic fr) 4 (s\<lparr>ram := m\<rparr>) = (int (length (take 4 (content s ino))),
       s\<lparr>ram := m\<rparr>\<lparr>ram := write_bytes (ram (s\<lparr>ram := m\<rparr>)) (fr_Magic fr) (take 4 (content s ino))\<rparr>)"
    using read_data_content [OF f(3), of 0 4 "fr_Magic fr"] f(2,4) outside_file_less by (simp add: f(2,4) outside_file_less)
  moreover have "bytes m (fr_arg fr) (Suc (length ?a)) = bytes m1 (fr_arg fr) (Suc (length ?a))"
  proof (rule bytes_cong)
    fix i assume "i < Suc (length ?a)"
    then have "in_region (fr_arg fr) 128 (fr_arg fr + of_nat i)" using len by (intro in_region_offset') simp
    then show "m (fr_arg fr + of_nat i) = m1 (fr_arg fr + of_nat i)"
      using m(3) disjoint_regions_notin [OF d(3)] by blast
  qed
  then have "cstr m (fr_arg fr) ?a" by (rule cstr_agree [OF arg1])
  ultimately show ?thesis using that parse m(1,2) a by simp
qed

lemma unat_ucast_u8: "unat (ucast (i :: u8) :: u32) = unat i"
proof -
  have "unat i < 2 ^ LENGTH(8)" by (rule unsigned_less)
  then have "take_bit 32 (unat i) = unat i" by (intro take_bit_nat_eq_self) simp
  then show ?thesis by (simp add: unsigned_ucast_eq)
qed

text \<open>The memory of the new process: its file at the load address, and what is left elsewhere.\<close>

lemma launch_memory:
  fixes s :: "'a rtc_scheme"
  assumes fr: "frame_ok fr ino s" and ex: "executable_file ino s"
    and np: "new_process s = Some (i, par, s')" and m: "agree_outside (frame_regions fr) m (ram s)"
    and i: "scheduled_terminal s < 3"
  defines "t \<equiv> snd (allocatePage 0x20 1 (process_page (ucast i)) (s'\<lparr>ram := m\<rparr>))"
  defines "c \<equiv> content s ino"
  obtains u r1 r2 where
    "read_data ino 24 (fr_entry fr) 4 t = (r1, t\<lparr>ram := write_bytes (ram t) (fr_entry fr) (take 4 (drop 24 c))\<rparr>)"
    "read_data ino 0 0x08048000 (0x400000 - 0x48000) (t\<lparr>ram := write_bytes (ram t) (fr_entry fr) (take 4 (drop 24 c))\<rparr>) = (r2, t\<lparr>ram := u\<rparr>)"
    "load32 u (fr_entry fr) = entry_point c"
    "bytes u 0x08048000 (length (take 3899392 c)) = take 3899392 c"
    "bytes u (fr_arg fr) 128 = bytes m (fr_arg fr) 128"
    "selected (t\<lparr>ram := u\<rparr>) = Some (process_page (ucast i))"
    "\<forall>q < 6. q \<noteq> ucast i \<longrightarrow> frame_contents (process_page q) (t\<lparr>ram := u\<rparr>) = frame_contents (process_page q) s"
proof -
  note d = frame_disjoint [OF fr]
  note n = new_process_effect [OF np]
  have good: "good_inode s ino" and len: "28 \<le> length c" using ex by (simp_all add: executable_file_def c_def)
  have page: "\<forall>x. \<not> in_region user_base user_size x \<longrightarrow> ram t x = m x"
    by (simp add: t_def allocate_user_page(4))
  let ?rs = "(user_base, user_size) # frame_regions fr"
  have at: "agree_outside ?rs (ram t) (ram s)"
    by (rule agree_outside_trans [OF agree_outside_one [where a = user_base and n = user_size] agree_outside_mono [OF m]])
      (use page in auto)
  have o: "\<forall>r \<in> set ?rs. outside_file s ino (fst r) (snd r)" using d(12,13) by simp
  have view: "content t ino = c" "good_inode t ino" "outside_file t ino b j = outside_file s ino b j" for b j
    using filesys_view [of t "s\<lparr>ram := ram t\<rparr>"] agree_outside_file [OF good at o] n
    by (simp_all add: t_def c_def)
  let ?m3 = "write_bytes (ram t) (fr_entry fr) (take 4 (drop 24 c))"
  have oe: "outside_file s ino (fr_entry fr) 4" using d(12) by (simp add: frame_regions_def)
  have r1: "read_data ino 24 (fr_entry fr) 4 t = (int (length (take 4 (drop 24 c))), t\<lparr>ram := ?m3\<rparr>)"
    using read_data_content [OF view(2), of 24 4 "fr_entry fr"] view(1,3) oe outside_file_less [OF oe, of "min (length c - 24) 4"]
    by simp
  let ?t3 = "t\<lparr>ram := ?m3\<rparr>"
  have a3: "agree_outside ?rs ?m3 (ram s)"
    by (rule agree_outside_trans [OF agree_outside_write [of "fr_entry fr" 4] at]) (simp_all add: frame_regions_def)
  have view3: "content ?t3 ino = c" "good_inode ?t3 ino" "outside_file ?t3 ino b j = outside_file s ino b j" for b j
    using filesys_view [of ?t3 "s\<lparr>ram := ?m3\<rparr>"] agree_outside_file [OF good a3 o] n
    by (simp_all add: t_def c_def)
  let ?d = "take 3899392 c"
  define u where "u = write_bytes ?m3 0x08048000 ?d"
  have ou: "outside_file s ino 0x08048000 (length ?d)"
    using outside_file_shift [OF d(13), of "0x48000" "length ?d"] by simp
  have r2: "read_data ino 0 0x08048000 (0x400000 - 0x48000) ?t3 = (int (length ?d), ?t3\<lparr>ram := write_bytes (ram ?t3) 0x08048000 ?d\<rparr>)"
    using read_data_content [OF view3(2), of 0 3899392 "0x08048000"] view3(1,3) ou by simp
  have du: "disjoint_regions b j 0x08048000 (length ?d)" if "disjoint_regions b j user_base user_size" for b j
    using disjoint_regions_shift [OF that, of 0 j "0x48000" "length ?d"] by simp
  have de: "disjoint_regions (fr_entry fr) 4 user_base user_size" "disjoint_regions (fr_arg fr) 128 user_base user_size"
    using d(10) by (simp_all add: frame_regions_def)
  have l4: "length (take 4 (drop 24 c)) = 4" using len by simp
  have "bytes u (fr_entry fr) 4 = bytes ?m3 (fr_entry fr) 4"
    unfolding u_def by (rule bytes_write_disjoint [OF du [OF de(1)]])
  also have "\<dots> = take 4 (drop 24 c)"
    using bytes_write_same [of "take 4 (drop 24 c)" "ram t" "fr_entry fr"] l4 by (simp only: l4)
  also have "\<dots> = [c ! 24, c ! 25, c ! 26, c ! 27]" using take4 [of "drop 24 c"] len by simp
  finally have e: "load32 u (fr_entry fr) = entry_point c" by (simp add: load32_bytes entry_point_def)
  have img: "bytes u 0x08048000 (length ?d) = ?d" unfolding u_def by (rule bytes_write_same) simp
  have "bytes u (fr_arg fr) 128 = bytes ?m3 (fr_arg fr) 128"
    unfolding u_def by (rule bytes_write_disjoint [OF du [OF de(2)]])
  also have "\<dots> = bytes (ram t) (fr_arg fr) 128"
    by (rule bytes_write_disjoint) (simp only: l4 disjoint_regions_sym [OF d(5)])
  also have "\<dots> = bytes m (fr_arg fr) 128"
    by (rule bytes_cong) (meson page disjoint_regions_notin [OF d(8)] in_region_offset')
  finally have arg: "bytes u (fr_arg fr) 128 = bytes m (fr_arg fr) 128" .
  have sel: "selected t = Some (process_page (ucast i))"
    unfolding t_def by (simp only: allocate_user_page(2) process_page_frame)
  have "frame_contents (process_page q) (t\<lparr>ram := u\<rparr>) = frame_contents (process_page q) s" if q: "q < 6" "q \<noteq> ucast i" for q
  proof -
    have "(ucast i :: u32) < 6" using n(11) [OF i] by (simp add: word_less_nat_alt unat_ucast_u8)
    from process_page_inj [OF this q(1)] have "selected t \<noteq> Some (process_page q)" using sel q(2) by auto
    then have "frame_contents (process_page q) (t\<lparr>ram := u\<rparr>) = frame_contents (process_page q) t"
      by (rule frame_contents_other)
    also have "\<dots> = frame_contents (process_page q) (s'\<lparr>ram := m\<rparr>)" unfolding t_def by (rule allocate_user_page(1))
    also have "\<dots> = frame_contents (process_page q) s'"
      by (rule frame_contents_ram) (use agree_outsideD [OF m d(10)] n(3) in simp)
    finally show ?thesis using n(6) by simp
  qed
  with that [OF r1 _ e img arg] r2 sel show ?thesis by (simp add: u_def)
qed

text \<open>A successful \<open>sys_execute\<close>, with everything it changes.\<close>

lemma execute_run:
  fixes s :: "'a rtc_scheme"
  assumes cmd: "command_ok fr command str (ram s)" "length (command_program str) \<le> 31" "unat (num_dentry s) \<le> 63"
    and k: "lookup s (command_program str) = Some k" "entry_inode s (of_nat k) = ino"
    and fr: "frame_ok fr ino s" and ex: "executable_file ino s"
    and np: "new_process s = Some (i, par, s')" and i: "scheduled_terminal s < 3"
  obtains t where
    "sys_execute fr command s = Some (EnterUser (entry_point (content s ino)) USER_ESP USER_CS USER_DS t)"
    "current_pid t = ucast i" "tss t = launched_tss (ucast i) (tss s)"
    "pcbs t = (pcbs s)(pcb_addr (ucast i) := launched_pcb fr par (ucast i) (tss s) (pcbs s (pcb_addr (ucast i))))"
    "pidlist t = (pidlist s)(ucast i := (pidlist s (ucast i))\<lparr>pid_flag := 1, pid_proc := pcb_addr (ucast i)\<rparr>)"
    "terminals t = terminals s'" "get_current_flag t = get_current_flag s'"
    "selected t = Some (process_page (ucast i))"
    "bytes (ram t) 0x08048000 (length (take 3899392 (content s ino))) = take 3899392 (content s ino)"
    "cstr (ram t) (fr_arg fr) (command_arg str)"
    "\<forall>q < 6. q \<noteq> ucast i \<longrightarrow> frame_contents (process_page q) t = frame_contents (process_page q) s"
proof -
  let ?c = "content s ino"
  have good: "good_inode s ino" and magic: "take 4 ?c = [0x7f, 0x45, 0x4c, 0x46]"
    using ex by (simp_all add: executable_file_def)
  obtain m1 m0 where m: "parse_command (fr_program fr) (fr_arg fr) command (ram s) = Some m1"
    "read_dentry_by_name (fr_program fr) (fr_temp fr) (s\<lparr>ram := m1\<rparr>) = Some (0, s\<lparr>ram := m0\<rparr>)"
    "read_data ino 0 (fr_Magic fr) 4 (s\<lparr>ram := m0\<rparr>) = (int (length (take 4 ?c)),
       s\<lparr>ram := write_bytes m0 (fr_Magic fr) (take 4 ?c)\<rparr>)"
    "load32 m0 (inode_idx_addr (fr_temp fr)) = ino" "agree_outside (frame_regions fr) m0 (ram s)"
    "cstr m0 (fr_arg fr) (command_arg str)"
    by (rule execute_magic [OF cmd k fr good])
  define m where "m = write_bytes m0 (fr_Magic fr) (take 4 ?c)"
  note d = frame_disjoint [OF fr]
  have am: "agree_outside (frame_regions fr) m (ram s)"
    unfolding m_def by (rule agree_outside_trans [OF agree_outside_write [of _ 4] m(5)]) (simp_all add: frame_regions_def)
  have l: "length (take 4 ?c) = 4" unfolding magic by simp
  have "bytes m (fr_Magic fr) 4 = [0x7f, 0x45, 0x4c, 0x46]"
    using bytes_write_same [of "take 4 ?c" m0 "fr_Magic fr"] unfolding l m_def [symmetric] by (simp add: magic)
  then have exe: "load32 m (fr_Magic fr) = EXE_ID" by (simp add: load32_bytes EXE_ID_def)
  have "disjoint_regions (inode_idx_addr (fr_temp fr)) 4 (fr_Magic fr) 4"
    using disjoint_regions_shift [OF disjoint_regions_sym [OF d(6)], of 36 4 0 4] by (simp add: inode_idx_addr_def)
  then have ino: "load32 m (inode_idx_addr (fr_temp fr)) = ino"
    using load32_write_disjoint [of "inode_idx_addr (fr_temp fr)" "fr_Magic fr" "take 4 ?c" m0, unfolded l] m(4)
    unfolding m_def by simp
  have "bytes m (fr_arg fr) 128 = bytes m0 (fr_arg fr) 128"
    unfolding m_def by (rule bytes_write_disjoint) (simp only: l disjoint_regions_sym [OF d(4)])
  note arg = this
  let ?t = "snd (allocatePage 0x20 1 (process_page (ucast i)) (s'\<lparr>ram := m\<rparr>))"
  obtain u r1 r2 where u:
    "read_data ino 24 (fr_entry fr) 4 ?t = (r1, ?t\<lparr>ram := write_bytes (ram ?t) (fr_entry fr) (take 4 (drop 24 ?c))\<rparr>)"
    "read_data ino 0 0x08048000 (0x400000 - 0x48000) (?t\<lparr>ram := write_bytes (ram ?t) (fr_entry fr) (take 4 (drop 24 ?c))\<rparr>) = (r2, ?t\<lparr>ram := u\<rparr>)"
    "load32 u (fr_entry fr) = entry_point ?c" "bytes u 0x08048000 (length (take 3899392 ?c)) = take 3899392 ?c"
    "bytes u (fr_arg fr) 128 = bytes m (fr_arg fr) 128" "selected (?t\<lparr>ram := u\<rparr>) = Some (process_page (ucast i))"
    "\<forall>q < 6. q \<noteq> ucast i \<longrightarrow> frame_contents (process_page q) (?t\<lparr>ram := u\<rparr>) = frame_contents (process_page q) s"
    by (rule launch_memory [OF fr ex np am i])
  note n = new_process_effect [OF np]
  define t where "t = ?t\<lparr>ram := u,
    pcbs := (pcbs s)(pcb_addr (ucast i) := launched_pcb fr par (ucast i) (tss s) (pcbs s (pcb_addr (ucast i)))),
    pidlist := (pidlist s)(ucast i := (pidlist s (ucast i))\<lparr>pid_flag := 1, pid_proc := pcb_addr (ucast i)\<rparr>),
    tss := launched_tss (ucast i) (tss s)\<rparr>"
  have "launch fr ino i par (s'\<lparr>ram := m\<rparr>) = EnterUser (entry_point ?c) USER_ESP USER_CS USER_DS t"
    unfolding launch_run [OF u(1,2) refl] by (simp add: u(3) t_def n(1,2,4,5))
  moreover have "ram s command \<noteq> 0" "ram s command \<noteq> 32"
    using cmd(1) cstr_nth [of "ram s" command str 0] cstr_nth_nonzero [of "ram s" command str 0]
    by (auto simp: command_ok_def hd_conv_nth)
  moreover have "new_process (s\<lparr>ram := m\<rparr>) = Some (i, par, s'\<lparr>ram := m\<rparr>)" by (simp add: new_process_ram np)
  ultimately have run: "sys_execute fr command s = Some (EnterUser (entry_point ?c) USER_ESP USER_CS USER_DS t)"
    by (simp add: sys_execute_def m(1,2,4) m(3) [unfolded l m_def [symmetric]] exe ino)
  have len: "Suc (length (command_arg str)) \<le> 128"
    using command_lengths(2) [of str] cmd(1) by (simp add: command_ok_def)
  have "bytes u (fr_arg fr) (Suc (length (command_arg str))) = bytes m0 (fr_arg fr) (Suc (length (command_arg str)))"
    using arg_cong [OF trans [OF u(5) arg], of "take (Suc (length (command_arg str)))"] len by (simp add: take_bytes min_def)
  then have a: "cstr u (fr_arg fr) (command_arg str)" by (rule cstr_agree [OF m(6)])
  have f: "frame_contents f t = frame_contents f (?t\<lparr>ram := u\<rparr>)" "selected t = selected (?t\<lparr>ram := u\<rparr>)" for f
    by (simp_all add: t_def frame_contents_def selected_def fun_eq_iff)
  have t: "current_pid t = ucast i" "tss t = launched_tss (ucast i) (tss s)"
    "pcbs t = (pcbs s)(pcb_addr (ucast i) := launched_pcb fr par (ucast i) (tss s) (pcbs s (pcb_addr (ucast i))))"
    "pidlist t = (pidlist s)(ucast i := (pidlist s (ucast i))\<lparr>pid_flag := 1, pid_proc := pcb_addr (ucast i)\<rparr>)"
    "terminals t = terminals s'" "get_current_flag t = get_current_flag s'" "ram t = u"
    using n(1) by (simp_all add: t_def get_current_flag_def)
  show ?thesis
    by (rule that [OF run t(1-6)]; simp only: f t(7)) (use u(4,6,7) a in simp_all)
qed

section \<open>Ending a process\<close>

abbreviation cleared :: "file_element \<Rightarrow> file_element" where
  "cleared f \<equiv> f\<lparr>flag := 0, inode := 0, file_pos := 0\<rparr>"

lemma sys_close_array:
  assumes "2 \<le> fd" "fd \<le> 7"
  shows "snd (sys_close fd (s\<lparr>pcbs := (pcbs s)(pcb_addr (current_pid s) := p\<lparr>file_array := fa\<rparr>)\<rparr>))
    = s\<lparr>pcbs := (pcbs s)(pcb_addr (current_pid s) := p\<lparr>file_array :=
        (if flag (fa fd) = 0 then fa else fa(fd := cleared (fa fd)))\<rparr>)\<rparr>"
  using assms by (simp add: sys_close_def upd_file_def upd_pcb_def)

lemma close_all:
  assumes "set xs \<subseteq> {2..7}"
  shows "\<exists>fa. foldl (\<lambda>s fd. snd (sys_close fd s)) s xs
      = s\<lparr>pcbs := (pcbs s)(pcb_addr (current_pid s) := (cur_proc s)\<lparr>file_array := fa\<rparr>)\<rparr>
    \<and> (\<forall>fd. flag (fa fd) = (if fd \<in> set xs then 0 else flag (cur_file s fd)))"
  using assms
proof (induction xs rule: rev_induct)
  case Nil
  show ?case by (rule exI [of _ "file_array (cur_proc s)"]) simp
next
  case (snoc fd xs)
  then obtain fa where fa: "foldl (\<lambda>s fd. snd (sys_close fd s)) s xs
      = s\<lparr>pcbs := (pcbs s)(pcb_addr (current_pid s) := (cur_proc s)\<lparr>file_array := fa\<rparr>)\<rparr>"
    "\<forall>fd. flag (fa fd) = (if fd \<in> set xs then 0 else flag (cur_file s fd))"
    by (metis (no_types, lifting) le_sup_iff set_append)
  let ?fa = "if flag (fa fd) = 0 then fa else fa(fd := cleared (fa fd))"
  have "2 \<le> fd" "fd \<le> 7" using snoc.prems by simp_all
  then have "foldl (\<lambda>s fd. snd (sys_close fd s)) s (xs @ [fd])
      = s\<lparr>pcbs := (pcbs s)(pcb_addr (current_pid s) := (cur_proc s)\<lparr>file_array := ?fa\<rparr>)\<rparr>"
    by (simp only: foldl_append foldl.simps fa(1) sys_close_array)
  moreover have "\<forall>e. flag (?fa e) = (if e \<in> set (xs @ [fd]) then 0 else flag (cur_file s e))"
    using fa(2) by simp
  ultimately show ?case by blast
qed

lemma recover_terminal_fields [simp]:
  "current_pid (recover_terminal_curr_pid c n s) = current_pid s" "pcbs (recover_terminal_curr_pid c n s) = pcbs s"
  "pidlist (recover_terminal_curr_pid c n s) = pidlist s" "tss (recover_terminal_curr_pid c n s) = tss s"
  "frame_contents f (recover_terminal_curr_pid c n s) = frame_contents f s"
  by (simp_all add: recover_terminal_curr_pid_def frame_contents_def selected_def upd_terminal_def fun_eq_iff split: option.splits)

lemma frame_contents_process [simp]:
  "frame_contents f (s\<lparr>current_pid := p\<rparr>) = frame_contents f s" "frame_contents f (s\<lparr>pidlist := l\<rparr>) = frame_contents f s"
  "frame_contents f (s\<lparr>pcbs := c\<rparr>) = frame_contents f s" "frame_contents f (s\<lparr>tss := ts\<rparr>) = frame_contents f s"
  by (simp_all add: frame_contents_def selected_def fun_eq_iff)

lemma recover_terminal_cong:
  "terminals t = terminals s \<Longrightarrow>
   terminals (recover_terminal_curr_pid c n t) = terminals (recover_terminal_curr_pid c n s)"
  by (simp add: recover_terminal_curr_pid_def split: option.splits)

lemma sys_halt_program:
  fixes s :: "'a rtc_scheme"
  assumes prog: "3 \<le> current_pid s"
  obtains v where "sys_halt fr shell st s = Some (Resume (esp (cur_proc s)) (ebp (cur_proc s)) v)"
    "current_pid v = ucast (parent_pid (cur_proc s))"
    "tss v = (tss s)\<lparr>tss_ss0 := ucast (ss0 (cur_proc s)), tss_esp0 := esp0 (cur_proc s)\<rparr>"
    "pidlist v = (pidlist s)(current_pid s := (pidlist s (current_pid s))\<lparr>pid_flag := 0\<rparr>)"
    "terminals v = terminals (recover_terminal_curr_pid (sint (ucast (current_pid s) :: u8)) (int (unat (parent_pid (cur_proc s)))) s)"
    "selected v = Some (process_page (ucast (parent_pid (cur_proc s))))"
    "\<forall>f. frame_contents f v = frame_contents f s"
    "\<forall>fd \<in> {2..7}. flag (file_array (pcbs v (pcb_addr (current_pid s))) fd) = 0"
    "\<forall>a. a \<noteq> pcb_addr (current_pid s) \<longrightarrow> pcbs v a = pcbs s a"
proof -
  let ?a = "pcb_addr (current_pid s)" and ?p = "cur_proc s"
  have ne: "current_pid s \<noteq> 0" "current_pid s \<noteq> 1" "current_pid s \<noteq> 2"
    using prog by (auto simp: word_le_nat_alt)
  obtain fa where fa: "foldl (\<lambda>s fd. snd (sys_close fd s)) s [2..7] = s\<lparr>pcbs := (pcbs s)(?a := ?p\<lparr>file_array := fa\<rparr>)\<rparr>"
    "\<forall>fd. flag (fa fd) = (if fd \<in> set [2..7] then 0 else flag (cur_file s fd))"
    using close_all [of "[2..7]" s] by auto
  define t where "t = set_pid_flag (current_pid s) 0 (s\<lparr>pcbs := (pcbs s)(?a := ?p\<lparr>file_array := fa\<rparr>),
    tss := (tss s)\<lparr>tss_ss0 := ucast (ss0 ?p), tss_esp0 := esp0 ?p\<rparr>\<rparr>)"
  define u where "u = (recover_terminal_curr_pid (sint (ucast (current_pid s) :: u8)) (int (unat (parent_pid ?p))) t)
    \<lparr>current_pid := ucast (parent_pid ?p)\<rparr>"
  define v where "v = snd (allocatePage 0x20 1 (process_page (ucast (parent_pid ?p))) u)"
  have t: "current_pid t = current_pid s" "pcbs t = (pcbs s)(?a := ?p\<lparr>file_array := fa\<rparr>)" "terminals t = terminals s"
    "pidlist t = (pidlist s)(current_pid s := (pidlist s (current_pid s))\<lparr>pid_flag := 0\<rparr>)"
    "tss t = (tss s)\<lparr>tss_ss0 := ucast (ss0 ?p), tss_esp0 := esp0 ?p\<rparr>" "frame_contents f t = frame_contents f s" for f
    by (simp_all add: t_def set_pid_flag_def)
  have u: "pcbs u = pcbs t" "pidlist u = pidlist t" "tss u = tss t" "frame_contents f u = frame_contents f t"
    "terminals u = terminals (recover_terminal_curr_pid (sint (ucast (current_pid s) :: u8)) (int (unat (parent_pid ?p))) s)" for f
    by (simp_all add: u_def recover_terminal_cong [OF t(3)])
  have "sys_halt fr shell st s = Some (Resume (esp ?p) (ebp ?p) v)"
    unfolding sys_halt_def fa(1) using ne
    by (simp add: Let_def halt_resume_def allocate_user_eq v_def u_def t_def set_pid_flag_def)
  note halt = this
  have sel: "selected v = Some (process_page (ucast (parent_pid ?p)))"
    unfolding v_def by (simp only: allocate_user_page(2) process_page_frame)
  have fr: "\<forall>f. frame_contents f v = frame_contents f s" for f
    unfolding v_def by (simp add: allocate_user_page(1) u(4) t(6))
  have v: "current_pid v = ucast (parent_pid ?p)" "tss v = tss t" "pidlist v = pidlist t" "terminals v = terminals u"
    "pcbs v = pcbs t"
    by (simp_all add: v_def u(1-3)) (simp add: u_def)
  have "\<forall>fd \<in> {2..7}. flag (fa fd) = 0" using fa(2) unfolding set_upto by simp
  then show ?thesis
    by (intro that [OF halt v(1) v(2) [unfolded t(5)] v(3) [unfolded t(4)] v(4) [unfolded u(5)] sel fr]) (simp_all add: v(5) t(2))
qed

section \<open>A state with an executable\<close>

text \<open>
  For the witnesses: the file "a" is an executable of 28 bytes with entry point 0x08048094, the
  command line "a b" is at 0x600000, the calling shell is process 0 of the displayed terminal 0.
\<close>

definition exec_mem :: mem where
  "exec_mem = image_mem(0x501000 := 28, 0x502000 := 0x7f, 0x502001 := 0x45, 0x502002 := 0x4c, 0x502003 := 0x46,
     0x502018 := 0x94, 0x502019 := 0x80, 0x50201a := 0x04, 0x50201b := 0x08, 0x600001 := 32, 0x600002 := 98)"

definition exec_frame :: frame where
  "exec_frame = \<lparr>fr_program = 0x700000, fr_arg = 0x700080, fr_temp = 0x700100, fr_Magic = 0x700180,
     fr_entry = 0x700190, fr_esp = 0x7ffe00, fr_ebp = 0x7fff00, fr_halt_ret = 0x401000\<rparr>"

definition exec_start :: rtc where
  "exec_start = modify_terminal_curr_pid 0 (set_current_flag 0 (rtc_start\<lparr>ram := exec_mem, pcbs := \<lambda>_. sample_pcb\<rparr>))"

lemma exec_start_fields [simp]:
  "ram exec_start = exec_mem" "num_dentry exec_start = 1" "num_inode exec_start = 1" "num_dblock exec_start = 1"
  "inode_base exec_start = 0x501000" "data_base exec_start = 0x502000" "boot_block_ptr exec_start = 0x500000"
  "scheduled_terminal exec_start = 0" "get_current_flag exec_start = 0" "current_pid exec_start = 0"
  by (simp_all add: exec_start_def modify_terminal_curr_pid_def set_current_flag_def get_current_flag_def upd_terminal_def)

lemma exec_file:
  "file_length exec_start 0 = 28" "block_index exec_start 0 0 = 0" "executable_file 0 exec_start"
  "entry_point (content exec_start 0) = 0x08048094"
proof -
  show l: "file_length exec_start 0 = 28"
    by (simp add: file_length_def inode_addr_def load32_def exec_mem_def image_mem_def)
  show b: "block_index exec_start 0 0 = 0"
    by (simp add: block_index_def inode_addr_def dblock_idx_addr_def load32_def exec_mem_def image_mem_def)
  have c: "content exec_start 0 ! i = exec_mem (0x502000 + of_nat i)" if "i < 28" for i
    using that by (simp add: nth_content l block_addr_def b)
  have "4096 * k < (28 :: nat) \<longleftrightarrow> k = 0" for k by (cases k) simp_all
  then have g: "good_inode exec_start 0" by (auto simp: good_inode_def l b)
  have "take 4 (content exec_start 0) = [0x7f, 0x45, 0x4c, 0x46]"
    using take4 [of "content exec_start 0"] by (simp add: l c exec_mem_def)
  with g show "executable_file 0 exec_start" by (simp add: executable_file_def l)
  show "entry_point (content exec_start 0) = 0x08048094"
    by (simp add: entry_point_def c exec_mem_def image_mem_def)
qed

lemma exec_outside: "unat a + n \<le> 0x501000 \<or> 0x503000 \<le> unat a \<and> unat a + n \<le> 4294967296 \<Longrightarrow> outside_file exec_start 0 a n"
proof -
  assume a: "unat a + n \<le> 0x501000 \<or> 0x503000 \<le> unat a \<and> unat a + n \<le> 4294967296"
  have "disjoint_regions a n b 4096" if "b = 0x501000 \<or> b = 0x502000" for b
  proof (cases "unat a + n \<le> 0x501000")
    case True
    then show ?thesis using that by (intro disjoint_regions_sep) auto
  next
    case False
    then show ?thesis using a that by (intro disjoint_regions_sym [OF disjoint_regions_sep]) auto
  qed
  moreover have "4096 * k < (28 :: nat) \<longleftrightarrow> k = 0" for k by (cases k) simp_all
  ultimately show ?thesis by (auto simp: outside_file_def exec_file inode_addr_def block_addr_def)
qed

lemma exec_frame_ok: "frame_ok exec_frame 0 exec_start"
proof -
  have "\<forall>r \<in> set (frame_regions exec_frame). outside_file exec_start 0 (fst r) (snd r)"
    by (auto simp: frame_regions_def exec_frame_def intro!: exec_outside)
  moreover have "outside_file exec_start 0 user_base user_size" by (rule exec_outside) simp
  moreover have "\<forall>r \<in> set (frame_regions exec_frame). disjoint_regions (fst r) (snd r) user_base user_size"
    by (auto simp: frame_regions_def exec_frame_def intro!: disjoint_regions_sep)
  moreover have "\<forall>r \<in> set (frame_regions exec_frame). disjoint_regions (fst r) (snd r) 0x500000 4096"
    by (auto simp: frame_regions_def exec_frame_def intro!: disjoint_regions_sym [OF disjoint_regions_sep])
  moreover have "sorted_wrt (\<lambda>r q. disjoint_regions (fst r) (snd r) (fst q) (snd q)) (frame_regions exec_frame)"
    by (auto simp: frame_regions_def exec_frame_def intro!: disjoint_regions_sep)
  ultimately show ?thesis by (simp add: frame_ok_def)
qed

lemma exec_command: "command_ok exec_frame 0x600000 [97, 32, 98] (ram exec_start)"
  "command_program [97, 32, 98] = [97]" "command_arg [97, 32, 98] = [98]"
proof -
  have "cstr exec_mem 0x600000 [97, 32, 98]" by (simp add: cstr_def bytes_Suc exec_mem_def image_mem_def)
  moreover have "disjoint_regions 0x600000 (Suc (length [97, 32, 98 :: u8])) (fr_program exec_frame) 128"
    "disjoint_regions 0x600000 (Suc (length [97, 32, 98 :: u8])) (fr_arg exec_frame) 128"
    by (rule disjoint_regions_sep; simp add: exec_frame_def)+
  ultimately show "command_ok exec_frame 0x600000 [97, 32, 98] (ram exec_start)" by (simp add: command_ok_def)
qed (simp_all add: command_program_def command_arg_def)

lemma exec_lookup: "lookup exec_start [97] = Some 0" "entry_inode exec_start 0 = 0"
proof -
  have "strn exec_mem 0x500040 (Suc (Suc 29)) = [97]" by (simp only: strn_Suc) (simp add: exec_mem_def image_mem_def)
  then show "lookup exec_start [97] = Some 0" by (simp add: lookup_def entry_name_def dir_entry_addr_def)
  show "entry_inode exec_start 0 = 0"
    by (simp add: entry_inode_def inode_idx_addr_def dir_entry_addr_def load32_def exec_mem_def image_mem_def)
qed

lemma exec_terminals: "disp_terminal exec_start = 0" "shell_pid (terminals exec_start 0) = 0"
  "pid_flag (pidlist exec_start i) = 0" "tss exec_start = zero_tss\<lparr>tss_ss0 := KERNEL_DS\<rparr>"
proof -
  have s: "pidlist terminals_start = (\<lambda>_. \<lparr>pid_pid = 0, pid_proc = 0, pid_flag = 0\<rparr>)"
    "tss terminals_start = zero_tss\<lparr>tss_ss0 := KERNEL_DS\<rparr>"
    unfolding terminals_start_def paging_frame [OF pagingInit_fields(8)]
    by (simp_all add: filesys.defs filesys_start_def fs_init_def Let_def process.defs process_start_def paging.defs KERNEL_DS_def)
  show "disp_terminal exec_start = 0" "shell_pid (terminals exec_start 0) = 0"
    "pid_flag (pidlist exec_start i) = 0" "tss exec_start = zero_tss\<lparr>tss_ss0 := KERNEL_DS\<rparr>"
    using s by (simp_all add: exec_start_def modify_terminal_curr_pid_def set_current_flag_def upd_terminal_def
        rtc_start_def terminals.defs)
qed

lemma exec_new_process: "\<exists>s'. new_process exec_start = Some (3, 0, s')"
proof -
  have "free_process (pidlist exec_start) 3 = Some 3" by (subst free_process.simps) (simp add: exec_terminals)
  then show ?thesis by (simp add: new_process_def Let_def get_disp_terminal_def set_pid_flag_def exec_terminals)
qed


text \<open>
  C2: \<open>sys_execute\<close> of an executable file enters the program at its entry point with the user
  stack and segments, in a process whose page holds the file at 0x08048000 and whose argument
  string is the rest of the command line; the new process has a well-formed file array and the
  memory of every other process is as before.
\<close>

theorem execute_starts_program:
  fixes s :: "'a rtc_scheme"
  assumes "command_ok fr command str (ram s)" "length (command_program str) \<le> 31" "unat (num_dentry s) \<le> 63"
    and "lookup s (command_program str) = Some k" "frame_ok fr (entry_inode s (of_nat k)) s"
    and "executable_file (entry_inode s (of_nat k)) s" "scheduled_terminal s < 3"
    and "new_process s = Some (i, par, s')"
  defines "c \<equiv> content s (entry_inode s (of_nat k))"
  shows "\<exists>t. sys_execute fr command s = Some (EnterUser (entry_point c) USER_ESP USER_CS USER_DS t)
    \<and> current_pid t = ucast i \<and> selected t = Some (process_page (ucast i))
    \<and> bytes (ram t) 0x08048000 (length (take 3899392 c)) = take 3899392 c
    \<and> cstr (ram t) (arg (cur_proc t)) (command_arg str) \<and> files_ok (file_array (cur_proc t))
    \<and> (\<forall>q < 6. q \<noteq> ucast i \<longrightarrow> frame_contents (process_page q) t = frame_contents (process_page q) s)"
proof (rule execute_run [OF assms(1-4) refl assms(5,6,8,7)])
  fix t assume t: "sys_execute fr command s = Some (EnterUser (entry_point (content s (entry_inode s (of_nat k)))) USER_ESP USER_CS USER_DS t)"
    "current_pid t = ucast i" "selected t = Some (process_page (ucast i))"
    "pcbs t = (pcbs s)(pcb_addr (ucast i) := launched_pcb fr par (ucast i) (tss s) (pcbs s (pcb_addr (ucast i))))"
    "bytes (ram t) 0x08048000 (length (take 3899392 (content s (entry_inode s (of_nat k))))) = take 3899392 (content s (entry_inode s (of_nat k)))"
    "cstr (ram t) (fr_arg fr) (command_arg str)"
    "\<forall>q < 6. q \<noteq> ucast i \<longrightarrow> frame_contents (process_page q) t = frame_contents (process_page q) s"
  have p: "arg (cur_proc t) = fr_arg fr" "file_array (cur_proc t) = file_array (init_files (pcbs s (pcb_addr (ucast i))))"
    by (simp_all add: t(2,4) launched_pcb_def)
  have "cstr (ram t) (arg (cur_proc t)) (command_arg str)" unfolding p by (rule t(6))
  moreover have "files_ok (file_array (cur_proc t))" unfolding p by (rule init_files_ok)
  ultimately show ?thesis unfolding c_def using t(1-3,5,7) by blast
qed

theorem execute_starts_program_witness:
  "\<exists>t. sys_execute exec_frame 0x600000 exec_start = Some (EnterUser 0x08048094 USER_ESP USER_CS USER_DS t)
    \<and> current_pid t = 3 \<and> cstr (ram t) (arg (cur_proc t)) [98]"
proof -
  obtain s' where "new_process exec_start = Some (3, 0, s')" using exec_new_process by blast
  from execute_starts_program [OF exec_command(1), of 0 3 0 s'] this
  show ?thesis using exec_lookup exec_frame_ok exec_file(3,4) by (simp add: exec_command) blast
qed

lemma small_pid:
  assumes "0 \<le> p" "p < 128"
  shows "sint (of_int p :: u8) = p" "int (unat (of_int p :: u8)) = p" "ucast (of_int p :: u8) = (of_int p :: u32)"
proof -
  show u: "int (unat (of_int p :: u8)) = p"
    using assms by (simp add: uint_word_of_int_eq take_bit_int_eq_self unsigned_of_int)
  show "sint (of_int p :: u8) = p"
    using assms by (simp add: signed_of_int signed_take_bit_int_eq_self)
  show "ucast (of_int p :: u8) = (of_int p :: u32)"
    using u assms by (simp add: unsigned_ucast_eq word_unat_eq_iff unsigned_of_int take_bit_int_eq_self)
qed

lemma sint_small_pid: "(i :: u8) < 6 \<Longrightarrow> sint i = int (unat i)"
  using small_pid(1) [of "int (unat i)"] by (simp add: word_less_def)

lemma recover_terminal_shells:
  assumes "d < 3" "\<forall>x < 3. shell_pid (terminals s x) = c \<longleftrightarrow> x = d" "x < 3"
  shows "shell_pid (terminals (recover_terminal_curr_pid c n s) x) = (if x = d then n else shell_pid (terminals s x))"
proof -
  have "find (\<lambda>i. shell_pid (terminals s i) = c) [0, 1, 2] = Some d"
    using assms(1,2) by (auto simp: u8_less_3)
  then show ?thesis by (simp add: recover_terminal_curr_pid_def)
qed

text \<open>The registers and the parent that a control block keeps for the return to the parent.\<close>

definition same_return :: "pcb \<Rightarrow> pcb \<Rightarrow> bool" where
  "same_return p q \<longleftrightarrow> esp p = esp q \<and> ebp p = ebp q \<and> esp0 p = esp0 q \<and> ss0 p = ss0 q \<and> parent_pid p = parent_pid q"

text \<open>
  C3: ending a program undoes starting it: whatever the program did in between, as long as the
  return data in its control block and the terminals' process numbers are as \<open>sys_execute\<close> left
  them, \<open>sys_halt\<close> resumes the call of \<open>sys_execute\<close> with its stack, restores the kernel stack
  of the caller and the process numbers of all terminals, frees only this process and keeps all
  processes' memory. The process that goes on is the one that was shown on the displayed
  terminal, even when \<open>sys_execute\<close> was called by the process of another terminal.
\<close>

theorem halt_undoes_execute:
  fixes s u :: "'a rtc_scheme"
  assumes "command_ok fr command str (ram s)" "length (command_program str) \<le> 31" "unat (num_dentry s) \<le> 63"
    and "lookup s (command_program str) = Some k" "frame_ok fr (entry_inode s (of_nat k)) s"
    and "executable_file (entry_inode s (of_nat k)) s" "scheduled_terminal s < 3"
    and np: "new_process s = Some (i, par, s')" and flag: "get_current_flag s \<noteq> 1"
    and ss: "tss_ss0 (tss s) = KERNEL_DS" and d: "d = disp_terminal s" "d < 3"
    and shell: "0 \<le> shell_pid (terminals s d)" "shell_pid (terminals s d) < 128"
      "\<forall>x < 3. x \<noteq> d \<longrightarrow> shell_pid (terminals s x) \<noteq> int (unat i)"
    and run: "sys_execute fr command s = Some (EnterUser e usp cs ds t)"
    and u: "current_pid u = current_pid t" "same_return (cur_proc u) (cur_proc t)"
      "\<forall>x < 3. shell_pid (terminals u x) = shell_pid (terminals t x)"
      "\<forall>p. pid_flag (pidlist u p) = pid_flag (pidlist t p)"
  shows "\<exists>v. sys_halt fr' sh status u = Some (Resume (fr_esp fr) (fr_ebp fr) v)
    \<and> current_pid v = of_int (shell_pid (terminals s d))
    \<and> selected v = Some (process_page (of_int (shell_pid (terminals s d))))
    \<and> tss_esp0 (tss v) = tss_esp0 (tss s) \<and> tss_ss0 (tss v) = tss_ss0 (tss s)
    \<and> (\<forall>p. pid_flag (pidlist v p) = (if p = ucast i then 0 else pid_flag (pidlist s p)))
    \<and> (\<forall>x < 3. shell_pid (terminals v x) = shell_pid (terminals s x))
    \<and> (\<forall>f. frame_contents f v = frame_contents f u)"
proof (rule execute_run [OF assms(1-4) refl assms(5,6) np assms(7)], goal_cases)
  case (1 t')
  then have tt: "t' = t" using run by simp
  note t = 1(2,3,4,5,6) [unfolded tt]
  let ?p = "shell_pid (terminals s d)"
  have i: "3 \<le> i" "i < 6" "par = ?p"
    and s': "terminals s' = (terminals s)(d := (terminals s d)\<lparr>shell_pid := int (unat i)\<rparr>)"
    using np flag free_process_Some [of "pidlist s" 3 i] small_pid(1) [OF shell(1,2)] sint_small_pid [of i]
    by (auto elim!: new_process_cases simp: d(1))
  have pid: "current_pid u = ucast i" using t(1) u(1) by simp
  have p3: "3 \<le> current_pid u" using i(1) by (simp add: pid word_le_nat_alt unat_ucast_u8)
  have q: "cur_proc t = launched_pcb fr par (ucast i) (tss s) (pcbs s (pcb_addr (ucast i)))" by (simp add: t(1,3))
  have ret: "esp (cur_proc u) = fr_esp fr" "ebp (cur_proc u) = fr_ebp fr" "esp0 (cur_proc u) = tss_esp0 (tss s)"
    "ss0 (cur_proc u) = ucast (tss_ss0 (tss s))" "parent_pid (cur_proc u) = of_int ?p"
    using u(2) by (simp_all add: same_return_def q launched_pcb_def i(3))
  have c: "sint (ucast (current_pid u) :: u8) = int (unat i)"
    using sint_small_pid [OF i(2)] by (simp add: pid)
  have st: "shell_pid (terminals u x) = (if x = d then int (unat i) else shell_pid (terminals s x))" if "x < 3" for x
    using u(3) that by (simp add: t(5) s')
  have only: "\<forall>x < 3. shell_pid (terminals u x) = int (unat i) \<longleftrightarrow> x = d" using st shell(3) by auto
  have fl: "pid_flag (pidlist u p) = (if p = ucast i then 1 else pid_flag (pidlist s p))" for p
    using u(4) by (simp add: t(4))
  show ?case
  proof (rule sys_halt_program [OF p3, of fr' sh status], goal_cases)
    case (1 v)
    note v = this
    have "\<forall>x < 3. shell_pid (terminals v x) = shell_pid (terminals s x)"
      using recover_terminal_shells [OF d(2) only] st unfolding v(5) c ret(5) small_pid(2) [OF shell(1,2)] by simp
    moreover have "\<forall>p. pid_flag (pidlist v p) = (if p = ucast i then 0 else pid_flag (pidlist s p))"
      unfolding v(4) by (simp add: fl pid)
    moreover have "tss_ss0 (tss v) = tss_ss0 (tss s)" unfolding v(3) ret(4) ss by (simp add: KERNEL_DS_def)
    moreover have "tss_esp0 (tss v) = tss_esp0 (tss s)" unfolding v(3) ret(3) by simp
    ultimately show ?case
      using v(1,2,6,7) unfolding ret(1,2,5) small_pid(3) [OF shell(1,2)] by blast
  qed
qed

theorem halt_undoes_execute_witness:
  "\<exists>t v. sys_execute exec_frame 0x600000 exec_start = Some (EnterUser 0x08048094 USER_ESP USER_CS USER_DS t)
    \<and> sys_halt exec_frame 0 0 t = Some (Resume 0x7ffe00 0x7fff00 v) \<and> current_pid v = 0 \<and> pid_flag (pidlist v 3) = 0"
proof -
  obtain s' where np: "new_process exec_start = Some (3, 0, s')" using exec_new_process by blast
  have c: "length (command_program [97, 32, 98]) \<le> 31" "lookup exec_start (command_program [97, 32, 98]) = Some 0"
    "frame_ok exec_frame (entry_inode exec_start (of_nat 0)) exec_start"
    "executable_file (entry_inode exec_start (of_nat 0)) exec_start"
    using exec_lookup exec_frame_ok exec_file(3) by (simp_all add: exec_command)
  obtain t where t: "sys_execute exec_frame 0x600000 exec_start = Some (EnterUser 0x08048094 USER_ESP USER_CS USER_DS t)"
    using execute_run [OF exec_command(1) c(1) _ c(2) refl c(3,4) np] exec_lookup(2) exec_file(4) by auto
  have sh: "shell_pid (terminals exec_start x) \<noteq> 3" for x
    by (simp add: exec_start_def modify_terminal_curr_pid_def set_current_flag_def upd_terminal_def rtc_start_def
        terminals.defs sample_terminal_def)
  from halt_undoes_execute [OF exec_command(1) c(1) _ c(2-4) _ np _ _ refl _ _ _ _ t refl, of exec_frame 0 0] t
  show ?thesis by (auto simp: exec_terminals same_return_def sh exec_frame_def)
qed

lemma execute_unknown_effect:
  fixes s :: "'a rtc_scheme"
  assumes "command_ok fr command str (ram s)" "length (command_program str) \<le> 31" "unat (num_dentry s) \<le> 63"
    and "disjoint_regions (fr_program fr) 128 (fr_arg fr) 128" "disjoint_regions (fr_program fr) 128 (fr_temp fr) 40"
    and "disjoint_regions (fr_program fr) 128 (boot_block_ptr s) 4096"
      "disjoint_regions (fr_arg fr) 128 (boot_block_ptr s) 4096"
    and "lookup s (command_program str) = None"
  shows "\<exists>m. sys_execute fr command s = Some (Ret (-1) (s\<lparr>ram := m\<rparr>))
    \<and> agree_outside [(fr_program fr, 128), (fr_arg fr, 128)] m (ram s)"
proof -
  let ?p = "command_program str" and ?a = "command_arg str"
  define m where "m = write_bytes (write_bytes (ram s) (fr_program fr) (?p @ [0])) (fr_arg fr) (?a @ [0])"
  have c: "cstr (ram s) command str" "length str < 128" "str \<noteq> []" "hd str \<noteq> 32"
    using assms(1) by (simp_all add: command_ok_def)
  have len: "Suc (length ?p) \<le> 128" "Suc (length ?a) \<le> 128" using command_lengths [of str] c(2) by simp_all
  have z: "0 \<notin> set ?p" using command_nonzero c(1) by (auto simp: cstr_def)
  have parse: "parse_command (fr_program fr) (fr_arg fr) command (ram s) = Some m"
    unfolding m_def using assms(1) len
    by (intro parse_command_run) (auto simp: command_ok_def intro: disjoint_regions_mono)
  have a: "agree_outside [(fr_program fr, 128), (fr_arg fr, 128)] m (ram s)"
    unfolding m_def using len by (intro agree_outside_trans [OF agree_outside_write agree_outside_write]) auto
  have p: "cstr m (fr_program fr) ?p"
    unfolding m_def using len z disjoint_regions_mono [OF assms(4), of "Suc (length ?p)" "Suc (length ?a)"]
    by (intro cstr_write_disjoint cstr_write) simp_all
  have "dir_kept m s" by (rule agree_outside_dir [OF a]) (simp add: assms(6,7))
  then have none: "lookup (s\<lparr>ram := m\<rparr>) ?p = None" using dir_kept_lookup [OF _ assms(3)] assms(8) by simp
  have "disjoint_regions (fr_temp fr) (Suc (length ?p)) (fr_program fr) (Suc (length ?p))"
    using disjoint_regions_sym [OF assms(5)] assms(2) len by (auto intro: disjoint_regions_mono)
  then have r: "read_dentry_by_name (fr_program fr) (fr_temp fr) (s\<lparr>ram := m\<rparr>) = Some (-1, s\<lparr>ram := m\<rparr>)"
    using read_dentry_by_name_lookup [of "s\<lparr>ram := m\<rparr>" "fr_program fr" ?p] p none by simp
  have "ram s command \<noteq> 0" "ram s command \<noteq> 32"
    using c cstr_nth [OF c(1), of 0] cstr_nth_nonzero [OF c(1), of 0] by (auto simp: hd_conv_nth)
  then show ?thesis using a by (intro exI [of _ m]) (simp add: sys_execute_def parse r)
qed

text \<open>
  C34: a command that names no file fails with -1 and has changed only the arrays of the call.
\<close>

theorem execute_unknown:
  fixes s :: "'a rtc_scheme"
  assumes "command_ok fr command str (ram s)" "length (command_program str) \<le> 31" "unat (num_dentry s) \<le> 63"
    and "disjoint_regions (fr_program fr) 128 (fr_arg fr) 128" "disjoint_regions (fr_program fr) 128 (fr_temp fr) 40"
    and "disjoint_regions (fr_program fr) 128 (boot_block_ptr s) 4096"
      "disjoint_regions (fr_arg fr) 128 (boot_block_ptr s) 4096"
    and "lookup s (command_program str) = None"
  shows "\<exists>m. sys_execute fr command s = Some (Ret (-1) (s\<lparr>ram := m\<rparr>))
    \<and> agree_outside [(fr_program fr, 128), (fr_arg fr, 128)] m (ram s)"
  by (rule execute_unknown_effect [OF assms])

theorem execute_unknown_witness:
  "\<exists>m. sys_execute exec_frame 0x600002 exec_start = Some (Ret (-1) (exec_start\<lparr>ram := m\<rparr>))
    \<and> agree_outside [(0x700000, 128), (0x700080, 128)] m exec_mem"
proof -
  have "cstr exec_mem 0x600002 [98]" by (simp add: cstr_def bytes_Suc exec_mem_def image_mem_def)
  moreover have "disjoint_regions 0x600002 (Suc (length [98 :: u8])) (fr_program exec_frame) 128"
    "disjoint_regions 0x600002 (Suc (length [98 :: u8])) (fr_arg exec_frame) 128"
    by (rule disjoint_regions_sep; simp add: exec_frame_def)+
  ultimately have c: "command_ok exec_frame 0x600002 [98] (ram exec_start)" by (simp add: command_ok_def)
  have p: "command_program [98] = [98]" by (simp add: command_program_def)
  have "strn exec_mem 0x500040 (Suc (Suc 29)) = [97]" by (simp only: strn_Suc) (simp add: exec_mem_def image_mem_def)
  then have l: "lookup exec_start [98] = None" by (simp add: lookup_def entry_name_def dir_entry_addr_def)
  have d: "disjoint_regions (fr_program exec_frame) 128 (fr_arg exec_frame) 128"
    "disjoint_regions (fr_program exec_frame) 128 (fr_temp exec_frame) 40"
    by (rule disjoint_regions_sep; simp add: exec_frame_def)+
  have e: "disjoint_regions (fr_program exec_frame) 128 (boot_block_ptr exec_start) 4096"
    "disjoint_regions (fr_arg exec_frame) 128 (boot_block_ptr exec_start) 4096"
    by (rule disjoint_regions_sym [OF disjoint_regions_sep]; simp add: exec_frame_def)+
  show ?thesis using execute_unknown [OF c _ _ d e] p l by (simp add: exec_frame_def)
qed

text \<open>
  With all user process numbers in use \<open>sys_execute\<close> of an executable prints its message and
  returns 0, the value of a program that ran and ended, without changing the process data.
\<close>

theorem execute_full:
  fixes s :: "'a rtc_scheme"
  assumes "command_ok fr command str (ram s)" "length (command_program str) \<le> 31" "unat (num_dentry s) \<le> 63"
    and "lookup s (command_program str) = Some k" "frame_ok fr (entry_inode s (of_nat k)) s"
    and "executable_file (entry_inode s (of_nat k)) s" "get_current_flag s \<noteq> 1"
    and "\<forall>p. 3 \<le> p \<longrightarrow> p < 6 \<longrightarrow> pid_flag (pidlist s (ucast (p :: u8))) = 1"
  shows "\<exists>m. sys_execute fr command s = Some (Ret 0 (put_literal (map of_char ''Process list full.'' @ [10]) (s\<lparr>ram := m\<rparr>)))
    \<and> agree_outside (frame_regions fr) m (ram s)"
proof -
  let ?i = "entry_inode s (of_nat k)"
  let ?c = "content s ?i"
  have good: "good_inode s ?i" and magic: "take 4 ?c = [0x7f, 0x45, 0x4c, 0x46]"
    using assms(6) by (simp_all add: executable_file_def)
  show ?thesis
  proof (rule execute_magic [OF assms(1-4) refl assms(5) good], goal_cases)
    case (1 m1 m0)
    note m = this
    define m where "m = write_bytes m0 (fr_Magic fr) (take 4 ?c)"
    have l: "length (take 4 ?c) = 4" unfolding magic by simp
    have "bytes m (fr_Magic fr) 4 = [0x7f, 0x45, 0x4c, 0x46]"
      using bytes_write_same [of "take 4 ?c" m0 "fr_Magic fr"] unfolding l m_def [symmetric] by (simp add: magic)
    then have exe: "load32 m (fr_Magic fr) = EXE_ID" by (simp add: load32_bytes EXE_ID_def)
    have a: "agree_outside (frame_regions fr) m (ram s)"
      unfolding m_def by (rule agree_outside_trans [OF agree_outside_write [of _ 4] m(5)]) (simp_all add: frame_regions_def)
    have "free_process (pidlist s) 3 = None" using assms(8) by (simp add: free_process_None)
    then have np: "new_process (s\<lparr>ram := m\<rparr>) = None" using assms(7) by (simp add: new_process_ram new_process_def get_current_flag_def)
    have "ram s command \<noteq> 0" "ram s command \<noteq> 32"
      using assms(1) cstr_nth [of "ram s" command str 0] cstr_nth_nonzero [of "ram s" command str 0]
      by (auto simp: command_ok_def hd_conv_nth)
    then show ?thesis
      using a by (intro exI [of _ m]) (simp add: sys_execute_def m(1,2,4) m(3) [unfolded l m_def [symmetric]] exe np)
  qed
qed

theorem execute_full_witness:
  "\<exists>m. sys_execute exec_frame 0x600000 (exec_start\<lparr>pidlist := \<lambda>_. \<lparr>pid_pid = 0, pid_proc = 0, pid_flag = 1\<rparr>\<rparr>)
    = Some (Ret 0 (put_literal (map of_char ''Process list full.'' @ [10])
        (exec_start\<lparr>pidlist := \<lambda>_. \<lparr>pid_pid = 0, pid_proc = 0, pid_flag = 1\<rparr>, ram := m\<rparr>)))"
proof -
  let ?s = "exec_start\<lparr>pidlist := \<lambda>_. \<lparr>pid_pid = 0, pid_proc = 0, pid_flag = 1\<rparr>\<rparr>"
  have v: "lookup ?s [97] = Some 0" "entry_inode ?s 0 = 0" "executable_file 0 ?s" "frame_ok exec_frame 0 ?s"
    using exec_lookup exec_file(3) exec_frame_ok filesys_view [of ?s exec_start]
    by (simp_all add: lookup_def entry_name_def entry_inode_def dir_entry_addr_def executable_file_def frame_ok_def)
  have "command_ok exec_frame 0x600000 [97, 32, 98] (ram ?s)" using exec_command(1) by simp
  moreover have "flag_initialize_terminal exec_start = 0" using exec_start_fields(9) by (simp only: get_current_flag_def)
  ultimately show ?thesis using v execute_full [of exec_frame "0x600000" "[97, 32, 98]" ?s 0]
    by (auto simp: exec_command get_current_flag_def)
qed

end
