(* ===== verification/Scheduling.thy ===== *)
theory Scheduling
  imports Lifecycle
begin

text \<open>
  The scheduler of student-distrib/syscall.c under a sequence of timer ticks: the rotation over the
  three terminals, and that each interrupted process goes on where it was interrupted.
\<close>

section \<open>The rotation of the terminals\<close>

lemma of_nat_mod3: "(t :: u8) < 3 \<Longrightarrow> of_nat ((unat t + 1) mod 3) = (if t = 2 then 0 else t + 1)"
  by (auto simp: u8_less_3)

text \<open>The terminal after \<open>t\<close>, and what a switch to a terminal whose shell runs does.\<close>

definition next_terminal :: "u8 \<Rightarrow> u8" where
  "next_terminal t = of_nat ((unat t + 1) mod 3)"

lemma next_terminal_simps [simp]: "next_terminal 0 = 1" "next_terminal 1 = 2" "next_terminal 2 = 0"
  by (simp_all add: next_terminal_def)

lemma schedule_eq:
  "schedule fr sh r s = context_switch fr sh r (scheduled_terminal s) (next_terminal (scheduled_terminal s))
     (s\<lparr>scheduled_terminal := next_terminal (scheduled_terminal s)\<rparr>)"
  by (simp add: schedule_def next_terminal_def Let_def)

lemma schedule_switch:
  fixes s :: "'a rtc_scheme"
  assumes "scheduled_terminal s < 3" "shell_pid (terminals s (next_terminal (scheduled_terminal s))) \<noteq> -1"
  obtains t where "schedule fr sh r s = Some (Resume (term_esp (terminals s (next_terminal (scheduled_terminal s))))
      (term_ebp (terminals s (next_terminal (scheduled_terminal s)))) t)"
    "scheduled_terminal t = next_terminal (scheduled_terminal s)"
    "terminals t = (terminals s)(scheduled_terminal s :=
       (terminals s (scheduled_terminal s))\<lparr>term_ebp := snd r, term_esp := fst r\<rparr>)"
    "current_pid t = of_int (shell_pid (terminals s (next_terminal (scheduled_terminal s))))"
    "selected t = Some (process_page (current_pid t))" "tss_esp0 (tss t) = 0x800000 - 0x2000 * current_pid t - 4"
    "\<forall>f. frame_contents f t = frame_contents f s"
proof -
  let ?n = "next_terminal (scheduled_terminal s)"
  let ?pid = "of_int (shell_pid (terminals s ?n)) :: u32"
  let ?ts = "(terminals s)(scheduled_terminal s := (terminals s (scheduled_terminal s))\<lparr>term_ebp := snd r, term_esp := fst r\<rparr>)"
  have ne: "?n \<noteq> scheduled_terminal s" using assms(1) by (auto simp: u8_less_3)
  let ?u = "s\<lparr>scheduled_terminal := ?n, terminals := ?ts, current_pid := ?pid\<rparr>"
  define v where "v = snd (allocatePage 0x20 1 (process_page ?pid) ?u)"
  define t where "t = v\<lparr>tss := (tss v)\<lparr>tss_ss0 := KERNEL_DS, tss_esp0 := 0x800000 - 0x2000 * ?pid - 4\<rparr>\<rparr>"
  have f: "frame_contents f ?u = frame_contents f s" for f by (simp add: frame_contents_def selected_def fun_eq_iff)
  have v: "terminals v = ?ts" "current_pid v = ?pid" "scheduled_terminal v = ?n" "selected v = Some (process_page ?pid)"
    "frame_contents f v = frame_contents f s" for f
    unfolding v_def by (simp_all add: allocate_user_page(1,2) process_page_frame f del: frame_contents_process)
  have "schedule fr sh r s = Some (Resume (term_esp (terminals s ?n)) (term_ebp (terminals s ?n)) t)"
    using ne assms(2) v(1,2)
    by (simp add: schedule_eq context_switch_def Let_def upd_terminal_def t_def v_def split_def)
  then show ?thesis
    by (rule that) (simp_all add: t_def v, simp_all add: selected_def v(4) [unfolded selected_def])
qed

text \<open>
  Timer ticks that each find the registers \<open>r\<close>, after the interrupted process has run as \<open>f\<close>:
  the registers with which each tick resumes, and the state; \<open>None\<close> when a tick starts a shell or
  does not return.
\<close>

fun ticks :: "frame \<Rightarrow> u32 \<Rightarrow> (('a rtc_scheme \<Rightarrow> 'a rtc_scheme) \<times> u32 \<times> u32) list \<Rightarrow> 'a rtc_scheme \<Rightarrow>
    ((u32 \<times> u32) list \<times> 'a rtc_scheme) option" where
  "ticks fr sh [] s = Some ([], s)"
| "ticks fr sh ((f, r) # fs) s =
     (case do_pit_handler fr sh r (f s) of
        Some (Resume e b t) \<Rightarrow> map_option (\<lambda>(rs, u). ((e, b) # rs, u)) (ticks fr sh fs t)
      | _ \<Rightarrow> None)"

text \<open>Saved registers of a terminal's process; what a process may not change while it runs.\<close>

definition saved :: "u8 \<Rightarrow> 'a terminals_scheme \<Rightarrow> u32 \<times> u32" where
  "saved t s = (term_esp (terminals s t), term_ebp (terminals s t))"

definition keeps_schedule :: "('a rtc_scheme \<Rightarrow> 'a rtc_scheme) \<Rightarrow> bool" where
  "keeps_schedule f \<longleftrightarrow> (\<forall>s. scheduled_terminal (f s) = scheduled_terminal s
     \<and> (\<forall>t < 3. saved t (f s) = saved t s \<and> (shell_pid (terminals s t) \<noteq> -1 \<longrightarrow> shell_pid (terminals (f s) t) \<noteq> -1)))"

lemma tick_step:
  fixes s :: "'a rtc_scheme"
  assumes "scheduled_terminal s < 3" "\<forall>t < 3. shell_pid (terminals s t) \<noteq> -1" "keeps_schedule f"
  obtains t where "do_pit_handler fr sh r (f s) = Some (Resume (fst (saved (next_terminal (scheduled_terminal s)) s))
      (snd (saved (next_terminal (scheduled_terminal s)) s)) t)"
    "scheduled_terminal t = next_terminal (scheduled_terminal s)"
    "\<forall>x < 3. saved x t = (if x = scheduled_terminal s then r else saved x s) \<and> shell_pid (terminals t x) \<noteq> -1"
    "current_pid t = of_int (shell_pid (terminals t (scheduled_terminal t)))"
    "selected t = Some (process_page (current_pid t))"
proof -
  let ?x = "send_eoi 0 (f s)" and ?n = "next_terminal (scheduled_terminal s)"
  have n: "?n < 3" "?n \<noteq> scheduled_terminal s" using assms(1) by (auto simp: u8_less_3)
  have x: "scheduled_terminal ?x = scheduled_terminal s" "\<forall>t < 3. saved t ?x = saved t s \<and> shell_pid (terminals ?x t) \<noteq> -1"
    using assms(2,3) by (auto simp: keeps_schedule_def saved_def)
  have a: "scheduled_terminal ?x < 3" "shell_pid (terminals ?x (next_terminal (scheduled_terminal ?x))) \<noteq> -1"
    using x n(1) assms(1) by simp_all
  obtain t where t: "schedule fr sh r ?x = Some (Resume (term_esp (terminals ?x ?n)) (term_ebp (terminals ?x ?n)) t)"
    "scheduled_terminal t = ?n"
    "terminals t = (terminals ?x)(scheduled_terminal s := (terminals ?x (scheduled_terminal s))\<lparr>term_ebp := snd r, term_esp := fst r\<rparr>)"
    "current_pid t = of_int (shell_pid (terminals ?x ?n))" "selected t = Some (process_page (current_pid t))"
    using schedule_switch [OF a, of fr sh r] unfolding x(1) by blast
  have s: "saved ?n s = (term_esp (terminals ?x ?n), term_ebp (terminals ?x ?n))" using x(2) n(1) by (simp add: saved_def)
  have x3: "\<forall>y < 3. saved y t = (if y = scheduled_terminal s then r else saved y s) \<and> shell_pid (terminals t y) \<noteq> -1"
    using x(2) by (auto simp: saved_def t(3))
  show ?thesis
    by (rule that [OF _ t(2) x3 _ t(5)]) (use t(1,2,4) n(2) in \<open>simp_all add: do_pit_handler_def s t(3)\<close>)
qed

text \<open>
  C4: round robin: once the shells of all three terminals run, three timer ticks visit the other
  two terminals in order, with the registers saved for them, and then return to the first one
  with exactly the registers of its interruption, in the page of its process, whatever the
  processes do in between that leaves the scheduler's data alone. So every terminal runs again
  after at most three ticks.
\<close>

theorem schedule_round_robin:
  fixes s :: "'a rtc_scheme"
  assumes "scheduled_terminal s < 3" "\<forall>t < 3. shell_pid (terminals s t) \<noteq> -1"
    and "keeps_schedule f0" "keeps_schedule f1" "keeps_schedule f2"
  defines "n \<equiv> scheduled_terminal s"
  shows "\<exists>t. ticks fr sh [(f0, r0), (f1, r1), (f2, r2)] s
      = Some ([saved (next_terminal n) s, saved (next_terminal (next_terminal n)) s, r0], t)
    \<and> scheduled_terminal t = n \<and> current_pid t = of_int (shell_pid (terminals t n))
    \<and> selected t = Some (process_page (current_pid t))"
proof -
  have n: "n < 3" "next_terminal n < 3" "next_terminal (next_terminal n) < 3" "next_terminal n \<noteq> n"
    "next_terminal (next_terminal n) \<noteq> n" "next_terminal (next_terminal n) \<noteq> next_terminal n"
    "next_terminal (next_terminal (next_terminal n)) = n"
    using assms(1) by (auto simp: n_def u8_less_3)
  obtain t0 where t0: "do_pit_handler fr sh r0 (f0 s) = Some (Resume (fst (saved (next_terminal n) s)) (snd (saved (next_terminal n) s)) t0)"
    "scheduled_terminal t0 = next_terminal n"
    "\<forall>x < 3. saved x t0 = (if x = n then r0 else saved x s) \<and> shell_pid (terminals t0 x) \<noteq> -1"
    using tick_step [OF assms(1-3), of fr sh r0] unfolding n_def by blast
  have a0: "scheduled_terminal t0 < 3" "\<forall>t < 3. shell_pid (terminals t0 t) \<noteq> -1" using t0(2,3) n(2) by simp_all
  obtain t1 where t1: "do_pit_handler fr sh r1 (f1 t0) = Some (Resume (fst (saved (next_terminal (next_terminal n)) t0))
      (snd (saved (next_terminal (next_terminal n)) t0)) t1)"
    "scheduled_terminal t1 = next_terminal (next_terminal n)"
    "\<forall>x < 3. saved x t1 = (if x = next_terminal n then r1 else saved x t0) \<and> shell_pid (terminals t1 x) \<noteq> -1"
    using tick_step [OF a0 assms(4), of fr sh r1] unfolding t0(2) by blast
  have a1: "scheduled_terminal t1 < 3" "\<forall>t < 3. shell_pid (terminals t1 t) \<noteq> -1" using t1(2,3) n(3) by simp_all
  obtain t2 where t2: "do_pit_handler fr sh r2 (f2 t1) = Some (Resume (fst (saved n t1)) (snd (saved n t1)) t2)"
    "scheduled_terminal t2 = n" "current_pid t2 = of_int (shell_pid (terminals t2 n))"
    "selected t2 = Some (process_page (current_pid t2))"
    using tick_step [OF a1 assms(5), of fr sh r2] unfolding t1(2) n(7) by metis
  have "saved n t1 = r0" "saved (next_terminal (next_terminal n)) t0 = saved (next_terminal (next_terminal n)) s"
    using t0(3) t1(3) n by auto
  then show ?thesis
    using t2(2-4) by (intro exI [of _ t2]) (simp add: t0(1) t1(1) t2(1))
qed

theorem schedule_round_robin_witness:
  "\<exists>t. ticks exec_frame 0 [(id, 1, 2), (id, 3, 4), (id, 5, 6)]
      (exec_start\<lparr>terminals := \<lambda>t. (terminals exec_start t)\<lparr>shell_pid := uint t, term_esp := ucast t\<rparr>\<rparr>)
    = Some ([(1, 0), (2, 0), (1, 2)], t) \<and> scheduled_terminal t = 0"
proof -
  let ?s = "exec_start\<lparr>terminals := \<lambda>t. (terminals exec_start t)\<lparr>shell_pid := uint t, term_esp := ucast t\<rparr>\<rparr>"
  have "keeps_schedule id" by (simp add: keeps_schedule_def)
  moreover have "term_ebp (terminals exec_start t) = 0" for t
    by (simp add: exec_start_def modify_terminal_curr_pid_def set_current_flag_def upd_terminal_def rtc_start_def
        terminals.defs sample_terminal_def)
  moreover have "uint (t :: u8) \<noteq> -1" for t by (metis uint_ge_0 not_one_le_zero neg_0_le_iff_le)
  ultimately show ?thesis
    using schedule_round_robin [of ?s id id id exec_frame 0 "(1, 2)" "(3, 4)" "(5, 6)"] by (auto simp: saved_def)
qed

end
