(* ===== verification/Keyboard.thy ===== *)
theory Keyboard
  imports Scheduling "HOL-Library.Signed_Division"
begin

text \<open>
  The keyboard interrupt of student-distrib/keyboard.c: the two translation tables, the modifier
  keys, the line editor with its buffers and the keys that clear, halt and switch. The variables
  are those of Terminal.

  \<open>handle_keyboard_interrupt\<close> ends in an outcome because the escape key calls \<open>sys_halt\<close>, which
  does not return here. \<open>printf("%c", c)\<close> prints the one character, as the conversion of
  \<open>printf\<close> does.
\<close>

section \<open>The translation tables\<close>

definition kbdus_table :: "u8 list" where
  "kbdus_table = [0, 27] @ map of_char ''1234567890-='' @ [8, 9] @ map of_char ''qwertyuiop[]'' @ [10, 0]
     @ map of_char ''asdfghjkl;'' @ [39, 96, 0, 92] @ map of_char ''zxcvbnm,./'' @ [0, 42, 0, 32, 0]
     @ replicate 15 0 @ [45, 0, 0, 0, 43] @ replicate 49 0"

definition kbdus_shift_table :: "u8 list" where
  "kbdus_shift_table = [0, 27] @ map of_char ''!@#$%^&*()_+'' @ [8, 9] @ map of_char ''QWERTYUIOP{}'' @ [10, 0]
     @ map of_char ''ASDFGHJKL:'' @ [34, 126, 0, 124] @ map of_char ''ZXCVBNM<>?'' @ [0, 42, 0, 32, 0]
     @ replicate 15 0 @ [45, 0, 0, 0, 43] @ replicate 49 0"

definition kbdus :: "u8 \<Rightarrow> u8" where
  "kbdus b = kbdus_table ! unat b"

definition kbdus_shift :: "u8 \<Rightarrow> u8" where
  "kbdus_shift b = kbdus_shift_table ! unat b"

section \<open>The line\<close>

text \<open>The character of a key: the table by the shift key, letters the other way with caps lock.\<close>

definition key_char :: "i32 \<Rightarrow> i32 \<Rightarrow> u8 \<Rightarrow> u8" where
  "key_char shift caps b =
     (if shift = 0 then
        let c = kbdus b in if caps = 1 \<and> c \<ge> 97 \<and> c \<le> 122 then c - 32 else c
      else
        let c = kbdus_shift b in if caps = 1 \<and> c \<ge> 65 \<and> c \<le> 90 then c + 32 else c)"

definition put_key :: "u8 \<Rightarrow> 'a terminals_scheme \<Rightarrow> 'a terminals_scheme" where
  "put_key c s =
     (let s = s\<lparr>keyboard_buffer := (keyboard_buffer s)(input_count (terminals s (disp_terminal s)) := c)\<rparr>;
          s = upd_terminal (disp_terminal s) (\<lambda>t. t\<lparr>input_count := input_count t + 1\<rparr>) s
      in putc c 1 s)"

definition type_key :: "u8 \<Rightarrow> 'a terminals_scheme \<Rightarrow> 'a terminals_scheme" where
  "type_key b s =
     (if input_count (terminals s (disp_terminal s)) < INPUT_SIZE
      then put_key (key_char (kbd_shift s) (kbd_caps_lock s) b) s else s)"

definition backspace_key :: "'a terminals_scheme \<Rightarrow> 'a terminals_scheme" where
  "backspace_key s =
     (if input_count (terminals s (disp_terminal s)) > 0 then
        let s = upd_terminal (disp_terminal s) (\<lambda>t. t\<lparr>input_count := input_count t - 1\<rparr>) s;
            s = s\<lparr>keyboard_buffer := (keyboard_buffer s)(input_count (terminals s (disp_terminal s)) := 0)\<rparr>
        in backspace s
      else s)"

definition enter_key :: "'a terminals_scheme \<Rightarrow> 'a terminals_scheme" where
  "enter_key s =
     (let n = input_count (terminals s (disp_terminal s));
          s = (if n < INPUT_SIZE then s\<lparr>keyboard_buffer := (keyboard_buffer s)(n := 10)\<rparr> else s);
          s = s\<lparr>terminal_read_flag := (terminal_read_flag s)(disp_terminal s := 1)\<rparr>;
          s = s\<lparr>terminal_buffer := foldl (\<lambda>b i. b(i := keyboard_buffer s i)) (terminal_buffer s) [0..n - 1]\<rparr>;
          s = s\<lparr>keyboard_buffer := foldl (\<lambda>b i. b(i := 0)) (keyboard_buffer s) [0..INPUT_SIZE - 1]\<rparr>;
          s = (if n \<noteq> 0 \<and> screen_x s (disp_terminal s) = 0 \<and> screen_y s (disp_terminal s) \<noteq> 81
               then s\<lparr>screen_y := (screen_y s)(disp_terminal s := screen_y s (disp_terminal s) - 1)\<rparr> else s);
          s = putc (kbdus 0x1C) 1 s
      in upd_terminal (disp_terminal s) (\<lambda>t. t\<lparr>input_count := 0\<rparr>) s)"

definition clear_key :: "'a terminals_scheme \<Rightarrow> 'a terminals_scheme" where
  "clear_key s = (let s = clear s in upd_terminal (disp_terminal s) (\<lambda>t. t\<lparr>input_count := 0\<rparr>) s)"

text \<open>What follows \<open>sys_halt\<close> in the branch of the escape key runs only if it returned.\<close>

definition escape_key :: "frame \<Rightarrow> u32 \<Rightarrow> 'a rtc_scheme \<Rightarrow> 'a rtc_scheme outcome option" where
  "escape_key fr shell s =
     (let s = send_eoi 1 s;
          s = s\<lparr>terminal_buffer := foldl (\<lambda>b i. b(i := 0)) (terminal_buffer s) [0..INPUT_SIZE - 1],
                keyboard_buffer := foldl (\<lambda>b i. b(i := 0)) (keyboard_buffer s) [0..INPUT_SIZE - 1]\<rparr>
      in case sys_halt fr shell 0 s of
           Some (Ret r s) \<Rightarrow> Some (Ret 0 (upd_terminal (disp_terminal s) (\<lambda>t. t\<lparr>input_count := 0\<rparr>) s))
         | out \<Rightarrow> out)"

section \<open>The interrupt\<close>

definition printable_char_generate :: "frame \<Rightarrow> u32 \<Rightarrow> u8 \<Rightarrow> 'a rtc_scheme \<Rightarrow> 'a rtc_scheme outcome option" where
  "printable_char_generate fr shell buffer s =
     (if buffer = 0x1D then Some (Ret 0 (s\<lparr>kbd_ctrl := 1\<rparr>))
      else if buffer AND 0xFF = 0x9D then Some (Ret 0 (s\<lparr>kbd_ctrl := 0\<rparr>))
      else if buffer = 0x38 then Some (Ret 0 (s\<lparr>kbd_alt := 1\<rparr>))
      else if buffer AND 0xFF = 0xB8 then Some (Ret 0 (s\<lparr>kbd_alt := 0\<rparr>))
      else if buffer = 0x3A then Some (Ret 0 (s\<lparr>kbd_caps_lock := (kbd_caps_lock s + 1) smod 2\<rparr>))
      else if buffer = 0x36 \<or> buffer = 0x2A then Some (Ret 0 (s\<lparr>kbd_shift := 1\<rparr>))
      else if buffer AND 0xFF = 0xB6 \<or> buffer AND 0xFF = 0xAA then Some (Ret 0 (s\<lparr>kbd_shift := 0\<rparr>))
      else if buffer = 0x26 \<and> kbd_ctrl s = 1 then Some (Ret 0 (clear_key s))
      else if buffer = 0x01 then escape_key fr shell s
      else if buffer = 0x0E then Some (Ret 0 (backspace_key s))
      else if buffer = 0x1C then Some (Ret 0 (enter_key s))
      else if kbd_alt s = 1 \<and> (buffer = 0x3B \<or> buffer = 0x3C \<or> buffer = 0x3D) then
        Some (Ret 0 (if buffer = 0x3B then switch_terminal 0 s
                     else if buffer = 0x3C then switch_terminal 1 s else switch_terminal 2 s))
      else if buffer AND 0x80 \<noteq> 0 \<or> kbdus buffer = 0 then Some (Ret 0 s)
      else Some (Ret 0 (type_key buffer s)))"

definition handle_keyboard_interrupt :: "frame \<Rightarrow> u32 \<Rightarrow> 'a rtc_scheme \<Rightarrow> 'a rtc_scheme outcome option" where
  "handle_keyboard_interrupt fr shell s =
     (let (buffer, s) = inb 0x60 s
      in case printable_char_generate fr shell (ucast buffer) s of
           Some (Ret r s) \<Rightarrow> Some (Ret 0 (send_eoi 1 s))
         | out \<Rightarrow> out)"

section \<open>The line being typed\<close>

text \<open>The characters typed since the last line was finished, for the displayed terminal.\<close>

definition cur_line :: "'a terminals_scheme \<Rightarrow> u8 list" where
  "cur_line s = map (keyboard_buffer s) [0..input_count (terminals s (disp_terminal s)) - 1]"

text \<open>
  The count fits the buffer, and the characters are on the screen before the cursor; so a
  backspace, or the step up before the newline of a full row, stays on the screen.
\<close>

definition line_ok :: "u8 \<Rightarrow> 'a terminals_scheme \<Rightarrow> bool" where
  "line_ok t s \<longleftrightarrow> 0 \<le> input_count (terminals s t) \<and> input_count (terminals s t) \<le> 128
     \<and> input_count (terminals s t) \<le> 80 * screen_y s t + screen_x s t"

definition kbd_ok :: "'a terminals_scheme \<Rightarrow> bool" where
  "kbd_ok s \<longleftrightarrow> screen_ok s \<and> tlb_coherent s \<and> (\<forall>t < 3. line_ok t s)"

text \<open>What a key does to the line, as an abstract line editor.\<close>

datatype edit = Typed u8 | Erased | Entered | Cleared | Kept

primrec apply_edit :: "edit \<Rightarrow> u8 list \<Rightarrow> u8 list" where
  "apply_edit (Typed c) l = (if length l < 128 then l @ [c] else l)"
| "apply_edit Erased l = butlast l"
| "apply_edit Entered l = []"
| "apply_edit Cleared l = []"
| "apply_edit Kept l = l"

record editor =
  ed_ctrl :: i32
  ed_alt :: i32
  ed_caps :: i32
  ed_shift :: i32
  ed_line :: "u8 list"

definition key_edit :: "editor \<Rightarrow> u8 \<Rightarrow> edit" where
  "key_edit e b =
     (if b = 0x1D \<or> b = 0x9D \<or> b = 0x38 \<or> b = 0xB8 \<or> b = 0x3A \<or> b = 0x36 \<or> b = 0x2A \<or> b = 0xB6 \<or> b = 0xAA then Kept
      else if b = 0x26 \<and> ed_ctrl e = 1 then Cleared
      else if b = 0x0E then Erased
      else if b = 0x1C then Entered
      else if b AND 0x80 \<noteq> 0 \<or> kbdus b = 0 then Kept
      else Typed (key_char (ed_shift e) (ed_caps e) b))"

definition modifier_key :: "u8 \<Rightarrow> editor \<Rightarrow> editor" where
  "modifier_key b e =
     (if b = 0x1D then e\<lparr>ed_ctrl := 1\<rparr> else if b = 0x9D then e\<lparr>ed_ctrl := 0\<rparr>
      else if b = 0x38 then e\<lparr>ed_alt := 1\<rparr> else if b = 0xB8 then e\<lparr>ed_alt := 0\<rparr>
      else if b = 0x3A then e\<lparr>ed_caps := (ed_caps e + 1) smod 2\<rparr>
      else if b = 0x36 \<or> b = 0x2A then e\<lparr>ed_shift := 1\<rparr>
      else if b = 0xB6 \<or> b = 0xAA then e\<lparr>ed_shift := 0\<rparr> else e)"

definition editor_step :: "u8 \<Rightarrow> editor \<Rightarrow> editor" where
  "editor_step b e = (modifier_key b e)\<lparr>ed_line := apply_edit (key_edit e b) (ed_line e)\<rparr>"

text \<open>The editor that the kernel's variables stand for, and the keys outside it.\<close>

definition abs_editor :: "'a terminals_scheme \<Rightarrow> editor" where
  "abs_editor s = \<lparr>ed_ctrl = kbd_ctrl s, ed_alt = kbd_alt s, ed_caps = kbd_caps_lock s, ed_shift = kbd_shift s,
     ed_line = cur_line s\<rparr>"

definition switch_key :: "'a terminals_scheme \<Rightarrow> u8 \<Rightarrow> bool" where
  "switch_key s b \<longleftrightarrow> kbd_alt s = 1 \<and> (b = 0x3B \<or> b = 0x3C \<or> b = 0x3D)"

lemma tlb_coherent_putc [simp]:
  fixes s :: "'a rtc_scheme"
  shows "tlb_coherent (putc c on s) = tlb_coherent s" "tlb_coherent (backspace s) = tlb_coherent s"
    "tlb_coherent (clear s) = tlb_coherent s" "tlb_coherent (send_eoi n s) = tlb_coherent s"
proof -
  have e: "tlb_coherent t = tlb_coherent s" if "console.more t = console.more s" for t :: "'a rtc_scheme"
    using that by (cases s rule: rtc.cases_scheme; cases t rule: rtc.cases_scheme; simp add: tlb_coherent_def tables_def)
  show "tlb_coherent (putc c on s) = tlb_coherent s" "tlb_coherent (backspace s) = tlb_coherent s"
    "tlb_coherent (clear s) = tlb_coherent s" "tlb_coherent (send_eoi n s) = tlb_coherent s"
    by (rule e, simp)+
qed

lemmas backspace_above [simp] = above_console [OF backspace_fields(5)]
lemmas clear_above [simp] = above_console [OF clear_fields(7)]

text \<open>Frames of the buffers and the modifier keys.\<close>

lemma kbd_fields_views [simp]:
  "tlb_coherent (s\<lparr>keyboard_buffer := k\<rparr>) = tlb_coherent s" "screen_ok (s\<lparr>keyboard_buffer := k\<rparr>) = screen_ok s"
  "tlb_coherent (s\<lparr>terminal_buffer := k\<rparr>) = tlb_coherent s" "screen_ok (s\<lparr>terminal_buffer := k\<rparr>) = screen_ok s"
  "tlb_coherent (s\<lparr>terminal_read_flag := r\<rparr>) = tlb_coherent s" "screen_ok (s\<lparr>terminal_read_flag := r\<rparr>) = screen_ok s"
  "tlb_coherent (upd_terminal t f s) = tlb_coherent s" "screen_ok (upd_terminal t f s) = screen_ok s"
  "tlb_coherent (s\<lparr>kbd_ctrl := v\<rparr>) = tlb_coherent s" "screen_ok (s\<lparr>kbd_ctrl := v\<rparr>) = screen_ok s"
  "tlb_coherent (s\<lparr>kbd_alt := v\<rparr>) = tlb_coherent s" "screen_ok (s\<lparr>kbd_alt := v\<rparr>) = screen_ok s"
  "tlb_coherent (s\<lparr>kbd_shift := v\<rparr>) = tlb_coherent s" "screen_ok (s\<lparr>kbd_shift := v\<rparr>) = screen_ok s"
  "tlb_coherent (s\<lparr>kbd_caps_lock := v\<rparr>) = tlb_coherent s" "screen_ok (s\<lparr>kbd_caps_lock := v\<rparr>) = screen_ok s"
  by (simp_all add: tlb_coherent_def tables_def screen_ok_def term_ok_def cursor_ok_def)

lemma kbd_ok_disp: "kbd_ok s \<Longrightarrow> disp_terminal s < 3 \<and> cursor_ok (disp_terminal s) s \<and> line_ok (disp_terminal s) s"
  using screen_ok_cursor by (auto simp: kbd_ok_def screen_ok_def term_ok_def)

text \<open>The cursor never falls behind the typed characters: at the bottom of the screen the text scrolls.\<close>

lemma putc_offset:
  assumes "cursor_ok (disp_terminal s) s" "n \<le> 128" "n \<le> 80 * screen_y s t + screen_x s t"
  shows "n \<le> 80 * screen_y (putc c 1 s) t + screen_x (putc c 1 s) t"
    and "t = disp_terminal s \<Longrightarrow> \<not> is_newline c \<Longrightarrow> n < 128 \<Longrightarrow>
      n + 1 \<le> 80 * screen_y (putc c 1 s) t + screen_x (putc c 1 s) t"
proof -
  let ?d = "disp_terminal s"
  let ?x = "screen_x s ?d" and ?y = "screen_y s ?d"
  have c: "0 \<le> ?x" "?x < 80" "0 \<le> ?y" "?y < 25" using assms(1) by (simp_all add: cursor_ok_def)
  note e = putc_effect [of ?d s 1 c, OF assms(1)]
  have xy: "screen_x (putc c 1 s) = (screen_x s)(?d := next_x c ?x)" "screen_y (putc c 1 s) = (screen_y s)(?d := next_y c ?x ?y)"
    using e(2,3) by (simp_all add: target_def)
  have up: "k \<le> 80 * next_y c ?x ?y + next_x c ?x" if "k \<le> 80 * ?y + ?x" "k \<le> 128" for k
    using that c by (simp add: next_x_def next_y_def min_def)
  show "n \<le> 80 * screen_y (putc c 1 s) t + screen_x (putc c 1 s) t"
    using assms(2,3) up [of n] by (cases "t = ?d") (simp_all add: xy)
  have up1: "k + 1 \<le> 80 * next_y c ?x ?y + next_x c ?x" if "k \<le> 80 * ?y + ?x" "k < 128" "\<not> is_newline c" for k
  proof (cases "?x \<ge> 79")
    case True
    then show ?thesis using that c by (simp add: next_x_def next_y_def wraps_def min_def)
  next
    case False
    then show ?thesis using that c by (simp add: next_x_def next_y_def wraps_def)
  qed
  show "n + 1 \<le> 80 * screen_y (putc c 1 s) t + screen_x (putc c 1 s) t" if "t = ?d" "\<not> is_newline c" "n < 128"
    using that assms(3) up1 [of n] by (simp add: xy)
qed

lemma upto_last: "0 \<le> n \<Longrightarrow> [0..n] = [0..n - 1] @ [n]"
  by (simp add: upto_rec2)

lemma put_key_line:
  fixes s :: "'a rtc_scheme"
  assumes "kbd_ok s" "input_count (terminals s (disp_terminal s)) < 128" "\<not> is_newline c"
  shows "cur_line (put_key c s) = cur_line s @ [c]" "kbd_ok (put_key c s)"
proof -
  let ?d = "disp_terminal s"
  let ?n = "input_count (terminals s ?d)"
  let ?s = "upd_terminal ?d (\<lambda>t. t\<lparr>input_count := ?n + 1\<rparr>) (s\<lparr>keyboard_buffer := (keyboard_buffer s)(?n := c)\<rparr>)"
  have e: "put_key c s = putc c 1 ?s" by (simp add: put_key_def Let_def upd_terminal_def)
  have n: "0 \<le> ?n" "?n \<le> 80 * screen_y s ?d + screen_x s ?d" and d: "cursor_ok ?d s"
    using kbd_ok_disp [OF assms(1)] by (auto simp: line_ok_def)
  show "cur_line (put_key c s) = cur_line s @ [c]"
    using n(1) upto_last [of ?n] by (simp add: e cur_line_def)
  have d': "cursor_ok (disp_terminal ?s) ?s" using d by (simp add: cursor_ok_def)
  have "line_ok t (put_key c s)" if "t < 3" for t
  proof -
    have "line_ok t s" using assms(1) that by (simp add: kbd_ok_def)
    then show ?thesis
      using putc_offset [OF d', where n = "input_count (terminals s t)" and t = t and c = c] assms(2,3)
      by (auto simp: line_ok_def e)
  qed
  then show "kbd_ok (put_key c s)" using assms(1) putc_screen_ok [of ?s c 1] by (simp add: kbd_ok_def e)
qed

lemma backspace_key_line:
  fixes s :: "'a rtc_scheme"
  assumes "kbd_ok s"
  shows "cur_line (backspace_key s) = butlast (cur_line s)" "kbd_ok (backspace_key s)"
proof -
  let ?d = "disp_terminal s"
  let ?n = "input_count (terminals s ?d)"
  let ?s = "(upd_terminal ?d (\<lambda>t. t\<lparr>input_count := ?n - 1\<rparr>) s)\<lparr>keyboard_buffer := (keyboard_buffer s)(?n - 1 := 0)\<rparr>"
  have d: "0 \<le> ?n" "?n \<le> 80 * screen_y s ?d + screen_x s ?d" "cursor_ok ?d s"
    using kbd_ok_disp [OF assms] by (auto simp: line_ok_def)
  have z: "backspace_key s = s" if "\<not> 0 < ?n" using that by (simp add: backspace_key_def)
  have e: "backspace_key s = backspace ?s" if "0 < ?n"
    using that by (simp add: backspace_key_def Let_def upd_terminal_def)
  show "cur_line (backspace_key s) = butlast (cur_line s)"
  proof (cases "0 < ?n")
    case True
    then have "[0..?n - 1] = [0..?n - 1 - 1] @ [?n - 1]" by (intro upto_last) simp
    then show ?thesis by (simp add: cur_line_def e [OF True])
  qed (use d(1) in \<open>simp add: z cur_line_def\<close>)
  show "kbd_ok (backspace_key s)"
  proof (cases "0 < ?n")
    case True
    have nz: "(screen_x ?s (disp_terminal ?s), screen_y ?s (disp_terminal ?s)) \<noteq> (0, 0)"
      using True d(2) by auto
    have c: "cursor_ok (disp_terminal ?s) ?s" using d(3) by (simp add: cursor_ok_def)
    have "line_ok t (backspace ?s)" if "t < 3" for t
      using assms that backspace_effect(4) [OF c refl nz] True
      by (cases "t = ?d") (auto simp: kbd_ok_def line_ok_def)
    then show ?thesis
      using assms backspace_screen_ok [OF _ nz] by (simp add: kbd_ok_def e [OF True])
  qed (use assms z in simp)
qed

lemma clear_key_line:
  fixes s :: "'a rtc_scheme"
  assumes "kbd_ok s"
  shows "cur_line (clear_key s) = []" "kbd_ok (clear_key s)"
  using assms clear_screen_ok [of s]
  by (auto simp: clear_key_def Let_def cur_line_def kbd_ok_def line_ok_def)

lemma foldl_upd_upto: "foldl (\<lambda>b i. b(i := g i)) b [0..n - 1] = (\<lambda>i. if 0 \<le> i \<and> i < n then g i else b i)"
  by (auto simp: foldl_upd_list fun_eq_iff)

lemma enter_key_line:
  fixes s :: "'a rtc_scheme"
  assumes "kbd_ok s"
  shows "cur_line (enter_key s) = []" "kbd_ok (enter_key s)"
    "terminal_buffer (enter_key s) = (\<lambda>i. if 0 \<le> i \<and> i < int (length (cur_line s)) then cur_line s ! nat i else terminal_buffer s i)"
    "terminal_read_flag (enter_key s) = (terminal_read_flag s)(disp_terminal s := 1)"
proof -
  let ?d = "disp_terminal s"
  let ?n = "input_count (terminals s ?d)"
  define kb where "kb = (if ?n < 128 then (keyboard_buffer s)(?n := 10) else keyboard_buffer s)"
  define y where "y = (if ?n \<noteq> 0 \<and> screen_x s ?d = 0 \<and> screen_y s ?d \<noteq> 81
      then (screen_y s)(?d := screen_y s ?d - 1) else screen_y s)"
  define u where "u = (let s = (if ?n < INPUT_SIZE then s\<lparr>keyboard_buffer := (keyboard_buffer s)(?n := 10)\<rparr> else s);
      s = s\<lparr>terminal_read_flag := (terminal_read_flag s)(disp_terminal s := 1)\<rparr>;
      s = s\<lparr>terminal_buffer := foldl (\<lambda>b i. b(i := keyboard_buffer s i)) (terminal_buffer s) [0..?n - 1]\<rparr>;
      s = s\<lparr>keyboard_buffer := foldl (\<lambda>b i. b(i := 0)) (keyboard_buffer s) [0..INPUT_SIZE - 1]\<rparr>
    in if ?n \<noteq> 0 \<and> screen_x s (disp_terminal s) = 0 \<and> screen_y s (disp_terminal s) \<noteq> 81
       then s\<lparr>screen_y := (screen_y s)(disp_terminal s := screen_y s (disp_terminal s) - 1)\<rparr> else s)"
  have e: "enter_key s = upd_terminal ?d (\<lambda>t. t\<lparr>input_count := 0\<rparr>) (putc 10 1 u)"
  proof -
    have "kbdus 0x1C = 10" by (simp add: kbdus_def kbdus_table_def)
    moreover have "disp_terminal u = ?d" by (simp add: u_def Let_def)
    ultimately show ?thesis unfolding enter_key_def Let_def u_def by simp
  qed
  have n: "0 \<le> ?n" "?n \<le> 128" "?n \<le> 80 * screen_y s ?d + screen_x s ?d" and d: "cursor_ok ?d s" "?d < 3"
    using kbd_ok_disp [OF assms] by (auto simp: line_ok_def)
  have f: "disp_terminal u = ?d" "terminals u = terminals s" "screen_x u = screen_x s" "screen_y u = y"
    "terminal_read_flag u = (terminal_read_flag s)(?d := 1)"
    "terminal_buffer u = (\<lambda>i. if 0 \<le> i \<and> i < ?n then kb i else terminal_buffer s i)"
    "scheduled_terminal u = scheduled_terminal s" "tlb_coherent u = tlb_coherent s"
    by (cases "?n < 128"; cases "?n \<noteq> 0 \<and> screen_x s ?d = 0 \<and> screen_y s ?d \<noteq> 81";
      force simp: u_def Let_def y_def kb_def foldl_upd_upto tlb_coherent_def tables_def)+
  show "cur_line (enter_key s) = []" by (simp add: e cur_line_def f)
  show "terminal_read_flag (enter_key s) = (terminal_read_flag s)(?d := 1)" by (simp add: e f)
  have "cur_line s ! nat i = kb i" if "0 \<le> i" "i < ?n" for i
    using that by (simp add: cur_line_def kb_def)
  then show "terminal_buffer (enter_key s) = (\<lambda>i. if 0 \<le> i \<and> i < int (length (cur_line s)) then cur_line s ! nat i else terminal_buffer s i)"
    using n(1) by (auto simp: e f fun_eq_iff cur_line_def)
  have y: "0 \<le> y ?d" "y ?d < 25" "\<And>t. t \<noteq> ?d \<Longrightarrow> y t = screen_y s t"
    using n(1,3) d(1) by (auto simp: y_def cursor_ok_def)
  have su: "screen_ok u"
  proof -
    have "cursor_ok t u" if "cursor_ok t s" for t
      using that y by (cases "t = ?d") (simp_all add: cursor_ok_def f)
    then show ?thesis using assms by (simp add: kbd_ok_def screen_ok_def term_ok_def f)
  qed
  have cu: "cursor_ok (disp_terminal u) u" using su d(2) screen_ok_cursor f(1) by metis
  have "line_ok t (enter_key s)" if "t < 3" for t
  proof (cases "t = ?d")
    case True
    have "cursor_ok ?d (putc 10 1 u)" by (rule screen_ok_cursor [OF putc_screen_ok [OF su] d(2)])
    with True show ?thesis by (simp add: line_ok_def e f cursor_ok_def)
  next
    case False
    have "line_ok t s" using assms that by (simp add: kbd_ok_def)
    then show ?thesis
      using False putc_offset(1) [OF cu, of "input_count (terminals s t)" t 10] y(3) by (simp add: line_ok_def e f)
  qed
  then show "kbd_ok (enter_key s)" using putc_screen_ok [OF su] assms by (simp add: kbd_ok_def e f)
qed

text \<open>A key with a character has one in both tables, and none of them is a NUL or ends the line.\<close>

definition plain :: "u8 \<Rightarrow> bool" where
  "plain c \<longleftrightarrow> c \<noteq> 0 \<and> c \<noteq> 10 \<and> c \<noteq> 13"

definition both_plain :: "u8 \<times> u8 \<Rightarrow> bool" where
  "both_plain = (\<lambda>(c, d). c = 0 \<or> plain c \<and> plain d
     \<and> (97 \<le> c \<and> c \<le> 122 \<longrightarrow> plain (c - 32)) \<and> (65 \<le> d \<and> d \<le> 90 \<longrightarrow> plain (d + 32)))"

text \<open>The tables written out.\<close>

lemma tables_list:
  "kbdus_table = [0, 27, 49, 50, 51, 52, 53, 54, 55, 56, 57, 48, 45, 61, 8, 9, 113, 119, 101, 114, 116, 121, 117,
     105, 111, 112, 91, 93, 10, 0, 97, 115, 100, 102, 103, 104, 106, 107, 108, 59, 39, 96, 0, 92, 122,
     120, 99, 118, 98, 110, 109, 44, 46, 47, 0, 42, 0, 32, 0, 0, 0, 0, 0, 0, 0, 0, 0, 0, 0, 0, 0, 0, 0,
     0, 45, 0, 0, 0, 43, 0, 0, 0, 0, 0, 0, 0, 0, 0, 0, 0, 0, 0, 0, 0, 0, 0, 0, 0, 0, 0, 0, 0, 0, 0, 0, 0,
     0, 0, 0, 0, 0, 0, 0, 0, 0, 0, 0, 0, 0, 0, 0, 0, 0, 0, 0, 0, 0, 0]"
  "kbdus_shift_table = [0, 27, 33, 64, 35, 36, 37, 94, 38, 42, 40, 41, 95, 43, 8, 9, 81, 87, 69, 82, 84, 89, 85, 73, 79,
     80, 123, 125, 10, 0, 65, 83, 68, 70, 71, 72, 74, 75, 76, 58, 34, 126, 0, 124, 90, 88, 67, 86, 66,
     78, 77, 60, 62, 63, 0, 42, 0, 32, 0, 0, 0, 0, 0, 0, 0, 0, 0, 0, 0, 0, 0, 0, 0, 0, 45, 0, 0, 0, 43,
     0, 0, 0, 0, 0, 0, 0, 0, 0, 0, 0, 0, 0, 0, 0, 0, 0, 0, 0, 0, 0, 0, 0, 0, 0, 0, 0, 0, 0, 0, 0, 0, 0,
     0, 0, 0, 0, 0, 0, 0, 0, 0, 0, 0, 0, 0, 0, 0, 0]"
  by (simp_all add: kbdus_table_def kbdus_shift_table_def numeral_eq_Suc)

lemma tables_plain:
  "list_all both_plain (take 28 (zip kbdus_table kbdus_shift_table))"
  "list_all both_plain (drop 29 (zip kbdus_table kbdus_shift_table))"
  unfolding tables_list by (simp_all add: both_plain_def plain_def)

lemma length_tables: "length kbdus_table = 128" "length kbdus_shift_table = 128"
  by (simp_all add: kbdus_table_def kbdus_shift_table_def)

lemma low_byte: "(b :: u8) AND 0x80 = 0 \<Longrightarrow> unat b < 128"
proof -
  assume "b AND 0x80 = 0"
  then have "\<not> bit b 7" using and_exp_eq_0_iff_not_bit [of b 7] by simp
  then have "\<not> bit (uint b) 7" by (simp only: bit_uint_iff simp_thms)
  then have "even (uint b div 128)" by (simp add: bit_iff_odd)
  moreover have "0 \<le> uint b" "uint b < 2 ^ LENGTH(8)" by (rule uint_ge_0, rule uint_lt2p)
  then have "0 \<le> uint b" "uint b < 256" by simp_all
  ultimately have "uint b < 128" by presburger
  then have "int (unat b) < 128" by simp
  then show ?thesis by linarith
qed

lemma key_char_plain: "b AND 0x80 = 0 \<Longrightarrow> kbdus b \<noteq> 0 \<Longrightarrow> b \<noteq> 0x1C \<Longrightarrow> plain (key_char shift caps b)"
proof -
  assume b: "b AND 0x80 = 0" "kbdus b \<noteq> 0" "b \<noteq> 0x1C"
  let ?z = "zip kbdus_table kbdus_shift_table"
  have n: "unat b < 128" by (rule low_byte [OF b(1)])
  have "unat b \<noteq> 28"
  proof
    assume "unat b = 28"
    then have "unat b = unat (0x1C :: u8)" by simp
    then show False using b(3) by (simp only: word_unat_eq_iff)
  qed
  then have "unat b < 28 \<or> 29 \<le> unat b" by linarith
  then have "both_plain (?z ! unat b)"
  proof
    assume "unat b < 28"
    then show ?thesis using tables_plain(1) by (simp add: list_all_length length_tables)
  next
    assume l: "29 \<le> unat b"
    then show ?thesis using tables_plain(2) n
      unfolding list_all_length by (auto simp: length_tables dest!: spec [of _ "unat b - 29"])
  qed
  then show ?thesis
    using b(2) n by (auto simp: both_plain_def key_char_def kbdus_def kbdus_shift_def Let_def length_tables)
qed

lemma length_cur_line: "kbd_ok s \<Longrightarrow> int (length (cur_line s)) = input_count (terminals s (disp_terminal s))"
  using kbd_ok_disp by (fastforce simp: cur_line_def line_ok_def)

lemma kbd_state_ok [simp]:
  "kbd_ok (s\<lparr>kbd_ctrl := v\<rparr>) = kbd_ok s" "kbd_ok (s\<lparr>kbd_alt := v\<rparr>) = kbd_ok s"
  "kbd_ok (s\<lparr>kbd_shift := v\<rparr>) = kbd_ok s" "kbd_ok (s\<lparr>kbd_caps_lock := v\<rparr>) = kbd_ok s"
  "cur_line (s\<lparr>kbd_ctrl := v\<rparr>) = cur_line s" "cur_line (s\<lparr>kbd_alt := v\<rparr>) = cur_line s"
  "cur_line (s\<lparr>kbd_shift := v\<rparr>) = cur_line s" "cur_line (s\<lparr>kbd_caps_lock := v\<rparr>) = cur_line s"
  by (simp_all add: kbd_ok_def line_ok_def cur_line_def)

lemma type_key_line:
  fixes s :: "'a rtc_scheme"
  assumes "kbd_ok s" "b AND 0x80 = 0" "kbdus b \<noteq> 0" "b \<noteq> 0x1C"
  defines "c \<equiv> key_char (kbd_shift s) (kbd_caps_lock s) b"
  shows "cur_line (type_key b s) = apply_edit (Typed c) (cur_line s)" "kbd_ok (type_key b s)"
proof -
  have "\<not> is_newline c" using key_char_plain [OF assms(2-4)] by (simp add: c_def plain_def is_newline_def)
  then show "cur_line (type_key b s) = apply_edit (Typed c) (cur_line s)" "kbd_ok (type_key b s)"
    using put_key_line [OF assms(1), of c] length_cur_line [OF assms(1)] assms(1)
    by (auto simp: type_key_def c_def)
qed

lemma and_FF [simp]: "(b :: u8) AND 0xFF = b"
proof -
  have "(0xFF :: u8) = -1" by simp
  then show ?thesis by (simp only: and.right_neutral)
qed

lemma key_frames [simp]:
  fixes s :: "'a rtc_scheme"
  shows "kbd_ctrl (type_key b s) = kbd_ctrl s" "kbd_alt (type_key b s) = kbd_alt s"
    "kbd_shift (type_key b s) = kbd_shift s" "kbd_caps_lock (type_key b s) = kbd_caps_lock s"
    "kbd_ctrl (backspace_key s) = kbd_ctrl s" "kbd_alt (backspace_key s) = kbd_alt s"
    "kbd_shift (backspace_key s) = kbd_shift s" "kbd_caps_lock (backspace_key s) = kbd_caps_lock s"
    "kbd_ctrl (clear_key s) = kbd_ctrl s" "kbd_alt (clear_key s) = kbd_alt s"
    "kbd_shift (clear_key s) = kbd_shift s" "kbd_caps_lock (clear_key s) = kbd_caps_lock s"
    "kbd_ctrl (enter_key s) = kbd_ctrl s" "kbd_alt (enter_key s) = kbd_alt s"
    "kbd_shift (enter_key s) = kbd_shift s" "kbd_caps_lock (enter_key s) = kbd_caps_lock s"
  by (simp_all add: type_key_def put_key_def backspace_key_def clear_key_def enter_key_def Let_def)

lemma key_targets [simp]:
  fixes s :: "'a rtc_scheme"
  shows "disp_terminal (type_key b s) = disp_terminal s" "scheduled_terminal (type_key b s) = scheduled_terminal s"
    "disp_terminal (backspace_key s) = disp_terminal s" "scheduled_terminal (backspace_key s) = scheduled_terminal s"
    "disp_terminal (clear_key s) = disp_terminal s" "scheduled_terminal (clear_key s) = scheduled_terminal s"
    "disp_terminal (enter_key s) = disp_terminal s" "scheduled_terminal (enter_key s) = scheduled_terminal s"
  by (simp_all add: type_key_def put_key_def backspace_key_def clear_key_def enter_key_def Let_def)

lemma key_buffers [simp]:
  fixes s :: "'a rtc_scheme"
  shows "terminal_buffer (type_key b s) = terminal_buffer s" "terminal_read_flag (type_key b s) = terminal_read_flag s"
    "terminal_buffer (backspace_key s) = terminal_buffer s" "terminal_read_flag (backspace_key s) = terminal_read_flag s"
    "terminal_buffer (clear_key s) = terminal_buffer s" "terminal_read_flag (clear_key s) = terminal_read_flag s"
  by (simp_all add: type_key_def put_key_def backspace_key_def clear_key_def Let_def)

text \<open>A key other than escape and the switch keys is a step of the editor.\<close>

lemma key_edits:
  fixes s :: "'a rtc_scheme"
  assumes "kbd_ok s" "b \<noteq> 1" "\<not> switch_key s b"
  obtains t where "printable_char_generate fr sh b s = Some (Ret 0 t)" "kbd_ok t"
    "abs_editor t = editor_step b (abs_editor s)"
    "disp_terminal t = disp_terminal s" "scheduled_terminal t = scheduled_terminal s"
    "b \<noteq> 0x1C \<Longrightarrow> terminal_buffer t = terminal_buffer s \<and> terminal_read_flag t = terminal_read_flag s"
    "b = 0x1C \<Longrightarrow> t = enter_key s"
proof -
  note sw = assms(3) [unfolded switch_key_def]
  note d = printable_char_generate_def key_edit_def abs_editor_def
  consider (modifier) "b = 0x1D \<or> b = 0x9D \<or> b = 0x38 \<or> b = 0xB8 \<or> b = 0x3A \<or> b = 0x36 \<or> b = 0x2A \<or> b = 0xB6 \<or> b = 0xAA"
    | (other) "b \<notin> {0x1D, 0x9D, 0x38, 0xB8, 0x3A, 0x36, 0x2A, 0xB6, 0xAA}"
    by blast
  then show ?thesis
  proof cases
    case modifier
    then have "\<exists>t. printable_char_generate fr sh b s = Some (Ret 0 t) \<and> kbd_ok t \<and> abs_editor t = editor_step b (abs_editor s)
      \<and> disp_terminal t = disp_terminal s \<and> scheduled_terminal t = scheduled_terminal s
      \<and> terminal_buffer t = terminal_buffer s \<and> terminal_read_flag t = terminal_read_flag s \<and> b \<noteq> 0x1C"
      using assms(1) 
      by (elim disjE) (simp_all add: printable_char_generate_def editor_step_def key_edit_def modifier_key_def abs_editor_def)
    with that show ?thesis by blast
  next
    case other
    have m: "modifier_key b e = e" for e using other by (simp add: modifier_key_def)
    have keep: "editor_step b (abs_editor s) = (abs_editor s)\<lparr>ed_line := apply_edit (key_edit (abs_editor s) b) (cur_line s)\<rparr>"
      by (simp add: editor_step_def m) (simp add: abs_editor_def)
    consider (clear) "b = 0x26" "kbd_ctrl s = 1" | (erase) "b = 0x0E" | (enter) "b = 0x1C"
      | (none) "b \<notin> {0x0E, 0x1C}" "b = 0x26 \<longrightarrow> kbd_ctrl s \<noteq> 1" "b AND 0x80 \<noteq> 0 \<or> kbdus b = 0"
      | (char) "b \<notin> {0x0E, 0x1C}" "b = 0x26 \<longrightarrow> kbd_ctrl s \<noteq> 1" "b AND 0x80 = 0" "kbdus b \<noteq> 0" by blast
    then show ?thesis
    proof cases
      case clear
      then show ?thesis
        using that [of "clear_key s"] clear_key_line [OF assms(1)] keep by (simp add: d)
    next
      case erase
      then show ?thesis
        using that [of "backspace_key s"] backspace_key_line [OF assms(1)] keep by (simp add: d)
    next
      case enter
      then show ?thesis
        using that [of "enter_key s"] enter_key_line [OF assms(1)] keep by (simp add: d)
    next
      case none
      have "printable_char_generate fr sh b s = Some (Ret 0 s)" "key_edit (abs_editor s) b = Kept"
        using none other assms(2) sw by (auto simp: printable_char_generate_def key_edit_def abs_editor_def)
      then show ?thesis using that [of s] assms(1) keep none(1) by (simp add: abs_editor_def)
    next
      case char
      have "printable_char_generate fr sh b s = Some (Ret 0 (type_key b s))"
        "key_edit (abs_editor s) b = Typed (key_char (kbd_shift s) (kbd_caps_lock s) b)"
        using char other assms(2) sw by (auto simp: printable_char_generate_def key_edit_def abs_editor_def)
      then show ?thesis
        using that [of "type_key b s"] type_key_line [OF assms(1) char(3,4)] keep char(1) by (simp add: abs_editor_def)
    qed
  qed
qed

section \<open>Sequences of keys\<close>

text \<open>
  The effect of one interrupt that reads the code \<open>b\<close> and returns: the body of
  \<open>handle_keyboard_interrupt\<close> after the port is read.
\<close>

definition press :: "frame \<Rightarrow> u32 \<Rightarrow> u8 \<Rightarrow> 'a rtc_scheme \<Rightarrow> 'a rtc_scheme" where
  "press fr sh b s = (case printable_char_generate fr sh b s of Some (Ret r t) \<Rightarrow> send_eoi 1 t | _ \<Rightarrow> s)"

lemma handle_keyboard_press:
  assumes "printable_char_generate fr sh (ucast (fst (inb 0x60 s))) (snd (inb 0x60 s)) = Some (Ret 0 t)"
  shows "handle_keyboard_interrupt fr sh s = Some (Ret 0 (press fr sh (ucast (fst (inb 0x60 s))) (snd (inb 0x60 s))))"
  using assms by (simp add: handle_keyboard_interrupt_def press_def split_def)

lemma eoi_views [simp]:
  fixes s :: "'a rtc_scheme"
  shows "kbd_ok (send_eoi n s) = kbd_ok s" "cur_line (send_eoi n s) = cur_line s" "abs_editor (send_eoi n s) = abs_editor s"
proof -
  have "screen_ok (send_eoi n s) = screen_ok s" by (simp add: screen_ok_def term_ok_def cursor_ok_def)
  then show "kbd_ok (send_eoi n s) = kbd_ok s" "cur_line (send_eoi n s) = cur_line s" "abs_editor (send_eoi n s) = abs_editor s"
    by (simp_all add: kbd_ok_def line_ok_def cur_line_def abs_editor_def)
qed

lemma press_edits:
  fixes s :: "'a rtc_scheme"
  assumes "kbd_ok s" "b \<noteq> 1" "\<not> switch_key s b"
  shows "kbd_ok (press fr sh b s)" "abs_editor (press fr sh b s) = editor_step b (abs_editor s)"
    "disp_terminal (press fr sh b s) = disp_terminal s" "scheduled_terminal (press fr sh b s) = scheduled_terminal s"
    "b \<noteq> 0x1C \<Longrightarrow> terminal_buffer (press fr sh b s) = terminal_buffer s"
    "b \<noteq> 0x1C \<Longrightarrow> terminal_read_flag (press fr sh b s) = terminal_read_flag s"
    "b = 0x1C \<Longrightarrow> press fr sh b s = send_eoi 1 (enter_key s)"
  by (rule key_edits [OF assms, of fr sh]; simp add: press_def)+

definition line_key :: "u8 \<Rightarrow> bool" where
  "line_key b \<longleftrightarrow> b \<notin> {0x01, 0x3B, 0x3C, 0x3D}"

lemma presses_edit:
  fixes s :: "'a rtc_scheme"
  assumes "kbd_ok s" "\<forall>b \<in> set bs. line_key b"
  shows "kbd_ok (fold (press fr sh) bs s)" "abs_editor (fold (press fr sh) bs s) = fold editor_step bs (abs_editor s)"
    "disp_terminal (fold (press fr sh) bs s) = disp_terminal s"
    "scheduled_terminal (fold (press fr sh) bs s) = scheduled_terminal s"
    "0x1C \<notin> set bs \<Longrightarrow> terminal_buffer (fold (press fr sh) bs s) = terminal_buffer s"
    "0x1C \<notin> set bs \<Longrightarrow> terminal_read_flag (fold (press fr sh) bs s) = terminal_read_flag s"
  using assms
proof (induction bs arbitrary: s)
  case (Cons b bs)
  {
    case 1
    then show ?case using Cons.IH(1) press_edits(1) [of s b] by (simp add: line_key_def switch_key_def)
  next
    case 2
    then show ?case using Cons.IH(2) press_edits(1,2) [of s b] by (simp add: line_key_def switch_key_def)
  next
    case 3
    then show ?case using Cons.IH(3) press_edits(1,3) [of s b] by (simp add: line_key_def switch_key_def)
  next
    case 4
    then show ?case using Cons.IH(4) press_edits(1,4) [of s b] by (simp add: line_key_def switch_key_def)
  next
    case 5
    then show ?case using Cons.IH(5) press_edits(1,5) [of s b] by (simp add: line_key_def switch_key_def)
  next
    case 6
    then show ?case using Cons.IH(6) press_edits(1,6) [of s b] by (simp add: line_key_def switch_key_def)
  }
qed simp_all

lemma editor_line_bound: "length (ed_line e) \<le> 128 \<Longrightarrow> length (ed_line (fold editor_step bs e)) \<le> 128"
proof (induction bs arbitrary: e)
  case (Cons b bs)
  have "length (apply_edit k l) \<le> 128" if "length l \<le> 128" for k l using that by (cases k) auto
  then show ?case using Cons by (simp add: editor_step_def)
qed simp

lemma editor_line_plain: "list_all plain (ed_line e) \<Longrightarrow> list_all plain (ed_line (fold editor_step bs e))"
proof (induction bs arbitrary: e)
  case (Cons b bs)
  have "list_all plain (butlast l)" if "list_all plain l" for l
    using that by (metis append_butlast_last_id butlast.simps(1) list_all_append)
  then have "list_all plain (apply_edit (key_edit e b) (ed_line e))"
    using Cons.prems key_char_plain by (auto simp: key_edit_def)
  then show ?case using Cons.IH by (simp add: editor_step_def)
qed simp

lemma wait_for_enter:
  fixes s :: "'a rtc_scheme"
  assumes "kbd_ok s" "\<forall>b \<in> set bs. line_key b" "0x1C \<notin> set bs" "terminal_read_flag s (scheduled_terminal s) = 0"
  shows "wait_while (\<lambda>s. terminal_read_flag s (scheduled_terminal s) = 0) (map (press fr sh) bs @ fs) s
    = wait_while (\<lambda>s. terminal_read_flag s (scheduled_terminal s) = 0) fs (fold (press fr sh) bs s)"
  using assms
proof (induction bs arbitrary: s)
  case (Cons b bs)
  have "kbd_ok (press fr sh b s)" "terminal_read_flag (press fr sh b s) (scheduled_terminal (press fr sh b s)) = 0"
    using press_edits(1,4,6) [of s b] Cons.prems by (simp_all add: line_key_def switch_key_def)
  then show ?case using Cons by simp
qed simp

lemma takeWhile_plain:
  "list_all plain l \<Longrightarrow> length l \<le> k \<Longrightarrow> (\<And>j. length l \<le> j \<Longrightarrow> j < k \<Longrightarrow> g j = 0) \<Longrightarrow> (\<And>j. j < length l \<Longrightarrow> g j = l ! j) \<Longrightarrow>
   m \<le> k \<Longrightarrow> takeWhile (\<lambda>c. c \<noteq> 0) (map g [0..<m]) = take m l"
proof -
  assume l: "list_all plain l" "length l \<le> k" "\<And>j. length l \<le> j \<Longrightarrow> j < k \<Longrightarrow> g j = 0"
    "\<And>j. j < length l \<Longrightarrow> g j = l ! j" "m \<le> k"
  have e: "take (length l) (map g [0..<m]) = take m l"
    by (rule nth_equalityI) (use l(4) in auto)
  have p: "\<forall>c \<in> set (take m l). c \<noteq> 0"
    using l(1) by (auto simp: list_all_iff plain_def dest: in_set_takeD)
  show ?thesis
  proof (cases "m \<le> length l")
    case True
    then have "map g [0..<m] = take m l" using e by simp
    then show ?thesis using p by (simp add: takeWhile_eq_all_conv)
  next
    case False
    then have t: "take m l = l" by simp
    have s: "map g [0..<m] = l @ map g [length l..<m]"
      using e False t by (metis append_take_drop_id drop_map drop_upt add_0 length_map)
    have "map g [length l..<m] = 0 # map g [Suc (length l)..<m]"
      using False l(3) [of "length l"] l(5) by (simp add: upt_conv_Cons)
    then have "takeWhile (\<lambda>c. c \<noteq> 0) (l @ map g [length l..<m]) = l"
      using p t by (simp add: takeWhile_append)
    then show ?thesis unfolding s t .
  qed
qed

section \<open>Properties\<close>

text \<open>
  C17: the keyboard interrupt refines a line editor: for every sequence of key codes other than
  escape and the switch keys, the line that the count and the buffer stand for, and the modifier
  keys, are what the abstract editor makes of the codes; the cursor stays on the screen, the count
  within the buffer of 128 and behind the cursor, so that no backspace leaves the screen.
\<close>

theorem keyboard_refines_editor:
  fixes s :: "'a rtc_scheme"
  assumes "kbd_ok s" "\<forall>b \<in> set bs. line_key b"
  shows "kbd_ok (fold (press fr sh) bs s)
    \<and> abs_editor (fold (press fr sh) bs s) = fold editor_step bs (abs_editor s)"
  using presses_edit(1,2) [OF assms] by blast

text \<open>
  C16: a line typed on the displayed terminal reaches the program that reads from it: whatever keys
  are pressed before Enter, \<open>terminal_read\<close> waits, returns after Enter, stores as much of the
  edited line as fits into \<open>n\<close> bytes followed by a newline, and returns the number of bytes stored,
  which is \<open>n + 1\<close> for a line of at least \<open>n\<close> characters.
\<close>

theorem typed_line_is_read:
  fixes s :: "'a rtc_scheme"
  assumes "kbd_ok s" "\<forall>b \<in> set bs. line_key b" "0x1C \<notin> set bs" "list_all plain (cur_line s)"
    and "scheduled_terminal s = disp_terminal s" "terminal_read_flag s (disp_terminal s) = 0"
    and "\<forall>i. 0 \<le> i \<longrightarrow> i < 128 \<longrightarrow> terminal_buffer s i = 0" "0 < n"
  defines "l \<equiv> take (nat n) (ed_line (fold editor_step bs (abs_editor s)))"
  shows "terminal_read (map (press fr sh) bs) fd buf n s = None
    \<and> (\<exists>t. terminal_read (map (press fr sh) (bs @ [0x1C])) fd buf n s = Some (int (length l) + 1, t)
        \<and> bytes (ram t) buf (Suc (length l)) = l @ [10])"
proof -
  define u where "u = fold (press fr sh) bs s"
  define v where "v = press fr sh 0x1C u"
  let ?line = "ed_line (fold editor_step bs (abs_editor s))"
  let ?w = "\<lambda>s :: 'a rtc_scheme. terminal_read_flag s (scheduled_terminal s) = 0"
  note e = presses_edit [OF assms(1,2), where fr = fr and sh = sh, folded u_def]
  have line: "cur_line u = ?line" using e(2) by (simp add: abs_editor_def) (metis editor.select_convs(5))
  have flag: "terminal_read_flag u (disp_terminal u) = 0" "scheduled_terminal u = disp_terminal u"
    using e(3,4,6) assms(3,5,6) by simp_all
  have v: "v = send_eoi 1 (enter_key u)"
    unfolding v_def by (rule press_edits(7) [OF e(1)]) (simp_all add: switch_key_def)
  note k = enter_key_line [OF e(1)]
  have len: "length ?line \<le> 128"
    using length_cur_line [OF assms(1)] kbd_ok_disp [OF assms(1)]
    by (intro editor_line_bound) (simp add: abs_editor_def line_ok_def)
  have pl: "list_all plain ?line" using assms(4) by (intro editor_line_plain) (simp add: abs_editor_def)
  have tb: "terminal_buffer v (int j) = (if j < length ?line then ?line ! j else 0)" if "j < 128" for j
    using that e(5) assms(3,7) by (simp add: v k(3) line)
  have "pending_line n v = take (nat (min n 128)) ?line"
    unfolding pending_line_def
    by (rule takeWhile_plain [OF pl len]) (use tb len in simp_all)
  also have "\<dots> = l" using len by (cases "n \<le> 128") (simp_all add: l_def min_def)
  finally have pend: "pending_line n v = l" .
  have vf: "terminal_read_flag v (scheduled_terminal v) = 1" using flag(2) by (simp add: v k(4))
  have wait: "wait_while ?w (map (press fr sh) bs @ fs) s = wait_while ?w fs u" for fs
    using wait_for_enter [OF assms(1-3), of fr sh fs] assms(5,6) by (simp add: u_def)
  have "?w u" using flag by simp
  then have w1: "wait_while ?w (map (press fr sh) bs) s = None"
    "wait_while ?w (map (press fr sh) (bs @ [0x1C])) s = Some v"
    using wait [of "[]"] wait [of "[press fr sh 0x1C]"] vf by (simp_all add: v_def)
  have "length l \<le> 128" using len by (simp add: l_def)
  then have "bytes (write_bytes (ram v) buf (l @ [10])) buf (Suc (length l)) = l @ [10]"
    using bytes_write_same [of "l @ [10]" "ram v" buf] by simp
  with w1 show ?thesis
    using assms(8) by (simp add: terminal_read_def terminal_take_line_eq pend)
qed

text \<open>Empty lines on all terminals, for the witnesses.\<close>

definition kbd_start :: rtc where
  "kbd_start = rtc_start\<lparr>terminals := \<lambda>_. sample_terminal [], keyboard_buffer := \<lambda>_. 0\<rparr>"

lemma kbd_start_ok: "kbd_ok kbd_start" "cur_line kbd_start = []" "scheduled_terminal kbd_start = disp_terminal kbd_start"
  "terminal_read_flag kbd_start = (\<lambda>_. 0)" "terminal_buffer kbd_start = (\<lambda>_. 0)" "kbd_alt kbd_start = 0"
  "abs_editor kbd_start = \<lparr>ed_ctrl = 0, ed_alt = 0, ed_caps = 0, ed_shift = 0, ed_line = []\<rparr>"
proof -
  have p: "kbd_ctrl terminals_start = 0" "kbd_alt terminals_start = 0" "kbd_caps_lock terminals_start = 0" "kbd_shift terminals_start = 0"
    unfolding terminals_start_def paging_frame [OF pagingInit_fields(8)] by (simp_all add: filesys.defs)
  have r: "kbd_ctrl kbd_start = 0" "kbd_alt kbd_start = 0" "kbd_caps_lock kbd_start = 0" "kbd_shift kbd_start = 0"
    "terminal_read_flag kbd_start = (\<lambda>_. 0)" "terminal_buffer kbd_start = (\<lambda>_. 0)"
    "disp_terminal kbd_start = 0" "scheduled_terminal kbd_start = 0" "screen_x kbd_start = (\<lambda>_. 0)" "screen_y kbd_start = (\<lambda>_. 0)"
    "terminals kbd_start = (\<lambda>_. sample_terminal [])" "tables kbd_start = tables terminals_start" "tlb kbd_start = tlb terminals_start"
    by (simp_all add: kbd_start_def rtc_start_def terminals.defs p tables_def)
  have "tlb_coherent kbd_start" using terminals_start_fields(12) by (simp add: tlb_coherent_def r)
  moreover have "screen_ok kbd_start" by (simp add: screen_ok_def term_ok_def cursor_ok_def r)
  ultimately show "kbd_ok kbd_start" by (simp add: kbd_ok_def line_ok_def r sample_terminal_def)
  show "kbd_alt kbd_start = 0" by (rule r(2))
  show l: "cur_line kbd_start = []" by (simp add: cur_line_def r sample_terminal_def)
  show "abs_editor kbd_start = \<lparr>ed_ctrl = 0, ed_alt = 0, ed_caps = 0, ed_shift = 0, ed_line = []\<rparr>"
    by (simp add: abs_editor_def r l)
qed (simp_all add: kbd_start_def rtc_start_def terminals.defs)

lemma typing_hi: "ed_line (fold editor_step [0x2A, 0x23, 0xAA, 0x17, 0x0E, 0x17] (abs_editor kbd_start)) = [72, 105]"
  by (simp add: kbd_start_ok(7) editor_step_def modifier_key_def key_edit_def key_char_def kbdus_def kbdus_shift_def tables_list)

theorem keyboard_refines_editor_witness:
  "kbd_ok (fold (press exec_frame 0) [0x2A, 0x23, 0xAA, 0x17, 0x0E, 0x17] kbd_start)
   \<and> cur_line (fold (press exec_frame 0) [0x2A, 0x23, 0xAA, 0x17, 0x0E, 0x17] kbd_start) = [72, 105]"
proof -
  let ?bs = "[0x2A, 0x23, 0xAA, 0x17, 0x0E, 0x17] :: u8 list"
  have "\<forall>b \<in> set ?bs. line_key b" by (simp add: line_key_def)
  from keyboard_refines_editor [OF kbd_start_ok(1) this, of exec_frame 0]
  have "kbd_ok (fold (press exec_frame 0) ?bs kbd_start)"
    "ed_line (abs_editor (fold (press exec_frame 0) ?bs kbd_start)) = [72, 105]"
    by (simp_all only: typing_hi simp_thms)
  then show ?thesis by (simp add: abs_editor_def del: fold_simps)
qed

theorem typed_line_is_read_witness:
  "\<exists>t. terminal_read (map (press exec_frame 0) ([0x2A, 0x23, 0xAA, 0x17, 0x0E, 0x17] @ [0x1C])) 0 0x700000 100 kbd_start = Some (3, t)
    \<and> bytes (ram t) 0x700000 3 = [72, 105, 10]"
proof -
  let ?bs = "[0x2A, 0x23, 0xAA, 0x17, 0x0E, 0x17] :: u8 list"
  have k: "\<forall>b \<in> set ?bs. line_key b" by (simp add: line_key_def)
  have l: "take (nat 100) (ed_line (fold editor_step ?bs (abs_editor kbd_start))) = [72, 105]"
    unfolding typing_hi by simp
  from typed_line_is_read [OF kbd_start_ok(1) k, of 100 exec_frame 0 0 "0x700000", unfolded l]
  obtain t where "terminal_read (map (press exec_frame 0) (?bs @ [0x1C])) 0 0x700000 100 kbd_start = Some (int (length [72, 105 :: u8]) + 1, t)"
    "bytes (ram t) 0x700000 (Suc (length [72, 105 :: u8])) = [72, 105] @ [10]"
    using kbd_start_ok(2-5) by (auto simp del: list.map append.simps)
  moreover have "Suc (length [72, 105 :: u8]) = 3" by simp
  ultimately show ?thesis by (intro exI [of _ t]) (simp only:, simp)
qed

section \<open>The escape key\<close>

text \<open>A command that \<open>sys_execute\<close> can start: it names an executable file of the directory.\<close>

definition can_execute :: "frame \<Rightarrow> u32 \<Rightarrow> u8 list \<Rightarrow> nat \<Rightarrow> 'a filesys_scheme \<Rightarrow> bool" where
  "can_execute fr command str k s \<longleftrightarrow> command_ok fr command str (ram s) \<and> length (command_program str) \<le> 31
     \<and> unat (num_dentry s) \<le> 63 \<and> lookup s (command_program str) = Some k
     \<and> frame_ok fr (entry_inode s (of_nat k)) s \<and> executable_file (entry_inode s (of_nat k)) s"

lemma can_execute_same:
  fixes s t :: "'a filesys_scheme"
  assumes "ram t = ram s" "boot_block_ptr t = boot_block_ptr s" "num_dentry t = num_dentry s"
    "inode_base t = inode_base s" "num_inode t = num_inode s" "data_base t = data_base s" "num_dblock t = num_dblock s"
  shows "can_execute fr command str k t = can_execute fr command str k s" "entry_inode t (of_nat k) = entry_inode s (of_nat k)"
proof -
  show e: "entry_inode t (of_nat k) = entry_inode s (of_nat k)"
    using assms by (simp add: entry_inode_def dir_entry_addr_def)
  have l: "lookup t n = lookup s n" for n using assms by (simp add: lookup_def entry_name_def dir_entry_addr_def)
  note v = filesys_view [OF assms(1,4-7)]
  show "can_execute fr command str k t = can_execute fr command str k s"
    by (simp add: can_execute_def e l v frame_ok_def executable_file_def assms(1,2,3))
qed

text \<open>Ending a shell starts the shell of the scheduled terminal again.\<close>

lemma sys_halt_shell:
  fixes s :: "'a rtc_scheme"
  assumes shell: "current_pid s < 3" and ex: "can_execute fr sh str k s" and k3: "scheduled_terminal s < 3"
  defines "c \<equiv> content s (entry_inode s (of_nat k))"
  obtains v where "sys_halt fr sh st s = Some (EnterUser (entry_point c) USER_ESP USER_CS USER_DS v)"
    "current_pid v = ucast (scheduled_terminal s)" "selected v = Some (process_page (ucast (scheduled_terminal s)))"
    "bytes (ram v) 0x08048000 (length (take 3899392 c)) = take 3899392 c"
    "terminals v = terminals (recover_terminal_curr_pid (sint (ucast (current_pid s) :: u8)) (int (unat (parent_pid (cur_proc s)))) s)"
    "files_ok (file_array (cur_proc v))"
proof -
  let ?a = "pcb_addr (current_pid s)" and ?p = "cur_proc s"
  have pid: "current_pid s = 0 \<or> current_pid s = 1 \<or> current_pid s = 2"
    using shell by (auto simp: word_less_nat_alt word_unat_eq_iff)
  obtain fa where fa: "foldl (\<lambda>s fd. snd (sys_close fd s)) s [2..7] = s\<lparr>pcbs := (pcbs s)(?a := ?p\<lparr>file_array := fa\<rparr>)\<rparr>"
    using close_all [of "[2..7]" s] by auto
  define t where "t = set_pid_flag (current_pid s) 0 (s\<lparr>pcbs := (pcbs s)(?a := ?p\<lparr>file_array := fa\<rparr>),
    tss := (tss s)\<lparr>tss_ss0 := ucast (ss0 ?p), tss_esp0 := esp0 ?p\<rparr>\<rparr>)"
  define u where "u = set_current_flag 1 (recover_terminal_curr_pid (sint (ucast (current_pid s) :: u8)) (int (unat (parent_pid ?p))) t)"
  have tf: "ram t = ram s" "boot_block_ptr t = boot_block_ptr s" "num_dentry t = num_dentry s" "inode_base t = inode_base s"
    "num_inode t = num_inode s" "data_base t = data_base s" "num_dblock t = num_dblock s" "scheduled_terminal t = scheduled_terminal s"
    "current_pid t = current_pid s" "pcbs t = (pcbs s)(?a := ?p\<lparr>file_array := fa\<rparr>)" "terminals t = terminals s"
    by (simp_all add: t_def set_pid_flag_def)
  have u: "ram u = ram s" "boot_block_ptr u = boot_block_ptr s" "num_dentry u = num_dentry s" "inode_base u = inode_base s"
    "num_inode u = num_inode s" "data_base u = data_base s" "num_dblock u = num_dblock s" "scheduled_terminal u = scheduled_terminal s"
    "get_current_flag u = 1" "current_pid u = current_pid s"
    by (simp_all add: u_def recover_terminal_curr_pid_def set_current_flag_def get_current_flag_def upd_terminal_def tf split: option.splits)
  have ut: "terminals u = terminals (recover_terminal_curr_pid (sint (ucast (current_pid s) :: u8)) (int (unat (parent_pid ?p))) s)"
    using recover_terminal_cong [OF tf(11)] by (simp add: u_def set_current_flag_def)
  have c0: "\<not> (current_pid u \<noteq> 0 \<and> current_pid u \<noteq> 1 \<and> current_pid u \<noteq> 2)" using pid by (simp add: u(10))
  have halt: "sys_halt fr sh st s = Some out" if x: "sys_execute fr sh u = Some out" and n: "\<forall>r t. out \<noteq> Ret r t" for out
  proof -
    have r: "(if C then A else case E of None \<Rightarrow> None | Some (Ret r s) \<Rightarrow> H r s | Some out \<Rightarrow> Some out) = Some out"
      if "\<not> C" "E = Some out" for C A H and E :: "'a rtc_scheme outcome option" using that n by (cases out) simp_all
    show ?thesis unfolding sys_halt_def fa Let_def
    proof (rule r, goal_cases)
      case 1
      then show ?case using c0 by (simp add: u_def t_def set_pid_flag_def set_current_flag_def)
    next
      case 2
      then show ?case using x by (simp add: u_def t_def set_pid_flag_def)
    qed
  qed
  have e: "can_execute fr sh str k u" "entry_inode u (of_nat k) = entry_inode s (of_nat k)"
    using can_execute_same [OF u(1-7)] ex by simp_all
  have c: "content u (entry_inode u (of_nat k)) = c" by (simp add: e(2) c_def filesys_view(1) [OF u(1,4-7)])
  obtain s' where np: "new_process u = Some (scheduled_terminal s, sint (scheduled_terminal s), s')" "terminals s' = terminals u"
    using u(8,9) by (auto simp: new_process_def Let_def set_pid_flag_def set_current_flag_def)
  have ce: "command_ok fr sh str (ram u)" "length (command_program str) \<le> 31" "unat (num_dentry u) \<le> 63"
    "lookup u (command_program str) = Some k" "frame_ok fr (entry_inode u (of_nat k)) u" "executable_file (entry_inode u (of_nat k)) u"
    using e(1) by (simp_all add: can_execute_def)
  have k3': "scheduled_terminal u < 3" using k3 by (simp add: u(8))
  show thesis
  proof (rule execute_run [OF ce(1-4) refl ce(5,6) np(1) k3'], goal_cases)
    case (1 v)
    have "files_ok (file_array (cur_proc v))" by (simp add: 1(2,4) launched_pcb_def init_files_ok)
    moreover have "sys_halt fr sh st s = Some (EnterUser (entry_point c) USER_ESP USER_CS USER_DS v)"
      using halt [OF 1(1)] by (simp add: c)
    ultimately show thesis using that 1(2,6,8,9) np(2) ut by (simp add: c)
  qed
qed

text \<open>The process whose number the scheduled terminal, and no other, has on record.\<close>

definition runs_scheduled :: "'a terminals_scheme \<Rightarrow> bool" where
  "runs_scheduled s \<longleftrightarrow> scheduled_terminal s < 3 \<and> current_pid s < 6
     \<and> (\<forall>x < 3. shell_pid (terminals s x) = int (unat (current_pid s)) \<longleftrightarrow> x = scheduled_terminal s)"

lemma small_current: "(p :: u32) < 6 \<Longrightarrow> sint (ucast p :: u8) = int (unat p)"
proof -
  assume "p < 6"
  then have n: "unat p < 6" by (simp add: word_less_nat_alt)
  have "unat (ucast p :: u8) = take_bit 8 (unat p)" by (simp add: unsigned_ucast_eq unsigned_take_bit_eq)
  also have "\<dots> = unat p" using n by (intro take_bit_nat_eq_self) simp
  finally have u: "unat (ucast p :: u8) = unat p" .
  then have "(ucast p :: u8) < 6" using n by (simp only: word_less_nat_alt) simp
  from sint_small_pid [OF this] show ?thesis unfolding u .
qed

lemma recovered_terminals:
  fixes s :: "'a terminals_scheme"
  assumes run: "runs_scheduled s"
    and v: "terminals v = terminals (recover_terminal_curr_pid (sint (ucast (current_pid s) :: u8)) n s)"
  shows "shell_pid (terminals v (scheduled_terminal s)) = n"
    "x < 3 \<Longrightarrow> x \<noteq> scheduled_terminal s \<Longrightarrow> shell_pid (terminals v x) = shell_pid (terminals s x)"
    "input_count (terminals v y) = input_count (terminals s y)"
proof -
  have r: "scheduled_terminal s < 3" "current_pid s < 6"
    "\<forall>x < 3. shell_pid (terminals s x) = int (unat (current_pid s)) \<longleftrightarrow> x = scheduled_terminal s"
    using run by (simp_all add: runs_scheduled_def)
  note c = recover_terminal_shells [OF r(1,3)]
  show "shell_pid (terminals v (scheduled_terminal s)) = n" unfolding v small_current [OF r(2)] by (subst c [OF r(1)]) (simp only: simp_thms if_True)
  show "shell_pid (terminals v x) = shell_pid (terminals s x)" if "x < 3" "x \<noteq> scheduled_terminal s"
    unfolding v small_current [OF r(2)] by (subst c [OF that(1)]) (simp only: that(2) if_False)
  show "input_count (terminals v y) = input_count (terminals s y)"
    unfolding v by (simp add: recover_terminal_curr_pid_def upd_terminal_def split: option.splits)
qed

lemma escape_interrupt:
  fixes s :: "'a rtc_scheme"
  assumes key: "ucast (fst (inb 0x60 s)) = (1 :: u8)"
    and u: "u = (send_eoi 1 (snd (inb 0x60 s)))\<lparr>
      terminal_buffer := foldl (\<lambda>b i. b(i := 0)) (terminal_buffer s) [0..INPUT_SIZE - 1],
      keyboard_buffer := foldl (\<lambda>b i. b(i := 0)) (keyboard_buffer s) [0..INPUT_SIZE - 1]\<rparr>"
    and halt: "sys_halt fr sh 0 u = Some out" "\<forall>r t. out \<noteq> Ret r t"
  shows "handle_keyboard_interrupt fr sh s = Some out"
proof -
  have "printable_char_generate fr sh 1 (snd (inb 0x60 s)) = Some out"
    using halt unfolding u by (cases out) (simp_all add: printable_char_generate_def escape_key_def)
  then show ?thesis using key halt(2) by (cases out) (simp_all add: handle_keyboard_interrupt_def split_def)
qed

text \<open>
  C35: the escape key ends the process of the terminal that is scheduled, whichever terminal is
  displayed. A program's parent goes on from its call of \<open>sys_execute\<close> and takes the place of the
  program on that terminal; the shell of a terminal is started again from its file. The other
  terminals keep their processes. The statement that empties the displayed terminal's line never
  runs: its count is the old one afterwards, over a buffer of NULs.
\<close>

theorem escape_ends_scheduled:
  fixes s :: "'a rtc_scheme"
  assumes "ucast (fst (inb 0x60 s)) = (1 :: u8)" "runs_scheduled s"
    and "current_pid s < 3 \<longrightarrow> can_execute fr sh str k s"
  defines "c \<equiv> content s (entry_inode s (of_nat k))"
  shows "\<exists>out v. handle_keyboard_interrupt fr sh s = Some out
    \<and> (if 3 \<le> current_pid s
       then out = Resume (esp (cur_proc s)) (ebp (cur_proc s)) v \<and> pid_flag (pidlist v (current_pid s)) = 0
         \<and> current_pid v = ucast (parent_pid (cur_proc s)) \<and> (\<forall>f. frame_contents f v = frame_contents f s)
       else out = EnterUser (entry_point c) USER_ESP USER_CS USER_DS v \<and> current_pid v = ucast (scheduled_terminal s)
         \<and> bytes (ram v) 0x08048000 (length (take 3899392 c)) = take 3899392 c \<and> files_ok (file_array (cur_proc v)))
    \<and> shell_pid (terminals v (scheduled_terminal s)) = int (unat (parent_pid (cur_proc s)))
    \<and> (\<forall>x < 3. x \<noteq> scheduled_terminal s \<longrightarrow> shell_pid (terminals v x) = shell_pid (terminals s x))
    \<and> input_count (terminals v (disp_terminal s)) = input_count (terminals s (disp_terminal s))"
proof -
  define u where "u = (send_eoi 1 (snd (inb 0x60 s)))\<lparr>
    terminal_buffer := foldl (\<lambda>b i. b(i := 0)) (terminal_buffer s) [0..INPUT_SIZE - 1],
    keyboard_buffer := foldl (\<lambda>b i. b(i := 0)) (keyboard_buffer s) [0..INPUT_SIZE - 1]\<rparr>"
  have u: "current_pid u = current_pid s" "pcbs u = pcbs s" "terminals u = terminals s" "scheduled_terminal u = scheduled_terminal s"
    "ram u = ram s" "boot_block_ptr u = boot_block_ptr s" "num_dentry u = num_dentry s" "inode_base u = inode_base s"
    "num_inode u = num_inode s" "data_base u = data_base s" "num_dblock u = num_dblock s"
    "frame_contents f u = frame_contents f s" "pidlist u = pidlist s" for f
    by (simp_all add: u_def frame_contents_def selected_def fun_eq_iff)
  have run: "runs_scheduled u" using assms(2) by (simp add: runs_scheduled_def u(1,3,4))
  note key = escape_interrupt [OF assms(1) u_def]
  show ?thesis
  proof (cases "3 \<le> current_pid s")
    case True
    then have p: "3 \<le> current_pid u" by (simp add: u(1))
    show ?thesis
    proof (rule sys_halt_program [OF p, of fr sh 0], goal_cases)
      case (1 v)
      have "handle_keyboard_interrupt fr sh s = Some (Resume (esp (cur_proc s)) (ebp (cur_proc s)) v)"
        using key [OF 1(1)] by (simp add: u(1,2))
      then show ?case using recovered_terminals [OF run 1(5)] 1(2,4,7) True
        by (intro exI [of _ v] exI [of _ "Resume (esp (cur_proc s)) (ebp (cur_proc s)) v"]) (simp add: u)
    qed
  next
    case False
    then have p: "current_pid u < 3" by (simp add: u(1) not_le)
    have ce: "can_execute fr sh str k u" "entry_inode u (of_nat k) = entry_inode s (of_nat k)"
      using can_execute_same [OF u(5-11)] assms(3) False by (simp_all add: not_le)
    have c: "content u (entry_inode u (of_nat k)) = c" by (simp add: ce(2) c_def filesys_view(1) [OF u(5,8-11)])
    have k3: "scheduled_terminal u < 3" using run by (simp add: runs_scheduled_def)
    show ?thesis
    proof (rule sys_halt_shell [OF p ce(1) k3, of 0], goal_cases)
      case (1 v)
      have "handle_keyboard_interrupt fr sh s = Some (EnterUser (entry_point c) USER_ESP USER_CS USER_DS v)"
        using key [OF 1(1)] by (simp add: c)
      then show ?case using recovered_terminals [OF run 1(5)] 1(2,4,6) False
        by (intro exI [of _ v] exI [of _ "EnterUser (entry_point c) USER_ESP USER_CS USER_DS v"]) (simp add: u c)
    qed
  qed
qed

theorem escape_ends_scheduled_witness:
  "(\<exists>v. handle_keyboard_interrupt exec_frame 0x600000 (exec_start\<lparr>dev := \<lambda>_ _. 1\<rparr>) = Some (EnterUser 0x08048094 USER_ESP USER_CS USER_DS v)
      \<and> current_pid v = 0)
   \<and> (\<exists>v. handle_keyboard_interrupt exec_frame 0 (modify_terminal_curr_pid 3 (exec_start\<lparr>dev := \<lambda>_ _. 1, current_pid := 3\<rparr>)) = Some (Resume 0 0 v)
      \<and> pid_flag (pidlist v 3) = 0 \<and> current_pid v = 0)"
proof
  let ?s = "exec_start\<lparr>dev := \<lambda>_ _. 1\<rparr>"
  have others: "shell_pid (terminals exec_start x) = -1" if "x = 1 \<or> x = 2" for x
    using that by (auto simp: exec_start_def modify_terminal_curr_pid_def set_current_flag_def upd_terminal_def rtc_start_def
        terminals.defs sample_terminal_def)
  have "can_execute exec_frame 0x600000 [97, 32, 98] 0 exec_start"
    using exec_command exec_lookup exec_frame_ok exec_file(3) by (simp add: can_execute_def)
  then have ex: "can_execute exec_frame 0x600000 [97, 32, 98] 0 ?s"
    using can_execute_same(1) [of ?s exec_start] by simp
  have run: "runs_scheduled ?s" using exec_terminals(2) others by (auto simp: runs_scheduled_def u8_less_3)
  have f: "ucast (fst (inb 0x60 ?s)) = (1 :: u8)" by (simp add: inb_def)
  have e: "entry_point (content ?s (entry_inode ?s (of_nat 0))) = 0x08048094"
    using can_execute_same(2) [of ?s exec_start 0] filesys_view(1) [of ?s exec_start] exec_file(4) exec_lookup(2) by simp
  show "\<exists>v. handle_keyboard_interrupt exec_frame 0x600000 ?s = Some (EnterUser 0x08048094 USER_ESP USER_CS USER_DS v) \<and> current_pid v = 0"
    using escape_ends_scheduled [OF f run, where fr = exec_frame and sh = "0x600000" and str = "[97, 32, 98]" and k = 0] ex unfolding e by auto
  let ?t = "modify_terminal_curr_pid 3 (exec_start\<lparr>dev := \<lambda>_ _. 1, current_pid := 3\<rparr>)"
  have g: "ucast (fst (inb 0x60 ?t)) = (1 :: u8)" by (simp add: inb_def modify_terminal_curr_pid_def)
  have run: "runs_scheduled ?t"
    using exec_terminals(1) others by (auto simp: runs_scheduled_def u8_less_3 modify_terminal_curr_pid_def upd_terminal_def)
  show "\<exists>v. handle_keyboard_interrupt exec_frame 0 ?t = Some (Resume 0 0 v) \<and> pid_flag (pidlist v 3) = 0 \<and> current_pid v = 0"
  proof -
    have p: "current_pid ?t = 3" by (simp add: modify_terminal_curr_pid_def)
    have q: "pcbs ?t = (\<lambda>_. sample_pcb)" by (simp add: modify_terminal_curr_pid_def exec_start_def set_current_flag_def)
    show ?thesis
      using escape_ends_scheduled [OF g run, where fr = exec_frame and sh = 0 and str = "[]" and k = 0]
      unfolding p q by (auto simp: sample_pcb_def)
  qed
qed

end
