(* ===== verification/Idt.thy ===== *)
theory Idt
  imports Keyboard
begin

text \<open>
  The descriptor tables: the gates of the interrupt descriptor table (student-distrib/IDT.c, IDT.h),
  the segment descriptors that the kernel computes at boot (the types and macros of x86_desc.h), and
  the reading the processor gives to the eight bytes of a gate.

  A bit field of width \<open>w\<close> is a word of width \<open>w\<close>. The addresses that the linker gives to the
  handlers and tables are the parameter \<open>symbols\<close>.
\<close>

section \<open>Entries and tables\<close>

datatype handler =
    divide_error_handler | debug_handler | nmi_intr_handler | int3_handler | overflow_handler
  | bound_range_handler | invalid_opcode_handler | device_not_aval_handler | double_fault_handler
  | coprocessor_seg_overrun_handler | invalid_tss_handler | segment_not_present_handler
  | stack_fault_handler | general_protection_handler | page_fault_handler
  | floating_point_error_handler | alignment_check_handler | machine_check_handler
  | simd_floating_point_handler | kbd_handler | rtc_handler | mouse_handler | pit_handler
  | syscall_handler

record symbols =
  handler_addr :: "handler \<Rightarrow> u32"
  idt_addr :: u32
  ldt_addr :: u32
  tss_addr :: u32

record idt_desc_t =
  offset_15_00 :: u16
  seg_selector :: u16
  reserved4 :: u8
  reserved3 :: "1 word"
  reserved2 :: "1 word"
  reserved1 :: "1 word"
  gate_size :: "1 word"
  reserved0 :: "1 word"
  gate_dpl :: "2 word"
  gate_present :: "1 word"
  offset_31_16 :: u16

record seg_desc =
  seg_lim_15_00 :: u16
  base_15_00 :: u16
  base_23_16 :: u8
  seg_type :: "4 word"
  seg_sys :: "1 word"
  seg_dpl :: "2 word"
  seg_present :: "1 word"
  seg_lim_19_16 :: "4 word"
  seg_avail :: "1 word"
  seg_reserved :: "1 word"
  seg_opsize :: "1 word"
  seg_granularity :: "1 word"
  base_31_24 :: u8

text \<open>The tables that the boot code fills, and the registers that point to them.\<close>

record tables_state = rtc +
  idt :: "u8 \<Rightarrow> idt_desc_t"
  idtr :: u32
  ldt_desc_ptr :: seg_desc
  tss_desc_ptr :: seg_desc
  ldtr :: u16
  task_register :: u16

definition KERNEL_CS :: u16 where "KERNEL_CS = 0x10"

definition KERNEL_TSS :: u16 where "KERNEL_TSS = 0x30"

definition KERNEL_LDT :: u16 where "KERNEL_LDT = 0x38"

definition zero_gate :: idt_desc_t where
  "zero_gate = \<lparr>offset_15_00 = 0, seg_selector = 0, reserved4 = 0, reserved3 = 0, reserved2 = 0, reserved1 = 0,
     gate_size = 0, reserved0 = 0, gate_dpl = 0, gate_present = 0, offset_31_16 = 0\<rparr>"

definition SET_IDT_ENTRY :: "u32 \<Rightarrow> idt_desc_t \<Rightarrow> idt_desc_t" where
  "SET_IDT_ENTRY h d = d\<lparr>offset_31_16 := ucast (drop_bit 16 (h AND 0xFFFF0000)), offset_15_00 := ucast (h AND 0xFFFF)\<rparr>"

definition set_handler :: "symbols \<Rightarrow> u8 \<Rightarrow> handler \<Rightarrow> 'a tables_state_scheme \<Rightarrow> 'a tables_state_scheme" where
  "set_handler lk v h s = s\<lparr>idt := (idt s)(v := SET_IDT_ENTRY (handler_addr lk h) (idt s v))\<rparr>"

text \<open>The nine assignments that each gate gets: only \<open>reserved3\<close> and \<open>dpl\<close> differ.\<close>

definition gate_fields :: "1 word \<Rightarrow> 2 word \<Rightarrow> idt_desc_t \<Rightarrow> idt_desc_t" where
  "gate_fields r3 dpl d = d\<lparr>seg_selector := KERNEL_CS, reserved4 := 0, reserved3 := r3, reserved2 := 1, reserved1 := 1,
     gate_size := 1, reserved0 := 0, gate_dpl := dpl, gate_present := 1\<rparr>"

definition set_gate :: "1 word \<Rightarrow> 2 word \<Rightarrow> u8 \<Rightarrow> 'a tables_state_scheme \<Rightarrow> 'a tables_state_scheme" where
  "set_gate r3 dpl v s = s\<lparr>idt := (idt s)(v := gate_fields r3 dpl (idt s v))\<rparr>"

definition exception_entries :: "(u8 \<times> handler) list" where
  "exception_entries = [(0, divide_error_handler), (1, debug_handler), (2, nmi_intr_handler), (3, int3_handler),
     (4, overflow_handler), (5, bound_range_handler), (6, invalid_opcode_handler), (7, device_not_aval_handler),
     (8, double_fault_handler), (9, coprocessor_seg_overrun_handler), (10, invalid_tss_handler),
     (11, segment_not_present_handler), (12, stack_fault_handler), (13, general_protection_handler),
     (14, page_fault_handler), (16, floating_point_error_handler), (17, alignment_check_handler),
     (18, machine_check_handler), (19, simd_floating_point_handler)]"

definition init_idt :: "symbols \<Rightarrow> 'a tables_state_scheme \<Rightarrow> 'a tables_state_scheme" where
  "init_idt lk s =
     (let s = fold (\<lambda>(v, h). set_handler lk v h) exception_entries s;
          s = fold (\<lambda>i. set_gate 1 0 (of_nat i)) [0..<0x20] s;
          s = set_gate 0 0 0x21 (set_handler lk 0x21 kbd_handler s);
          s = set_gate 0 0 0x28 (set_handler lk 0x28 rtc_handler s);
          s = set_gate 0 0 0x2C (set_handler lk 0x2C mouse_handler s);
          s = set_gate 0 0 0x20 (set_handler lk 0x20 pit_handler s);
          s = set_gate 0 3 0x80 (set_handler lk 0x80 syscall_handler s)
      in s\<lparr>idtr := idt_addr lk\<rparr>)"

text \<open>\<open>SET_LDT_PARAMS\<close> and \<open>SET_TSS_PARAMS\<close> have the same body.\<close>

definition SET_LDT_PARAMS :: "u32 \<Rightarrow> u32 \<Rightarrow> seg_desc \<Rightarrow> seg_desc" where
  "SET_LDT_PARAMS addr lim d = d\<lparr>base_31_24 := ucast (drop_bit 24 (addr AND 0xFF000000)),
     base_23_16 := ucast (drop_bit 16 (addr AND 0x00FF0000)), base_15_00 := ucast (addr AND 0xFFFF),
     seg_lim_19_16 := ucast (drop_bit 16 (lim AND 0x000F0000)), seg_lim_15_00 := ucast (lim AND 0xFFFF)\<rparr>"

definition SET_TSS_PARAMS :: "u32 \<Rightarrow> u32 \<Rightarrow> seg_desc \<Rightarrow> seg_desc" where
  "SET_TSS_PARAMS addr lim d = d\<lparr>base_31_24 := ucast (drop_bit 24 (addr AND 0xFF000000)),
     base_23_16 := ucast (drop_bit 16 (addr AND 0x00FF0000)), base_15_00 := ucast (addr AND 0xFFFF),
     seg_lim_19_16 := ucast (drop_bit 16 (lim AND 0x000F0000)), seg_lim_15_00 := ucast (lim AND 0xFFFF)\<rparr>"

section \<open>The processor's view\<close>

text \<open>The eight bytes of an entry, as the packed structures lay them out.\<close>

definition gate_word :: "idt_desc_t \<Rightarrow> 64 word" where
  "gate_word d = ucast (offset_15_00 d) OR push_bit 16 (ucast (seg_selector d)) OR push_bit 32 (ucast (reserved4 d))
     OR push_bit 40 (ucast (reserved3 d)) OR push_bit 41 (ucast (reserved2 d)) OR push_bit 42 (ucast (reserved1 d))
     OR push_bit 43 (ucast (gate_size d)) OR push_bit 44 (ucast (reserved0 d)) OR push_bit 45 (ucast (gate_dpl d))
     OR push_bit 47 (ucast (gate_present d)) OR push_bit 48 (ucast (offset_31_16 d))"

definition seg_word :: "seg_desc \<Rightarrow> 64 word" where
  "seg_word d = ucast (seg_lim_15_00 d) OR push_bit 16 (ucast (base_15_00 d)) OR push_bit 32 (ucast (base_23_16 d))
     OR push_bit 40 (ucast (seg_type d)) OR push_bit 44 (ucast (seg_sys d)) OR push_bit 45 (ucast (seg_dpl d))
     OR push_bit 47 (ucast (seg_present d)) OR push_bit 48 (ucast (seg_lim_19_16 d)) OR push_bit 52 (ucast (seg_avail d))
     OR push_bit 53 (ucast (seg_reserved d)) OR push_bit 54 (ucast (seg_opsize d)) OR push_bit 55 (ucast (seg_granularity d))
     OR push_bit 56 (ucast (base_31_24 d))"

text \<open>
  A present 32-bit gate has type 14 or 15 in bits 40 to 44; an interrupt gate (14) also clears the
  interrupt flag. Software may raise a vector only with a privilege level of at most the gate's.
\<close>

datatype gate_kind = Interrupt_Gate | Trap_Gate

datatype gate = Gate (kind: gate_kind) (selector: u16) (offset: u32) (level: "2 word")

definition cpu_gate :: "64 word \<Rightarrow> gate option" where
  "cpu_gate w =
     (let off = ucast (take_bit 16 w) OR push_bit 16 (ucast (drop_bit 48 w)); sel = ucast (drop_bit 16 w);
          dpl = ucast (drop_bit 45 w); ty = take_bit 5 (drop_bit 40 w)
      in if \<not> bit w 47 then None
         else if ty = 14 then Some (Gate Interrupt_Gate sel off dpl)
         else if ty = 15 then Some (Gate Trap_Gate sel off dpl) else None)"

definition software_int :: "2 word \<Rightarrow> (u8 \<Rightarrow> idt_desc_t) \<Rightarrow> u8 \<Rightarrow> u32 option" where
  "software_int cpl tab v = (case cpu_gate (gate_word (tab v)) of
     Some g \<Rightarrow> if cpl \<le> level g then Some (offset g) else None | None \<Rightarrow> None)"

definition seg_base :: "64 word \<Rightarrow> u32" where
  "seg_base w = ucast (take_bit 24 (drop_bit 16 w)) OR push_bit 24 (ucast (drop_bit 56 w))"

definition seg_limit :: "64 word \<Rightarrow> u32" where
  "seg_limit w = ucast (take_bit 16 w) OR push_bit 16 (take_bit 4 (ucast (drop_bit 48 w)))"

text \<open>The vector of each handler, as IDT.h numbers them.\<close>

primrec vector_of :: "handler \<Rightarrow> u8" where
  "vector_of divide_error_handler = 0"
| "vector_of debug_handler = 1"
| "vector_of nmi_intr_handler = 2"
| "vector_of int3_handler = 3"
| "vector_of overflow_handler = 4"
| "vector_of bound_range_handler = 5"
| "vector_of invalid_opcode_handler = 6"
| "vector_of device_not_aval_handler = 7"
| "vector_of double_fault_handler = 8"
| "vector_of coprocessor_seg_overrun_handler = 9"
| "vector_of invalid_tss_handler = 10"
| "vector_of segment_not_present_handler = 11"
| "vector_of stack_fault_handler = 12"
| "vector_of general_protection_handler = 13"
| "vector_of page_fault_handler = 14"
| "vector_of floating_point_error_handler = 16"
| "vector_of alignment_check_handler = 17"
| "vector_of machine_check_handler = 18"
| "vector_of simd_floating_point_handler = 19"
| "vector_of pit_handler = 0x20"
| "vector_of mouse_handler = 0x2C"
| "vector_of kbd_handler = 0x21"
| "vector_of rtc_handler = 0x28"
| "vector_of syscall_handler = 0x80"

definition is_exception :: "handler \<Rightarrow> bool" where
  "is_exception h \<longleftrightarrow> vector_of h < 0x20"

section \<open>Decoding\<close>

lemma not_bit_beyond:
  fixes w1 :: "1 word" and w2 :: "2 word" and w4 :: "4 word" and w8 :: u8 and w16 :: u16
  shows "1 \<le> n \<Longrightarrow> \<not> bit w1 n" "2 \<le> n \<Longrightarrow> \<not> bit w2 n" "4 \<le> n \<Longrightarrow> \<not> bit w4 n" "8 \<le> n \<Longrightarrow> \<not> bit w8 n" "16 \<le> n \<Longrightarrow> \<not> bit w16 n"
  by (auto dest: bit_imp_le_length)

lemma bit_cat:
  fixes a :: "64 word"
  assumes "\<And>n. k \<le> n \<Longrightarrow> \<not> bit a n"
  shows "bit (a OR push_bit k b) n \<longleftrightarrow> (if n < k then bit a n else n < 64 \<and> bit b (n - k))"
  using assms [of n] by (auto simp: bit_simps)

lemma bit_gate_word:
  "bit (gate_word d) n \<longleftrightarrow>
     (if n < 16 then bit (offset_15_00 d) n else if n < 32 then bit (seg_selector d) (n - 16)
      else if n < 40 then bit (reserved4 d) (n - 32) else if n = 40 then bit (reserved3 d) 0
      else if n = 41 then bit (reserved2 d) 0 else if n = 42 then bit (reserved1 d) 0
      else if n = 43 then bit (gate_size d) 0 else if n = 44 then bit (reserved0 d) 0
      else if n < 47 then bit (gate_dpl d) (n - 45) else if n = 47 then bit (gate_present d) 0
      else n < 64 \<and> bit (offset_31_16 d) (n - 48))"
proof -
  have e: "n - 40 = 0 \<longleftrightarrow> n \<le> 40" by arith
  consider "n < 16" | "16 \<le> n" "n < 32" | "32 \<le> n" "n < 40" | "n = 40" | "n = 41" | "n = 42" | "n = 43" | "n = 44"
    | "n = 45" | "n = 46" | "n = 47" | "48 \<le> n" by linarith
  then show ?thesis
    by cases (auto simp: gate_word_def bit_or_iff bit_push_bit_iff bit_ucast_iff not_bit_beyond dest: bit_imp_le_length)
qed

lemma low_mask: "(h :: u32) AND 0xFFFF = take_bit 16 h" "drop_bit 16 (h AND 0xFFFF0000) = drop_bit 16 h"
proof -
  have m: "(0xFFFF :: u32) = mask 16" "(0xFFFF0000 :: u32) = push_bit 16 (mask 16)" by (simp_all add: mask_eq_exp_minus_1)
  show "h AND 0xFFFF = take_bit 16 h" by (simp only: m take_bit_eq_mask)
  show "drop_bit 16 (h AND 0xFFFF0000) = drop_bit 16 h"
    unfolding m by (rule bit_word_eqI) (auto simp: bit_simps dest: bit_imp_le_length)
qed

lemma set_handler_split: "ucast (offset_15_00 (SET_IDT_ENTRY h d)) OR push_bit 16 (ucast (offset_31_16 (SET_IDT_ENTRY h d))) = h"
  unfolding SET_IDT_ENTRY_def low_mask by (rule bit_word_eqI) (auto simp: bit_simps)

lemma word_bits_eq: "(a :: 'a :: len word) = b \<longleftrightarrow> (\<forall>n < LENGTH('a). bit a n = bit b n)"
  by (auto intro: bit_word_eqI)

lemma word1_zero_iff: "(w :: 1 word) = 0 \<longleftrightarrow> \<not> bit w 0"
  by (simp add: word_bits_eq)

lemma take_bit_eq_iff: "take_bit k (a :: 'a :: len word) = take_bit k b \<longleftrightarrow> (\<forall>n < k. bit a n = bit b n)"
proof
  assume e: "take_bit k a = take_bit k b"
  show "\<forall>n < k. bit a n = bit b n"
  proof (intro allI impI)
    fix n assume "n < k"
    then show "bit a n = bit b n" using arg_cong [OF e, of "\<lambda>w. bit w n"] by (simp add: bit_take_bit_iff)
  qed
qed (auto intro!: bit_word_eqI simp: bit_take_bit_iff)

lemma five_bits:
  "take_bit 5 (a :: 64 word) = take_bit 5 c \<longleftrightarrow>
     (bit a 0 = bit c 0 \<and> bit a 1 = bit c 1 \<and> bit a 2 = bit c 2 \<and> bit a 3 = bit c 3 \<and> bit a 4 = bit c 4)"
proof -
  have "n < 5 \<longleftrightarrow> n = 0 \<or> n = 1 \<or> n = 2 \<or> n = 3 \<or> n = 4" for n :: nat by arith
  then show ?thesis unfolding take_bit_eq_iff by auto
qed

lemma cpu_gate_word:
  "cpu_gate (gate_word d) = (if gate_present d = 0 \<or> reserved0 d \<noteq> 0 \<or> gate_size d = 0 \<or> reserved1 d = 0 \<or> reserved2 d = 0 then None
     else Some (Gate (if reserved3 d = 0 then Interrupt_Gate else Trap_Gate) (seg_selector d)
       (ucast (offset_15_00 d) OR push_bit 16 (ucast (offset_31_16 d))) (gate_dpl d)))"
proof -
  let ?w = "gate_word d"
  have off: "ucast (take_bit 16 ?w) OR push_bit 16 (ucast (drop_bit 48 ?w)) = (ucast (offset_15_00 d) OR push_bit 16 (ucast (offset_31_16 d)) :: u32)"
    by (rule bit_word_eqI) (auto simp: bit_gate_word bit_or_iff bit_push_bit_iff bit_ucast_iff bit_take_bit_iff bit_drop_bit_eq not_bit_beyond)
  have sel: "ucast (drop_bit 16 ?w) = seg_selector d"
    by (rule bit_word_eqI) (simp add: bit_gate_word bit_ucast_iff bit_drop_bit_eq)
  have dpl: "ucast (drop_bit 45 ?w) = gate_dpl d"
    by (rule bit_word_eqI) (simp add: bit_gate_word bit_ucast_iff bit_drop_bit_eq)
  have t: "take_bit 5 (drop_bit 40 ?w) = 14 \<longleftrightarrow> (reserved3 d = 0 \<and> reserved2 d \<noteq> 0 \<and> reserved1 d \<noteq> 0 \<and> gate_size d \<noteq> 0 \<and> reserved0 d = 0)"
    "take_bit 5 (drop_bit 40 ?w) = 15 \<longleftrightarrow> (reserved3 d \<noteq> 0 \<and> reserved2 d \<noteq> 0 \<and> reserved1 d \<noteq> 0 \<and> gate_size d \<noteq> 0 \<and> reserved0 d = 0)"
    using five_bits [of "drop_bit 40 ?w" 14] five_bits [of "drop_bit 40 ?w" 15]
    by (simp_all add: bit_drop_bit_eq bit_gate_word word1_zero_iff)
  show ?thesis unfolding cpu_gate_def Let_def off sel dpl t by (simp add: bit_gate_word word1_zero_iff)
qed

section \<open>The table after initialisation\<close>

lemma idt_set [simp]:
  "idt (set_handler lk v h s) = (idt s)(v := SET_IDT_ENTRY (handler_addr lk h) (idt s v))"
  "idt (set_gate r3 dpl v s) = (idt s)(v := gate_fields r3 dpl (idt s v))"
  by (simp_all add: set_handler_def set_gate_def)

lemma idt_set_handlers:
  "distinct (map fst es) \<Longrightarrow> idt (fold (\<lambda>(v, h). set_handler lk v h) es s) v
     = (case map_of es v of None \<Rightarrow> idt s v | Some h \<Rightarrow> SET_IDT_ENTRY (handler_addr lk h) (idt s v))"
proof (induction es arbitrary: s)
  case (Cons e es)
  then show ?case by (cases e) (force split: option.split dest: map_of_SomeD)
qed simp

lemma idt_set_gates:
  "n \<le> 256 \<Longrightarrow> idt (fold (\<lambda>i. set_gate r3 dpl (of_nat i)) [0..<n] s) v
     = (if unat v < n then gate_fields r3 dpl (idt s v) else idt s v)"
proof (induction n)
  case (Suc n)
  have "unat (of_nat n :: u8) = n" using Suc.prems by (simp add: unat_of_nat take_bit_eq_mod)
  then have "v = of_nat n \<longleftrightarrow> unat v = n" by (metis word_unat_eq_iff)
  then show ?case using Suc by auto
qed simp

text \<open>The whole table: the vectors that get a handler, and the other exception vectors.\<close>

lemma idt_init_idt:
  "idt (init_idt lk s) v =
     (if unat v < 0x20 then gate_fields 1 0 (case map_of exception_entries v of None \<Rightarrow> idt s v
         | Some h \<Rightarrow> SET_IDT_ENTRY (handler_addr lk h) (idt s v))
      else if v = 0x21 then gate_fields 0 0 (SET_IDT_ENTRY (handler_addr lk kbd_handler) (idt s v))
      else if v = 0x28 then gate_fields 0 0 (SET_IDT_ENTRY (handler_addr lk rtc_handler) (idt s v))
      else if v = 0x2C then gate_fields 0 0 (SET_IDT_ENTRY (handler_addr lk mouse_handler) (idt s v))
      else if v = 0x20 then gate_fields 0 0 (SET_IDT_ENTRY (handler_addr lk pit_handler) (idt s v))
      else if v = 0x80 then gate_fields 0 3 (SET_IDT_ENTRY (handler_addr lk syscall_handler) (idt s v))
      else idt s v)"
proof -
  have d: "distinct (map fst exception_entries)" by (simp add: exception_entries_def)
  have n: "map_of exception_entries v = None" if "\<not> unat v < 0x20"
    using that by (auto simp: exception_entries_def)
  have n5: "map_of exception_entries 0x20 = None" "map_of exception_entries 0x21 = None" "map_of exception_entries 0x28 = None"
    "map_of exception_entries 0x2C = None" "map_of exception_entries 0x80 = None" by (simp_all add: exception_entries_def)
  show ?thesis
    unfolding init_idt_def Let_def by (auto simp: idt_set_gates idt_set_handlers [OF d] n n5)
qed

lemma exception_entries_vector: "(v, h) \<in> set exception_entries \<Longrightarrow> vector_of h = v"
  by (auto simp: exception_entries_def)

lemma map_of_exception: "is_exception h \<Longrightarrow> map_of exception_entries (vector_of h) = Some h"
  by (cases h) (simp_all add: exception_entries_def is_exception_def)

lemma cpu_gate_fields [simp]:
  "cpu_gate (gate_word (gate_fields r3 dpl d)) = Some (Gate (if r3 = 0 then Interrupt_Gate else Trap_Gate) KERNEL_CS
     (ucast (offset_15_00 d) OR push_bit 16 (ucast (offset_31_16 d))) dpl)"
  by (simp add: cpu_gate_word gate_fields_def)

lemma gate_of_handler:
  "cpu_gate (gate_word (idt (init_idt lk s) (vector_of h)))
     = Some (Gate (if is_exception h then Trap_Gate else Interrupt_Gate) KERNEL_CS (handler_addr lk h)
         (if h = syscall_handler then 3 else 0))"
proof (cases "is_exception h")
  case True
  then have "unat (vector_of h) < 0x20" by (simp add: is_exception_def word_less_nat_alt)
  then show ?thesis using map_of_exception [OF True] True by (auto simp: idt_init_idt set_handler_split is_exception_def)
next
  case False
  then show ?thesis by (cases h) (simp_all add: is_exception_def idt_init_idt set_handler_split)
qed

text \<open>The vectors that get a gate without a handler.\<close>

definition reserved_vector :: "u8 \<Rightarrow> bool" where
  "reserved_vector v \<longleftrightarrow> v = 15 \<or> 20 \<le> v \<and> v < 0x20"

lemma gate_of_reserved:
  assumes "reserved_vector v" "idt s v = zero_gate"
  shows "cpu_gate (gate_word (idt (init_idt lk s) v)) = Some (Gate Trap_Gate KERNEL_CS 0 0)"
proof -
  have "v \<notin> {0,1,2,3,4,5,6,7,8,9,10,11,12,13,14,16,17,18,19}"
    using assms(1) unfolding reserved_vector_def by (auto simp: word_le_nat_alt)
  then have "map_of exception_entries v = None" by (simp add: exception_entries_def)
  moreover have "unat v < 0x20" using assms(1) by (auto simp: reserved_vector_def word_less_nat_alt)
  ultimately show ?thesis using assms(2) by (auto simp: idt_init_idt zero_gate_def)
qed

lemma vector_cases: "(\<exists>h. v = vector_of h) \<or> reserved_vector v \<or> (unat v \<ge> 0x20 \<and> v \<notin> {0x20, 0x21, 0x28, 0x2C, 0x80})"
proof (cases "unat v < 0x20")
  case True
  show ?thesis
  proof (cases "map_of exception_entries v")
    case None
    then have "v \<notin> fst ` set exception_entries" by (simp add: map_of_eq_None_iff)
    then have "\<forall>k \<in> {0,1,2,3,4,5,6,7,8,9,10,11,12,13,14,16,17,18,19}. v \<noteq> k" by (simp add: exception_entries_def)
    then have "reserved_vector v" using True unfolding reserved_vector_def by simp unat_arith
    then show ?thesis by simp
  next
    case (Some h)
    then have "vector_of h = v" using exception_entries_vector map_of_SomeD by fast
    then show ?thesis by metis
  qed
next
  case False
  then show ?thesis using vector_of.simps(20-24) by (metis insertE singletonD not_le)
qed

section \<open>Segment descriptors\<close>

lemma bit_seg_word:
  "bit (seg_word d) n \<longleftrightarrow>
     (if n < 16 then bit (seg_lim_15_00 d) n else if n < 32 then bit (base_15_00 d) (n - 16)
      else if n < 40 then bit (base_23_16 d) (n - 32) else if n < 44 then bit (seg_type d) (n - 40)
      else if n = 44 then bit (seg_sys d) 0 else if n < 47 then bit (seg_dpl d) (n - 45)
      else if n = 47 then bit (seg_present d) 0 else if n < 52 then bit (seg_lim_19_16 d) (n - 48)
      else if n = 52 then bit (seg_avail d) 0 else if n = 53 then bit (seg_reserved d) 0
      else if n = 54 then bit (seg_opsize d) 0 else if n = 55 then bit (seg_granularity d) 0
      else n < 64 \<and> bit (base_31_24 d) (n - 56))"
proof -
  consider "n < 16" | "16 \<le> n" "n < 32" | "32 \<le> n" "n < 40" | "40 \<le> n" "n < 44" | "n = 44" | "n = 45" | "n = 46" | "n = 47"
    | "48 \<le> n" "n < 52" | "n = 52" | "n = 53" | "n = 54" | "n = 55" | "56 \<le> n" by linarith
  then show ?thesis
    by cases (auto simp: seg_word_def bit_or_iff bit_push_bit_iff bit_ucast_iff not_bit_beyond dest: bit_imp_le_length)
qed

lemma seg_base_word:
  "seg_base (seg_word d) = ucast (base_15_00 d) OR push_bit 16 (ucast (base_23_16 d)) OR push_bit 24 (ucast (base_31_24 d))"
  unfolding seg_base_def
  by (rule bit_word_eqI) (auto simp: bit_seg_word bit_or_iff bit_push_bit_iff bit_ucast_iff bit_take_bit_iff bit_drop_bit_eq not_bit_beyond)

lemma seg_limit_word: "seg_limit (seg_word d) = ucast (seg_lim_15_00 d) OR push_bit 16 (ucast (seg_lim_19_16 d))"
  unfolding seg_limit_def
  by (rule bit_word_eqI) (auto simp: bit_seg_word bit_or_iff bit_push_bit_iff bit_ucast_iff bit_take_bit_iff bit_drop_bit_eq not_bit_beyond)

lemma field_masks:
  fixes h :: u32
  shows "drop_bit 24 (h AND 0xFF000000) = drop_bit 24 h" "drop_bit 16 (h AND 0x00FF0000) = take_bit 8 (drop_bit 16 h)"
    "drop_bit 16 (h AND 0x000F0000) = take_bit 4 (drop_bit 16 h)"
proof -
  have m: "(0xFF000000 :: u32) = push_bit 24 (mask 8)" "(0x00FF0000 :: u32) = push_bit 16 (mask 8)"
    "(0x000F0000 :: u32) = push_bit 16 (mask 4)" by (simp_all add: mask_eq_exp_minus_1)
  show "drop_bit 24 (h AND 0xFF000000) = drop_bit 24 h" "drop_bit 16 (h AND 0x00FF0000) = take_bit 8 (drop_bit 16 h)"
    "drop_bit 16 (h AND 0x000F0000) = take_bit 4 (drop_bit 16 h)"
    unfolding m by (rule bit_word_eqI, auto simp: bit_simps dest: bit_imp_le_length)+
qed

lemma join_base:
  fixes addr :: u32
  shows "ucast (ucast (take_bit 16 addr) :: u16) OR push_bit 16 (ucast (ucast (take_bit 8 (drop_bit 16 addr)) :: u8))
    OR push_bit 24 (ucast (ucast (drop_bit 24 addr) :: u8)) = addr"
proof (rule bit_word_eqI)
  fix n :: nat assume n: "n < LENGTH(32)"
  consider "n < 16" | "16 \<le> n" "n < 24" | "24 \<le> n" by linarith
  then show "bit (ucast (ucast (take_bit 16 addr) :: u16) OR push_bit 16 (ucast (ucast (take_bit 8 (drop_bit 16 addr)) :: u8))
    OR push_bit 24 (ucast (ucast (drop_bit 24 addr) :: u8)) :: u32) n = bit addr n"
    using n by cases (auto simp: bit_or_iff bit_push_bit_iff bit_ucast_iff bit_take_bit_iff bit_drop_bit_eq)
qed

lemma params_fields:
  "base_15_00 (SET_LDT_PARAMS addr lim d) = ucast (take_bit 16 addr)"
  "base_23_16 (SET_LDT_PARAMS addr lim d) = ucast (take_bit 8 (drop_bit 16 addr))"
  "base_31_24 (SET_LDT_PARAMS addr lim d) = ucast (drop_bit 24 addr)"
  "seg_lim_15_00 (SET_LDT_PARAMS addr lim d) = ucast (take_bit 16 lim)"
  "seg_lim_19_16 (SET_LDT_PARAMS addr lim d) = ucast (take_bit 4 (drop_bit 16 lim))"
  unfolding SET_LDT_PARAMS_def low_mask field_masks by (cases d; simp)+

lemma seg_base_params: "seg_base (seg_word (SET_LDT_PARAMS addr lim d)) = addr"
  unfolding seg_base_word params_fields by (rule join_base)

lemma seg_limit_params: "seg_limit (seg_word (SET_LDT_PARAMS addr lim d)) = take_bit 20 lim"
  unfolding seg_limit_word params_fields
  by (rule bit_word_eqI) (auto simp: bit_simps not_bit_beyond)

lemma SET_TSS_PARAMS_eq: "SET_TSS_PARAMS = SET_LDT_PARAMS"
  by (intro ext) (simp add: SET_TSS_PARAMS_def SET_LDT_PARAMS_def)

section \<open>Properties\<close>

text \<open>The state before the tables are set up, of a small machine.\<close>

definition zero_seg :: seg_desc where
  "zero_seg = \<lparr>seg_lim_15_00 = 0, base_15_00 = 0, base_23_16 = 0, seg_type = 0, seg_sys = 0, seg_dpl = 0, seg_present = 0,
     seg_lim_19_16 = 0, seg_avail = 0, seg_reserved = 0, seg_opsize = 0, seg_granularity = 0, base_31_24 = 0\<rparr>"

definition tables_start :: tables_state where
  "tables_start = rtc.extend rtc_start \<lparr>idt = \<lambda>_. zero_gate, idtr = 0, ldt_desc_ptr = zero_seg, tss_desc_ptr = zero_seg,
     ldtr = 0, task_register = 0\<rparr>"

definition sample_symbols :: symbols where
  "sample_symbols = \<lparr>handler_addr = \<lambda>h. 0x401000 + 0x20 * ucast (vector_of h), idt_addr = 0x406000, ldt_addr = 0x407000,
     tss_addr = 0x408000\<rparr>"

text \<open>
  After \<open>init_idt\<close> the processor finds, for the vector of each handler, a present gate to the
  kernel's code segment and exactly the address of that handler: trap gates for the exceptions,
  interrupt gates for the devices and the system call, of privilege 3 for the system call only.
\<close>

theorem idt_dispatch:
  "cpu_gate (gate_word (idt (init_idt lk s) (vector_of h)))
     = Some (Gate (if is_exception h then Trap_Gate else Interrupt_Gate) KERNEL_CS (handler_addr lk h)
         (if h = syscall_handler then 3 else 0)) \<and> idtr (init_idt lk s) = idt_addr lk"
proof
  show "idtr (init_idt lk s) = idt_addr lk" by (simp add: init_idt_def)
qed (rule gate_of_handler)

text \<open>
  C31: from the zeroed table of the kernel image, a user program can raise one vector only, 0x80, and
  then runs the system call handler; every other \<open>INT\<close> is refused.
\<close>

theorem user_interrupts:
  assumes "\<forall>v. idt s v = zero_gate"
  shows "software_int 3 (idt (init_idt lk s)) v = (if v = 0x80 then Some (handler_addr lk syscall_handler) else None)"
proof -
  have z: "cpu_gate (gate_word (idt (init_idt lk s) v)) = None" if "unat v \<ge> 0x20" "v \<notin> {0x20, 0x21, 0x28, 0x2C, 0x80}"
    using that assms by (auto simp: idt_init_idt cpu_gate_word zero_gate_def)
  consider h where "v = vector_of h" | "reserved_vector v" | "unat v \<ge> 0x20 \<and> v \<notin> {0x20, 0x21, 0x28, 0x2C, 0x80}"
    using vector_cases by blast
  then show ?thesis
  proof cases
    case 1
    have "v = 0x80 \<longleftrightarrow> h = syscall_handler" unfolding 1 by (cases h) simp_all
    then show ?thesis using gate_of_handler [of lk s h] by (auto simp: software_int_def 1)
  next
    case 2
    then show ?thesis using gate_of_reserved [of v s lk] assms by (auto simp: software_int_def reserved_vector_def)
  next
    case 3
    then show ?thesis using z by (simp add: software_int_def)
  qed
qed

theorem user_interrupts_witness:
  "software_int 3 (idt (init_idt sample_symbols tables_start)) 0x80 = Some 0x402000
   \<and> software_int 3 (idt (init_idt sample_symbols tables_start)) 0x0E = None"
  using user_interrupts [of tables_start sample_symbols] by (simp add: tables_start_def rtc.defs sample_symbols_def)

text \<open>
  The vectors 15 and 20 to 31 get a present trap gate as well, but no handler: raising one of
  them makes the kernel jump to the address 0.
\<close>

theorem reserved_vectors_null:
  assumes "v = 15 \<or> 20 \<le> v \<and> v < 0x20" "idt s v = zero_gate"
  shows "cpu_gate (gate_word (idt (init_idt lk s) v)) = Some (Gate Trap_Gate KERNEL_CS 0 0)"
  using gate_of_reserved assms by (simp add: reserved_vector_def)

theorem reserved_vectors_null_witness:
  "cpu_gate (gate_word (idt (init_idt sample_symbols tables_start) 20)) = Some (Gate Trap_Gate KERNEL_CS 0 0)"
  using reserved_vectors_null [of 20 tables_start sample_symbols] by (simp add: tables_start_def rtc.defs)

text \<open>
  The base that \<open>SET_LDT_PARAMS\<close> and \<open>SET_TSS_PARAMS\<close> spread over three fields of a descriptor
  is read back by the processor unchanged, and the limit modulo the 20 bits it has.
\<close>

theorem segment_params_roundtrip:
  "seg_base (seg_word (SET_LDT_PARAMS addr lim d)) = addr \<and> seg_limit (seg_word (SET_LDT_PARAMS addr lim d)) = take_bit 20 lim
   \<and> SET_TSS_PARAMS addr lim d = SET_LDT_PARAMS addr lim d"
  by (simp add: seg_base_params seg_limit_params SET_TSS_PARAMS_eq)

end
