(* ===== verification/Trap.thy ===== *)
theory Trap
  imports Idt
begin

text \<open>
  The exception handlers of student-distrib/trap.c and their entry code in trap_wrapper.S. Each
  prints the name of the exception and its vector and then spins (\<open>while(1);\<close>): it does not return,
  and the machine goes on with the interrupts that are let through in the state it spins in.

  The epilogue of the entry code (\<open>popfl\<close>, \<open>popal\<close>, \<open>sti\<close>, \<open>iret\<close>) is never reached.
\<close>

datatype 's spin = Spins (spinning: 's)

definition text_line :: "string \<Rightarrow> u8 list" where
  "text_line str = map of_char str @ [10]"

text \<open>
  A call of \<open>printf\<close> with its arguments on the stack. \<open>printf_renders\<close> gives what the call types;
  the bytes of the conversion buffers that it leaves on the stack are not kept.
\<close>

definition print_call :: "(u32 \<Rightarrow> u8 list option) \<Rightarrow> u8 list \<Rightarrow> u32 list \<Rightarrow> 'a console_scheme \<Rightarrow> 'a console_scheme" where
  "print_call strs fmt args s = put_literal (render strs None fmt args) s"

definition do_divide_error :: "'a console_scheme \<Rightarrow> 'a console_scheme spin" where
  "do_divide_error s = Spins (put_literal (text_line ''Divide Error. (0x00)'') s)"

definition do_debug :: "'a console_scheme \<Rightarrow> 'a console_scheme spin" where
  "do_debug s = Spins (put_literal (text_line ''Debug. (0x01)'') s)"

definition do_nmi_intr :: "'a console_scheme \<Rightarrow> 'a console_scheme spin" where
  "do_nmi_intr s = Spins (put_literal (text_line ''Non-maskable Interrupt. (0x02)'') s)"

definition do_int3 :: "'a console_scheme \<Rightarrow> 'a console_scheme spin" where
  "do_int3 s = Spins (put_literal (text_line ''Breakpoint. (0x03)'') s)"

definition do_overflow :: "'a console_scheme \<Rightarrow> 'a console_scheme spin" where
  "do_overflow s = Spins (put_literal (text_line ''Overflow. (0x04)'') s)"

definition do_bound_range :: "'a console_scheme \<Rightarrow> 'a console_scheme spin" where
  "do_bound_range s = Spins (put_literal (text_line ''Bounds Check. (0x05)'') s)"

definition do_invalid_opcode :: "'a console_scheme \<Rightarrow> 'a console_scheme spin" where
  "do_invalid_opcode s = Spins (put_literal (text_line ''Invalid Opcode. (0x06)'') s)"

definition do_device_not_aval :: "'a console_scheme \<Rightarrow> 'a console_scheme spin" where
  "do_device_not_aval s = Spins (put_literal (text_line ''Device not available. (0x07)'') s)"

definition do_double_fault :: "'a console_scheme \<Rightarrow> 'a console_scheme spin" where
  "do_double_fault s = Spins (put_literal (text_line ''Double Fault. (0x08)'') s)"

definition do_coprocessor_seg_overrun :: "'a console_scheme \<Rightarrow> 'a console_scheme spin" where
  "do_coprocessor_seg_overrun s = Spins (put_literal (text_line ''Coprocessor segment overrun. (0x09)'') s)"

definition do_invalid_tss :: "'a console_scheme \<Rightarrow> 'a console_scheme spin" where
  "do_invalid_tss s = Spins (put_literal (text_line ''Invalid TSS. (0x0A)'') s)"

definition do_segment_not_present :: "'a console_scheme \<Rightarrow> 'a console_scheme spin" where
  "do_segment_not_present s = Spins (put_literal (text_line ''Segment not present. (0x0B)'') s)"

definition do_stack_fault :: "'a console_scheme \<Rightarrow> 'a console_scheme spin" where
  "do_stack_fault s = Spins (put_literal (text_line ''Stack segment fault. (0x0C)'') s)"

definition do_general_protection :: "'a console_scheme \<Rightarrow> 'a console_scheme spin" where
  "do_general_protection s = Spins (put_literal (text_line ''General Protection. (0x0D)'') s)"

definition do_page_fault :: "u32 \<Rightarrow> 'a console_scheme \<Rightarrow> 'a console_scheme spin" where
  "do_page_fault cr2 s =
     (let s = put_literal (text_line ''Page Fault. (0x0E)'') s
      in Spins (print_call (\<lambda>_. None) (text_line '' Page Fault at address 0x%#x '') [cr2] s))"

definition do_floating_point_error :: "'a console_scheme \<Rightarrow> 'a console_scheme spin" where
  "do_floating_point_error s = Spins (put_literal (text_line ''Floating-point error. (0x10)'') s)"

definition do_alignment_check :: "'a console_scheme \<Rightarrow> 'a console_scheme spin" where
  "do_alignment_check s = Spins (put_literal (text_line ''Alignment check. (0x11)'') s)"

definition do_machine_check :: "'a console_scheme \<Rightarrow> 'a console_scheme spin" where
  "do_machine_check s = Spins (put_literal (text_line ''Machine check. (0x12)'') s)"

definition do_simd_floating_point :: "'a console_scheme \<Rightarrow> 'a console_scheme spin" where
  "do_simd_floating_point s = Spins (put_literal (text_line ''SIMD floating point. (0x13)'') s)"

text \<open>The entry code: interrupts off, the registers saved, the C function called.\<close>

definition exception_entry :: "handler \<Rightarrow> u32 \<Rightarrow> 'a console_scheme \<Rightarrow> 'a console_scheme spin option" where
  "exception_entry h cr2 s =
     (let s = cli s
      in case h of
        divide_error_handler \<Rightarrow> Some (do_divide_error s)
      | debug_handler \<Rightarrow> Some (do_debug s)
      | nmi_intr_handler \<Rightarrow> Some (do_nmi_intr s)
      | int3_handler \<Rightarrow> Some (do_int3 s)
      | overflow_handler \<Rightarrow> Some (do_overflow s)
      | bound_range_handler \<Rightarrow> Some (do_bound_range s)
      | invalid_opcode_handler \<Rightarrow> Some (do_invalid_opcode s)
      | device_not_aval_handler \<Rightarrow> Some (do_device_not_aval s)
      | double_fault_handler \<Rightarrow> Some (do_double_fault s)
      | coprocessor_seg_overrun_handler \<Rightarrow> Some (do_coprocessor_seg_overrun s)
      | invalid_tss_handler \<Rightarrow> Some (do_invalid_tss s)
      | segment_not_present_handler \<Rightarrow> Some (do_segment_not_present s)
      | stack_fault_handler \<Rightarrow> Some (do_stack_fault s)
      | general_protection_handler \<Rightarrow> Some (do_general_protection s)
      | page_fault_handler \<Rightarrow> Some (do_page_fault cr2 s)
      | floating_point_error_handler \<Rightarrow> Some (do_floating_point_error s)
      | alignment_check_handler \<Rightarrow> Some (do_alignment_check s)
      | machine_check_handler \<Rightarrow> Some (do_machine_check s)
      | simd_floating_point_handler \<Rightarrow> Some (do_simd_floating_point s)
      | _ \<Rightarrow> None)"

section \<open>Messages\<close>

text \<open>What each exception reports: its name, and the vector through which it is reached.\<close>

primrec exception_name :: "handler \<Rightarrow> string" where
  "exception_name divide_error_handler = ''Divide Error.''"
| "exception_name debug_handler = ''Debug.''"
| "exception_name nmi_intr_handler = ''Non-maskable Interrupt.''"
| "exception_name int3_handler = ''Breakpoint.''"
| "exception_name overflow_handler = ''Overflow.''"
| "exception_name bound_range_handler = ''Bounds Check.''"
| "exception_name invalid_opcode_handler = ''Invalid Opcode.''"
| "exception_name device_not_aval_handler = ''Device not available.''"
| "exception_name double_fault_handler = ''Double Fault.''"
| "exception_name coprocessor_seg_overrun_handler = ''Coprocessor segment overrun.''"
| "exception_name invalid_tss_handler = ''Invalid TSS.''"
| "exception_name segment_not_present_handler = ''Segment not present.''"
| "exception_name stack_fault_handler = ''Stack segment fault.''"
| "exception_name general_protection_handler = ''General Protection.''"
| "exception_name page_fault_handler = ''Page Fault.''"
| "exception_name floating_point_error_handler = ''Floating-point error.''"
| "exception_name alignment_check_handler = ''Alignment check.''"
| "exception_name machine_check_handler = ''Machine check.''"
| "exception_name simd_floating_point_handler = ''SIMD floating point.''"
| "exception_name kbd_handler = ''''"
| "exception_name rtc_handler = ''''"
| "exception_name mouse_handler = ''''"
| "exception_name pit_handler = ''''"
| "exception_name syscall_handler = ''''"

definition hex2 :: "u8 \<Rightarrow> u8 list" where
  "hex2 v = [digit_char (unat v div 16), digit_char (unat v mod 16)]"

definition exception_message :: "handler \<Rightarrow> u32 \<Rightarrow> u8 list" where
  "exception_message h cr2 = map of_char (exception_name h) @ map of_char '' (0x'' @ hex2 (vector_of h) @ text_line '')''
     @ (if h = page_fault_handler then map of_char '' Page Fault at address 0x'' @ hex8 cr2 @ text_line '' '' else [])"

lemma exception_entry_message:
  "is_exception h \<Longrightarrow> exception_entry h cr2 s = Some (Spins (put_literal (exception_message h cr2) (cli s)))"
proof (cases "h = page_fault_handler")
  case True
  have r: "render strs None (text_line '' Page Fault at address 0x%#x '') [cr2]
    = map of_char '' Page Fault at address 0x'' @ hex8 cr2 @ text_line '' ''" for strs
    by (simp add: text_line_def is_conv_def conv_text_def)
  have m: "text_line ''Page Fault. (0x0E)'' @ map of_char '' Page Fault at address 0x'' @ hex8 cr2 @ text_line '' ''
    = exception_message h cr2"
    by (simp add: True text_line_def exception_message_def hex2_def digit_char_def)
  show ?thesis unfolding m [symmetric] by (simp add: True exception_entry_def do_page_fault_def print_call_def r put_literal_append del: put_literal_simps)
next
  case False
  assume "is_exception h"
  with False show ?thesis
    by (cases h) (simp_all add: is_exception_def exception_entry_def text_line_def exception_message_def hex2_def digit_char_def
        do_divide_error_def do_debug_def do_nmi_intr_def do_int3_def do_overflow_def do_bound_range_def
        do_invalid_opcode_def do_device_not_aval_def do_double_fault_def do_coprocessor_seg_overrun_def
        do_invalid_tss_def do_segment_not_present_def do_stack_fault_def do_general_protection_def
        do_floating_point_error_def do_alignment_check_def do_machine_check_def do_simd_floating_point_def
        del: put_literal_simps)
qed

lemma put_literal_lines:
  assumes "pic_ok s" "str \<noteq> []"
  shows "pic_ok (put_literal str s)" "master_mask (put_literal str s) = master_mask s AND NOT 3" "ifl (put_literal str s)"
  using assms
proof (induction str arbitrary: s rule: rev_induct)
  case (snoc c cs)
  { case 1 then show ?case using snoc.IH(1) putc_lines(1) by (cases "cs = []") (auto simp: put_literal_append) }
  { case 2 then show ?case using snoc.IH(1,2) putc_lines(2) by (cases "cs = []") (auto simp: put_literal_append and.assoc) }
  { case 3 then show ?case by (simp add: put_literal_append) }
qed simp_all

section \<open>Properties\<close>

text \<open>
  C32: every exception types its name and the vector its gate has in the table, the page fault also
  the faulting address, on the displayed terminal. It never returns, but it spins with interrupts
  enabled and the timer and keyboard lines open, although its entry code disabled interrupts:
  printing a character ends by enabling them. So the process that raised it hangs, while the
  timer and the keyboard go on being served.
\<close>

theorem exception_reports:
  assumes "is_exception h" "screen_ok s" "pic_ok s"
  shows "\<exists>t. exception_entry h cr2 s = Some (Spins t)
    \<and> screen_of (disp_terminal s) video_mem t = fold typed (exception_message h cr2) (screen_of (disp_terminal s) video_mem s)
    \<and> ifl t \<and> master_mask t AND 3 = 0"
proof -
  have ok: "screen_ok (cli s)" using assms(2) by (simp add: screen_ok_def term_ok_def cursor_ok_def cli_def)
  have pic: "pic_ok (cli s)" using assms(3) by simp
  have ne: "exception_message h cr2 \<noteq> []" by (simp add: exception_message_def)
  have "screen_of (disp_terminal s) video_mem (cli s) = screen_of (disp_terminal s) video_mem s" "disp_terminal (cli s) = disp_terminal s"
    by (simp_all add: screen_of_def cli_def)
  then have "screen_of (disp_terminal s) video_mem (put_literal (exception_message h cr2) (cli s))
    = fold typed (exception_message h cr2) (screen_of (disp_terminal s) video_mem s)"
    using put_literal_typed [OF ok, of "exception_message h cr2"] by simp
  moreover have "(x AND - 4) AND 3 = 0" for x :: u8 by (simp add: and.assoc)
  ultimately show ?thesis
    using exception_entry_message [OF assms(1), of cr2 s] put_literal_lines [OF pic ne] by simp
qed

theorem exception_reports_witness:
  "\<exists>t. exception_entry page_fault_handler 0xBEEF (console_start 0 0 0 0) = Some (Spins t)
    \<and> screen_of 0 video_mem t = fold typed (exception_message page_fault_handler 0xBEEF) (screen_of 0 video_mem (console_start 0 0 0 0))
    \<and> ifl t \<and> master_mask t AND 3 = 0"
proof -
  have "is_exception page_fault_handler" by (simp add: is_exception_def)
  from exception_reports [OF this, of "console_start 0 0 0 0" "0xBEEF"] console_start_ok show ?thesis
    by (simp add: console_start_def)
qed

end
