(* ===== verification/Dispatch.thy ===== *)
theory Dispatch
  imports Trap
begin

text \<open>
  How the processor enters the kernel: the entry code of the devices (interrupt_wrapper.S), the
  system call handler with its table (syscall_handler.S), the library stubs that programs call it
  through (syscalls/ece391syscall.S), and the delivery of a vector through the descriptor table.

  A call ends in one of these ways: it returns a value in \<open>eax\<close>; it transfers control elsewhere
  (the outcomes of \<open>sys_execute\<close>, \<open>sys_halt\<close> and the scheduler); it spins; it waits for an
  interrupt that the given list does not contain; or it jumps through a pointer that is no
  function of the kernel.
\<close>

datatype 's handled =
    Returned u32 's
  | Transfer "'s outcome"
  | Stuck 's
  | Waiting
  | Wild

text \<open>
  The parameters of the kernel's functions: the stack frames of \<open>sys_execute\<close> and \<open>sys_open\<close>, the
  string \<open>"shell"\<close>, the interrupts that arrive during a call, the saved stack registers, the
  faulting address, and the code that is not in the repository (kmalloc.c, mouse.c).
\<close>

record 's env =
  env_frame :: frame
  env_shell :: u32
  env_dentry :: u32
  env_temp :: u32
  env_irqs :: "('s \<Rightarrow> 's) list"
  env_regs :: "u32 \<times> u32"
  env_cr2 :: u32
  env_kmalloc :: "u32 \<Rightarrow> 's \<Rightarrow> u32 \<times> 's"
  env_kfree :: "u32 \<Rightarrow> 's \<Rightarrow> 's"
  env_mouse :: "'s \<Rightarrow> 's"

section \<open>System calls\<close>

datatype service = Sys_Halt | Sys_Execute | Sys_Read | Sys_Write | Sys_Open | Sys_Close | Sys_Getargs
  | Sys_Vidmap | Sys_Kmalloc | Sys_Kfree

definition sys_call_table :: "service list" where
  "sys_call_table = [Sys_Halt, Sys_Execute, Sys_Read, Sys_Write, Sys_Open, Sys_Close, Sys_Getargs, Sys_Vidmap,
     Sys_Kmalloc, Sys_Kfree]"

definition of_outcome :: "'s outcome option \<Rightarrow> 's handled" where
  "of_outcome r = (case r of None \<Rightarrow> Waiting | Some (Ret v s) \<Rightarrow> Returned (of_int v) s | Some out \<Rightarrow> Transfer out)"

definition of_result :: "(i32 \<times> 's) option \<Rightarrow> 's handled" where
  "of_result r = (case r of None \<Rightarrow> Waiting | Some (v, s) \<Rightarrow> Returned (of_int v) s)"

text \<open>The C function behind an entry of the table, with the three words that were pushed.\<close>

primrec run_service :: "'a rtc_scheme env \<Rightarrow> service \<Rightarrow> u32 \<Rightarrow> u32 \<Rightarrow> u32 \<Rightarrow> 'a rtc_scheme \<Rightarrow> 'a rtc_scheme handled" where
  "run_service e Sys_Halt b c d s = of_outcome (sys_halt (env_frame e) (env_shell e) (ucast b) s)"
| "run_service e Sys_Execute b c d s = of_outcome (sys_execute (env_frame e) b s)"
| "run_service e Sys_Read b c d s = of_result (sys_read (env_irqs e) (sint b) c (sint d) s)"
| "run_service e Sys_Write b c d s = of_result (sys_write (sint b) c (sint d) s)"
| "run_service e Sys_Open b c d s = of_result (sys_open (env_dentry e) (env_temp e) b s)"
| "run_service e Sys_Close b c d s = of_result (Some (sys_close (sint b) s))"
| "run_service e Sys_Getargs b c d s = of_result (Some (sys_getargs b (sint c) s))"
| "run_service e Sys_Vidmap b c d s = of_result (Some (sys_vidmap b s))"
| "run_service e Sys_Kmalloc b c d s = (let (v, s) = sys_kmalloc (env_kmalloc e) b s in Returned v s)"
| "run_service e Sys_Kfree b c d s = (let (v, s) = sys_kfree (env_kfree e) b s in Returned v s)"

text \<open>
  The numbers are compared as signed, up to 12; the table has ten entries, and a number past its
  end calls whatever word follows it. Interrupts are enabled only for a call that is accepted.
\<close>

definition syscall_entry :: "'a rtc_scheme env \<Rightarrow> u32 \<Rightarrow> u32 \<Rightarrow> u32 \<Rightarrow> u32 \<Rightarrow> 'a rtc_scheme \<Rightarrow> 'a rtc_scheme handled" where
  "syscall_entry e eax b c d s =
     (if sint eax < 1 then Returned (-1) s
      else if sint eax > 12 then Returned (-1) s
      else let n = unat (eax + (-1)); s = sti s
        in if n < length sys_call_table then run_service e (sys_call_table ! n) b c d s else Wild)"

section \<open>Device interrupts\<close>

text \<open>
  The entry code ends with \<open>sti\<close> and \<open>iret\<close>. \<open>iret\<close> restores the flags of the interrupted code, in which
  interrupts are on, for the processor takes a device's interrupt only then.
\<close>

definition device_entry :: "'a rtc_scheme env \<Rightarrow> handler \<Rightarrow> 'a rtc_scheme \<Rightarrow> 'a rtc_scheme handled" where
  "device_entry e h s =
     (let s = cli s; leave = (\<lambda>r. case r of Returned v s \<Rightarrow> Returned v (sti s) | _ \<Rightarrow> r)
      in leave (case h of
           kbd_handler \<Rightarrow> of_outcome (handle_keyboard_interrupt (env_frame e) (env_shell e) s)
         | mouse_handler \<Rightarrow> Returned 0 (env_mouse e s)
         | rtc_handler \<Rightarrow> Returned 0 (do_rtc_handler s)
         | pit_handler \<Rightarrow> of_outcome (do_pit_handler (env_frame e) (env_shell e) (env_regs e) s)
         | _ \<Rightarrow> Wild))"

section \<open>Delivery of a vector\<close>

text \<open>All handlers by address: what the processor runs after a jump to it.\<close>

definition all_handlers :: "handler list" where
  "all_handlers = map snd exception_entries @ [kbd_handler, rtc_handler, mouse_handler, pit_handler, syscall_handler]"

definition run_handler :: "'a rtc_scheme env \<Rightarrow> u32 \<times> u32 \<times> u32 \<times> u32 \<Rightarrow> handler \<Rightarrow> 'a rtc_scheme \<Rightarrow> 'a rtc_scheme handled" where
  "run_handler e r h s =
     (case exception_entry h (env_cr2 e) s of
        Some x \<Rightarrow> Stuck (spinning x)
      | None \<Rightarrow> (if h = syscall_handler then let (a, b, c, d) = r in syscall_entry e a b c d s else device_entry e h s))"

text \<open>An interrupt gate disables interrupts before the first instruction of the handler.\<close>

definition deliver :: "symbols \<Rightarrow> (u8 \<Rightarrow> idt_desc_t) \<Rightarrow> 'a rtc_scheme env \<Rightarrow> u32 \<times> u32 \<times> u32 \<times> u32 \<Rightarrow> u8 \<Rightarrow>
    'a rtc_scheme \<Rightarrow> 'a rtc_scheme handled" where
  "deliver lk tab e r v s =
     (case cpu_gate (gate_word (tab v)) of None \<Rightarrow> Wild
      | Some g \<Rightarrow> (case find (\<lambda>h. handler_addr lk h = offset g) all_handlers of None \<Rightarrow> Wild
          | Some h \<Rightarrow> run_handler e r h (if kind g = Interrupt_Gate then cli s else s)))"

section \<open>The library stubs\<close>

text \<open>\<open>DO_CALL\<close>: the number in \<open>eax\<close>, the arguments in \<open>ebx\<close>, \<open>ecx\<close> and \<open>edx\<close>, then \<open>INT 0x80\<close>.\<close>

primrec sys_number :: "service \<Rightarrow> u32" where
  "sys_number Sys_Halt = 1"
| "sys_number Sys_Execute = 2"
| "sys_number Sys_Read = 3"
| "sys_number Sys_Write = 4"
| "sys_number Sys_Open = 5"
| "sys_number Sys_Close = 6"
| "sys_number Sys_Getargs = 7"
| "sys_number Sys_Vidmap = 8"
| "sys_number Sys_Kmalloc = 9"
| "sys_number Sys_Kfree = 10"

definition DO_CALL :: "symbols \<Rightarrow> (u8 \<Rightarrow> idt_desc_t) \<Rightarrow> 'a rtc_scheme env \<Rightarrow> service \<Rightarrow> u32 \<Rightarrow> u32 \<Rightarrow> u32 \<Rightarrow>
    'a rtc_scheme \<Rightarrow> 'a rtc_scheme handled" where
  "DO_CALL lk tab e f a1 a2 a3 s = deliver lk tab e (sys_number f, a1, a2, a3) 0x80 s"

section \<open>Delivery through the table of the kernel\<close>

definition distinct_handlers :: "symbols \<Rightarrow> bool" where
  "distinct_handlers lk \<longleftrightarrow> distinct (map (handler_addr lk) all_handlers) \<and> 0 \<notin> set (map (handler_addr lk) all_handlers)"

lemma all_handlers_complete: "h \<in> set all_handlers"
  by (cases h) (simp_all add: all_handlers_def exception_entries_def)

lemma find_handler:
  assumes "distinct_handlers lk"
  shows "find (\<lambda>h. handler_addr lk h = handler_addr lk h') all_handlers = Some h'"
proof -
  have "inj_on (handler_addr lk) (set all_handlers)" using assms by (simp add: distinct_handlers_def distinct_map)
  then have e: "handler_addr lk h = handler_addr lk h' \<longleftrightarrow> h = h'" for h
    using all_handlers_complete by (auto dest: inj_onD)
  have "find (\<lambda>h. h = h') hs = Some h'" if "h' \<in> set hs" for hs using that by (induction hs) auto
  then show ?thesis unfolding e using all_handlers_complete by blast
qed

lemma deliver_handler:
  assumes "distinct_handlers lk"
  shows "deliver lk (idt (init_idt lk t)) e r (vector_of h) s
    = run_handler e r h (if is_exception h then s else cli s)"
  unfolding deliver_def gate_of_handler by (simp add: find_handler [OF assms])

lemma exception_entry_None [simp]: "\<not> is_exception h \<Longrightarrow> exception_entry h cr2 s = None"
  by (cases h) (simp_all add: is_exception_def exception_entry_def)

lemma sys_call_table_number: "unat (sys_number f + (-1)) < 10" "sys_call_table ! unat (sys_number f + (-1)) = f"
  "sint (sys_number f) \<ge> 1" "sint (sys_number f) \<le> 12"
  by (cases f; simp add: sys_call_table_def)+

lemma sti_cli [simp]: "sti (cli s) = sti s"
  by (simp add: sti_def cli_def)

lemma sint_negative: "2147483648 \<le> unat (n :: u32) \<Longrightarrow> sint n < 0"
proof -
  assume "2147483648 \<le> unat n"
  then have "2147483648 \<le> uint n" unfolding uint_nat by linarith
  moreover have "uint n < 4294967296" using uint_lt2p [of n] by simp
  ultimately have k: "2147483648 \<le> uint n" "uint n < 4294967296" .
  have "sint n = (uint n + 2147483648) mod 4294967296 - 2147483648"
    using int_word_sint [of "uint n", where 'a = 32] by simp
  also have "uint n + 2147483648 = (uint n - 2147483648) + 4294967296" by simp
  also have "((uint n - 2147483648) + 4294967296) mod 4294967296 = uint n - 2147483648"
    unfolding mod_add_self2 using k by (intro mod_pos_pos_trivial) simp_all
  finally show ?thesis using k by simp
qed

lemma cli_cli [simp]: "cli (cli s) = cli s"
  by (simp add: cli_def)

lemma syscall_entry_service: "syscall_entry e (sys_number f) b c d s = run_service e f b c d (sti s)"
  using sys_call_table_number [of f] by (simp add: syscall_entry_def Let_def sys_call_table_def)

section \<open>Properties\<close>

text \<open>
  C19: every interrupt reaches its code: delivering the vector of a handler through the table that
  \<open>init_idt\<close> builds runs exactly that handler, with interrupts disabled first unless it is an
  exception.
\<close>

theorem interrupt_reaches_handler:
  assumes "distinct_handlers lk"
  shows "deliver lk (idt (init_idt lk t)) e r (vector_of h) s = run_handler e r h (if is_exception h then s else cli s)"
  by (rule deliver_handler [OF assms])

definition sample_env :: "rtc env" where
  "sample_env = \<lparr>env_frame = exec_frame, env_shell = 0, env_dentry = 0, env_temp = 0, env_irqs = [], env_regs = (0, 0),
     env_cr2 = 0, env_kmalloc = \<lambda>n s. (0, s), env_kfree = \<lambda>p s. s, env_mouse = \<lambda>s. s\<rparr>"

lemma sample_distinct: "distinct_handlers sample_symbols"
  by (simp add: distinct_handlers_def all_handlers_def exception_entries_def sample_symbols_def)

theorem interrupt_reaches_handler_witness:
  "deliver sample_symbols (idt (init_idt sample_symbols tables_start)) sample_env (0, 0, 0, 0) 0x28 kbd_start
     = Returned 0 (sti (do_rtc_handler (cli kbd_start)))"
proof -
  have "run_handler sample_env (0, 0, 0, 0) rtc_handler (cli kbd_start) = Returned 0 (sti (do_rtc_handler (cli kbd_start)))"
    by (simp add: run_handler_def is_exception_def device_entry_def)
  then show ?thesis
    using interrupt_reaches_handler [OF sample_distinct, of tables_start sample_env "(0, 0, 0, 0)" rtc_handler kbd_start]
    by (simp add: is_exception_def)
qed

text \<open>
  C18: a call of a library stub runs the kernel function of that name with its arguments and with
  interrupts enabled: stub numbers, gate, comparison and table agree.
\<close>

theorem stub_calls_service:
  assumes "distinct_handlers lk"
  shows "DO_CALL lk (idt (init_idt lk t)) e f a1 a2 a3 s = run_service e f a1 a2 a3 (sti s)"
proof -
  have "\<not> is_exception syscall_handler" by (simp add: is_exception_def)
  then show ?thesis
    using deliver_handler [OF assms, of t e "(sys_number f, a1, a2, a3)" syscall_handler s]
    by (simp add: DO_CALL_def run_handler_def syscall_entry_service)
qed

theorem stub_calls_service_witness:
  "DO_CALL sample_symbols (idt (init_idt sample_symbols tables_start)) sample_env Sys_Close 9 0 0 kbd_start
     = Returned (-1) (sti kbd_start)"
  using stub_calls_service [OF sample_distinct, of tables_start sample_env Sys_Close 9 0 0 kbd_start]
  by (simp add: of_result_def sys_close_def)

text \<open>
  C33: the numbers the handler accepts: 1 to 10 run a service; the numbers 11 and 12 pass the check
  and call through a word behind the table; every other number, the negative ones too, returns -1
  and changes nothing.
\<close>

theorem syscall_numbers:
  "syscall_entry e n b c d s =
     (if n \<noteq> 0 \<and> n \<le> 10 then run_service e (sys_call_table ! (unat n - 1)) b c d (sti s)
      else if n = 11 \<or> n = 12 then Wild else Returned (-1) s)"
proof -
  define k where "k = unat n"
  have n: "n \<noteq> 0 \<longleftrightarrow> k \<noteq> 0" "n \<le> 10 \<longleftrightarrow> k \<le> 10" "n = 11 \<longleftrightarrow> k = 11" "n = 12 \<longleftrightarrow> k = 12"
    by (auto simp: k_def word_le_nat_alt word_unat_eq_iff)
  have tab: "length sys_call_table = 10" by (simp add: sys_call_table_def)
  show ?thesis
  proof (cases "k < 2147483648")
    case True
    then have s: "sint n = int k" using sint_small [of n] by (simp add: k_def)
    have m: "unat (n + (-1)) = k - 1" if "k \<noteq> 0" using that unat_minus_one [of n] n(1) by (simp add: k_def)
    show ?thesis unfolding syscall_entry_def s n tab Let_def k_def [symmetric] using m by auto
  next
    case False
    then have "sint n < 0" using sint_negative [of n] by (simp add: k_def)
    then show ?thesis unfolding syscall_entry_def n using False by simp
  qed
qed

end
