(* ===== verification/Kernel.thy ===== *)
theory Kernel
  imports Dispatch
begin

text \<open>
  The boot of the kernel: \<open>entry\<close> of student-distrib/kernel.c, from the multiboot information of
  multiboot.h over the descriptor tables and the initialisation of every component to the start of
  the first shell.

  The addresses of linker symbols and of the page tables, the frame of \<open>sys_execute\<close>, the start
  routines of the files that are missing (mouse.c, kmalloc.c) and the value of the uninitialised
  \<open>bootblock_addr\<close> are the parameter \<open>boot_env\<close>. The calls of \<open>printf\<close> are \<open>print_call\<close>s.
\<close>

record 's boot_env =
  be_symbols :: symbols
  be_dir :: u32
  be_low :: u32
  be_vid :: u32
  be_frame :: frame
  be_shell :: u32
  be_bootblock :: u32
  be_init_mouse :: "'s \<Rightarrow> 's"
  be_init_kmalloc :: "'s \<Rightarrow> 's"

text \<open>\<open>tss_size\<close> and \<open>ldt_size\<close> of x86_desc.S, from the sizes of the two tables.\<close>

definition TSS_SIZE :: u32 where "TSS_SIZE = 104"

definition tss_size :: u32 where "tss_size = 104 - 1"

definition ldt_size :: u32 where "ldt_size = 4 * 8 - 1"

section \<open>The multiboot information\<close>

definition MULTIBOOT_BOOTLOADER_MAGIC :: u32 where "MULTIBOOT_BOOTLOADER_MAGIC = 0x2BADB002"

definition CHECK_FLAG :: "u32 \<Rightarrow> nat \<Rightarrow> bool" where
  "CHECK_FLAG flags b \<longleftrightarrow> flags AND push_bit b 1 \<noteq> 0"

text \<open>The words of \<open>multiboot_info_t\<close>, \<open>module_t\<close> and \<open>memory_map_t\<close> at an address.\<close>

record multiboot_info =
  mbi_flags :: u32
  mbi_mem_lower :: u32
  mbi_mem_upper :: u32
  mbi_boot_device :: u32
  mbi_cmdline :: u32
  mbi_mods_count :: u32
  mbi_mods_addr :: u32
  elf_num :: u32
  elf_size :: u32
  elf_addr :: u32
  elf_shndx :: u32
  mbi_mmap_length :: u32
  mbi_mmap_addr :: u32

definition multiboot_info_at :: "mem \<Rightarrow> u32 \<Rightarrow> multiboot_info" where
  "multiboot_info_at m p = \<lparr>mbi_flags = load32 m p, mbi_mem_lower = load32 m (p + 4), mbi_mem_upper = load32 m (p + 8),
     mbi_boot_device = load32 m (p + 12), mbi_cmdline = load32 m (p + 16), mbi_mods_count = load32 m (p + 20),
     mbi_mods_addr = load32 m (p + 24), elf_num = load32 m (p + 28), elf_size = load32 m (p + 32),
     elf_addr = load32 m (p + 36), elf_shndx = load32 m (p + 40), mbi_mmap_length = load32 m (p + 44),
     mbi_mmap_addr = load32 m (p + 48)\<rparr>"

record module_info =
  mod_start :: u32
  mod_end :: u32

definition module_at :: "mem \<Rightarrow> u32 \<Rightarrow> module_info" where
  "module_at m p = \<lparr>mod_start = load32 m p, mod_end = load32 m (p + 4)\<rparr>"

record memory_map =
  mm_size :: u32
  mm_base_addr_low :: u32
  mm_base_addr_high :: u32
  mm_length_low :: u32
  mm_length_high :: u32
  mm_type :: u32

definition memory_map_at :: "mem \<Rightarrow> u32 \<Rightarrow> memory_map" where
  "memory_map_at m p = \<lparr>mm_size = load32 m p, mm_base_addr_low = load32 m (p + 4), mm_base_addr_high = load32 m (p + 8),
     mm_length_low = load32 m (p + 12), mm_length_high = load32 m (p + 16), mm_type = load32 m (p + 20)\<rparr>"

abbreviation mbi_of :: "u32 \<Rightarrow> 'a console_scheme \<Rightarrow> multiboot_info" where
  "mbi_of p s \<equiv> multiboot_info_at (ram s) p"

section \<open>Printing it\<close>

definition print_args :: "string \<Rightarrow> u32 list \<Rightarrow> 'a console_scheme \<Rightarrow> 'a console_scheme" where
  "print_args fmt args s = print_call (\<lambda>_. None) (map of_char fmt) args s"

definition newline :: "'a console_scheme \<Rightarrow> 'a console_scheme" where
  "newline s = put_literal [10] s"

text \<open>Flags, memory sizes, boot device and command line; \<open>%s\<close> needs the end of its string.\<close>

definition print_info :: "u32 \<Rightarrow> 'a console_scheme \<Rightarrow> 'a console_scheme option" where
  "print_info p s =
     (let s = newline (print_args ''flags = 0x%#x'' [mbi_flags (mbi_of p s)] s);
          s = (if CHECK_FLAG (mbi_flags (mbi_of p s)) 0
               then newline (print_args ''mem_lower = %uKB, mem_upper = %uKB'' [mbi_mem_lower (mbi_of p s), mbi_mem_upper (mbi_of p s)] s)
               else s);
          s = (if CHECK_FLAG (mbi_flags (mbi_of p s)) 1
               then newline (print_args ''boot_device = 0x%#x'' [mbi_boot_device (mbi_of p s)] s) else s)
      in if CHECK_FLAG (mbi_flags (mbi_of p s)) 2 then
           let c = mbi_cmdline (mbi_of p s)
           in case strlen (ram s) c of None \<Rightarrow> None
              | Some n \<Rightarrow> Some (newline (print_call (\<lambda>_. Some (bytes (ram s) c (unat n))) (map of_char ''cmdline = %s'') [c] s))
         else Some s)"

text \<open>The loop over the modules; the last module is taken for the file system image.\<close>

definition print_module :: "u32 \<Rightarrow> u32 \<Rightarrow> 'a console_scheme \<Rightarrow> u32 \<times> 'a console_scheme" where
  "print_module mod_count md s =
     (let s = newline (print_args ''Module %d loaded at address: 0x%#x'' [mod_count, mod_start (module_at (ram s) md)] s);
          bootblock_addr = mod_start (module_at (ram s) md);
          s = newline (print_args ''Module %d ends at address: 0x%#x'' [mod_count, mod_end (module_at (ram s) md)] s);
          s = put_literal (text_line ''First few bytes of module:'') s;
          s = foldl (\<lambda>s i. print_args ''0x%x '' [scast (ram s (mod_start (module_at (ram s) md) + of_nat i))] s) s [0..<16]
      in (bootblock_addr, newline s))"

partial_function (option) print_modules :: "u32 \<Rightarrow> u32 \<Rightarrow> u32 \<Rightarrow> u32 \<Rightarrow> 'a console_scheme \<Rightarrow> (u32 \<times> 'a console_scheme) option" where
  "print_modules p mod_count md bootblock_addr s =
     (if mod_count < mbi_mods_count (mbi_of p s) then
        let (bootblock_addr, s) = print_module mod_count md s
        in print_modules p (mod_count + 1) (md + 16) bootblock_addr s
      else Some (bootblock_addr, s))"

definition print_elf :: "u32 \<Rightarrow> 'a console_scheme \<Rightarrow> 'a console_scheme" where
  "print_elf p s = newline (print_args ''elf_sec: num = %u, size = 0x%#x, addr = 0x%#x, shndx = 0x%#x''
     [elf_num (mbi_of p s), elf_size (mbi_of p s), elf_addr (mbi_of p s), elf_shndx (mbi_of p s)] s)"

definition print_region :: "u32 \<Rightarrow> 'a console_scheme \<Rightarrow> 'a console_scheme" where
  "print_region mm s =
     (let r = memory_map_at (ram s) mm
      in newline (print_call (\<lambda>_. None)
           (text_line '' size = 0x%x,     base_addr = 0x%#x%#x'' @ map of_char ''     type = 0x%x,  length    = 0x%#x%#x'')
           [mm_size r, mm_base_addr_high r, mm_base_addr_low r, mm_type r, mm_length_high r, mm_length_low r] s))"

text \<open>The step to the next region is the size that the region itself gives.\<close>

partial_function (option) print_regions :: "u32 \<Rightarrow> u32 \<Rightarrow> 'a console_scheme \<Rightarrow> 'a console_scheme option" where
  "print_regions p mm s =
     (if mm < mbi_mmap_addr (mbi_of p s) + mbi_mmap_length (mbi_of p s) then
        let s = print_region mm s in print_regions p (mm + mm_size (memory_map_at (ram s) mm) + 4) s
      else Some s)"

definition print_mmap :: "u32 \<Rightarrow> 'a console_scheme \<Rightarrow> 'a console_scheme option" where
  "print_mmap p s =
     (let s = newline (print_args ''mmap_addr = 0x%#x, mmap_length = 0x%x'' [mbi_mmap_addr (mbi_of p s), mbi_mmap_length (mbi_of p s)] s)
      in print_regions p (mbi_mmap_addr (mbi_of p s)) s)"

text \<open>
  All of it: the address of the last module, or None in the first component of the result when
  both symbol tables are announced and the kernel gives up.
\<close>

definition print_multiboot :: "u32 \<Rightarrow> u32 \<Rightarrow> 'a console_scheme \<Rightarrow> (u32 option \<times> 'a console_scheme) option" where
  "print_multiboot p bootblock_addr s =
     (case print_info p s of None \<Rightarrow> None | Some s \<Rightarrow>
      (case (if CHECK_FLAG (mbi_flags (mbi_of p s)) 3
             then print_modules p 0 (mbi_mods_addr (mbi_of p s)) bootblock_addr s
             else Some (bootblock_addr, s)) of None \<Rightarrow> None | Some (bootblock_addr, s) \<Rightarrow>
       if CHECK_FLAG (mbi_flags (mbi_of p s)) 4 \<and> CHECK_FLAG (mbi_flags (mbi_of p s)) 5
       then Some (None, put_literal (text_line ''Both bits 4 and 5 are set.'') s)
       else
         let s = (if CHECK_FLAG (mbi_flags (mbi_of p s)) 5 then print_elf p s else s)
         in case (if CHECK_FLAG (mbi_flags (mbi_of p s)) 6 then print_mmap p s else Some s) of
              None \<Rightarrow> None | Some s \<Rightarrow> Some (Some bootblock_addr, s)))"

section \<open>Segments\<close>

text \<open>Every field of the two local descriptors is assigned before it is used.\<close>

definition the_ldt_desc :: "u32 \<Rightarrow> seg_desc" where
  "the_ldt_desc base = SET_LDT_PARAMS base ldt_size (zero_seg\<lparr>seg_granularity := 0, seg_opsize := 1, seg_reserved := 0,
     seg_avail := 0, seg_present := 1, seg_dpl := 0, seg_sys := 0, seg_type := 2\<rparr>)"

definition the_tss_desc :: "u32 \<Rightarrow> seg_desc" where
  "the_tss_desc base = SET_TSS_PARAMS base tss_size (zero_seg\<lparr>seg_granularity := 0, seg_opsize := 0, seg_reserved := 0,
     seg_avail := 0, seg_lim_19_16 := ucast (TSS_SIZE AND 0x000F0000), seg_present := 1, seg_dpl := 0, seg_sys := 0,
     seg_type := 9, seg_lim_15_00 := ucast (TSS_SIZE AND 0xFFFF)\<rparr>)"

definition init_segments :: "symbols \<Rightarrow> 'a tables_state_scheme \<Rightarrow> 'a tables_state_scheme" where
  "init_segments lk s =
     (let s = s\<lparr>ldt_desc_ptr := the_ldt_desc (ldt_addr lk)\<rparr>;
          s = s\<lparr>ldtr := KERNEL_LDT\<rparr>;
          s = s\<lparr>tss_desc_ptr := the_tss_desc (tss_addr lk)\<rparr>;
          s = s\<lparr>tss := (tss s)\<lparr>tss_ldt_segment_selector := KERNEL_LDT\<rparr>\<rparr>;
          s = s\<lparr>tss := (tss s)\<lparr>tss_ss0 := KERNEL_DS\<rparr>\<rparr>;
          s = s\<lparr>tss := (tss s)\<lparr>tss_esp0 := 0x800000\<rparr>\<rparr>
      in s\<lparr>task_register := KERNEL_TSS\<rparr>)"

section \<open>The boot sequence\<close>

definition init_kernel :: "'a tables_state_scheme boot_env \<Rightarrow> u32 \<Rightarrow> 'a tables_state_scheme \<Rightarrow> 'a tables_state_scheme option" where
  "init_kernel be bootblock_addr s =
     (let s = init_idt (be_symbols be) s;
          s = pagingInit (be_dir be) (be_low be) (be_vid be) s;
          s = i8259_init s;
          s = be_init_mouse be s;
          s = be_init_kmalloc be s;
          s = enable_irq 1 s;
          s = fs_init bootblock_addr s;
          s = terminal_init s;
          s = init_pid s
      in case init_pit 0 100 s of None \<Rightarrow> None | Some s \<Rightarrow> Some (sti (clear s)))"

text \<open>
  \<open>entry\<close> goes back to boot.S, whose loop halts the processor, or ends in a loop of its own when
  the shell returns; otherwise the shell runs.
\<close>

datatype 's booted = Back_To_Boot 's | Halted 's | Running "'s outcome"

definition entry :: "'a tables_state_scheme boot_env \<Rightarrow> u32 \<Rightarrow> u32 \<Rightarrow> 'a tables_state_scheme \<Rightarrow> 'a tables_state_scheme booted option" where
  "entry be magic addr s =
     (let s = clear s
      in if magic \<noteq> MULTIBOOT_BOOTLOADER_MAGIC then
           Some (Back_To_Boot (newline (print_args ''Invalid magic number: 0x%#x'' [magic] s)))
         else
           case print_multiboot addr (be_bootblock be) s of None \<Rightarrow> None
           | Some (None, s) \<Rightarrow> Some (Back_To_Boot s)
           | Some (Some bootblock_addr, s) \<Rightarrow>
             (case init_kernel be bootblock_addr (init_segments (be_symbols be) s) of None \<Rightarrow> None
              | Some s \<Rightarrow> (case sys_execute (be_frame be) (be_shell be) s of None \<Rightarrow> None
                  | Some (Ret r s) \<Rightarrow> Some (Halted s)
                  | Some out \<Rightarrow> Some (Running out))))"

section \<open>What the boot messages change\<close>

text \<open>All messages are characters typed on the screen.\<close>

definition printed :: "'a console_scheme \<Rightarrow> 'a console_scheme \<Rightarrow> bool" where
  "printed s t \<longleftrightarrow> (\<exists>str. t = put_literal str s)"

lemma printed_refl [simp, intro]: "printed s s"
  unfolding printed_def by (rule exI [of _ "[]"]) simp

lemma printed_trans: "printed s t \<Longrightarrow> printed t u \<Longrightarrow> printed s u"
  unfolding printed_def using put_literal_append by metis

lemma printed_calls [simp, intro]:
  "printed s (put_literal str s)" "printed s (print_call strs fmt args s)" "printed s (print_args f args s)" "printed s (newline s)"
  unfolding printed_def print_call_def print_args_def newline_def by blast+

lemma printed_step [simp, intro]:
  "printed s t \<Longrightarrow> printed s (put_literal str t)" "printed s t \<Longrightarrow> printed s (print_call strs fmt args t)"
  "printed s t \<Longrightarrow> printed s (print_args f args t)" "printed s t \<Longrightarrow> printed s (newline t)"
  by (blast intro: printed_trans)+

lemma printed_print_info: "print_info p s = Some t \<Longrightarrow> printed s t"
  unfolding print_info_def Let_def by (auto split: if_splits option.splits)

lemma printed_foldl: "(\<And>s i. printed s (f s i)) \<Longrightarrow> printed s (foldl f s is)"
  by (induction "is" arbitrary: s) (auto intro: printed_trans)

lemma printed_print_module: "printed s (snd (print_module n md s))"
  unfolding print_module_def Let_def snd_conv
  by (intro printed_step(4) printed_trans [OF _ printed_foldl] printed_step(1,3)) auto

lemma printed_print_modules:
  assumes "print_modules p n md b s = Some r"
  shows "printed s (snd r)"
proof (rule print_modules.raw_induct [where P = "\<lambda>p n md b s r. printed s (snd r)", OF _ assms], goal_cases)
  case (1 f p n md b s r)
  show ?case
  proof (cases "n < mbi_mods_count (mbi_of p s)")
    case True
    obtain b' s' where m: "print_module n md s = (b', s')" by (cases "print_module n md s")
    then have "printed s s'" using printed_print_module [of s n md] by simp
    moreover have "printed s' (snd r)" using 1 True m by simp
    ultimately show ?thesis by (rule printed_trans)
  next
    case False
    then have "r = (b, s)" using 1(2) by simp
    then show ?thesis by simp
  qed
qed

lemma printed_print_regions:
  assumes "print_regions p mm s = Some t"
  shows "printed s t"
proof (rule print_regions.raw_induct [where P = "\<lambda>p mm s t. printed s t", OF _ assms], goal_cases)
  case (1 f p mm s t)
  have "printed s (print_region mm s)" by (simp add: print_region_def Let_def)
  then show ?case using 1 by (auto simp: Let_def split: if_splits intro: printed_trans)
qed

lemma printed_print_mmap: "print_mmap p s = Some t \<Longrightarrow> printed s t"
  unfolding print_mmap_def Let_def by (erule printed_trans [OF _ printed_print_regions, rotated]) simp

lemma printed_multiboot:
  assumes "print_multiboot p b s = Some (r, t)"
  shows "printed s t"
proof -
  obtain s1 where s1: "print_info p s = Some s1" using assms by (auto simp: print_multiboot_def split: option.splits)
  obtain b2 s2 where s2: "(if CHECK_FLAG (mbi_flags (mbi_of p s1)) 3 then print_modules p 0 (mbi_mods_addr (mbi_of p s1)) b s1
      else Some (b, s1)) = Some (b2, s2)"
    using assms s1 by (auto simp: print_multiboot_def split: option.splits if_splits)
  have p: "printed s s2"
    using printed_trans [OF printed_print_info [OF s1], of s2] printed_print_modules [of p 0 "mbi_mods_addr (mbi_of p s1)" b s1 "(b2, s2)"] s2
    by (auto split: if_splits)
  let ?s3 = "if CHECK_FLAG (mbi_flags (mbi_of p s2)) 5 then print_elf p s2 else s2"
  have q: "printed s ?s3" using p by (simp add: print_elf_def)
  show ?thesis
    using assms p printed_trans [OF q printed_print_mmap, of p t] q unfolding print_multiboot_def s1 option.case s2 prod.case
    by (auto simp: Let_def split: if_splits option.splits)
qed

section \<open>What the initialisation changes\<close>

abbreviation screen_region :: "u32 \<times> nat" where
  "screen_region \<equiv> (video_mem, 4000)"

lemma clear_cells_outside:
  assumes "\<not> in_region video_mem 4000 a" "n \<le> 2000"
  shows "foldl (clear_cell col) m [0..<n] a = m a"
  using assms(2)
proof (induction n)
  case (Suc n)
  have "in_region video_mem 4000 (video_mem + of_nat (2 * n))" "in_region video_mem 4000 (video_mem + of_nat (2 * n + 1))"
    using Suc.prems by (intro in_region_offset'; simp)+
  then have "a \<noteq> video_mem + of_nat (2 * n)" "a \<noteq> video_mem + of_nat (2 * n) + 1"
    using assms(1) by (auto simp: add.assoc)
  then show ?case using Suc by (simp add: clear_cell_def)
qed simp

lemma clear_agree: "agree_outside [screen_region] (ram (clear s)) (ram s)"
  unfolding agree_outside_def
  by (simp add: clear_def Let_def set_cursor_def clear_cells_outside del: upt_rec_numeral)

lemma put_literal_agree: "screen_ok s \<Longrightarrow> agree_outside [screen_region] (ram (put_literal str s)) (ram s)"
proof (induction str arbitrary: s)
  case (Cons c cs)
  have "agree_outside [screen_region] (ram (putc c 1 s)) (ram s)"
    using putc_outside [OF Cons.prems, of 1] by (auto simp: agree_outside_def target_base_def)
  with Cons.IH [OF putc_screen_ok [OF Cons.prems]] show ?case by (auto intro: agree_outside_trans)
qed simp

text \<open>The table functions write the table only.\<close>

lemma fold_idt_only:
  "(\<And>x s. x \<in> set xs \<Longrightarrow> \<exists>i. f x s = s\<lparr>idt := i\<rparr>) \<Longrightarrow> \<exists>i. fold f xs s = s\<lparr>idt := i\<rparr>"
proof (induction xs arbitrary: s)
  case Nil
  then show ?case by (intro exI [of _ "idt s"]) simp
next
  case (Cons x xs)
  obtain i where i: "f x s = s\<lparr>idt := i\<rparr>" using Cons.prems by auto
  obtain j where "fold f xs (s\<lparr>idt := i\<rparr>) = s\<lparr>idt := i\<rparr>\<lparr>idt := j\<rparr>" using Cons.IH Cons.prems by (metis list.set_intros(2))
  then show ?case by (simp add: i) blast
qed

lemma init_idt_only: "init_idt lk s = s\<lparr>idt := idt (init_idt lk s), idtr := idt_addr lk\<rparr>"
proof -
  have "\<exists>i. fold (\<lambda>(v, h). set_handler lk v h) exception_entries s = s\<lparr>idt := i\<rparr>"
    by (rule fold_idt_only) (unfold set_handler_def split_def, blast)
  then obtain i where i: "fold (\<lambda>(v, h). set_handler lk v h) exception_entries s = s\<lparr>idt := i\<rparr>" ..
  have "\<exists>j. fold (\<lambda>i. set_gate 1 0 (of_nat i)) [0..<0x20] (s\<lparr>idt := i\<rparr>) = s\<lparr>idt := i\<rparr>\<lparr>idt := j\<rparr>"
    by (rule fold_idt_only) (unfold set_gate_def, blast)
  then obtain j where j: "fold (\<lambda>i. set_gate 1 0 (of_nat i)) [0..<0x20] (s\<lparr>idt := i\<rparr>) = s\<lparr>idt := j\<rparr>" by auto
  show ?thesis unfolding init_idt_def Let_def i j by (simp add: set_gate_def set_handler_def)
qed

text \<open>
  The start routines of the missing files: what the boot relies on is that they leave the
  kernel's variables alone and write only memory of their own.
\<close>

definition quiet_driver :: "(u32 \<times> nat) list \<Rightarrow> ('a machine_scheme \<Rightarrow> 'a machine_scheme) \<Rightarrow> bool" where
  "quiet_driver rs f \<longleftrightarrow> (\<forall>s. machine.more (f s) = machine.more s \<and> dev (f s) = dev s \<and> agree_outside rs (ram (f s)) (ram s))"

lemma init_pid_effect:
  "init_pid s = s\<lparr>pidlist := pidlist (init_pid s), scheduled_terminal := 0\<rparr>"
  "p < 6 \<Longrightarrow> pidlist (init_pid s) p = \<lparr>pid_pid = ucast p, pid_proc = 0, pid_flag = 0\<rparr>"
proof -
  show "init_pid s = s\<lparr>pidlist := pidlist (init_pid s), scheduled_terminal := 0\<rparr>"
    by (simp add: init_pid_def Let_def upt_rec numeral_eq_Suc)
  have "[0..<6] = [0, 1, 2, 3, 4, 5 :: nat]" by (simp add: upt_rec numeral_eq_Suc)
  moreover assume "p < 6"
  then have "p = 0 \<or> p = 1 \<or> p = 2 \<or> p = 3 \<or> p = 4 \<or> p = 5" by unat_arith
  ultimately show "pidlist (init_pid s) p = \<lparr>pid_pid = ucast p, pid_proc = 0, pid_flag = 0\<rparr>"
    by (auto simp: init_pid_def Let_def)
qed

lemma tables_frame:
  fixes s t :: "'a tables_state_scheme"
  assumes "rtc.more t = rtc.more s"
  shows "idt t = idt s" "idtr t = idtr s" "ldt_desc_ptr t = ldt_desc_ptr s" "tss_desc_ptr t = tss_desc_ptr s"
    "ldtr t = ldtr s" "task_register t = task_register s"
  using assms by (cases s rule: tables_state.cases_scheme; cases t rule: tables_state.cases_scheme; simp)+

lemma i8259_init_fields [simp]:
  "ram (i8259_init s) = ram s" "dev (i8259_init s) = dev s" "pic.more (i8259_init s) = pic.more s"
  by (simp_all add: i8259_init_def Let_def outb_def)

lemma terminal_init_effect:
  "terminal_init s = (clear s)\<lparr>keyboard_buffer := keyboard_buffer (terminal_init s),
     terminal_buffer := terminal_buffer (terminal_init s), terminals := terminals (terminal_init s), flag_initialize_terminal := 1\<rparr>"
  "x < 3 \<Longrightarrow> input_count (terminals (terminal_init s) x) = 0 \<and> shell_pid (terminals (terminal_init s) x) = (if x = 0 then 0 else -1)"
proof -
  have u: "[0..<3] = [0, 1, 2 :: nat]" by (simp add: upt_rec numeral_eq_Suc)
  show "terminal_init s = (clear s)\<lparr>keyboard_buffer := keyboard_buffer (terminal_init s),
     terminal_buffer := terminal_buffer (terminal_init s), terminals := terminals (terminal_init s), flag_initialize_terminal := 1\<rparr>"
    unfolding terminal_init_def Let_def u clear_terminal_def upd_terminal_def by simp
  assume "x < 3"
  then show "input_count (terminals (terminal_init s) x) = 0 \<and> shell_pid (terminals (terminal_init s) x) = (if x = 0 then 0 else -1)"
    unfolding terminal_init_def Let_def u clear_terminal_def upd_terminal_def by (auto simp: u8_less_3)
qed

lemma fs_init_effect:
  "fs_init b s = s\<lparr>fs_base := b, boot_block_ptr := b, num_dentry := load32 (ram s) b, inode_base := b + BLOCKSIZE,
     num_inode := load32 (ram s) (b + 4), data_base := b + BLOCKSIZE + load32 (ram s) (b + 4) * BLOCKSIZE,
     num_dblock := load32 (ram s) (b + 8)\<rparr>"
  by (simp add: fs_init_def Let_def)

lemma pic_frame:
  fixes s t :: "'a tables_state_scheme"
  assumes "pic.more t = pic.more s"
  shows "screen_x t = screen_x s" "screen_y t = screen_y s" "disp_terminal t = disp_terminal s"
    "scheduled_terminal t = scheduled_terminal s" "console.more t = console.more s"
  using assms by (cases s rule: tables_state.cases_scheme; cases t rule: tables_state.cases_scheme; simp)+

text \<open>The software part: file system, terminals and processes.\<close>

lemma init_software:
  fixes s :: "'a tables_state_scheme" and b :: u32
  defines "t \<equiv> init_pid (terminal_init (fs_init b s))"
  shows "screen_x t = (screen_x s)(disp_terminal s := 0)" "screen_y t = (screen_y s)(disp_terminal s := 0)"
    "disp_terminal t = disp_terminal s" "scheduled_terminal t = 0" "tlb t = tlb s" "tables t = tables s"
    "tss t = tss s" "rtc.more t = rtc.more s" "agree_outside [screen_region] (ram t) (ram s)"
    "get_current_flag t = 1" "fs_base t = b" "boot_block_ptr t = b" "num_dentry t = load32 (ram s) b"
    "inode_base t = b + BLOCKSIZE" "num_inode t = load32 (ram s) (b + 4)"
    "data_base t = b + BLOCKSIZE + load32 (ram s) (b + 4) * BLOCKSIZE" "num_dblock t = load32 (ram s) (b + 8)"
    "\<forall>p < 6. pidlist t p = \<lparr>pid_pid = ucast p, pid_proc = 0, pid_flag = 0\<rparr>"
    "\<forall>x < 3. input_count (terminals t x) = 0 \<and> shell_pid (terminals t x) = (if x = 0 then 0 else -1)"
proof -
  let ?f = "fs_init b s" and ?u = "terminal_init (fs_init b s)"
  have f: "screen_x ?f = screen_x s" "screen_y ?f = screen_y s" "disp_terminal ?f = disp_terminal s" "tlb ?f = tlb s"
    "tables ?f = tables s" "tss ?f = tss s" "rtc.more ?f = rtc.more s" "ram ?f = ram s" "fs_base ?f = b"
    "boot_block_ptr ?f = b" "num_dentry ?f = load32 (ram s) b" "inode_base ?f = b + BLOCKSIZE"
    "num_inode ?f = load32 (ram s) (b + 4)" "data_base ?f = b + BLOCKSIZE + load32 (ram s) (b + 4) * BLOCKSIZE"
    "num_dblock ?f = load32 (ram s) (b + 8)"
    unfolding fs_init_effect tables_def by simp_all
  have u: "\<exists>k l T. ?u = (clear ?f)\<lparr>keyboard_buffer := k, terminal_buffer := l, terminals := T, flag_initialize_terminal := 1\<rparr>
    \<and> (\<forall>x < 3. input_count (T x) = 0 \<and> shell_pid (T x) = (if x = 0 then 0 else -1))"
    using terminal_init_effect [where s = ?f] by blast
  then obtain k l T where u: "?u = (clear ?f)\<lparr>keyboard_buffer := k, terminal_buffer := l, terminals := T, flag_initialize_terminal := 1\<rparr>"
    "\<forall>x < 3. input_count (T x) = 0 \<and> shell_pid (T x) = (if x = 0 then 0 else -1)" by blast
  define g where "g = clear ?f"
  have g: "screen_x g = (screen_x s)(disp_terminal s := 0)" "screen_y g = (screen_y s)(disp_terminal s := 0)"
    "disp_terminal g = disp_terminal s" "tlb g = tlb s" "tables g = tables s" "tss g = tss s" "rtc.more g = rtc.more s"
    "fs_base g = b" "boot_block_ptr g = b" "num_dentry g = load32 (ram s) b" "inode_base g = b + BLOCKSIZE"
    "num_inode g = load32 (ram s) (b + 4)" "data_base g = b + BLOCKSIZE + load32 (ram s) (b + 4) * BLOCKSIZE"
    "num_dblock g = load32 (ram s) (b + 8)"
    "agree_outside [screen_region] (ram g) (ram s)"
    using clear_agree [of ?f] by (simp_all add: g_def f tables_def [of "clear ?f"]) (simp add: f tables_def [symmetric])
  have t: "t = g\<lparr>keyboard_buffer := k, terminal_buffer := l, terminals := T, flag_initialize_terminal := 1, pidlist := pidlist t,
      scheduled_terminal := 0\<rparr>"
    using init_pid_effect(1) [of ?u] unfolding t_def u(1) g_def by simp
  show "screen_x t = (screen_x s)(disp_terminal s := 0)" "screen_y t = (screen_y s)(disp_terminal s := 0)"
    "disp_terminal t = disp_terminal s" "scheduled_terminal t = 0" "tlb t = tlb s" "tables t = tables s"
    "tss t = tss s" "rtc.more t = rtc.more s" "agree_outside [screen_region] (ram t) (ram s)"
    "get_current_flag t = 1" "fs_base t = b" "boot_block_ptr t = b" "num_dentry t = load32 (ram s) b"
    "inode_base t = b + BLOCKSIZE" "num_inode t = load32 (ram s) (b + 4)"
    "data_base t = b + BLOCKSIZE + load32 (ram s) (b + 4) * BLOCKSIZE" "num_dblock t = load32 (ram s) (b + 8)"
    "\<forall>x < 3. input_count (terminals t x) = 0 \<and> shell_pid (terminals t x) = (if x = 0 then 0 else -1)"
    using u(2) g by (subst t, simp add: tables_def get_current_flag_def)+
  show "\<forall>p < 6. pidlist t p = \<lparr>pid_pid = ucast p, pid_proc = 0, pid_flag = 0\<rparr>"
    using init_pid_effect(2) by (auto simp: t_def)
qed

text \<open>The hardware part: tables, paging, interrupt controller and drivers.\<close>

lemma init_hardware:
  fixes s :: "'a tables_state_scheme" and lk :: symbols and dir low vid :: u32
  assumes "selected s = None" and drv: "quiet_driver rs mouse" "quiet_driver rs kmalloc"
  defines "t \<equiv> enable_irq 1 (kmalloc (mouse (i8259_init (pagingInit dir low vid (init_idt lk s)))))"
  shows "screen_x t = screen_x s" "screen_y t = screen_y s" "disp_terminal t = disp_terminal s"
    "tlb t = tlb (pagingInit dir low vid (init_idt lk s))" "tables t = tables (pagingInit dir low vid (init_idt lk s))"
    "tss t = tss s" "idt t = idt (init_idt lk s)" "idtr t = idt_addr lk" "agree_outside rs (ram t) (ram s)"
    "ldt_desc_ptr t = ldt_desc_ptr s" "tss_desc_ptr t = tss_desc_ptr s" "ldtr t = ldtr s" "task_register t = task_register s"
proof -
  define s1 where "s1 = init_idt lk s"
  define s2 where "s2 = pagingInit dir low vid s1"
  define s3 where "s3 = i8259_init s2"
  define s4 where "s4 = mouse s3"
  define s5 where "s5 = kmalloc s4"
  have t: "t = enable_irq 1 s5" by (simp add: t_def s5_def s4_def s3_def s2_def s1_def)
  note e1 = init_idt_only [of lk s, folded s1_def]
  have v1: "screen_x s1 = screen_x s" "screen_y s1 = screen_y s" "disp_terminal s1 = disp_terminal s" "tss s1 = tss s"
    "selected s1 = selected s" "ram s1 = ram s" "idtr s1 = idt_addr lk" "ldt_desc_ptr s1 = ldt_desc_ptr s"
    "tss_desc_ptr s1 = tss_desc_ptr s" "ldtr s1 = ldtr s" "task_register s1 = task_register s"
    by (subst e1, simp add: selected_def)+
  have r2: "ram s2 = ram s" using pagingInit_ram [of s1] v1(5,6) assms(1) by (simp add: s2_def)
  have v2: "screen_x s2 = screen_x s1" "screen_y s2 = screen_y s1" "disp_terminal s2 = disp_terminal s1" "paging.more s2 = paging.more s1"
    by (simp_all add: s2_def)
  have p3: "pic.more s3 = pic.more s2" and r3: "ram s3 = ram s2" by (simp_all add: s3_def)
  have p4: "machine.more s4 = machine.more s3" and r4: "agree_outside rs (ram s4) (ram s3)" using drv(1) by (simp_all add: quiet_driver_def s4_def)
  have p5: "machine.more s5 = machine.more s4" and r5: "agree_outside rs (ram s5) (ram s4)" using drv(2) by (simp_all add: quiet_driver_def s5_def)
  have p: "machine.more t = machine.more s3" by (simp add: t p5 p4)
  note x3 = pic_frame [OF p3] and xt = above_machine [OF p]
  note y3 = above_console [OF x3(5)] and y2 = above_paging [OF v2(4)]
  have m: "rtc.more t = rtc.more s1" by (simp only: xt y3 y2)
  show "screen_x t = screen_x s" "screen_y t = screen_y s" "disp_terminal t = disp_terminal s" "tss t = tss s"
    by (simp_all only: xt x3 v2 v1 y3 y2)
  show "tlb t = tlb (pagingInit dir low vid (init_idt lk s))" "tables t = tables (pagingInit dir low vid (init_idt lk s))"
    unfolding tables_def by (simp_all only: xt y3 s2_def [symmetric] s1_def [symmetric])
  show "agree_outside rs (ram t) (ram s)"
    using agree_outside_trans [OF r5 r4] by (simp add: t r3 r2)
  show "idt t = idt (init_idt lk s)" "idtr t = idt_addr lk" "ldt_desc_ptr t = ldt_desc_ptr s" "tss_desc_ptr t = tss_desc_ptr s"
    "ldtr t = ldtr s" "task_register t = task_register s"
    by (simp_all only: tables_frame [OF m] v1 s1_def [symmetric])
qed

lemma init_pit_boot:
  "\<exists>t. init_pit 0 100 s = Some t \<and> machine.more t = machine.more s \<and> dev t = dev s \<and> ram t = ram s"
  by (simp add: init_pit_def Let_def)

text \<open>The state of the kernel's variables once \<open>init_kernel\<close> is through.\<close>

lemma init_kernel_effect:
  fixes s :: "'a tables_state_scheme"
  assumes scr: "screen_ok s" and sel: "selected s = None" and pg: "videoMem_4kb_Page s = (\<lambda>_. 0)"
    and al: "be_low be AND 0xFFF = 0" "be_vid be AND 0xFFF = 0" "be_low be \<noteq> be_vid be"
    and drv: "quiet_driver rs (be_init_mouse be)" "quiet_driver rs (be_init_kmalloc be)"
    and img: "\<forall>r \<in> set rs. disjoint_regions (fst r) (snd r) b 4096"
  obtains t where "init_kernel be b s = Some t" "agree_outside (screen_region # rs) (ram t) (ram s)"
    "idt t = idt (init_idt (be_symbols be) s)" "idtr t = idt_addr (be_symbols be)" "tss t = tss s"
    "boot_block_ptr t = b" "num_dentry t = load32 (ram s) b" "inode_base t = b + BLOCKSIZE"
    "num_inode t = load32 (ram s) (b + 4)" "data_base t = b + BLOCKSIZE + load32 (ram s) (b + 4) * BLOCKSIZE"
    "num_dblock t = load32 (ram s) (b + 8)" "scheduled_terminal t = 0" "disp_terminal t = disp_terminal s" "get_current_flag t = 1"
    "\<forall>p < 6. pidlist t p = \<lparr>pid_pid = ucast p, pid_proc = 0, pid_flag = 0\<rparr>"
    "\<forall>x < 3. shell_pid (terminals t x) = (if x = 0 then 0 else -1)"
    "kbd_ok t" "ifl t" "\<And>user va. translate (be_low be) (be_vid be) user va t = boot_map user va"
    "selected t = None" "tss_desc_ptr t = tss_desc_ptr s" "task_register t = task_register s"
proof -
  define p where "p = pagingInit (be_dir be) (be_low be) (be_vid be) (init_idt (be_symbols be) s)"
  define h where "h = enable_irq 1 (be_init_kmalloc be (be_init_mouse be (i8259_init p)))"
  note hw = init_hardware [OF sel drv, where dir = "be_dir be" and low = "be_low be" and vid = "be_vid be" and lk = "be_symbols be",
      folded p_def, folded h_def]
  define w where "w = init_pid (terminal_init (fs_init b h))"
  note sw = init_software [where s = h and b = b, folded w_def]
  obtain u where u: "init_pit 0 100 w = Some u" "machine.more u = machine.more w" "ram u = ram w"
    using init_pit_boot by blast
  define t where "t = sti (clear u)"
  have run: "init_kernel be b s = Some t"
    unfolding init_kernel_def Let_def p_def [symmetric] h_def [symmetric] w_def [symmetric] u(1) by (simp add: t_def)
  have ct: "console.more t = console.more u" by (simp add: t_def)
  note xt = above_console [OF ct] and xu = above_machine [OF u(2)]
  have dt: "disp_terminal t = disp_terminal s" "scheduled_terminal t = 0"
    "screen_x t = (screen_x s)(disp_terminal s := 0)" "screen_y t = (screen_y s)(disp_terminal s := 0)"
    by (simp_all add: t_def xu sw(1-4) hw(1-3))
  have tb: "tlb t = tlb p" "tables t = tables p"
    using sw(5,6) hw(4,5) unfolding tables_def by (simp_all only: xt xu)
  have w32: "load32 (ram h) (b + of_nat n) = load32 (ram s) (b + of_nat n)" if "n + 4 \<le> 4096" for n
  proof (rule load32_cong)
    fix j :: nat assume "j < 4"
    then show "ram h (b + of_nat n + of_nat j) = ram s (b + of_nat n + of_nat j)"
      using agree_outsideD [OF hw(9) img] in_region_offset' [of "n + j" 4096 b] that by (simp add: add.assoc)
  qed
  have ram: "agree_outside (screen_region # rs) (ram t) (ram s)"
  proof -
    have "agree_outside [screen_region] (ram t) (ram w)"
      using clear_agree [of u] by (simp add: t_def u(3))
    then have "agree_outside (screen_region # rs) (ram t) (ram w)"
      by (rule agree_outside_mono [of "[screen_region]"]) simp
    moreover have "agree_outside (screen_region # rs) (ram w) (ram h)"
      using sw(9) by (rule agree_outside_mono [of "[screen_region]"]) simp
    moreover have "agree_outside (screen_region # rs) (ram h) (ram s)"
      using hw(9) by (rule agree_outside_mono [of rs]) (rule set_subset_Cons)
    ultimately show ?thesis by (blast intro: agree_outside_trans)
  qed
  have m: "rtc.more t = rtc.more h" by (simp only: xt xu sw(8))
  have walk: "translate (be_low be) (be_vid be) user va t = boot_map user va" for user va
  proof -
    have v0: "videoMem_4kb_Page (init_idt (be_symbols be) s) = (\<lambda>_. 0)" using pg by (subst init_idt_only) simp
    show ?thesis unfolding translate_def tb p_def pagingInit_tables unfolding tables_def pagingInit_vid [OF v0]
      by (rule walk_boot [OF pagingInit_dir pagingInit_low al])
  qed
  have coh: "tlb_coherent t" using pagingInit_tables by (simp add: tlb_coherent_def tb p_def)
  have selt: "selected t = None"
  proof -
    have "fst (tables p) = pageDir p" by (simp add: tables_def)
    then show ?thesis
      using pagingInit_dir [of "be_dir be" "be_low be" "be_vid be" "init_idt (be_symbols be) s", folded p_def]
      by (simp add: selected_def tb p_def pagingInit_tables boot_dir_def pde_frame_def)
  qed
  have scrt: "screen_ok t" using scr by (auto simp: screen_ok_def term_ok_def cursor_ok_def dt)
  have inp: "input_count (terminals t x) = 0" "shell_pid (terminals t x) = (if x = 0 then 0 else -1)" if "x < 3" for x
    using sw(19) that by (simp_all only: xt xu)
  have lines: "line_ok x t" if "x < 3" for x
  proof -
    have "0 \<le> screen_x t x" "0 \<le> screen_y t x" using screen_ok_cursor [OF scrt] that by (simp_all add: cursor_ok_def term_ok_def)
    then show ?thesis using inp [OF that] by (simp add: line_ok_def)
  qed
  show thesis
  proof (rule that [OF run ram])
    show "idt t = idt (init_idt (be_symbols be) s)" "idtr t = idt_addr (be_symbols be)" "tss_desc_ptr t = tss_desc_ptr s"
      "task_register t = task_register s" by (simp_all only: tables_frame [OF m] hw)
    show "tss t = tss s" "boot_block_ptr t = b" "inode_base t = b + BLOCKSIZE" by (simp_all only: xt xu sw hw)
    show "num_dentry t = load32 (ram s) b" "num_inode t = load32 (ram s) (b + 4)"
      "data_base t = b + BLOCKSIZE + load32 (ram s) (b + 4) * BLOCKSIZE" "num_dblock t = load32 (ram s) (b + 8)"
      using w32 [of 0] w32 [of 4] w32 [of 8] by (simp_all add: xt xu sw)
    show "scheduled_terminal t = 0" "disp_terminal t = disp_terminal s" by (rule dt)+
    show "get_current_flag t = 1" using sw(10) unfolding get_current_flag_def by (simp only: xt xu)
    show "\<forall>p < 6. pidlist t p = \<lparr>pid_pid = ucast p, pid_proc = 0, pid_flag = 0\<rparr>" using sw(18) by (simp only: xt xu)
    show "\<forall>x < 3. shell_pid (terminals t x) = (if x = 0 then 0 else -1)" using inp(2) by blast
    show "kbd_ok t" using scrt coh lines by (simp add: kbd_ok_def)
    show "ifl t" by (simp add: t_def)
    show "translate (be_low be) (be_vid be) user va t = boot_map user va" for user va by (rule walk)
    show "selected t = None" by (rule selt)
  qed
qed

section \<open>The file system image and the first program\<close>

text \<open>What a file system call sees is the memory and the addresses that \<open>fs_init\<close> computes.\<close>

definition same_image :: "'a filesys_scheme \<Rightarrow> 'b filesys_scheme \<Rightarrow> bool" where
  "same_image s t \<longleftrightarrow> boot_block_ptr t = boot_block_ptr s \<and> num_dentry t = num_dentry s \<and> inode_base t = inode_base s
     \<and> num_inode t = num_inode s \<and> data_base t = data_base s \<and> num_dblock t = num_dblock s"

lemma same_image_views:
  assumes "same_image s t"
  shows "lookup t n = lookup (s\<lparr>ram := ram t\<rparr>) n" "entry_inode t i = entry_inode (s\<lparr>ram := ram t\<rparr>) i"
    "content t j = content (s\<lparr>ram := ram t\<rparr>) j" "good_inode t j = good_inode (s\<lparr>ram := ram t\<rparr>) j"
    "outside_file t j a k = outside_file (s\<lparr>ram := ram t\<rparr>) j a k"
  using assms by (simp_all add: same_image_def lookup_def entry_name_def entry_inode_def dir_entry_addr_def content_def
      file_length_def inode_addr_def block_addr_def block_index_def good_inode_def outside_file_def)

lemma frame_ok_cong:
  assumes "\<And>a k. outside_file t i a k = outside_file s i a k" "boot_block_ptr t = boot_block_ptr s"
  shows "frame_ok fr i t = frame_ok fr i s"
  by (simp add: frame_ok_def assms)

lemma new_process_first:
  assumes "get_current_flag s = 1" "scheduled_terminal s = 0"
  obtains s' where "new_process s = Some (0, 0, s')"
  using assms by (simp add: new_process_def Let_def set_current_flag_def set_pid_flag_def)

text \<open>Memory that neither the boot nor the drivers write: the file system and the command.\<close>

definition image_safe :: "(u32 \<times> nat) list \<Rightarrow> u32 \<Rightarrow> 'a filesys_scheme \<Rightarrow> bool" where
  "image_safe rs ino s \<longleftrightarrow> (\<forall>r \<in> set rs. disjoint_regions (fst r) (snd r) (boot_block_ptr s) 4096
     \<and> outside_file s ino (fst r) (snd r))"

lemma image_kept:
  fixes s :: "'a filesys_scheme" and t :: "'b filesys_scheme"
  assumes same: "same_image s t" and a: "agree_outside rs (ram t) (ram s)" and safe: "image_safe rs ino s"
    and nd: "unat (num_dentry s) \<le> 63" and good: "good_inode s ino"
  shows "lookup t str = lookup s str" "lookup s str = Some k \<Longrightarrow> entry_inode t (of_nat k) = entry_inode s (of_nat k)"
    "content t ino = content s ino" "good_inode t ino" "outside_file t ino b n = outside_file s ino b n"
    "executable_file ino s \<Longrightarrow> executable_file ino t" "frame_ok fr ino t = frame_ok fr ino s"
proof -
  have d: "dir_kept (ram t) s" by (rule agree_outside_dir [OF a]) (use safe in \<open>auto simp: image_safe_def\<close>)
  have o: "\<forall>r \<in> set rs. outside_file s ino (fst r) (snd r)" using safe by (simp add: image_safe_def)
  note f = agree_outside_file [OF good a o] and v = same_image_views [OF same]
  show "lookup t str = lookup s str" unfolding v(1) using dir_kept_lookup [OF d nd] by simp
  show "entry_inode t (of_nat k) = entry_inode s (of_nat k)" if "lookup s str = Some k"
    unfolding v(2) using dir_kept_entries(3) [OF d, of k] lookup_Some [OF that] nd by simp
  have c: "content t ino = content s ino" "good_inode t ino" "outside_file t ino b n = outside_file s ino b n" for b n
    unfolding v using f by simp_all
  show "content t ino = content s ino" "good_inode t ino" "outside_file t ino b n = outside_file s ino b n" by (rule c)+
  show "executable_file ino t" if "executable_file ino s" using that c(1,2) by (simp add: executable_file_def)
  show "frame_ok fr ino t = frame_ok fr ino s" using frame_ok_cong [OF c(3)] same by (simp add: same_image_def)
qed

lemma boot_execute:
  fixes s t :: "'a tables_state_scheme"
  assumes same: "same_image s t" and a: "agree_outside rs (ram t) (ram s)" and safe: "image_safe rs ino s"
    and cmd: "command_ok fr command str (ram s)" "length (command_program str) \<le> 31" "unat (num_dentry s) \<le> 63"
      "\<forall>r \<in> set rs. disjoint_regions (fst r) (snd r) command (Suc (length str))"
    and k: "lookup s (command_program str) = Some k" "ino = entry_inode s (of_nat k)"
    and fr: "frame_ok fr ino s" and ex: "executable_file ino s"
    and flag: "get_current_flag t = 1" "scheduled_terminal t = 0"
  obtains u where "sys_execute fr command t = Some (EnterUser (entry_point (content s ino)) USER_ESP USER_CS USER_DS u)"
    "current_pid u = 0" "selected u = Some (process_page 0)"
    "bytes (ram u) 0x08048000 (length (take 3899392 (content s ino))) = take 3899392 (content s ino)"
    "\<forall>q < 6. q \<noteq> 0 \<longrightarrow> frame_contents (process_page q) u = frame_contents (process_page q) t"
    "tss u = launched_tss 0 (tss t)"
proof -
  have good: "good_inode s ino" using ex by (simp add: executable_file_def)
  note v = image_kept [OF same a safe cmd(3) good]
  have lk: "lookup t (command_program str) = Some k" using v(1) k(1) by simp
  have ino: "entry_inode t (of_nat k) = ino" using v(2) [OF k(1)] k(2) by simp
  have c: "content t ino = content s ino" and ext: "executable_file ino t" and frt: "frame_ok fr ino t"
    using v(3,6,7) ex fr by simp_all
  have "bytes (ram t) command (Suc (length str)) = bytes (ram s) command (Suc (length str))"
    by (rule agree_outside_bytes [OF a cmd(4)])
  then have cmdt: "command_ok fr command str (ram t)" using cmd(1) by (simp add: command_ok_def cstr_def)
  have nd: "unat (num_dentry t) \<le> 63" using same cmd(3) by (simp add: same_image_def)
  obtain s' where np: "new_process t = Some (0, 0, s')" using new_process_first [OF flag] by blast
  show thesis
    by (rule execute_run [OF cmdt cmd(2) nd lk ino frt ext np]) (use that flag in \<open>simp_all add: c\<close>)
qed

lemma init_segments_fields:
  fixes s :: "'a tables_state_scheme"
  shows "screen_x (init_segments lk s) = screen_x s" "screen_y (init_segments lk s) = screen_y s"
    "disp_terminal (init_segments lk s) = disp_terminal s" "scheduled_terminal (init_segments lk s) = scheduled_terminal s"
    "tlb (init_segments lk s) = tlb s" "videoMem_4kb_Page (init_segments lk s) = videoMem_4kb_Page s"
    "ram (init_segments lk s) = ram s" "tss_esp0 (tss (init_segments lk s)) = 0x800000"
  by (simp_all add: init_segments_def Let_def)

lemma screen_ok_cong:
  "screen_x t = screen_x s \<Longrightarrow> screen_y t = screen_y s \<Longrightarrow> disp_terminal t = disp_terminal s
    \<Longrightarrow> scheduled_terminal t = scheduled_terminal s \<Longrightarrow> screen_ok t = screen_ok s"
  unfolding screen_ok_def term_ok_def cursor_ok_def by simp

text \<open>The words that the messages read are not on the screen, so printing does not change them.\<close>

lemma printed_load32:
  assumes "printed s t" "screen_ok s" "disjoint_regions video_mem 4000 a n" "k + 4 \<le> n"
  shows "load32 (ram t) (a + of_nat k) = load32 (ram s) (a + of_nat k)"
proof (rule load32_cong)
  obtain str where t: "t = put_literal str s" using assms(1) by (auto simp: printed_def)
  fix j :: nat assume "j < 4"
  then have "in_region a n (a + of_nat (k + j))" using assms(4) by (intro in_region_offset') simp
  then show "ram t (a + of_nat k + of_nat j) = ram s (a + of_nat k + of_nat j)"
    using agree_outsideD [OF put_literal_agree [OF assms(2)], of a n] assms(3) by (simp add: t add.assoc)
qed

lemma printed_screen_ok: "printed s t \<Longrightarrow> screen_ok s \<Longrightarrow> screen_ok t"
  by (auto simp: printed_def intro: inv_intros)

text \<open>A loader that passes one module and no command line, symbol table or memory map.\<close>

lemma print_multiboot_one_module:
  fixes s :: "'a console_scheme"
  assumes ok: "screen_ok s" "disjoint_regions video_mem 4000 p 52"
    and fl: "load32 (ram s) p = 8" and n: "load32 (ram s) (p + 20) = 1" and a: "load32 (ram s) (p + 24) = md"
    and md: "disjoint_regions video_mem 4000 md 16"
  shows "\<exists>t. print_multiboot p b0 s = Some (Some (load32 (ram s) md), t)"
proof -
  have f: "mbi_flags (mbi_of p t) = 8" "mbi_mods_count (mbi_of p t) = 1" "mbi_mods_addr (mbi_of p t) = md"
    "mod_start (module_at (ram t) md) = load32 (ram s) md" if "printed s t" for t
    using printed_load32 [OF that ok, of 0] printed_load32 [OF that ok, of 20] printed_load32 [OF that ok, of 24]
      printed_load32 [OF that ok(1) md, of 0] fl n a
    by (simp_all add: multiboot_info_at_def module_at_def)
  have c: "\<not> CHECK_FLAG 8 0" "\<not> CHECK_FLAG 8 1" "\<not> CHECK_FLAG 8 2" "CHECK_FLAG 8 3" "\<not> CHECK_FLAG 8 4" "\<not> CHECK_FLAG 8 5" "\<not> CHECK_FLAG 8 6"
    by (simp_all add: CHECK_FLAG_def)
  obtain s1 where s1: "print_info p s = Some s1"
    unfolding print_info_def Let_def by (simp add: f c)
  note p1 = printed_print_info [OF s1]
  obtain b s2 where m: "print_module 0 md s1 = (b, s2)" by (cases "print_module 0 md s1")
  have p2: "printed s s2" using printed_trans [OF p1 printed_print_module [of s1 0 md]] by (simp add: m)
  have "b = load32 (ram s) md"
    using m f(4) [of "newline (print_args ''Module %d loaded at address: 0x%#x'' [0, mod_start (module_at (ram s1) md)] s1)"] p1
    by (simp add: print_module_def Let_def printed_step)
  moreover have "print_modules p 0 md b0 s1 = Some (b, s2)"
    by (subst print_modules.simps, simp add: f [OF p1] m) (subst print_modules.simps, simp add: f [OF p2])
  ultimately show ?thesis by (simp add: print_multiboot_def s1 f p1 p2 c)
qed

section \<open>The global descriptor table\<close>

text \<open>The table of x86_desc.S: two empty entries, the flat segments, and the two computed entries.\<close>

definition gdt :: "'a tables_state_scheme \<Rightarrow> 64 word list" where
  "gdt s = [0, 0, 0x00CF9A000000FFFF, 0x00CF92000000FFFF, 0x00CFFA000000FFFF, 0x00CFF2000000FFFF,
     seg_word (tss_desc_ptr s), seg_word (ldt_desc_ptr s)]"

definition descriptor :: "'a tables_state_scheme \<Rightarrow> u16 \<Rightarrow> 64 word" where
  "descriptor s sel = gdt s ! (unat sel div 8)"

definition seg_level :: "64 word \<Rightarrow> 2 word" where
  "seg_level w = ucast (drop_bit 45 w)"

text \<open>The system bit and the type together: 9 is an available 32-bit task state segment.\<close>

definition seg_kind :: "64 word \<Rightarrow> 5 word" where
  "seg_kind w = ucast (drop_bit 40 w)"

text \<open>The bits "present", "32-bit" and "limit in pages", and the bytes a segment has.\<close>

definition is_present :: "64 word \<Rightarrow> bool" where
  "is_present w = bit w 47"

definition is_32bit :: "64 word \<Rightarrow> bool" where
  "is_32bit w = bit w 54"

definition seg_bytes :: "64 word \<Rightarrow> nat" where
  "seg_bytes w = (unat (seg_limit w) + 1) * (if bit w 55 then 4096 else 1)"

lemma seg_fields_word:
  "seg_level (seg_word d) = seg_dpl d"
  "seg_kind (seg_word d) = ucast (seg_type d) OR push_bit 4 (ucast (seg_sys d))"
proof -
  show "seg_level (seg_word d) = seg_dpl d"
    unfolding seg_level_def by (rule bit_word_eqI) (simp add: bit_seg_word bit_ucast_iff bit_drop_bit_eq)
  show "seg_kind (seg_word d) = ucast (seg_type d) OR push_bit 4 (ucast (seg_sys d))"
    unfolding seg_kind_def
  proof (rule bit_word_eqI)
    fix n assume "n < LENGTH(5)"
    then consider "n < 4" | "n = 4" by fastforce
    then show "bit (ucast (drop_bit 40 (seg_word d)) :: 5 word) n = bit (ucast (seg_type d) OR push_bit 4 (ucast (seg_sys d)) :: 5 word) n"
      by cases (simp_all add: bit_seg_word bit_ucast_iff bit_drop_bit_eq bit_or_iff bit_push_bit_iff not_bit_beyond)
  qed
qed

lemma seg_bits_word:
  "is_present (seg_word d) = bit (seg_present d) 0" "bit (seg_word d) 55 = bit (seg_granularity d) 0"
  by (simp_all add: is_present_def bit_seg_word)

lemma entry_runs:
  fixes s :: "'a tables_state_scheme"
  assumes "screen_ok s" "selected s = None" "videoMem_4kb_Page s = (\<lambda>_. 0)"
    and "be_low be AND 0xFFF = 0" "be_vid be AND 0xFFF = 0" "be_low be \<noteq> be_vid be"
    and "quiet_driver rs (be_init_mouse be)" "quiet_driver rs (be_init_kmalloc be)"
    and boot: "print_multiboot addr (be_bootblock be) (clear s) = Some (Some b, s1)"
    and fs: "f = fs_init b s" "image_safe (screen_region # rs) ino f"
    and cmd: "command_ok (be_frame be) (be_shell be) str (ram s)" "length (command_program str) \<le> 31" "unat (num_dentry f) \<le> 63"
      "\<forall>r \<in> set (screen_region # rs). disjoint_regions (fst r) (snd r) (be_shell be) (Suc (length str))"
    and k: "lookup f (command_program str) = Some k" "ino = entry_inode f (of_nat k)"
    and ex: "frame_ok (be_frame be) ino f" "executable_file ino f"
  shows "\<exists>u. entry be 0x2BADB002 addr s = Some (Running (EnterUser (entry_point (content f ino)) USER_ESP USER_CS USER_DS u))
    \<and> current_pid u = 0 \<and> selected u = Some (process_page 0) \<and> tss_esp0 (tss u) = 0x7FFFFC
    \<and> bytes (ram u) 0x08048000 (length (take 3899392 (content f ino))) = take 3899392 (content f ino)"
proof -
  let ?rs = "screen_region # rs"
  obtain msg where msg: "s1 = put_literal msg (clear s)" using printed_multiboot [OF boot] by (auto simp: printed_def)
  define s2 where "s2 = init_segments (be_symbols be) s1"
  have ok1: "screen_ok s1" unfolding msg using assms(1) by (auto intro: inv_intros)
  note e2 = init_segments_fields [of "be_symbols be" s1, folded s2_def]
  have v1: "videoMem_4kb_Page s1 = videoMem_4kb_Page s" "tlb s1 = tlb s" by (simp_all add: msg)
  have s2: "screen_ok s2" "selected s2 = None" "videoMem_4kb_Page s2 = (\<lambda>_. 0)"
    using screen_ok_cong [OF e2(1-4)] ok1 assms(2,3) by (simp_all add: e2(5,6) v1 selected_def)
  have "agree_outside [screen_region] (ram s2) (ram s)"
    unfolding e2(7) msg by (rule agree_outside_trans [OF put_literal_agree clear_agree]) (rule clear_screen_ok [OF assms(1)])
  then have r2: "agree_outside ?rs (ram s2) (ram s)" by (rule agree_outside_mono) simp
  have fb: "boot_block_ptr f = b" "ram f = ram s" "num_dentry f = load32 (ram s) b" "inode_base f = b + BLOCKSIZE"
    "num_inode f = load32 (ram s) (b + 4)" "data_base f = b + BLOCKSIZE + load32 (ram s) (b + 4) * BLOCKSIZE"
    "num_dblock f = load32 (ram s) (b + 8)"
    unfolding fs(1) fs_init_effect by simp_all
  have disj: "\<forall>r \<in> set ?rs. disjoint_regions (fst r) (snd r) b 4096" using fs(2) by (simp add: image_safe_def fb(1))
  then have img: "\<forall>r \<in> set rs. disjoint_regions (fst r) (snd r) b 4096" by simp
  have w: "load32 (ram s2) (b + of_nat n) = load32 (ram s) (b + of_nat n)" if "n + 4 \<le> 4096" for n
  proof (rule load32_cong)
    fix j :: nat assume "j < 4"
    then show "ram s2 (b + of_nat n + of_nat j) = ram s (b + of_nat n + of_nat j)"
      using agree_outsideD [OF r2 disj] in_region_offset' [of "n + j" 4096 b] that by (simp add: add.assoc)
  qed
  show ?thesis
  proof (rule init_kernel_effect [OF s2 assms(4-8) img], goal_cases)
    case (1 t)
    have same: "same_image f t"
      using w [of 0] w [of 4] w [of 8] 1(6-11) by (simp add: same_image_def fb)
    have ag: "agree_outside ?rs (ram t) (ram f)" unfolding fb(2) by (rule agree_outside_trans [OF 1(2) r2])
    have cmd1: "command_ok (be_frame be) (be_shell be) str (ram f)" using cmd(1) by (simp add: fb(2))
    have run: "init_kernel be b (init_segments (be_symbols be) s1) = Some t" using 1(1) by (simp only: s2_def)
    show ?thesis
    proof (rule boot_execute [OF same ag fs(2) cmd1 cmd(2-4) k ex 1(14) 1(12)], goal_cases)
      case (1 u)
      have "entry be 0x2BADB002 addr s = Some (Running (EnterUser (entry_point (content f ino)) USER_ESP USER_CS USER_DS u))"
        unfolding entry_def Let_def boot by (simp add: MULTIBOOT_BOOTLOADER_MAGIC_def run 1(1))
      moreover have "tss_esp0 (tss u) = 0x7FFFFC" by (simp add: 1(6) launched_tss_def)
      ultimately show ?case using 1(2-4) by blast
    qed
  qed
qed

section \<open>Properties\<close>

text \<open>
  C37: the segments after boot: the selectors of kernel and user code and data name flat, present
  32-bit segments of 4 GB, code readable and data writable, of the level that the selector asks for,
  0 and 3; the task register names a present task state segment of level 0 at the address of \<open>tss\<close>
  with 104 bytes, which holds the kernel stack 0x18:0x800000, and the LDT register the present table
  of 32 bytes.
\<close>

theorem boot_segments:
  fixes s :: "'a tables_state_scheme" and lk :: symbols
  defines "t \<equiv> init_segments lk s"
  shows "(\<forall>(sel, kind, dpl) \<in> {(KERNEL_CS, 0x1A, 0), (KERNEL_DS, 0x12, 0), (USER_CS, 0x1A, 3), (USER_DS, 0x12, 3)}.
      seg_base (descriptor t sel) = 0 \<and> seg_bytes (descriptor t sel) = 4294967296 \<and> seg_kind (descriptor t sel) = kind
      \<and> seg_level (descriptor t sel) = dpl \<and> ucast sel = dpl \<and> is_present (descriptor t sel) \<and> is_32bit (descriptor t sel))
    \<and> seg_base (descriptor t (task_register t)) = tss_addr lk \<and> seg_bytes (descriptor t (task_register t)) = 104
    \<and> seg_kind (descriptor t (task_register t)) = 9 \<and> seg_level (descriptor t (task_register t)) = 0
    \<and> is_present (descriptor t (task_register t)) \<and> tss_ss0 (tss t) = KERNEL_DS \<and> tss_esp0 (tss t) = 0x800000
    \<and> seg_base (descriptor t (ldtr t)) = ldt_addr lk \<and> seg_bytes (descriptor t (ldtr t)) = 32 \<and> seg_kind (descriptor t (ldtr t)) = 2
    \<and> seg_level (descriptor t (ldtr t)) = 0 \<and> is_present (descriptor t (ldtr t))"
proof -
  have d: "descriptor t KERNEL_CS = 0x00CF9A000000FFFF" "descriptor t KERNEL_DS = 0x00CF92000000FFFF"
    "descriptor t USER_CS = 0x00CFFA000000FFFF" "descriptor t USER_DS = 0x00CFF2000000FFFF"
    by (simp_all add: descriptor_def gdt_def KERNEL_CS_def KERNEL_DS_def USER_CS_def USER_DS_def)
  have flat: "seg_base w = 0 \<and> seg_bytes w = 4294967296 \<and> is_present w \<and> is_32bit w"
    if "w \<in> {0x00CF9A000000FFFF, 0x00CF92000000FFFF, 0x00CFFA000000FFFF, 0x00CFF2000000FFFF}" for w
    using that by (auto simp: seg_base_def seg_limit_def seg_bytes_def is_present_def is_32bit_def)
  have sel: "task_register t = KERNEL_TSS" "ldtr t = KERNEL_LDT" by (simp_all add: t_def init_segments_def Let_def)
  have e: "descriptor t KERNEL_TSS = seg_word (the_tss_desc (tss_addr lk))" "descriptor t KERNEL_LDT = seg_word (the_ldt_desc (ldt_addr lk))"
    by (simp_all add: descriptor_def gdt_def KERNEL_TSS_def KERNEL_LDT_def t_def init_segments_def Let_def)
  have v: "seg_base (seg_word (the_tss_desc a)) = a" "seg_bytes (seg_word (the_tss_desc a)) = 104" "seg_kind (seg_word (the_tss_desc a)) = 9"
    "seg_level (seg_word (the_tss_desc a)) = 0" "is_present (seg_word (the_tss_desc a))"
    "seg_base (seg_word (the_ldt_desc a)) = a" "seg_bytes (seg_word (the_ldt_desc a)) = 32" "seg_kind (seg_word (the_ldt_desc a)) = 2"
    "seg_level (seg_word (the_ldt_desc a)) = 0" "is_present (seg_word (the_ldt_desc a))" for a
    unfolding the_tss_desc_def the_ldt_desc_def SET_TSS_PARAMS_eq seg_base_params seg_limit_params seg_fields_word seg_bytes_def seg_bits_word
    by (simp_all add: tss_size_def ldt_size_def SET_LDT_PARAMS_def)
  have tt: "tss_ss0 (tss t) = KERNEL_DS" "tss_esp0 (tss t) = 0x800000" by (simp_all add: t_def init_segments_def Let_def)
  have rpl: "ucast KERNEL_CS = (0 :: 2 word)" "ucast KERNEL_DS = (0 :: 2 word)" "ucast USER_CS = (3 :: 2 word)" "ucast USER_DS = (3 :: 2 word)"
    by (simp_all add: KERNEL_CS_def KERNEL_DS_def USER_CS_def USER_DS_def)
  have segs: "seg_level w = ucast (drop_bit 45 w)" "seg_kind w = ucast (drop_bit 40 w)" for w by (simp_all add: seg_level_def seg_kind_def)
  show ?thesis unfolding sel e using flat by (simp add: d tt rpl v) (simp add: segs)
qed

theorem boot_segments_witness:
  "seg_base (descriptor (init_segments sample_symbols tables_start) 0x30) = 0x408000
   \<and> seg_bytes (descriptor (init_segments sample_symbols tables_start) 0x30) = 104
   \<and> seg_level (descriptor (init_segments sample_symbols tables_start) 0x2B) = 3
   \<and> seg_kind (descriptor (init_segments sample_symbols tables_start) 0x23) = 0x1A"
proof -
  have "task_register (init_segments sample_symbols tables_start) = 0x30"
    by (simp add: init_segments_def Let_def KERNEL_TSS_def)
  then show ?thesis using boot_segments [of sample_symbols tables_start] by (simp add: USER_DS_def USER_CS_def sample_symbols_def)
qed


text \<open>
  C20: \<open>init_kernel\<close> establishes what the rest of the kernel relies on: every vector has its handler,
  the translation is the map of the boot, the line editors and cursors are well-formed, all six
  process slots are free, terminal 0 is scheduled and marked for the first shell, the other
  terminals have none, and interrupts are on; it writes only the screen and the memory of the two
  drivers, whose start routines are assumed to leave the kernel's variables alone.
\<close>

theorem boot_establishes:
  fixes s :: "'a tables_state_scheme"
  assumes "screen_ok s" "selected s = None" "videoMem_4kb_Page s = (\<lambda>_. 0)"
    and "be_low be AND 0xFFF = 0" "be_vid be AND 0xFFF = 0" "be_low be \<noteq> be_vid be"
    and "quiet_driver rs (be_init_mouse be)" "quiet_driver rs (be_init_kmalloc be)"
    and "\<forall>r \<in> set rs. disjoint_regions (fst r) (snd r) b 4096"
  shows "\<exists>t. init_kernel be b s = Some t \<and> agree_outside (screen_region # rs) (ram t) (ram s)
    \<and> idt t = idt (init_idt (be_symbols be) s) \<and> idtr t = idt_addr (be_symbols be)
    \<and> (\<forall>user va. translate (be_low be) (be_vid be) user va t = boot_map user va)
    \<and> kbd_ok t \<and> (\<forall>p < 6. pidlist t p = \<lparr>pid_pid = ucast p, pid_proc = 0, pid_flag = 0\<rparr>)
    \<and> scheduled_terminal t = 0 \<and> get_current_flag t = 1
    \<and> (\<forall>x < 3. shell_pid (terminals t x) = (if x = 0 then 0 else -1)) \<and> ifl t"
  by (rule init_kernel_effect [OF assms]) blast

text \<open>
  C1: from a multiboot loader to the shell: if the loader's information can be printed and names a
  file system image, \<open>entry\<close> ends by entering the program that the image holds under the name of
  the command, as process 0, with the file loaded at 0x08048000 and the kernel stack of process 0.
\<close>

theorem boot_starts_shell:
  fixes s :: "'a tables_state_scheme"
  assumes "screen_ok s" "selected s = None" "videoMem_4kb_Page s = (\<lambda>_. 0)"
    and "be_low be AND 0xFFF = 0" "be_vid be AND 0xFFF = 0" "be_low be \<noteq> be_vid be"
    and "quiet_driver rs (be_init_mouse be)" "quiet_driver rs (be_init_kmalloc be)"
    and boot: "print_multiboot addr (be_bootblock be) (clear s) = Some (Some b, s1)"
    and fs: "f = fs_init b s" "image_safe (screen_region # rs) ino f"
    and cmd: "command_ok (be_frame be) (be_shell be) str (ram s)" "length (command_program str) \<le> 31" "unat (num_dentry f) \<le> 63"
      "\<forall>r \<in> set (screen_region # rs). disjoint_regions (fst r) (snd r) (be_shell be) (Suc (length str))"
    and k: "lookup f (command_program str) = Some k" "ino = entry_inode f (of_nat k)"
    and ex: "frame_ok (be_frame be) ino f" "executable_file ino f"
  shows "\<exists>u. entry be 0x2BADB002 addr s = Some (Running (EnterUser (entry_point (content f ino)) USER_ESP USER_CS USER_DS u))
    \<and> current_pid u = 0 \<and> selected u = Some (process_page 0) \<and> tss_esp0 (tss u) = 0x7FFFFC
    \<and> bytes (ram u) 0x08048000 (length (take 3899392 (content f ino))) = take 3899392 (content f ino)"
  by (rule entry_runs [OF assms])

text \<open>A small machine that a loader starts: one module at 0x500000, the image of the other witnesses.\<close>

definition boot_mem :: mem where
  "boot_mem = exec_mem(0x10000 := 8, 0x10014 := 1, 0x10019 := 1, 0x1001a := 1, 0x10102 := 0x50)"

definition boot_start :: tables_state where
  "boot_start = tables_start\<lparr>ram := boot_mem, ifl := False, tlb := (\<lambda>_. 0, \<lambda>_. 0, \<lambda>_. 0), videoMem_4kb_Page := \<lambda>_. 0\<rparr>"

definition sample_boot :: "tables_state boot_env" where
  "sample_boot = \<lparr>be_symbols = sample_symbols, be_dir = 0x405000, be_low = 0x406000, be_vid = 0x407000, be_frame = exec_frame,
     be_shell = 0x600000, be_bootblock = 0, be_init_mouse = \<lambda>s. s, be_init_kmalloc = \<lambda>s. s\<rparr>"

lemma boot_start_fields:
  "screen_ok boot_start" "selected boot_start = None" "videoMem_4kb_Page boot_start = (\<lambda>_. 0)" "ram boot_start = boot_mem"
proof -
  have "screen_ok boot_start = screen_ok rtc_start"
    by (rule screen_ok_cong) (simp_all add: boot_start_def tables_start_def rtc.defs)
  then show "screen_ok boot_start" by simp
qed (simp_all add: boot_start_def tables_start_def selected_def pde_frame_def)

lemma quiet_id: "quiet_driver rs (\<lambda>s. s)"
  by (simp add: quiet_driver_def)

lemma boot_words:
  "load32 boot_mem 0x10000 = 8" "load32 boot_mem 0x10014 = 1" "load32 boot_mem 0x10018 = 0x10100" "load32 boot_mem 0x10100 = 0x500000"
  "load32 boot_mem 0x500000 = 1" "load32 boot_mem 0x500004 = 1" "load32 boot_mem 0x500008 = 1"
  by (simp_all add: load32_def boot_mem_def exec_mem_def image_mem_def)

lemma boot_printed: "\<exists>t. print_multiboot 0x10000 b0 (clear boot_start) = Some (Some 0x500000, t)"
proof -
  have m: "load32 (ram (clear boot_start)) a = load32 boot_mem a" if "unat a + 4 \<le> 0x20000 \<or> 0x500000 \<le> unat a \<and> unat a < 0x600000" for a
  proof (rule load32_cong)
    fix i :: nat assume "i < 4"
    moreover have "disjoint_regions video_mem 4000 a 4"
    proof (cases "unat a + 4 \<le> 0x20000")
      case True
      then show ?thesis by (intro disjoint_regions_sym [OF disjoint_regions_sep]) simp_all
    next
      case False
      then show ?thesis using that by (intro disjoint_regions_sep) simp_all
    qed
    ultimately show "ram (clear boot_start) (a + of_nat i) = boot_mem (a + of_nat i)"
      using agree_outsideD [OF clear_agree [of boot_start], of a 4] in_region_offset' [of i 4 a] by (simp add: boot_start_fields)
  qed
  have ok: "screen_ok (clear boot_start)" by (rule clear_screen_ok [OF boot_start_fields(1)])
  have d: "disjoint_regions video_mem 4000 0x10000 52" "disjoint_regions video_mem 4000 0x10100 16"
    by (rule disjoint_regions_sym [OF disjoint_regions_sep]; simp)+
  have w: "load32 (ram (clear boot_start)) 0x10000 = 8" "load32 (ram (clear boot_start)) (0x10000 + 20) = 1"
    "load32 (ram (clear boot_start)) (0x10000 + 24) = 0x10100" "load32 (ram (clear boot_start)) 0x10100 = 0x500000"
    by (simp_all add: m boot_words)
  show ?thesis using print_multiboot_one_module [OF ok d(1) w(1-3) d(2), of b0] by (simp add: w(4))
qed

theorem boot_establishes_witness:
  "\<exists>t. init_kernel sample_boot 0x500000 boot_start = Some t \<and> kbd_ok t \<and> translate 0x406000 0x407000 True 0x84BC123 t = Some 0xBC123"
proof -
  have a: "be_low sample_boot AND 0xFFF = 0" "be_vid sample_boot AND 0xFFF = 0" "be_low sample_boot \<noteq> be_vid sample_boot"
    "quiet_driver [] (be_init_mouse sample_boot)" "quiet_driver [] (be_init_kmalloc sample_boot)"
    by (simp_all add: sample_boot_def quiet_id)
  have r: "\<forall>r \<in> set []. disjoint_regions (fst r) (snd r) 0x500000 4096" by simp
  from boot_establishes [OF boot_start_fields(1-3) a r]
  obtain t where "init_kernel sample_boot 0x500000 boot_start = Some t" "kbd_ok t"
    "\<forall>user va. translate (be_low sample_boot) (be_vid sample_boot) user va t = boot_map user va" by blast
  then show ?thesis by (intro exI [of _ t]) (simp add: sample_boot_def boot_map_def)
qed

lemma boot_image:
  "same_image exec_start (fs_init 0x500000 boot_start)" "agree_outside [(0x10000, 0x200)] (ram (fs_init 0x500000 boot_start)) (ram exec_start)"
proof -
  show "same_image exec_start (fs_init 0x500000 boot_start)"
    unfolding fs_init_effect same_image_def by (simp add: boot_start_fields boot_words)
  have "in_region 0x10000 0x200 a" if "a \<in> {0x10000, 0x10014, 0x10019, 0x1001a, 0x10102}" for a :: u32
    using that by (auto simp: in_region_def)
  then have "boot_mem x = exec_mem x" if "\<not> in_region 0x10000 0x200 x" for x
    using that unfolding boot_mem_def by auto
  then show "agree_outside [(0x10000, 0x200)] (ram (fs_init 0x500000 boot_start)) (ram exec_start)"
    unfolding fs_init_effect by (simp add: agree_outside_def boot_start_fields)
qed

lemma boot_start_runs:
  fixes f :: tables_state
  defines "f \<equiv> fs_init 0x500000 boot_start"
  shows "be_low sample_boot AND 0xFFF = 0" "be_vid sample_boot AND 0xFFF = 0" "be_low sample_boot \<noteq> be_vid sample_boot"
    "quiet_driver [] (be_init_mouse sample_boot)" "quiet_driver [] (be_init_kmalloc sample_boot)"
    "\<exists>s1. print_multiboot 0x10000 (be_bootblock sample_boot) (clear boot_start) = Some (Some 0x500000, s1)"
    "image_safe [screen_region] 0 f" "command_ok (be_frame sample_boot) (be_shell sample_boot) [97, 32, 98] (ram boot_start)"
    "length (command_program [97, 32, 98 :: u8]) \<le> 31" "unat (num_dentry f) \<le> 63"
    "\<forall>r \<in> set [screen_region]. disjoint_regions (fst r) (snd r) (be_shell sample_boot) (Suc (length [97, 32, 98 :: u8]))"
    "lookup f (command_program [97, 32, 98]) = Some 0" "0 = entry_inode f (of_nat 0)"
    "frame_ok (be_frame sample_boot) 0 f" "executable_file 0 f" "content f 0 = content exec_start 0"
proof -
  have a: "be_low sample_boot AND 0xFFF = 0" "be_vid sample_boot AND 0xFFF = 0" "be_low sample_boot \<noteq> be_vid sample_boot"
    "quiet_driver [] (be_init_mouse sample_boot)" "quiet_driver [] (be_init_kmalloc sample_boot)"
    by (simp_all add: sample_boot_def quiet_id)
  have o: "outside_file exec_start 0 0x10000 0x200" "outside_file exec_start 0 video_mem 4000" by (rule exec_outside; simp)+
  have b: "disjoint_regions 0x10000 0x200 0x500000 4096" "disjoint_regions video_mem 4000 0x500000 4096"
    by (rule disjoint_regions_sep; simp)+
  have safe: "image_safe [(0x10000, 0x200)] 0 exec_start" using o(1) b(1) by (simp add: image_safe_def)
  have good: "good_inode exec_start 0" using exec_file(3) by (simp add: executable_file_def)
  note v = image_kept [OF boot_image safe _ good, simplified, folded f_def]
  have fsafe: "image_safe [screen_region] 0 f" using v(5) [of video_mem 4000] o(2) b(2)
    by (simp add: image_safe_def) (simp add: f_def fs_init_effect)
  have cmd: "command_ok (be_frame sample_boot) (be_shell sample_boot) [97, 32, 98] (ram boot_start)"
  proof -
    have "cstr boot_mem 0x600000 [97, 32, 98]" by (simp add: cstr_def bytes_Suc boot_mem_def exec_mem_def image_mem_def)
    then show ?thesis using exec_command(1) by (simp add: command_ok_def sample_boot_def boot_start_fields)
  qed
  have len: "length (command_program [97, 32, 98 :: u8]) \<le> 31" "unat (num_dentry f) \<le> 63"
    by (simp add: exec_command, simp add: f_def fs_init_effect boot_start_fields boot_words)
  have r: "\<forall>r \<in> set [screen_region]. disjoint_regions (fst r) (snd r) (be_shell sample_boot) (Suc (length [97, 32, 98 :: u8]))"
    by (auto simp: sample_boot_def intro!: disjoint_regions_sep)
  have k: "lookup f (command_program [97, 32, 98]) = Some 0" using v(1) [of "[97]"] exec_lookup(1) by (simp add: exec_command(2))
  have i: "0 = entry_inode f (of_nat 0)" using v(2) [of "[97]" 0] exec_lookup by simp
  have e: "frame_ok (be_frame sample_boot) 0 f" "executable_file 0 f"
    using v(6,7) exec_file(3) exec_frame_ok by (simp_all add: sample_boot_def)
  have p: "\<exists>s1. print_multiboot 0x10000 (be_bootblock sample_boot) (clear boot_start) = Some (Some 0x500000, s1)" by (rule boot_printed)
  show "be_low sample_boot AND 0xFFF = 0" "be_vid sample_boot AND 0xFFF = 0" "be_low sample_boot \<noteq> be_vid sample_boot"
    "quiet_driver [] (be_init_mouse sample_boot)" "quiet_driver [] (be_init_kmalloc sample_boot)" by (fact a)+
  show "\<exists>s1. print_multiboot 0x10000 (be_bootblock sample_boot) (clear boot_start) = Some (Some 0x500000, s1)" by (fact p)
  show "image_safe [screen_region] 0 f" by (fact fsafe)
  show "command_ok (be_frame sample_boot) (be_shell sample_boot) [97, 32, 98] (ram boot_start)" by (fact cmd)
  show "length (command_program [97, 32, 98 :: u8]) \<le> 31" "unat (num_dentry f) \<le> 63" by (fact len)+
  show "\<forall>r \<in> set [screen_region]. disjoint_regions (fst r) (snd r) (be_shell sample_boot) (Suc (length [97, 32, 98 :: u8]))" by (fact r)
  show "lookup f (command_program [97, 32, 98]) = Some 0" by (fact k)
  show "0 = entry_inode f (of_nat 0)" by (fact i)
  show "frame_ok (be_frame sample_boot) 0 f" "executable_file 0 f" by (fact e)+
  show "content f 0 = content exec_start 0" by (rule v(3))
qed

theorem boot_starts_shell_witness:
  "\<exists>u. entry sample_boot 0x2BADB002 0x10000 boot_start = Some (Running (EnterUser 0x08048094 USER_ESP USER_CS USER_DS u)) \<and> current_pid u = 0"
proof -
  obtain s1 where p: "print_multiboot 0x10000 (be_bootblock sample_boot) (clear boot_start) = Some (Some 0x500000, s1)"
    using boot_start_runs(6) by blast
  from boot_starts_shell [OF boot_start_fields(1-3) boot_start_runs(1-5) p refl boot_start_runs(7-15)] boot_start_runs(16) exec_file(4)
  show ?thesis by auto
qed


end
