(* ===== verification/Usercalls.thy ===== *)
theory Usercalls
  imports Kernel
begin

text \<open>
  The system calls as a running program sees them. A call goes through a stub of
  syscalls/ece391syscall.S, so it is the service of that name with interrupts on
  (\<open>Dispatch.stub_calls_service\<close>); a call that waits for an interrupt that does not come, or does not
  return to the program, is None.

  The lemmas give each call's effect on the screens of the three terminals: \<open>write\<close> to the
  terminal types its buffer and changes no memory but the screen, reading a file touches no screen.
  The locale \<open>seq_copier\<close> is what a program that copies a file to the terminal relies on.
\<close>

section \<open>System calls\<close>

definition user_call :: "'a rtc_scheme env \<Rightarrow> service \<Rightarrow> u32 \<Rightarrow> u32 \<Rightarrow> u32 \<Rightarrow> 'a rtc_scheme \<Rightarrow> (i32 \<times> 'a rtc_scheme) option" where
  "user_call e f a b c s = (case run_service e f a b c (sti s) of Returned v t \<Rightarrow> Some (sint v, t) | _ \<Rightarrow> None)"

section \<open>Calls of a running program\<close>

type_synonym screen = "u8 list \<times> i32 \<times> i32"

text \<open>The screens of the three terminals, and typing on one of them.\<close>

definition screens :: "'a console_scheme \<Rightarrow> u8 \<Rightarrow> screen option" where
  "screens s u = (if u < 3 then Some (term_screen u s) else None)"

definition type_on :: "u8 \<Rightarrow> u8 list \<Rightarrow> (u8 \<Rightarrow> screen option) \<Rightarrow> u8 \<Rightarrow> screen option" where
  "type_on k d scr = scr(k := map_option (fold typed (map shown d)) (scr k))"

lemma type_on_Nil [simp]: "type_on k [] scr = scr"
  by (simp add: type_on_def option.map_id fun_upd_idem)

lemma type_on_append: "type_on k (a @ b) scr = type_on k b (type_on k a scr)"
  by (simp add: type_on_def option.map_comp comp_def)

text \<open>The screen of the terminal whose process runs, as a region of memory.\<close>

definition own_screen :: "'a console_scheme \<Rightarrow> u32 \<times> nat" where
  "own_screen s = (term_base (scheduled_terminal s) s, 4000)"

definition apart :: "u32 \<Rightarrow> nat \<Rightarrow> 'a console_scheme \<Rightarrow> bool" where
  "apart a n s \<longleftrightarrow> (\<forall>u < 3. disjoint_regions a n (term_base u s) 4000)"

definition user_ok :: "'a rtc_scheme \<Rightarrow> bool" where
  "user_ok s \<longleftrightarrow> screen_ok s \<and> files_ok (file_array (cur_proc s))"

lemma user_ok_sched: "user_ok s \<Longrightarrow> scheduled_terminal s < 3"
  by (simp add: user_ok_def screen_ok_def term_ok_def)

text \<open>What a call that only prints keeps of the state outside the screen.\<close>

definition printed_only :: "'a rtc_scheme \<Rightarrow> 'a rtc_scheme \<Rightarrow> bool" where
  "printed_only s t \<longleftrightarrow> console.more t = console.more s \<and> disp_terminal t = disp_terminal s
     \<and> scheduled_terminal t = scheduled_terminal s \<and> agree_outside [own_screen s] (ram t) (ram s) \<and> ifl t"

lemma apart_less: "apart a n s \<Longrightarrow> k \<le> n \<Longrightarrow> apart a k s"
  unfolding apart_def by (blast intro: disjoint_regions_mono order_refl)

lemma printed_only_keeps:
  assumes "printed_only s t"
  shows "own_screen t = own_screen s" "apart a n t = apart a n s" "same_image s t" "cur_proc t = cur_proc s"
    "pcbs t = pcbs s" "current_pid t = current_pid s"
proof -
  have m: "console.more t = console.more s" and d: "disp_terminal t = disp_terminal s" "scheduled_terminal t = scheduled_terminal s"
    using assms by (simp_all add: printed_only_def)
  have b: "term_base u t = term_base u s" for u by (rule term_base_eq [OF d(1)])
  show "own_screen t = own_screen s" "apart a n t = apart a n s" by (simp_all add: own_screen_def apart_def b d(2))
  show "same_image s t" "cur_proc t = cur_proc s" "pcbs t = pcbs s" "current_pid t = current_pid s"
    unfolding same_image_def by (simp_all add: above_console [OF m])
qed

lemma user_call_write:
  assumes ok: "user_ok s" and b: "apart buf n s" "buf \<noteq> 0" "0 < n" "n < 2147483648"
  obtains r t where "user_call e Sys_Write 1 buf (of_nat n) s = Some (r, t)" "0 \<le> r" "user_ok t" "printed_only s t"
    "screens t = type_on (scheduled_terminal s) (bytes (ram s) buf n) (screens s)"
proof -
  have scr: "screen_ok (sti s)" "screen_ok s" and fa: "files_ok (file_array (cur_proc s))"
    using ok screen_ok_cong [of "sti s" s] by (simp_all add: user_ok_def)
  have ts: "term_screen u (sti s) = term_screen u s" and tb: "term_base u (sti s) = term_base u s" for u
    by (simp_all add: term_screen_def term_base_def screen_of_def)
  have d: "disjoint_regions buf (nat (int n)) (term_base (scheduled_terminal (sti s)) (sti s)) 4000"
    using b(1) scr(2) by (simp add: apart_def tb screen_ok_def term_ok_def)
  have n: "0 < int n" using b(3) by simp
  define w where "w = terminal_write 1 buf (int n) (sti s)"
  note tw = terminal_write_screens [OF scr(1) n b(2) d, where fd = 1, folded w_def]
  have c: "sint (of_nat n :: u32) = int n" using b(4) by (subst sint_small) (simp_all add: unat_of_nat32)
  have e1: "user_call e Sys_Write 1 buf (of_nat n) s = Some (sint (of_int (fst w) :: u32), snd w)"
    using fa by (simp add: user_call_def of_result_def sys_write_def table_write_def c files_ok_def b(2) w_def split_def)
  have len: "length (filter (\<lambda>c. c \<noteq> 0) (bytes (ram s) buf n)) \<le> n" using length_filter_le [of _ "bytes (ram s) buf n"] by simp
  have r: "sint (of_int (fst w) :: u32) = fst w"
    using tw(1) len b(4) by (simp add: sint_small unat_of_nat32)
  have "terminal_write 1 buf (int n) (sti s) = w" by (simp add: w_def)
  then have st: "snd w = unmask_irqs (put_chars (if scheduled_terminal s = disp_terminal s then 1 else 0)
      (map shown (bytes (ram s) buf n)) (mask_irqs (sti s)))"
    using terminal_write_put [OF scr(1) n b(2) d, of 1] by (auto simp del: if_split)
  have p: "printed_only s (snd w)"
  proof -
    have "agree_outside [own_screen s] (ram (snd w)) (ram s)"
      unfolding agree_outside_def
      using put_chars_outside [of "mask_irqs (sti s)" "if scheduled_terminal s = disp_terminal s then 1 else 0"] scr(1)
      by (auto simp: st own_screen_def target_base_def term_base_def split: if_splits)
    moreover have "console.more (snd w) = console.more s" "disp_terminal (snd w) = disp_terminal s"
      "scheduled_terminal (snd w) = scheduled_terminal s"
      using terminal_write_more [of 1 buf "int n" "sti s"] by (simp_all add: w_def [symmetric] st)
    moreover have "ifl (snd w)" by (simp add: st)
    ultimately show ?thesis by (simp add: printed_only_def)
  qed
  have "user_ok (snd w)" using tw(2) fa by (simp add: user_ok_def printed_only_keeps(4) [OF p])
  moreover have "term_screen u (snd w) = (if u = scheduled_terminal s
       then fold typed (map shown (bytes (ram s) buf n)) (term_screen u s) else term_screen u s)" if "u < 3" for u
    using tw(3) [OF that] by (simp add: ts)
  then have "screens (snd w) = type_on (scheduled_terminal s) (bytes (ram s) buf n) (screens s)"
    by (auto simp: screens_def type_on_def fun_eq_iff)
  ultimately show thesis using that e1 r p tw(1) by simp
qed

section \<open>Copying a file to the terminal\<close>

text \<open>
  A reader and a writer that share the buffer: reading leaves what has been written, writing leaves
  what is to be read. A loop that reads a buffer, stops at the end and otherwise writes what it has
  read copies all that is left.
\<close>

locale seq_copier = seq_reader rd pos data got ok lim
  for rd :: "i32 \<Rightarrow> 's \<Rightarrow> i32 \<times> 's" and pos data got ok lim +
  fixes wr :: "nat \<Rightarrow> 's \<Rightarrow> 's"
    and out :: "'s \<Rightarrow> 'o"
    and emit :: "u8 list \<Rightarrow> 'o \<Rightarrow> 'o"
  assumes rd_out: "ok s \<Longrightarrow> 0 \<le> n \<Longrightarrow> n \<le> lim \<Longrightarrow> out (snd (rd n s)) = out s"
    and wr_ok: "ok s \<Longrightarrow> 0 < k \<Longrightarrow> int k \<le> lim \<Longrightarrow> ok (wr k s)"
    and wr_data: "ok s \<Longrightarrow> 0 < k \<Longrightarrow> int k \<le> lim \<Longrightarrow> data (wr k s) = data s"
    and wr_pos: "ok s \<Longrightarrow> 0 < k \<Longrightarrow> int k \<le> lim \<Longrightarrow> pos (wr k s) = pos s"
    and wr_out: "ok s \<Longrightarrow> 0 < k \<Longrightarrow> int k \<le> lim \<Longrightarrow> out (wr k s) = emit (got k s) (out s)"
    and emit_Nil: "emit [] p = p"
    and emit_append: "emit (a @ b) p = emit b (emit a p)"
begin

lemma copies_all:
  assumes n: "0 < n" "n \<le> lim"
    and at_end: "\<And>s. ok s \<Longrightarrow> fst (rd n s) = 0 \<Longrightarrow> loop s = Some (fin (snd (rd n s)))"
    and again: "\<And>s. ok s \<Longrightarrow> 0 < fst (rd n s) \<Longrightarrow> fst (rd n s) \<le> n \<Longrightarrow> loop s = loop (wr (nat (fst (rd n s))) (snd (rd n s)))"
  shows "ok s \<Longrightarrow> \<exists>t. loop s = Some (fin t) \<and> out t = emit (drop (pos s) (data s)) (out s) \<and> ok t"
proof (induction "length (data s) - pos s" arbitrary: s rule: less_induct)
  case less
  obtain d t where t: "rd n s = (int (length d), t)" "d = take (nat n) (drop (pos s) (data s))"
    "got (length d) t = d" "ok t" "data t = data s" "pos t = pos s + length d"
    using step [OF less.prems, of n] n by auto
  have out: "out t = out s" using rd_out [OF less.prems, of n] n t(1) by simp
  show ?case
  proof (cases "d = []")
    case True
    then have "drop (pos s) (data s) = []" using t(2) n(1) by (metis take_eq_Nil nat_0_iff not_less)
    with True show ?thesis using at_end [OF less.prems] t(1,4) out by (intro exI [of _ t]) (simp add: emit_Nil)
  next
    case False
    let ?u = "wr (length d) t"
    have k: "0 < length d" "int (length d) \<le> lim" "int (length d) \<le> n" using False n by (auto simp: t(2))
    note w = wr_ok [OF t(4) k(1,2)] wr_data [OF t(4) k(1,2)] wr_pos [OF t(4) k(1,2)] wr_out [OF t(4) k(1,2)]
    have "length (data ?u) - pos ?u < length (data s) - pos s"
    proof -
      have "length d \<le> length (data s) - pos s" by (simp add: t(2))
      then show ?thesis unfolding w(2,3) t(5,6) using k(1) by linarith
    qed
    from less.hyps [OF this w(1)]
    obtain u where u: "loop ?u = Some (fin u)" "out u = emit (drop (pos ?u) (data ?u)) (out ?u)" "ok u" by blast
    have "drop (pos ?u) (data ?u) = drop (nat n) (drop (pos s) (data s))"
      unfolding w(2,3) t(5,6) by (auto simp: t(2) min_def add.commute)
    then have "drop (pos s) (data s) = d @ drop (pos ?u) (data ?u)" by (simp only: t(2) append_take_drop_id)
    then have "out u = emit (drop (pos s) (data s)) (out s)" using u(2) w(4) t(3) out by (simp add: emit_append)
    then show ?thesis using again [OF less.prems] t(1) k(1,3) u(1,3) by (intro exI [of _ u]) simp
  qed
qed

end

section \<open>Reading a file and printing it\<close>

text \<open>What a program that copies a file needs: its descriptor, and a buffer away from the screens.\<close>

definition copy_ok :: "u8 \<Rightarrow> i32 \<Rightarrow> u32 \<Rightarrow> i32 \<Rightarrow> 'a rtc_scheme \<Rightarrow> bool" where
  "copy_ok k fd buf lim s \<longleftrightarrow> user_ok s \<and> scheduled_terminal s = k \<and> sys_reader_ok fd buf lim s \<and> apart buf (nat lim) s
     \<and> outside_file s (inode (cur_file s fd)) (fst (own_screen s)) 4000"

definition sti_read :: "('a rtc_scheme \<Rightarrow> 'a rtc_scheme) list \<Rightarrow> i32 \<Rightarrow> u32 \<Rightarrow> i32 \<Rightarrow> 'a rtc_scheme \<Rightarrow> i32 \<times> 'a rtc_scheme" where
  "sti_read irqs fd buf n s = sys_rd irqs fd buf n (sti s)"

definition user_write :: "'a rtc_scheme env \<Rightarrow> u32 \<Rightarrow> nat \<Rightarrow> 'a rtc_scheme \<Rightarrow> 'a rtc_scheme" where
  "user_write e buf k s = (case user_call e Sys_Write 1 buf (of_nat k) s of None \<Rightarrow> s | Some (r, t) \<Rightarrow> t)"

lemma sti_views [simp]:
  "content (sti s) i = content s i" "sys_reader_ok fd buf lim (sti s) = sys_reader_ok fd buf lim s"
  "outside_file (sti s) i a k = outside_file s i a k" "term_screen u (sti s) = term_screen u s" "term_base u (sti s) = term_base u s"
  "screen_ok (sti s) = screen_ok s" "file_length (sti s) i = file_length s i"
proof -
  have i: "same_image s (sti s)" by (simp add: same_image_def)
  note v = same_image_views [OF i]
  show "content (sti s) i = content s i" "outside_file (sti s) i a k = outside_file s i a k" using v(3,5) by simp_all
  have l: "file_length (sti s) i = file_length s i" for i by (simp add: file_length_def inode_addr_def)
  then show "file_length (sti s) i = file_length s i" .
  show "sys_reader_ok fd buf lim (sti s) = sys_reader_ok fd buf lim s"
    using v(4,5) by (simp add: sys_reader_ok_def reader_ok_def l)
  show "term_screen u (sti s) = term_screen u s" "term_base u (sti s) = term_base u s"
    by (simp_all add: term_screen_def term_base_def screen_of_def)
  show "screen_ok (sti s) = screen_ok s" by (rule screen_ok_cong) simp_all
qed

lemma own_screen_region: "fst (own_screen s) = term_base (scheduled_terminal s) s" "snd (own_screen s) = 4000"
  by (simp_all add: own_screen_def)

text \<open>Reading a file touches no screen.\<close>

lemma file_read_views:
  assumes ok: "sys_reader_ok fd buf lim s" "0 \<le> n" "n \<le> lim" and ap: "apart buf (nat lim) s"
  defines "t \<equiv> snd (file_read fd buf n s)"
  shows "\<And>u. u < 3 \<Longrightarrow> term_screen u t = term_screen u s" "own_screen t = own_screen s" "screen_ok t = screen_ok s"
    "scheduled_terminal t = scheduled_terminal s" "\<And>a k. apart a k t = apart a k s"
    "\<And>a k. outside_file t (inode (cur_file t fd)) a k = outside_file s (inode (cur_file s fd)) a k"
    "files_ok (file_array (cur_proc s)) \<Longrightarrow> files_ok (file_array (cur_proc t))"
proof -
  have r: "reader_ok fd buf lim s" using ok(1) by (simp add: sys_reader_ok_def)
  define i where "i = inode (cur_file s fd)"
  define d where "d = take (nat n) (drop (unat (file_pos (cur_file s fd))) (content s i))"
  have fd: "2 \<le> fd" "fd < 8" and lim: "lim < 2147483648" and good: "good_inode s i" and out: "outside_file s i buf (nat lim)"
    and pos: "unat (file_pos (cur_file s fd)) \<le> unat (file_length s i)"
    using r by (simp_all add: reader_ok_def i_def)
  have len: "length d \<le> nat lim" using ok(2,3) by (simp add: d_def)
  have t: "t = upd_file fd (\<lambda>f. f\<lparr>file_pos := file_pos f + of_nat (length d)\<rparr>) (s\<lparr>ram := write_bytes (ram s) buf d\<rparr>)"
    unfolding t_def by (subst file_read_content [OF fd ok(2) _ _ _ refl])
      (use ok lim good pos out len in \<open>auto simp: d_def i_def intro: outside_file_less\<close>)
  have f: "screen_x t = screen_x s" "screen_y t = screen_y s" "disp_terminal t = disp_terminal s" "scheduled_terminal t = scheduled_terminal s"
    by (simp_all add: t)
  have b: "term_base u t = term_base u s" for u by (rule term_base_eq [OF f(3)])
  show "own_screen t = own_screen s" "screen_ok t = screen_ok s" "scheduled_terminal t = scheduled_terminal s" "apart a k t = apart a k s" for a k
    using screen_ok_cong [OF f] f(4) by (simp_all add: own_screen_def apart_def b)
  show "term_screen u t = term_screen u s" if u: "u < 3" for u
  proof -
    have "disjoint_regions (term_base u s) 4000 buf (nat lim)" using ap u by (simp add: apart_def disjoint_regions_sym)
    then have "disjoint_regions (term_base u s) 4000 buf (length d)" using len by (rule disjoint_regions_mono [OF _ order_refl])
    then have "bytes (ram t) (term_base u s) 4000 = bytes (ram s) (term_base u s) 4000"
      by (simp add: t bytes_write_disjoint)
    then show ?thesis unfolding term_screen_def b screen_of_def f using glyphs_cong by metis
  qed
  show "outside_file t (inode (cur_file t fd)) a k = outside_file s (inode (cur_file s fd)) a k" for a k
    using file_unchanged(5) [OF good out len, of a k] by (simp add: t i_def)
  show "files_ok (file_array (cur_proc s)) \<Longrightarrow> files_ok (file_array (cur_proc t))"
    using file_read_ok [of s fd buf n] by (simp add: t_def)
qed

lemma printed_reader:
  assumes p: "printed_only s t" and ok: "sys_reader_ok fd buf lim s"
    and o: "outside_file s (inode (cur_file s fd)) (fst (own_screen s)) 4000"
  shows "sys_reader_ok fd buf lim t" "content t (inode (cur_file t fd)) = content s (inode (cur_file s fd))"
    "cur_file t fd = cur_file s fd"
    "outside_file t (inode (cur_file t fd)) a k = outside_file s (inode (cur_file s fd)) a k"
proof -
  define i where "i = inode (cur_file s fd)"
  have same: "same_image s t" and c: "cur_proc t = cur_proc s" using printed_only_keeps [OF p] by simp_all
  have a: "agree_outside [own_screen s] (ram t) (ram s)" using p by (simp add: printed_only_def)
  have good: "good_inode s i" using ok by (simp add: sys_reader_ok_def reader_ok_def i_def)
  have "\<forall>r \<in> set [own_screen s]. outside_file s i (fst r) (snd r)" using o by (simp add: i_def own_screen_region)
  note f = agree_outside_file [OF good a this] and v = same_image_views [OF same]
  have l: "file_length t i = file_length s i"
    using f(1) same by (simp add: file_length_def inode_addr_def same_image_def)
  show "cur_file t fd = cur_file s fd" by (simp add: c)
  have e: "content t i = content s i" "good_inode t i = good_inode s i" "\<And>a k. outside_file t i a k = outside_file s i a k"
    unfolding v using f good by simp_all
  then show "content t (inode (cur_file t fd)) = content s (inode (cur_file s fd))"
    "outside_file t (inode (cur_file t fd)) a k = outside_file s (inode (cur_file s fd)) a k"
    by (simp_all add: c i_def)
  show "sys_reader_ok fd buf lim t"
    using ok e l by (simp add: sys_reader_ok_def reader_ok_def c i_def)
qed

lemma user_write_effect:
  assumes ok: "copy_ok k fd buf lim s" and n: "0 < n" "int n \<le> lim"
  shows "copy_ok k fd buf lim (user_write e buf n s)"
    "content (user_write e buf n s) (inode (cur_file (user_write e buf n s) fd)) = content s (inode (cur_file s fd))"
    "cur_file (user_write e buf n s) fd = cur_file s fd"
    "screens (user_write e buf n s) = type_on k (bytes (ram s) buf n) (screens s)"
    "\<exists>r. 0 \<le> r \<and> user_call e Sys_Write 1 buf (of_nat n) s = Some (r, user_write e buf n s)"
proof -
  have c: "user_ok s" "scheduled_terminal s = k" "sys_reader_ok fd buf lim s" "apart buf (nat lim) s"
    "outside_file s (inode (cur_file s fd)) (fst (own_screen s)) 4000" using ok by (simp_all add: copy_ok_def)
  have b: "apart buf n s" using apart_less [OF c(4)] n by simp
  have "lim < 2147483648" "buf \<noteq> 0" using c(3) by (simp_all add: sys_reader_ok_def reader_ok_def)
  then obtain r t where t: "user_call e Sys_Write 1 buf (of_nat n) s = Some (r, t)" "0 \<le> r" "user_ok t" "printed_only s t"
    "screens t = type_on (scheduled_terminal s) (bytes (ram s) buf n) (screens s)"
    using user_call_write [OF c(1) b _ n(1), of e] n by auto
  have w: "user_write e buf n s = t" by (simp add: user_write_def t(1))
  note pr = printed_reader [OF t(4) c(3,5)] and pk = printed_only_keeps [OF t(4)]
  have "scheduled_terminal t = k" using t(4) c(2) by (simp add: printed_only_def)
  then show "copy_ok k fd buf lim (user_write e buf n s)"
    unfolding w copy_ok_def using t(3) pr(1,4) pk(1,2) c(4,5) by simp
  show "content (user_write e buf n s) (inode (cur_file (user_write e buf n s) fd)) = content s (inode (cur_file s fd))"
    "cur_file (user_write e buf n s) fd = cur_file s fd"
    unfolding w by (rule pr)+
  show "screens (user_write e buf n s) = type_on k (bytes (ram s) buf n) (screens s)" unfolding w using t(5) c(2) by simp
  show "\<exists>r. 0 \<le> r \<and> user_call e Sys_Write 1 buf (of_nat n) s = Some (r, user_write e buf n s)"
    unfolding w using t(1,2) by blast
qed

lemma sti_read_effect:
  assumes ok: "copy_ok k fd buf lim s" and n: "0 \<le> n" "n \<le> lim"
  shows "copy_ok k fd buf lim (snd (sti_read irqs fd buf n s))" "screens (snd (sti_read irqs fd buf n s)) = screens s"
proof -
  have c: "user_ok s" "scheduled_terminal s = k" "sys_reader_ok fd buf lim (sti s)" "apart buf (nat lim) (sti s)"
    "outside_file s (inode (cur_file s fd)) (fst (own_screen s)) 4000" "own_screen (sti s) = own_screen s"
    using ok by (auto simp: copy_ok_def apart_def own_screen_def)
  define t where "t = snd (file_read fd buf n (sti s))"
  have t: "snd (sti_read irqs fd buf n s) = t" by (simp add: sti_read_def sys_rd_file [OF c(3) n(1)] t_def)
  note v = file_read_views [OF c(3) n c(4), folded t_def]
  have "sys_reader_ok fd buf lim t" using sys_reader.rd_ok [OF c(3) n, of irqs] t by (simp add: sti_read_def)
  then show "copy_ok k fd buf lim (snd (sti_read irqs fd buf n s))"
    unfolding t copy_ok_def using c v(2-7) by (simp add: user_ok_def own_screen_region)
  show "screens (snd (sti_read irqs fd buf n s)) = screens s"
    unfolding t using v(1) by (auto simp: screens_def fun_eq_iff)
qed

interpretation file_copier: seq_copier "sti_read irqs fd buf" "\<lambda>s. unat (file_pos (cur_file s fd))"
  "\<lambda>s. content s (inode (cur_file s fd))" "\<lambda>k s. bytes (ram s) buf k" "copy_ok k fd buf lim" lim
  "user_write e buf" screens "type_on k"
  for irqs :: "('a rtc_scheme \<Rightarrow> 'a rtc_scheme) list" and fd :: i32 and buf :: u32 and k lim e
proof unfold_locales
  fix s :: "'a rtc_scheme" and n assume ok: "copy_ok k fd buf lim s" and n: "0 \<le> n" "n \<le> lim"
  have r: "sys_reader_ok fd buf lim (sti s)" using ok by (simp add: copy_ok_def)
  show "copy_ok k fd buf lim (snd (sti_read irqs fd buf n s))" by (rule sti_read_effect [OF ok n])
  show "screens (snd (sti_read irqs fd buf n s)) = screens s" by (rule sti_read_effect [OF ok n])
  show "content (snd (sti_read irqs fd buf n s)) (inode (cur_file (snd (sti_read irqs fd buf n s)) fd)) = content s (inode (cur_file s fd))"
    using sys_reader.rd_data [OF r n, of irqs] by (simp add: sti_read_def)
  show "fst (sti_read irqs fd buf n s)
      = int (length (take (nat n) (drop (unat (file_pos (cur_file s fd))) (content s (inode (cur_file s fd))))))"
    using sys_reader.rd_result [OF r n, of irqs] by (simp add: sti_read_def)
  show "bytes (ram (snd (sti_read irqs fd buf n s))) buf
      (length (take (nat n) (drop (unat (file_pos (cur_file s fd))) (content s (inode (cur_file s fd))))))
      = take (nat n) (drop (unat (file_pos (cur_file s fd))) (content s (inode (cur_file s fd))))"
    using sys_reader.rd_got [OF r n, of irqs] by (simp add: sti_read_def)
  show "unat (file_pos (cur_file (snd (sti_read irqs fd buf n s)) fd)) = unat (file_pos (cur_file s fd))
      + length (take (nat n) (drop (unat (file_pos (cur_file s fd))) (content s (inode (cur_file s fd)))))"
    using sys_reader.rd_pos [OF r n, of irqs] by (simp add: sti_read_def)
next
  fix s :: "'a rtc_scheme" and j assume ok: "copy_ok k fd buf lim s" and n: "0 < j" "int j \<le> lim"
  note w = user_write_effect [OF ok n, of e]
  show "copy_ok k fd buf lim (user_write e buf j s)"
    "content (user_write e buf j s) (inode (cur_file (user_write e buf j s) fd)) = content s (inode (cur_file s fd))"
    "screens (user_write e buf j s) = type_on k (bytes (ram s) buf j) (screens s)" by (rule w)+
  show "unat (file_pos (cur_file (user_write e buf j s) fd)) = unat (file_pos (cur_file s fd))" by (simp only: w(3))
qed (simp_all add: type_on_append)

section \<open>Reading a line\<close>

lemma length_pending_line: "length (pending_line n s) \<le> 128"
proof -
  have "length (pending_line n s) \<le> nat (min n 128)"
    unfolding pending_line_def by (rule order_trans [OF length_takeWhile_le]) simp
  then show ?thesis by simp
qed

lemma user_call_readline:
  assumes "user_ok s" "buf \<noteq> 0" "terminal_read_flag s (scheduled_terminal s) \<noteq> 0" "0 < n" "n < 2147483648"
  shows "user_call e Sys_Read 0 buf (of_int n) s = Some (int (length (pending_line n s)) + 1,
    (sti s)\<lparr>ram := write_bytes (ram s) buf (pending_line n s @ [10]),
       terminal_read_flag := (terminal_read_flag s)(scheduled_terminal s := 0),
       terminal_buffer := \<lambda>i. if 0 \<le> i \<and> i \<le> 127 then 0 else terminal_buffer s i\<rparr>)"
proof -
  have fa: "files_ok (file_array (cur_proc s))" using assms(1) by (simp add: user_ok_def)
  have p: "pending_line n (sti s) = pending_line n s" by (simp add: pending_line_def)
  have l: "sint (1 + of_nat (length (pending_line n s)) :: u32) = int (length (pending_line n s)) + 1"
    using length_pending_line [of n s] by (subst sint_small) (simp_all add: unat_word_ariths unat_of_nat32)
  have w: "sint (of_int n :: u32) = n" using assms(4,5) by (subst sint_small) (simp_all add: nat_of_int32)
  have "terminal_read (env_irqs e) 0 buf n (sti s) = Some (terminal_take_line buf n (sti s))"
    using assms(3,4) by (simp add: terminal_read_def wait_while_done)
  then have "sys_read (env_irqs e) 0 buf n (sti s) = Some (terminal_take_line buf n (sti s))"
    using fa assms(2,4) by (simp add: sys_read_def table_read_def files_ok_def)
  then show ?thesis
    by (simp add: user_call_def of_result_def w terminal_take_line_eq p add.commute l assms(4) cong del: if_weak_cong)
qed

end
