(* ===== verification/Userlib.thy ===== *)
theory Userlib
  imports Usercalls
begin

text \<open>
  syscalls/ece391support.c, the library of the user programs: string functions, \<open>itoa\<close> and
  \<open>ece391_fdputs\<close>. A loop without a bound is a \<open>partial_function\<close>, None when it does not end. The
  lemmas relate the functions to those of the kernel (theory CString), which are the same code in
  another form, and give what \<open>ece391_fdputs\<close> types.
\<close>

section \<open>Operations\<close>

partial_function (option) ece391_strlen_from :: "mem \<Rightarrow> u32 \<Rightarrow> u32 \<Rightarrow> u32 option" where
  "ece391_strlen_from m s len = (if 0 \<noteq> m s then ece391_strlen_from m (s + 1) (len + 1) else Some len)"

definition ece391_strlen :: "mem \<Rightarrow> u32 \<Rightarrow> u32 option" where
  "ece391_strlen m s = ece391_strlen_from m s 0"

partial_function (option) ece391_strcpy :: "u32 \<Rightarrow> u32 \<Rightarrow> mem \<Rightarrow> mem option" where
  "ece391_strcpy dst src m =
     (let m = m(dst := m src) in if m dst \<noteq> 0 then ece391_strcpy (dst + 1) (src + 1) m else Some m)"

definition ece391_fdputs :: "'a rtc_scheme env \<Rightarrow> u32 \<Rightarrow> u32 \<Rightarrow> 'a rtc_scheme \<Rightarrow> 'a rtc_scheme option" where
  "ece391_fdputs e fd str s =
     (case ece391_strlen (ram s) str of None \<Rightarrow> None
      | Some n \<Rightarrow> map_option snd (user_call e Sys_Write fd str n s))"

partial_function (option) ece391_strcmp :: "mem \<Rightarrow> u32 \<Rightarrow> u32 \<Rightarrow> i32 option" where
  "ece391_strcmp m s1 s2 =
     (if m s1 = m s2 then if m s1 = 0 then Some 0 else ece391_strcmp m (s1 + 1) (s2 + 1)
      else Some (int (unat (m s1)) - int (unat (m s2))))"

function ece391_strncmp :: "mem \<Rightarrow> u32 \<Rightarrow> u32 \<Rightarrow> u32 \<Rightarrow> i32" where
  "ece391_strncmp m s1 s2 n =
     (if 0 = n then 0
      else if m s1 = m s2 then if m s1 = 0 \<or> n - 1 = 0 then 0 else ece391_strncmp m (s1 + 1) (s2 + 1) (n - 1)
      else int (unat (m s1)) - int (unat (m s2)))"
  by pat_completeness auto
termination
  by (relation "measure (\<lambda>(m, s1, s2, n). unat n)") (simp_all add: unat_minus_one unat_gt_0)

declare ece391_strncmp.simps [simp del]

function ece391_strrev_loop :: "mem \<Rightarrow> u32 \<Rightarrow> i32 \<Rightarrow> i32 \<Rightarrow> mem" where
  "ece391_strrev_loop m s beg fin =
     (if beg < fin then
        let tmp = m (s + of_int fin);
            m = m(s + of_int fin := m (s + of_int beg));
            m = m(s + of_int beg := tmp)
        in ece391_strrev_loop m s (beg + 1) (fin - 1)
      else m)"
  by pat_completeness auto
termination
  by (relation "measure (\<lambda>(m, s, beg, fin). nat (fin - beg))") auto

declare ece391_strrev_loop.simps [simp del]

definition ece391_strrev :: "mem \<Rightarrow> u32 \<Rightarrow> mem option" where
  "ece391_strrev m s =
     (case ece391_strlen m s of None \<Rightarrow> None
      | Some len \<Rightarrow>
        let fin = sint (len - 1)
        in if fin \<le> 0 then Some m else Some (ece391_strrev_loop m s 0 fin))"

partial_function (option) ece391_itoa_digits :: "mem \<Rightarrow> u32 \<Rightarrow> u32 \<Rightarrow> u32 \<Rightarrow> (mem \<times> u32) option" where
  "ece391_itoa_digits m newbuf newval radix =
     (if newval > 0 then
        if radix = 0 then None
        else case itoa_lookup (newval mod radix) of None \<Rightarrow> None
          | Some d \<Rightarrow> ece391_itoa_digits (m(newbuf := d)) (newbuf + 1) (newval div radix) radix
      else Some (m, newbuf))"

definition ece391_itoa :: "mem \<Rightarrow> u32 \<Rightarrow> u32 \<Rightarrow> u32 \<Rightarrow> mem option" where
  "ece391_itoa m v buf radix =
     (if v = 0 then Some (m(buf := 48, buf + 1 := 0))
      else case ece391_itoa_digits m buf v radix of None \<Rightarrow> None
        | Some (m, newbuf) \<Rightarrow> ece391_strrev (m(newbuf := 0)) buf)"

section \<open>The support library and the kernel's string functions\<close>

lemma option_eqI: "(\<And>r. a = Some r \<Longrightarrow> b = Some r) \<Longrightarrow> (\<And>r. b = Some r \<Longrightarrow> a = Some r) \<Longrightarrow> a = b"
  by (cases a; cases b) auto

lemma ece391_strlen_from_eq: "ece391_strlen_from m (s + len) len = strlen_from m s len"
proof (rule option_eqI)
  fix r
  show "strlen_from m s len = Some r" if r: "ece391_strlen_from m (s + len) len = Some r"
  proof -
    have "\<forall>s. p = s + len \<longrightarrow> strlen_from m s len = Some r" if "ece391_strlen_from m p len = Some r" for p
    proof (rule ece391_strlen_from.raw_induct [where P = "\<lambda>m p len r. \<forall>s. p = s + len \<longrightarrow> strlen_from m s len = Some r", OF _ that], goal_cases)
      case (1 f m p len r)
      show ?case
      proof (intro allI impI)
        fix s assume p: "p = s + len"
        show "strlen_from m s len = Some r"
          using 1(2) 1(1) [of m "p + 1" "len + 1" r] p by (subst strlen_from.simps) (auto simp: add.assoc split: if_splits)
      qed
    qed
    then show ?thesis using r by blast
  qed
  show "ece391_strlen_from m (s + len) len = Some r" if r: "strlen_from m s len = Some r"
  proof (rule strlen_from.raw_induct [where P = "\<lambda>m s len r. ece391_strlen_from m (s + len) len = Some r", OF _ r], goal_cases)
    case (1 f m s len r)
    show ?case
      using 1(2) 1(1) [of m s "len + 1" r] by (subst ece391_strlen_from.simps) (auto simp: add.assoc split: if_splits)
  qed
qed

lemma ece391_strlen_eq: "ece391_strlen m s = strlen m s"
  using ece391_strlen_from_eq [of m s 0] by (simp add: ece391_strlen_def strlen_def)

lemma ece391_strcpy_from_eq: "ece391_strcpy (dst + i) (src + i) m = strcpy_from m dst src i"
proof (rule option_eqI)
  fix r
  show "strcpy_from m dst src i = Some r" if r: "ece391_strcpy (dst + i) (src + i) m = Some r"
  proof -
    have "\<forall>dst src i. p = dst + i \<and> q = src + i \<longrightarrow> strcpy_from m dst src i = Some r" if "ece391_strcpy p q m = Some r" for p q
    proof (rule ece391_strcpy.raw_induct [where P = "\<lambda>p q m r. \<forall>dst src i. p = dst + i \<and> q = src + i \<longrightarrow> strcpy_from m dst src i = Some r",
          OF _ that], goal_cases)
      case (1 f p q m r)
      show ?case
      proof (intro allI impI)
        fix dst src i assume p: "p = dst + i \<and> q = src + i"
        let ?m = "m(p := m q)"
        have IH: "strcpy_from ?m dst src (i + 1) = Some r" if "f (p + 1) (q + 1) ?m = Some r"
          using 1(1) [OF that] p by (metis add.assoc)
        have "(if m q \<noteq> 0 then f (p + 1) (q + 1) ?m else Some ?m) = Some r"
          using 1(2) by (simp add: Let_def del: fun_upd_apply add: fun_upd_same)
        then show "strcpy_from m dst src i = Some r"
          using IH p by (subst strcpy_from.simps) (simp del: fun_upd_apply split: if_splits)
      qed
    qed
    then show ?thesis using r by blast
  qed
  show "ece391_strcpy (dst + i) (src + i) m = Some r" if r: "strcpy_from m dst src i = Some r"
  proof (rule strcpy_from.raw_induct [where P = "\<lambda>m dst src i r. ece391_strcpy (dst + i) (src + i) m = Some r", OF _ r], goal_cases)
    case (1 f m dst src i r)
    show ?case
      using 1(2) 1(1) [of "m(dst + i := m (src + i))" dst src "i + 1" r]
      by (subst ece391_strcpy.simps) (auto simp: add.assoc Let_def split: if_splits)
  qed
qed

lemma ece391_strcpy_eq: "ece391_strcpy dst src m = strcpy m dst src"
  using ece391_strcpy_from_eq [of dst 0 src m] by (simp add: strcpy_def)

lemma ece391_strrev_loop_eq: "ece391_strrev_loop m s beg fin = strrev_loop m s beg fin"
proof (induction m s beg fin rule: strrev_loop.induct)
  case (1 m s beg fin)
  show ?case using 1 [OF _ refl refl refl]
    by (subst ece391_strrev_loop.simps; subst strrev_loop.simps) (simp only: Let_def split: if_split, blast)
qed

lemma ece391_strrev_eq: "ece391_strrev m s = strrev m s"
  by (auto simp: ece391_strrev_def strrev_def ece391_strlen_eq ece391_strrev_loop_eq Let_def strrev_loop.simps split: option.splits)

lemma ece391_itoa_digits_eq: "ece391_itoa_digits m p v radix = itoa_digits m v p radix"
proof (rule option_eqI)
  fix r
  show "itoa_digits m v p radix = Some r" if r: "ece391_itoa_digits m p v radix = Some r"
  proof (rule ece391_itoa_digits.raw_induct [where P = "\<lambda>m p v radix r. itoa_digits m v p radix = Some r", OF _ r], goal_cases)
    case (1 f m p v radix r)
    then show ?case by (subst itoa_digits.simps) (auto split: if_splits option.splits)
  qed
  show "ece391_itoa_digits m p v radix = Some r" if r: "itoa_digits m v p radix = Some r"
  proof (rule itoa_digits.raw_induct [where P = "\<lambda>m v p radix r. ece391_itoa_digits m p v radix = Some r", OF _ r], goal_cases)
    case (1 f m v p radix r)
    then show ?case by (subst ece391_itoa_digits.simps) (auto split: if_splits option.splits)
  qed
qed

lemma ece391_itoa_eq: "ece391_itoa m v buf radix = itoa m v buf radix"
  unfolding ece391_itoa_def itoa_def ece391_itoa_digits_eq ece391_strrev_eq by (rule refl)

text \<open>\<open>strncmp\<close> of the library compares bytes as unsigned, the kernel's as signed; both return 0 for the same strings.\<close>

lemma ece391_strncmp_iff: "ece391_strncmp m s1 s2 n = 0 \<longleftrightarrow> strn m s1 (unat n) = strn m s2 (unat n)"
proof (induction m s1 s2 n rule: ece391_strncmp.induct)
  case (1 m s1 s2 n)
  have strn_0: "strn m a 0 = []" for a by (simp add: strn_def bytes_def)
  show ?case
  proof (cases "n = 0")
    case True
    then show ?thesis by (subst ece391_strncmp.simps) (simp add: strn_0)
  next
    case False
    then obtain k where k: "unat n = Suc k" "unat (n - 1) = k" by (metis unat_minus_one unat_eq_zero diff_Suc_1 not0_implies_Suc)
    show ?thesis
    proof (cases "m s1 = m s2")
      case False
      then have "uint (m s1) \<noteq> uint (m s2)" by (simp add: word_uint_eq_iff)
      then show ?thesis using False \<open>n \<noteq> 0\<close> by (subst ece391_strncmp.simps) (auto simp: k strn_Suc)
    next
      case True
      show ?thesis
      proof (cases "m s1 = 0 \<or> n - 1 = 0")
        case True
        then have "m s1 = 0 \<or> k = 0" using k(2) by auto
        then show ?thesis using True \<open>m s1 = m s2\<close>
          by (subst ece391_strncmp.simps) (auto simp: k strn_Suc strn_0)
      next
        case False
        then show ?thesis using 1 [OF _ \<open>m s1 = m s2\<close> False] \<open>n \<noteq> 0\<close> \<open>m s1 = m s2\<close>
          by (subst ece391_strncmp.simps) (auto simp: k strn_Suc)
      qed
    qed
  qed
qed

lemma ece391_strcmp_cstr:
  "cstr m a x \<Longrightarrow> cstr m b y \<Longrightarrow> \<exists>r. ece391_strcmp m a b = Some r \<and> (r = 0 \<longleftrightarrow> x = y)"
proof (induction x arbitrary: a b y)
  case Nil
  then have "m a = 0" by (simp add: cstr_def bytes_Suc)
  moreover have "m b = 0 \<longleftrightarrow> y = []" using Nil(2) by (cases y) (auto simp: cstr_def bytes_Suc)
  ultimately show ?case by (subst ece391_strcmp.simps) (auto simp: uint_0_iff)
next
  case (Cons c x)
  have a: "m a = c" "c \<noteq> 0" "cstr m (a + 1) x" using Cons.prems(1) by (auto simp: cstr_def bytes_Suc)
  show ?case
  proof (cases y)
    case Nil
    then have "m b = 0" using Cons.prems(2) by (simp add: cstr_def bytes_Suc)
    then show ?thesis using a Nil by (subst ece391_strcmp.simps) (auto simp: uint_0_iff)
  next
    case (Cons d y')
    then have b: "m b = d" "cstr m (b + 1) y'" using Cons.prems(2) by (auto simp: cstr_def bytes_Suc)
    show ?thesis
    proof (cases "c = d")
      case True
      then show ?thesis using Cons.IH [OF a(3) b(2)] a(1,2) b(1) Cons by (subst ece391_strcmp.simps) simp
    next
      case False
      then have "uint c \<noteq> uint d" by (simp add: word_uint_eq_iff)
      then show ?thesis using False a(1) b(1) Cons by (subst ece391_strcmp.simps) auto
    qed
  qed
qed

text \<open>\<open>ece391_fdputs\<close> types a string.\<close>

lemma fdputs_types:
  assumes ok: "user_ok s" and str: "cstr (ram s) a str" and ap: "apart a (length str) s" and b: "a \<noteq> 0" "length str < 2147483648"
  obtains t where "ece391_fdputs e 1 a s = Some t" "user_ok t" "printed_only s t"
    "screens t = type_on (scheduled_terminal s) str (screens s)"
proof (cases "str = []")
  case True
  have fa: "files_ok (file_array (cur_proc s))" and scr: "screen_ok s" using ok by (simp_all add: user_ok_def)
  have "sys_write 1 a 0 (sti s) = Some (-1, sti s)"
    using fa b(1) by (simp add: sys_write_def table_write_def files_ok_def terminal_write_def)
  then have "ece391_fdputs e 1 a s = Some (sti s)"
    using strlen_cstr [OF str] True by (simp add: ece391_fdputs_def ece391_strlen_eq user_call_def of_result_def)
  moreover have "user_ok (sti s)" using fa scr by (simp add: user_ok_def)
  moreover have "printed_only s (sti s)" by (simp add: printed_only_def)
  moreover have "screens (sti s) = screens s" by (simp add: screens_def fun_eq_iff)
  ultimately show thesis using that True by simp
next
  case False
  then have n: "0 < length str" by simp
  from user_call_write [OF ok ap b(1) n b(2), of e]
  obtain r t where t: "user_call e Sys_Write 1 a (of_nat (length str)) s = Some (r, t)" "user_ok t" "printed_only s t"
    "screens t = type_on (scheduled_terminal s) (bytes (ram s) a (length str)) (screens s)"
    by blast
  have "ece391_fdputs e 1 a s = Some t" using strlen_cstr [OF str] t(1) by (simp add: ece391_fdputs_def ece391_strlen_eq)
  moreover have "bytes (ram s) a (length str) = str" using str by (simp add: cstr_def bytes_def)
  ultimately show thesis using that t(2-4) by simp
qed


section \<open>Properties\<close>

text \<open>
  The string functions of the programs' library are those of the kernel: \<open>strlen\<close>, \<open>strcpy\<close> and
  \<open>itoa\<close> have the same result on every memory, also where a call does not return; \<open>strncmp\<close>,
  which compares unsigned bytes where the kernel compares signed ones, finds the same strings equal.
\<close>

theorem library_is_kernels:
  "ece391_strlen m a = strlen m a \<and> ece391_strcpy b a m = strcpy m b a \<and> ece391_itoa m v a radix = itoa m v a radix
    \<and> (ece391_strncmp m a b n = 0 \<longleftrightarrow> strncmp m a b n = 0)"
  by (simp add: ece391_strlen_eq ece391_strcpy_eq ece391_itoa_eq ece391_strncmp_iff strncmp_iff)

end
