(* ===== verification/Programs.thy ===== *)
theory Programs
  imports Userlib
begin

text \<open>
  The programs cat (syscalls/ece391cat.c) and ls (syscalls/ece391ls.c) on top of the kernel's system
  calls. The result of a program is the value of \<open>main\<close>; the addresses of its local arrays and of its
  string literals are parameters.
\<close>

section \<open>cat\<close>

record program =
  pg_buf :: u32
  pg_msg1 :: u32
  pg_msg2 :: u32
  pg_msg3 :: u32

text \<open>Printing an error message and returning its code.\<close>

definition complain :: "'a rtc_scheme env \<Rightarrow> u32 \<Rightarrow> i32 \<Rightarrow> 'a rtc_scheme \<Rightarrow> (i32 \<times> 'a rtc_scheme) option" where
  "complain e msg code s = map_option (Pair code) (ece391_fdputs e 1 msg s)"

partial_function (option) cat_loop :: "'a rtc_scheme env \<Rightarrow> program \<Rightarrow> u32 \<Rightarrow> 'a rtc_scheme \<Rightarrow> (i32 \<times> 'a rtc_scheme) option" where
  "cat_loop e pg fd s =
     (case user_call e Sys_Read fd (pg_buf pg) 1024 s of None \<Rightarrow> None
      | Some (cnt, s) \<Rightarrow>
        if cnt = 0 then Some (0, s)
        else if cnt = -1 then complain e (pg_msg3 pg) 3 s
        else (case user_call e Sys_Write 1 (pg_buf pg) (of_int cnt) s of None \<Rightarrow> None
              | Some (r, s) \<Rightarrow> if r = -1 then Some (3, s) else cat_loop e pg fd s))"

definition cat_main :: "'a rtc_scheme env \<Rightarrow> program \<Rightarrow> 'a rtc_scheme \<Rightarrow> (i32 \<times> 'a rtc_scheme) option" where
  "cat_main e pg s =
     (case user_call e Sys_Getargs (pg_buf pg) 1024 0 s of None \<Rightarrow> None
      | Some (r, s) \<Rightarrow>
        if r \<noteq> 0 then complain e (pg_msg1 pg) 3 s
        else (case user_call e Sys_Open (pg_buf pg) 0 0 s of None \<Rightarrow> None
              | Some (fd, s) \<Rightarrow>
                if fd = -1 then complain e (pg_msg2 pg) 2 s else cat_loop e pg (of_int fd) s))"

lemma user_call_read:
  assumes ok: "copy_ok k fd buf lim s" and n: "0 \<le> n" "n \<le> lim"
  shows "user_call e Sys_Read (of_int fd) buf (of_int n) s = Some (sti_read (env_irqs e) fd buf n s)"
proof -
  have r: "sys_reader_ok fd buf lim (sti s)" using ok by (simp add: copy_ok_def)
  have fd: "2 \<le> fd" "fd < 8" and lim: "lim < 2147483648" using r by (simp_all add: sys_reader_ok_def reader_ok_def)
  have w: "sint (of_int j :: u32) = j" if "0 \<le> j" "j < 2147483648" for j
    using that by (subst sint_small) (simp_all add: nat_of_int32)
  have c: "sint (of_int fd :: u32) = fd" "sint (of_int n :: u32) = n" by (rule w; use fd n lim in linarith)+
  obtain v t where t: "file_read fd buf n (sti s) = (v, t)" by fastforce
  have f: "sys_rd (env_irqs e) fd buf n (sti s) = (v, t)" using sys_rd_file [OF r n(1)] t by simp
  have "sys_read (env_irqs e) fd buf n (sti s) = Some (v, t)"
    using r n(1) fd t by (simp add: sys_reader_ok_def sys_read_def table_read_def)
  moreover have "0 \<le> v" "v \<le> n" using sys_reader.rd_result [OF r n, of "env_irqs e"] n f by auto
  ultimately show ?thesis using w [of v] lim n f by (simp add: user_call_def of_result_def c sti_read_def)
qed

lemma cat_loop_copies:
  assumes ok: "copy_ok k fd (pg_buf pg) 1024 s"
  shows "\<exists>t. cat_loop e pg (of_int fd) s = Some (0, t) \<and> copy_ok k fd (pg_buf pg) 1024 t
    \<and> screens t = type_on k (drop (unat (file_pos (cur_file s fd))) (content s (inode (cur_file s fd)))) (screens s)"
proof -
  let ?r = "\<lambda>s. sti_read (env_irqs e) fd (pg_buf pg) 1024 s"
  have rd: "user_call e Sys_Read (of_int fd) (pg_buf pg) 1024 s = Some (?r s)" if "copy_ok k fd (pg_buf pg) 1024 s" for s
    using user_call_read [OF that, of 1024 e] by simp
  have at_end: "cat_loop e pg (of_int fd) s = Some (0, snd (?r s))" if "copy_ok k fd (pg_buf pg) 1024 s" "fst (?r s) = 0" for s
    using that rd [OF that(1)] by (subst cat_loop.simps) (simp add: split_def)
  have again: "cat_loop e pg (of_int fd) s = cat_loop e pg (of_int fd) (user_write e (pg_buf pg) (nat (fst (?r s))) (snd (?r s)))"
    if s: "copy_ok k fd (pg_buf pg) 1024 s" and n: "0 < fst (?r s)" "fst (?r s) \<le> 1024" for s
  proof -
    have "copy_ok k fd (pg_buf pg) 1024 (snd (?r s))" using sti_read_effect(1) [OF s, of 1024] by simp
    from user_write_effect(5) [OF this, of "nat (fst (?r s))" e] n
    obtain v where "0 \<le> v" "user_call e Sys_Write 1 (pg_buf pg) (of_int (fst (?r s))) (snd (?r s))
        = Some (v, user_write e (pg_buf pg) (nat (fst (?r s))) (snd (?r s)))" by (auto simp: of_nat_nat)
    then show ?thesis using rd [OF s] n by (subst cat_loop.simps) (simp add: split_def)
  qed
  have "\<exists>t. cat_loop e pg (of_int fd) s = Some (Pair 0 t)
      \<and> screens t = type_on k (drop (unat (file_pos (cur_file s fd))) (content s (inode (cur_file s fd)))) (screens s)
      \<and> copy_ok k fd (pg_buf pg) 1024 t"
    by (rule file_copier.copies_all [where n = 1024 and irqs = "env_irqs e" and e = e, OF _ _ _ _ ok])
      (simp_all add: at_end again)
  then show ?thesis by blast
qed

lemma screens_kept:
  assumes "agree_outside rs (ram t) (ram s)" "\<forall>r \<in> set rs. apart (fst r) (snd r) s"
    and "screen_x t = screen_x s" "screen_y t = screen_y s" "disp_terminal t = disp_terminal s"
  shows "screens t = screens s" "apart a n t = apart a n s"
proof -
  have b: "term_base u t = term_base u s" for u by (rule term_base_eq [OF assms(5)])
  show "apart a n t = apart a n s" by (simp add: apart_def b)
  have "bytes (ram t) (term_base u s) 4000 = bytes (ram s) (term_base u s) 4000" if "u < 3" for u
    by (rule agree_outside_bytes [OF assms(1)]) (use assms(2) that in \<open>auto simp: apart_def\<close>)
  then have "term_screen u t = term_screen u s" if "u < 3" for u
    unfolding term_screen_def b screen_of_def assms(3,4) using glyphs_cong that by metis
  then show "screens t = screens s" by (auto simp: screens_def fun_eq_iff)
qed

text \<open>The argument of the command line, copied to the program's buffer.\<close>

lemma user_call_getargs:
  assumes "cstr (ram s) (arg (cur_proc s)) str" "str \<noteq> []" "length str < n" "n < 2147483648"
    and "disjoint_regions buf n (arg (cur_proc s)) n"
  obtains m where "user_call e Sys_Getargs buf (of_nat n) 0 s = Some (0, (sti s)\<lparr>ram := m\<rparr>)"
    "cstr m buf str" "agree_outside [(buf, n)] m (ram s)"
proof -
  define m where "m = strncpy (ram s) buf (arg (cur_proc s)) (of_nat n)"
  have un: "unat (of_nat n :: u32) = n" and sn: "sint (of_nat n :: u32) = int n"
    using assms(4) by (simp_all add: unat_of_nat32, subst sint_small, simp_all add: unat_of_nat32)
  have st: "strn (ram s) (arg (cur_proc s)) n = str" using strn_cstr [OF assms(1), of n] assms(3) by simp
  have m: "m = write_bytes (ram s) buf (str @ replicate (n - length str) 0)"
    using strncpy_write [of buf "of_nat n" "arg (cur_proc s)" "ram s"] assms(5) by (simp add: m_def un st Let_def)
  have "ram s (arg (cur_proc s)) \<noteq> 0"
    using assms(1,2) by (cases str) (auto simp: cstr_def bytes_Suc)
  then have "user_call e Sys_Getargs buf (of_nat n) 0 s = Some (0, (sti s)\<lparr>ram := m\<rparr>)"
    by (simp add: user_call_def of_result_def sys_getargs_def m_def sn)
  moreover have "cstr m buf str"
  proof -
    obtain j where j: "n - length str = Suc j" using assms(3) by (metis Suc_diff_Suc)
    have "bytes m buf (Suc (length str)) = take (Suc (length str)) (bytes m buf n)"
      using assms(3) by (simp add: bytes_def take_map)
    also have "bytes m buf n = str @ replicate (n - length str) 0"
      using bytes_write_same [of "str @ replicate (n - length str) 0" "ram s" buf] assms(3,4) by (simp add: m)
    finally show ?thesis using assms(1) by (simp add: cstr_def j)
  qed
  moreover have "agree_outside [(buf, n)] m (ram s)"
    unfolding m by (rule agree_outside_write [of buf n]) (use assms(3) in simp_all)
  ultimately show thesis by (rule that)
qed

text \<open>
  A process that can show a file: its argument is the name of entry \<open>j\<close> of the directory, a file
  with index node \<open>ino\<close>; a descriptor is free; and the buffers do not overlap each other, the
  image or the screens.
\<close>

definition cat_regions :: "'a rtc_scheme env \<Rightarrow> program \<Rightarrow> (u32 \<times> nat) list" where
  "cat_regions e pg = [(pg_buf pg, 1024), (env_dentry e, 40), (env_temp e, 40)]"

definition cat_ready :: "'a rtc_scheme env \<Rightarrow> program \<Rightarrow> u8 list \<Rightarrow> nat \<Rightarrow> u32 \<Rightarrow> 'a rtc_scheme \<Rightarrow> bool" where
  "cat_ready e pg str j ino s \<longleftrightarrow> user_ok s \<and> cstr (ram s) (arg (cur_proc s)) str \<and> str \<noteq> [] \<and> length str \<le> 31 \<and> hd str \<noteq> 32
     \<and> unat (num_dentry s) \<le> 63 \<and> lookup s str = Some j \<and> entry_type s (of_nat j) = 2 \<and> entry_inode s (of_nat j) = ino
     \<and> good_inode s ino \<and> image_safe (own_screen s # cat_regions e pg) ino s
     \<and> (\<forall>r \<in> set (cat_regions e pg). apart (fst r) (snd r) s) \<and> pg_buf pg \<noteq> 0
     \<and> disjoint_regions (pg_buf pg) 1024 (arg (cur_proc s)) 1024
     \<and> disjoint_regions (env_dentry e) 40 (pg_buf pg) 1024 \<and> disjoint_regions (env_temp e) 40 (pg_buf pg) 1024
     \<and> disjoint_regions (env_dentry e) 40 (env_temp e) 40"

lemma entry_type_same:
  "same_image s t \<Longrightarrow> entry_type t i = entry_type (s\<lparr>ram := ram t\<rparr>) i"
  by (simp add: same_image_def entry_type_def dir_entry_addr_def)

lemma cat_file_ready:
  assumes ready: "cat_ready e pg str j ino s" and same: "same_image s t" "cur_proc t = cur_proc s"
    and c: "cstr (ram t) (pg_buf pg) str" "agree_outside (cat_regions e pg) (ram t) (ram s)"
  shows "file_ready (env_dentry e) (env_temp e) (pg_buf pg) str j ino t" "good_inode t ino"
    "content t ino = content s ino" "outside_file t ino a k = outside_file s ino a k"
proof -
  let ?b = "pg_buf pg" and ?d = "env_dentry e" and ?p = "env_temp e"
  have r: "user_ok s" "str \<noteq> []" "length str \<le> 31" "hd str \<noteq> 32" "unat (num_dentry s) \<le> 63" "lookup s str = Some j"
    "entry_type s (of_nat j) = 2" "entry_inode s (of_nat j) = ino" "good_inode s ino" "image_safe (cat_regions e pg) ino s"
    and dj: "disjoint_regions ?d 40 ?b 1024" "disjoint_regions ?p 40 ?b 1024" "disjoint_regions ?d 40 ?p 40"
    using ready by (simp_all add: cat_ready_def image_safe_def)
  note v = image_kept [OF same(1) c(2) r(10,5,9)]
  have boot: "disjoint_regions ?d 40 (boot_block_ptr s) 4096" "disjoint_regions ?p 40 (boot_block_ptr s) 4096"
    using r(10) by (simp_all add: image_safe_def cat_regions_def)
  have "dir_kept (ram t) s"
    by (rule agree_outside_dir [OF c(2)]) (use r(10) in \<open>auto simp: image_safe_def\<close>)
  then have ty: "entry_type t (of_nat j) = 2"
    using dir_kept_entries(2) [of "ram t" s j] lookup_Some [OF r(6)] r(5,7) by (simp add: entry_type_same [OF same(1)])
  have f: "boot_block_ptr t = boot_block_ptr s" "num_dentry t = num_dentry s" using same(1) by (simp_all add: same_image_def)
  have "disjoint_regions ?d 40 ?b (Suc (length str))" "disjoint_regions ?p 40 ?b (Suc (length str))"
    using dj(1,2) r(3) by (auto intro: disjoint_regions_mono)
  then have "openable ?d ?p ?b str j t"
    unfolding openable_def scratch_dentry_def f v(1) using c(1) r boot dj(3) by simp
  then show "file_ready ?d ?p ?b str j ino t"
    using r(1,8) v(2) [OF r(6)] ty by (simp add: file_ready_def user_ok_def same(2))
  show "good_inode t ino" "content t ino = content s ino" "outside_file t ino a k = outside_file s ino a k"
    by (rule v)+
qed

text \<open>Opening a file gives a reader for a buffer; the scratch entries of \<open>open\<close> are all it writes.\<close>

lemma opens_reader:
  assumes fr: "file_ready dentry temp fname str j ino s" and free: "least_free (open_files s) fd" and good: "good_inode s ino"
    and ok: "user_ok s" and rs: "\<forall>r \<in> set [(buf, nat lim), (dentry, 40), (temp, 40)]. apart (fst r) (snd r) s \<and> outside_file s ino (fst r) (snd r)"
    and scr: "outside_file s ino (fst (own_screen s)) 4000" and b: "buf \<noteq> 0" "lim < 2147483648"
  obtains t where "sys_open dentry temp fname s = Some (fd, t)" "copy_ok (scheduled_terminal s) fd buf lim t" "screens t = screens s"
    "content t (inode (cur_file t fd)) = content s ino" "file_pos (cur_file t fd) = 0"
    "agree_outside [(dentry, 40), (temp, 40)] (ram t) (ram s)" "disp_terminal t = disp_terminal s" "2 \<le> fd" "fd < 8"
    "scheduled_terminal t = scheduled_terminal s" "same_image s t" "\<forall>f. f \<noteq> fd \<longrightarrow> cur_file t f = cur_file s f"
proof -
  let ?rs = "[(dentry, 40), (temp, 40)]"
  have safe: "outside_file s ino dentry 40" "outside_file s ino temp 40" "outside_file s ino buf (nat lim)" using rs by simp_all
  obtain m where m: "sys_open dentry temp fname s = Some (fd, set_file fd file_table ino (s\<lparr>ram := m\<rparr>))"
    "file_ready dentry temp fname str j ino (set_file fd file_table ino (s\<lparr>ram := m\<rparr>))"
    "\<And>x. \<not> in_region dentry 40 x \<Longrightarrow> \<not> in_region temp 40 x \<Longrightarrow> m x = ram s x"
    using sys_open_ready [OF fr free] by blast
  define t where "t = set_file fd file_table ino (s\<lparr>ram := m\<rparr>)"
  obtain t' where t': "sys_open dentry temp fname s = Some (fd, t')" "sys_reader_ok fd buf lim t'"
    "content t' (inode (cur_file t' fd)) = content s ino" "file_pos (cur_file t' fd) = 0"
    by (rule sys_open_reader [OF fr free good safe b])
  then have tt: "t' = t" using m(1) by (simp add: t_def)
  have f: "screen_x t = screen_x s" "screen_y t = screen_y s" "disp_terminal t = disp_terminal s" "scheduled_terminal t = scheduled_terminal s"
    "inode (cur_file t fd) = ino" "same_image s t" "\<forall>f. f \<noteq> fd \<longrightarrow> cur_file t f = cur_file s f"
    by (simp_all add: t_def set_file_def same_image_def)
  have ag: "agree_outside ?rs (ram t) (ram s)" using m(3) by (simp add: t_def agree_outside_def)
  note k = screens_kept [OF ag _ f(1-3)]
  have "outside_file t ino a n = outside_file s ino a n" for a n
    using file_scratch_unchanged(4) [OF good safe(1,2) m(3), where b = a and k = n] by (simp add: t_def set_file_def)
  then have "outside_file t ino (fst (own_screen t)) 4000"
    using scr by (simp add: own_screen_region term_base_eq [OF f(3)] f(4))
  moreover have "user_ok t" using ok m(2) screen_ok_cong [OF f(1-4)] by (simp add: user_ok_def file_ready_def t_def)
  moreover have "apart buf (nat lim) t" using rs k(2) by simp
  ultimately have "copy_ok (scheduled_terminal s) fd buf lim t" using t'(2) f(4,5) by (simp add: copy_ok_def tt)
  moreover have "fd < 8" "2 \<le> fd" using t'(2) by (simp_all add: sys_reader_ok_def reader_ok_def)
  ultimately show thesis using that [of t] k(1) t'(1,3,4) ag f(3,4,6,7) rs by (simp add: tt)
qed

lemma cat_opens:
  assumes ready: "cat_ready e pg str j ino s" and free: "least_free (open_files s) fd"
    and c: "cstr m (pg_buf pg) str" "agree_outside [(pg_buf pg, 1024)] m (ram s)"
  obtains t where "user_call e Sys_Open (pg_buf pg) 0 0 ((sti s)\<lparr>ram := m\<rparr>) = Some (fd, t)"
    "copy_ok (scheduled_terminal s) fd (pg_buf pg) 1024 t" "screens t = screens s"
    "content t (inode (cur_file t fd)) = content s ino" "file_pos (cur_file t fd) = 0"
proof -
  let ?b = "pg_buf pg" and ?d = "env_dentry e" and ?p = "env_temp e" and ?rs = "cat_regions e pg"
  define s1 where "s1 = sti ((sti s)\<lparr>ram := m\<rparr>)"
  have ap: "\<forall>r \<in> set ?rs. apart (fst r) (snd r) s" and b0: "?b \<noteq> 0" and ok: "user_ok s"
    and safe: "outside_file s ino ?d 40" "outside_file s ino ?p 40" "outside_file s ino ?b 1024"
      "outside_file s ino (fst (own_screen s)) 4000"
    using ready by (simp_all add: cat_ready_def image_safe_def cat_regions_def own_screen_region)
  have ag: "agree_outside ?rs (ram s1) (ram s)"
    by (rule agree_outside_mono [of "[(?b, 1024)]"]) (use c(2) in \<open>simp_all add: s1_def cat_regions_def\<close>)
  have same: "same_image s s1" "cur_proc s1 = cur_proc s" "cstr (ram s1) ?b str" using c(1) by (simp_all add: s1_def same_image_def)
  note fr = cat_file_ready [OF ready same ag]
  have "open_files s1 = open_files s" by (simp add: open_files_def same(2) fun_eq_iff)
  then have fs: "least_free (open_files s1) fd" using free by simp
  have f: "screen_x s1 = screen_x s" "screen_y s1 = screen_y s" "disp_terminal s1 = disp_terminal s" "scheduled_terminal s1 = scheduled_terminal s"
    by (simp_all add: s1_def)
  note k = screens_kept [OF ag ap f(1-3)]
  have u: "user_ok s1" using ok screen_ok_cong [OF f] by (simp add: user_ok_def same(2))
  have rs: "\<forall>r \<in> set [(?b, nat 1024), (?d, 40), (?p, 40)]. apart (fst r) (snd r) s1 \<and> outside_file s1 ino (fst r) (snd r)"
    using ap safe by (simp add: k(2) fr(4) cat_regions_def)
  have own: "outside_file s1 ino (fst (own_screen s1)) 4000"
    using safe(4) by (simp add: fr(4) own_screen_region term_base_eq [OF f(3)] f(4))
  obtain t where t: "sys_open ?d ?p ?b s1 = Some (fd, t)" "copy_ok (scheduled_terminal s1) fd ?b 1024 t" "screens t = screens s1"
    "content t (inode (cur_file t fd)) = content s1 ino" "file_pos (cur_file t fd) = 0" "2 \<le> fd" "fd < 8"
    by (rule opens_reader [OF fr(1) fs fr(2) u rs own b0]) simp_all
  have "sint (of_int fd :: u32) = fd" using t(6,7) by (subst sint_small) (simp_all add: nat_of_int32)
  then have "user_call e Sys_Open ?b 0 0 ((sti s)\<lparr>ram := m\<rparr>) = Some (fd, t)"
    by (simp add: user_call_def of_result_def s1_def [symmetric] t(1))
  then show thesis using that t(2-5) fr(3) k(1) f(4) by simp
qed

lemma cat_main_copies:
  assumes ready: "cat_ready e pg str j ino s" and free: "least_free (open_files s) fd"
  shows "\<exists>t. cat_main e pg s = Some (0, t) \<and> screens t = type_on (scheduled_terminal s) (content s ino) (screens s)"
proof -
  have a: "cstr (ram s) (arg (cur_proc s)) str" "str \<noteq> []" "length str < 1024" "(1024 :: nat) < 2147483648"
    "disjoint_regions (pg_buf pg) 1024 (arg (cur_proc s)) 1024"
    using ready by (simp_all add: cat_ready_def)
  obtain m where m: "user_call e Sys_Getargs (pg_buf pg) 1024 0 s = Some (0, (sti s)\<lparr>ram := m\<rparr>)"
    "cstr m (pg_buf pg) str" "agree_outside [(pg_buf pg, 1024)] m (ram s)"
    using user_call_getargs [OF a, of e] by auto
  obtain t where t: "user_call e Sys_Open (pg_buf pg) 0 0 ((sti s)\<lparr>ram := m\<rparr>) = Some (fd, t)"
    "copy_ok (scheduled_terminal s) fd (pg_buf pg) 1024 t" "screens t = screens s"
    "content t (inode (cur_file t fd)) = content s ino" "file_pos (cur_file t fd) = 0"
    using cat_opens [OF ready free m(2,3)] by blast
  have "fd \<noteq> -1" using free by (simp add: least_free_def)
  then show ?thesis using cat_loop_copies [OF t(2), of e] m(1) t(1,3-5) by (auto simp: cat_main_def)
qed

text \<open>Closing a descriptor, and the descriptors of a process that has just started.\<close>

lemma sys_close_views:
  assumes "files_ok (file_array (cur_proc s))"
  shows "fd \<notin> {2..7} \<or> open_files s fd = None \<Longrightarrow> sys_close fd s = (-1, s)"
    "fd \<in> {2..7} \<Longrightarrow> open_files s fd \<noteq> None \<Longrightarrow> fst (sys_close fd s) = 1 \<and> open_files (snd (sys_close fd s)) = (open_files s)(fd := None)"
    "files_ok (file_array (cur_proc (snd (sys_close fd s))))"
proof -
  show "sys_close fd s = (-1, s)" if "fd \<notin> {2..7} \<or> open_files s fd = None"
    using that assms by (cases "fd \<in> {2..7}") (auto simp: sys_close_def open_files_def files_ok_def split: if_splits)
  show "fst (sys_close fd s) = 1 \<and> open_files (snd (sys_close fd s)) = (open_files s)(fd := None)"
    if "fd \<in> {2..7}" "open_files s fd \<noteq> None"
    using that by (auto simp: sys_close_def open_files_def fun_eq_iff split: if_splits)
  show "files_ok (file_array (cur_proc (snd (sys_close fd s))))"
  proof (cases "fd \<in> {2..7}")
    case True
    have "files_ok ((cur_file s)(fd := f))" if "flag f = 0" for f using files_ok_upd [OF assms] True that by auto
    then show ?thesis using assms by (auto simp: sys_close_def fun_upd_def)
  qed (use assms in \<open>auto simp: sys_close_def\<close>)
qed

definition fresh_files :: "'a process_scheme \<Rightarrow> bool" where
  "fresh_files s \<longleftrightarrow> (\<forall>fd \<in> {0..7}. open_files s fd \<noteq> None \<longleftrightarrow> fd < 2)"

section \<open>ls\<close>

partial_function (option) ls_loop :: "'a rtc_scheme env \<Rightarrow> program \<Rightarrow> u32 \<Rightarrow> 'a rtc_scheme \<Rightarrow> (i32 \<times> 'a rtc_scheme) option" where
  "ls_loop e pg fd s =
     (case user_call e Sys_Read fd (pg_buf pg) 32 s of None \<Rightarrow> None
      | Some (cnt, s) \<Rightarrow>
        if cnt = 0 then Some (0, s)
        else if cnt = -1 then complain e (pg_msg3 pg) 3 s
        else
          let s = s\<lparr>ram := (ram s)(pg_buf pg + of_int cnt := 10)\<rparr>
          in (case user_call e Sys_Write 1 (pg_buf pg) (of_int (cnt + 1)) s of None \<Rightarrow> None
              | Some (r, s) \<Rightarrow> if r = -1 then Some (3, s) else ls_loop e pg fd s))"

text \<open>\<open>pg_msg1\<close> is the literal \<open>"."\<close>.\<close>

definition ls_main :: "'a rtc_scheme env \<Rightarrow> program \<Rightarrow> 'a rtc_scheme \<Rightarrow> (i32 \<times> 'a rtc_scheme) option" where
  "ls_main e pg s =
     (case user_call e Sys_Open (pg_msg1 pg) 0 0 s of None \<Rightarrow> None
      | Some (fd, s) \<Rightarrow>
        if fd = -1 then complain e (pg_msg2 pg) 2 s else ls_loop e pg (of_int fd) s)"

lemma strncpy_outside:
  assumes "\<not> in_region dest (unat n) x"
  shows "strncpy m dest src n x = m x"
proof -
  have ne: "\<forall>i < n. x \<noteq> dest + i"
    using assms by (auto simp: in_region_def word_less_nat_alt)
  then have "fst (strncpy_copy m dest src n i) x = m x" for i
  proof (induction m dest src n i rule: strncpy_copy.induct)
    case (1 m dest src n i)
    show ?case
    proof (cases "m (src + i) \<noteq> 0 \<and> i < n")
      case True
      then have "x \<noteq> dest + i" using 1(2) by blast
      then show ?thesis
        by (subst strncpy_copy.simps) (simp only: True simp_thms if_True "1.IH" [OF True "1.prems"] fun_upd_other)
    next
      case False
      then show ?thesis by (subst strncpy_copy.simps) (simp only: if_False fst_conv)
    qed
  qed
  moreover have "strncpy_pad m' dest n i x = m' x" for m' i
    using ne
  proof (induction m' dest n i rule: strncpy_pad.induct)
    case (1 m dest n i)
    show ?case
    proof (cases "i < n")
      case True
      then have "x \<noteq> dest + i" using 1(2) by blast
      then show ?thesis by (subst strncpy_pad.simps) (simp only: True simp_thms if_True "1.IH" [OF True "1.prems"] fun_upd_other)
    next
      case False
      then show ?thesis by (subst strncpy_pad.simps) (simp only: if_False)
    qed
  qed
  ultimately show ?thesis by (simp add: strncpy_def split_def)
qed

text \<open>The names of a directory, as \<open>dir_read\<close> finds them: one entry each, none empty.\<close>

definition dir_names :: "'a filesys_scheme \<Rightarrow> u8 list list \<Rightarrow> bool" where
  "dir_names s ns \<longleftrightarrow> length ns = unat (num_dentry s) \<and> length ns \<le> 63
     \<and> (\<forall>k < length ns. cstr (ram s) (dir_entry_addr s (of_nat k)) (ns ! k) \<and> ns ! k \<noteq> [] \<and> length (ns ! k) \<le> 32)"

lemma dir_names_kept:
  assumes "dir_names s ns" "dir_kept (ram t) s" "same_image s t"
  shows "dir_names t ns"
proof -
  have e: "dir_entry_addr t k = dir_entry_addr s k" for k using assms(3) by (simp add: dir_entry_addr_def same_image_def)
  have "bytes (ram t) (dir_entry_addr s (of_nat k)) (Suc (length (ns ! k)))
      = bytes (ram s) (dir_entry_addr s (of_nat k)) (Suc (length (ns ! k)))" if k: "k < length ns" for k
  proof (rule bytes_cong)
    fix i assume "i < Suc (length (ns ! k))"
    moreover have "length (ns ! k) \<le> 32" "length ns \<le> 63" using assms(1) k by (simp_all add: dir_names_def)
    ultimately show "ram t (dir_entry_addr s (of_nat k) + of_nat i) = ram s (dir_entry_addr s (of_nat k) + of_nat i)"
      using dir_entry_byte [OF _ _ assms(2), of k i] k by simp
  qed
  then show ?thesis using assms(1,3) by (simp add: dir_names_def e cstr_def same_image_def)
qed

definition ls_ok :: "u8 \<Rightarrow> i32 \<Rightarrow> u32 \<Rightarrow> u8 list list \<Rightarrow> 'a rtc_scheme \<Rightarrow> bool" where
  "ls_ok k fd buf ns s \<longleftrightarrow> user_ok s \<and> scheduled_terminal s = k \<and> 2 \<le> fd \<and> fd < 8 \<and> flag (cur_file s fd) = 1
     \<and> file_op_ptr (cur_file s fd) = Some dir_table \<and> dir_names s ns \<and> apart buf 33 s \<and> buf \<noteq> 0
     \<and> disjoint_regions buf 33 (boot_block_ptr s) 4096 \<and> disjoint_regions (fst (own_screen s)) 4000 (boot_block_ptr s) 4096"

text \<open>Where the read of one name leaves the program; it then puts a character behind the name.\<close>

definition ls_entry :: "i32 \<Rightarrow> u32 \<Rightarrow> u8 list \<Rightarrow> 'a rtc_scheme \<Rightarrow> 'a rtc_scheme" where
  "ls_entry fd buf name s = (upd_file fd (\<lambda>f. f\<lparr>file_pos := file_pos f + 1\<rparr>) (sti s))\<lparr>ram :=
     write_bytes (ram s) buf (name @ replicate (32 - length name) 0)\<rparr>"

definition ls_named :: "i32 \<Rightarrow> u32 \<Rightarrow> u8 list \<Rightarrow> u8 \<Rightarrow> 'a rtc_scheme \<Rightarrow> 'a rtc_scheme" where
  "ls_named fd buf name c s = (ls_entry fd buf name s)\<lparr>ram := (ram (ls_entry fd buf name s))(buf + of_nat (length name) := c)\<rparr>"

lemma ls_read:
  assumes ok: "ls_ok k fd buf ns s" and p: "unat (file_pos (cur_file s fd)) = p" "p < length ns"
  shows "user_call e Sys_Read (of_int fd) buf 32 s = Some (int (length (ns ! p)), ls_entry fd buf (ns ! p) s)"
proof -
  have c: "2 \<le> fd" "fd < 8" "flag (cur_file (sti s) fd) = 1" "file_op_ptr (cur_file (sti s) fd) = Some dir_table" "buf \<noteq> 0"
    and d: "dir_names s ns" "disjoint_regions buf 33 (boot_block_ptr s) 4096"
    using ok by (simp_all add: ls_ok_def)
  define q where "q = file_pos (cur_file (sti s) fd)"
  have q: "q = of_nat p" "q < num_dentry (sti s)" using p d(1) by (auto simp: q_def dir_names_def word_less_nat_alt)
  have name: "cstr (ram (sti s)) (dir_entry_addr (sti s) q) (ns ! p)" "length (ns ! p) \<le> 32" "length ns \<le> 63"
    using d(1) p(2) by (simp_all add: dir_names_def q(1) dir_entry_addr_def)
  have "disjoint_regions (buf + of_nat 0) 32 (boot_block_ptr s + of_nat (64 + 64 * p)) 33"
    using p(2) name(3) by (intro disjoint_regions_shift [OF d(2)]) simp_all
  then have dis: "disjoint_regions buf 32 (dir_entry_addr (sti s) q) (max 32 (Suc (length (ns ! p))))"
    using name(2) by (auto simp: dir_entry_addr_def q(1) add.assoc intro: disjoint_regions_mono)
  have rd: "dir_read fd buf 32 (sti s) = Some (int (length (ns ! p)),
      (upd_file fd (\<lambda>f. f\<lparr>file_pos := file_pos f + 1\<rparr>) (sti s))\<lparr>ram := write_bytes (ram (sti s)) buf
       (take (nat 32) (ns ! p) @ replicate (nat 32 - length (ns ! p)) 0)\<rparr>)"
    by (rule dir_read_entry [OF c(1,2) _ _ q_def q(2) name(1)]) (use dis name(2) in simp_all)
  have r: "sys_read (env_irqs e) fd buf 32 (sti s) = Some (int (length (ns ! p)), ls_entry fd buf (ns ! p) s)"
    using c rd name(2) by (simp add: sys_read_def table_read_def ls_entry_def)
  have "sint (of_int fd :: u32) = fd" using c(1,2) by (subst sint_small) (simp_all add: nat_of_int32)
  moreover have "sint (of_nat (length (ns ! p)) :: u32) = int (length (ns ! p))"
    using name(2) by (subst sint_small) (simp_all add: unat_of_nat32)
  ultimately show ?thesis by (simp add: user_call_def of_result_def r)
qed

lemma ls_entry_memory:
  assumes "length name \<le> 32"
  shows "bytes (ram (ls_entry fd buf name s)) buf 32 = name @ replicate (32 - length name) 0"
    "agree_outside [(buf, 33)] (ram (ls_entry fd buf name s)) (ram s)"
proof -
  show "bytes (ram (ls_entry fd buf name s)) buf 32 = name @ replicate (32 - length name) 0"
    using bytes_write_same [of "name @ replicate (32 - length name) 0" "ram s" buf] assms by (simp add: ls_entry_def)
  show "agree_outside [(buf, 33)] (ram (ls_entry fd buf name s)) (ram s)"
    by (simp add: ls_entry_def, rule agree_outside_write [of buf 33]) (use assms in simp_all)
qed

lemma ls_named_memory:
  assumes "length name \<le> 32"
  shows "bytes (ram (ls_named fd buf name c s)) buf (Suc (length name)) = name @ [c]"
    "agree_outside [(buf, 33)] (ram (ls_named fd buf name c s)) (ram s)"
proof -
  let ?m = "ram (ls_entry fd buf name s)"
  note mem = ls_entry_memory [OF assms, where fd = fd and buf = buf and s = s]
  have e: "ram (ls_named fd buf name c s) = ?m(buf + of_nat (length name) := c)" by (simp add: ls_named_def)
  have ne: "buf + of_nat i \<noteq> buf + of_nat (length name)" if "i < length name" for i
  proof -
    have "(of_nat i :: u32) \<noteq> of_nat (length name)" using that assms by (simp add: word_unat_eq_iff unat_of_nat32)
    then show ?thesis by simp
  qed
  have "bytes (?m(buf + of_nat (length name) := c)) buf (length name) = bytes ?m buf (length name)"
    by (rule bytes_cong) (use ne in auto)
  also have "\<dots> = take (length name) (bytes ?m buf 32)" using assms by (simp add: bytes_def take_map)
  finally show "bytes (ram (ls_named fd buf name c s)) buf (Suc (length name)) = name @ [c]"
    unfolding e mem(1) by (simp add: bytes_def)
  have "in_region buf 33 (buf + of_nat (length name))" using assms by (intro in_region_offset') simp
  then show "agree_outside [(buf, 33)] (ram (ls_named fd buf name c s)) (ram s)"
    using mem(2) unfolding e by (auto simp: agree_outside_def)
qed

lemma ls_turn:
  assumes ok: "ls_ok k fd (pg_buf pg) ns s" and p: "unat (file_pos (cur_file s fd)) = p" "p < length ns"
  shows "\<exists>t. ls_loop e pg (of_int fd) s = ls_loop e pg (of_int fd) t \<and> ls_ok k fd (pg_buf pg) ns t
    \<and> unat (file_pos (cur_file t fd)) = Suc p \<and> screens t = type_on k (ns ! p @ [10]) (screens s)"
proof -
  let ?b = "pg_buf pg" and ?name = "ns ! p"
  have c: "user_ok s" "scheduled_terminal s = k" "2 \<le> fd" "fd < 8" "flag (cur_file s fd) = 1"
    "file_op_ptr (cur_file s fd) = Some dir_table" "?b \<noteq> 0" "apart ?b 33 s"
    and d: "dir_names s ns" "disjoint_regions ?b 33 (boot_block_ptr s) 4096"
      "disjoint_regions (fst (own_screen s)) 4000 (boot_block_ptr s) 4096"
    using ok by (simp_all add: ls_ok_def)
  have name: "length ?name \<le> 32" "?name \<noteq> []" "length ns \<le> 63" using d(1) p(2) by (simp_all add: dir_names_def)
  define u where "u = ls_entry fd ?b ?name s"
  define v where "v = ls_named fd ?b ?name 10 s"
  have u: "user_call e Sys_Read (of_int fd) ?b 32 s = Some (int (length ?name), u)"
    "u\<lparr>ram := (ram u)(?b + of_nat (length ?name) := 10)\<rparr> = v"
    using ls_read [OF ok p] by (simp_all add: u_def v_def ls_named_def)
  note mem = ls_named_memory [OF name(1), where fd = fd and buf = ?b and c = 10 and s = s, folded v_def]
  have v: "screen_x v = screen_x s" "screen_y v = screen_y s" "disp_terminal v = disp_terminal s"
    "scheduled_terminal v = scheduled_terminal s" "same_image s v" "boot_block_ptr v = boot_block_ptr s"
    "cur_file v fd = (cur_file s fd)\<lparr>file_pos := file_pos (cur_file s fd) + 1\<rparr>"
    by (simp_all add: v_def ls_named_def ls_entry_def same_image_def)
  note sk = screens_kept [OF mem(2) _ v(1-3), simplified, OF c(8)]
  have "files_ok (file_array (cur_proc v))"
    using file_pos_ok [of s fd] c(1,3,4) by (simp add: v_def ls_named_def ls_entry_def user_ok_def)
  then have vok: "user_ok v" using c(1) screen_ok_cong [OF v(1-4)] by (simp add: user_ok_def)
  have "apart ?b (Suc (length ?name)) v" using apart_less [OF c(8)] name(1) sk(2) by simp
  from user_call_write [OF vok this c(7), of e] name(1)
  obtain r t where t: "user_call e Sys_Write 1 ?b (of_nat (Suc (length ?name))) v = Some (r, t)" "0 \<le> r" "user_ok t"
    "printed_only v t" "screens t = type_on (scheduled_terminal v) (bytes (ram v) ?b (Suc (length ?name))) (screens v)" by auto
  note pk = printed_only_keeps [OF t(4)]
  have own: "own_screen v = own_screen s" by (simp add: own_screen_def v(4) term_base_eq [OF v(3)])
  have kept: "dir_kept (ram v) s" by (rule agree_outside_dir [OF mem(2)]) (use d(2) in simp)
  have kept': "dir_kept (ram t) v"
    by (rule agree_outside_dir [of "[own_screen v]"]) (use t(4) d(3) in \<open>simp_all add: printed_only_def v(6) own own_screen_region\<close>)
  have "dir_names t ns" by (rule dir_names_kept [OF dir_names_kept [OF d(1) kept v(5)] kept' pk(3)])
  moreover have "boot_block_ptr t = boot_block_ptr s" using pk(3) v(6) by (simp add: same_image_def)
  moreover have "scheduled_terminal t = k" using t(4) v(4) c(2) by (simp add: printed_only_def)
  ultimately have "ls_ok k fd ?b ns t"
    using t(3) c d sk(2) by (simp add: ls_ok_def pk(1,2,4) own v(7))
  moreover have "ls_loop e pg (of_int fd) s = ls_loop e pg (of_int fd) t"
    using u t(1,2) name(2) by (subst ls_loop.simps) (simp add: add.commute)
  moreover have "unat (file_pos (cur_file t fd)) = Suc p"
    using p name(3) by (simp add: pk(4) v(7) unat_word_ariths)
  ultimately show ?thesis using t(5) v(4) c(2) mem(1) sk(1) by auto
qed

lemma ls_end:
  assumes ok: "ls_ok k fd buf ns s" and p: "unat (file_pos (cur_file s fd)) = length ns"
  shows "\<exists>t. user_call e Sys_Read (of_int fd) buf 32 s = Some (0, t) \<and> screens t = screens s"
proof -
  have c: "2 \<le> fd" "fd < 8" "flag (cur_file (sti s) fd) = 1" "file_op_ptr (cur_file (sti s) fd) = Some dir_table" "buf \<noteq> 0"
    "apart buf 32 s" "dir_names s ns"
    using ok by (auto simp: ls_ok_def intro: apart_less)
  have q: "num_dentry s \<le> file_pos (cur_file s fd)" using p c(7) by (simp add: dir_names_def word_le_nat_alt)
  define t where "t = upd_file fd (\<lambda>f. f\<lparr>file_pos := 0\<rparr>) ((upd_file fd (\<lambda>f. f\<lparr>file_pos := file_pos f + 1\<rparr>) (sti s))\<lparr>ram :=
    strncpy (ram s) buf (dir_entry_addr s (file_pos (cur_file s fd))) 32\<rparr>)"
  have "dir_read fd buf 32 (sti s) = Some (0, t)"
    using c(1,2) q by (simp add: dir_read_def Let_def t_def dir_entry_addr_def)
  moreover have "sint (of_int fd :: u32) = fd" using c(1,2) by (subst sint_small) (simp_all add: nat_of_int32)
  ultimately have "user_call e Sys_Read (of_int fd) buf 32 s = Some (0, t)"
    using c by (simp add: user_call_def of_result_def sys_read_def table_read_def)
  moreover have "agree_outside [(buf, 32)] (ram t) (ram s)"
    unfolding agree_outside_def t_def using strncpy_outside [of buf 32] by simp
  then have "screens t = screens s" by (rule screens_kept) (use c(6) in \<open>simp_all add: t_def\<close>)
  ultimately show ?thesis by blast
qed

lemma ls_last:
  assumes ok: "ls_ok k fd (pg_buf pg) ns s" and p: "unat (file_pos (cur_file s fd)) = length ns"
  shows "\<exists>t. ls_loop e pg (of_int fd) s = Some (0, t) \<and> screens t = screens s"
  using ls_end [OF assms, of e] by (subst ls_loop.simps) auto

lemma ls_loop_lists:
  "ls_ok k fd (pg_buf pg) ns s \<Longrightarrow> unat (file_pos (cur_file s fd)) = p \<Longrightarrow> p \<le> length ns \<Longrightarrow>
   \<exists>t. ls_loop e pg (of_int fd) s = Some (0, t) \<and> screens t = type_on k (concat (map (\<lambda>n. n @ [10]) (drop p ns))) (screens s)"
proof (induction "length ns - p" arbitrary: p s)
  case 0
  then show ?case using ls_last [OF 0(2), of e] by simp
next
  case (Suc j)
  then have lt: "p < length ns" by simp
  obtain t where t: "ls_loop e pg (of_int fd) s = ls_loop e pg (of_int fd) t" "ls_ok k fd (pg_buf pg) ns t"
    "unat (file_pos (cur_file t fd)) = Suc p" "screens t = type_on k (ns ! p @ [10]) (screens s)"
    using ls_turn [OF Suc.prems(1,2) lt, of e] by blast
  have "j = length ns - Suc p" "Suc p \<le> length ns" using Suc.hyps(2) lt by simp_all
  from Suc.hyps(1) [OF this(1) t(2,3) this(2)] t(1,4) show ?case
    by (auto simp: Cons_nth_drop_Suc [OF lt, symmetric] type_on_append [symmetric] simp del: type_on_append)
qed

text \<open>
  A process that can list the directory: its names are \<open>ns\<close>, one of them "." of type directory; the
  buffer and the scratch entry do not overlap the directory or the screens.
\<close>

definition ls_ready :: "'a rtc_scheme env \<Rightarrow> program \<Rightarrow> u8 list list \<Rightarrow> nat \<Rightarrow> 'a rtc_scheme \<Rightarrow> bool" where
  "ls_ready e pg ns j s \<longleftrightarrow> user_ok s \<and> dir_names s ns \<and> cstr (ram s) (pg_msg1 pg) [46] \<and> lookup s [46] = Some j
     \<and> entry_type s (of_nat j) = 1 \<and> scratch_dentry (env_dentry e) (pg_msg1 pg) [46] s \<and> apart (env_dentry e) 40 s
     \<and> apart (pg_buf pg) 33 s \<and> pg_buf pg \<noteq> 0 \<and> disjoint_regions (pg_buf pg) 33 (boot_block_ptr s) 4096
     \<and> disjoint_regions (fst (own_screen s)) 4000 (boot_block_ptr s) 4096"

lemma least_free_range:
  assumes "least_free (open_files s) fd" "files_ok (file_array (cur_proc s))"
  shows "2 \<le> fd" "fd < 8"
proof -
  have "fd \<noteq> 0" "fd \<noteq> 1" "0 \<le> fd" "fd \<le> 7"
    using assms by (auto simp: least_free_def open_files_def files_ok_def)
  then show "2 \<le> fd" "fd < 8" by simp_all
qed

lemma sys_open_dir:
  assumes "cstr (ram s) fname str" "length str \<le> 31" "unat (num_dentry s) \<le> 63" "scratch_dentry dentry fname str s"
    and "lookup s str = Some j" "entry_type s (of_nat j) = 1" "least_free (open_files s) fd"
  obtains m where "sys_open dentry temp fname s = Some (fd, set_file fd dir_table 0 (s\<lparr>ram := m\<rparr>))"
    "\<And>x. \<not> in_region dentry 40 x \<Longrightarrow> m x = ram s x"
proof -
  obtain m where m: "read_dentry_by_name fname dentry s = Some (0, s\<lparr>ram := m\<rparr>)"
    "load32 m (file_type_addr dentry) = entry_type s (of_nat j)" "\<And>x. \<not> in_region dentry 40 x \<Longrightarrow> m x = ram s x"
    using read_dentry_scratch [OF assms(1-5)] by blast
  have "sys_open dentry temp fname s = Some (fd, set_file fd dir_table 0 (s\<lparr>ram := m\<rparr>))"
    by (simp add: sys_open_def least_free_find [OF assms(7)] m(1,2) assms(6) dir_open_def)
  then show thesis using that m(3) by blast
qed

lemma ls_opens:
  assumes ready: "ls_ready e pg ns j s" and free: "least_free (open_files s) fd"
  obtains t where "user_call e Sys_Open (pg_msg1 pg) 0 0 s = Some (fd, t)"
    "ls_ok (scheduled_terminal s) fd (pg_buf pg) ns t" "screens t = screens s" "file_pos (cur_file t fd) = 0"
    "agree_outside [(env_dentry e, 40)] (ram t) (ram s)" "same_image s t" "disp_terminal t = disp_terminal s"
    "\<forall>f. f \<noteq> fd \<longrightarrow> cur_file t f = cur_file s f"
proof -
  let ?d = "env_dentry e"
  have r: "user_ok s" "dir_names s ns" "cstr (ram (sti s)) (pg_msg1 pg) [46]" "lookup s [46] = Some j"
    "entry_type s (of_nat j) = 1" "scratch_dentry ?d (pg_msg1 pg) [46] (sti s)" "apart ?d 40 s" "apart (pg_buf pg) 33 s"
    "disjoint_regions ?d 40 (boot_block_ptr s) 4096"
    using ready by (simp_all add: ls_ready_def scratch_dentry_def)
  have v: "lookup (sti s) [46] = Some j" "entry_type (sti s) (of_nat j) = 1" "unat (num_dentry (sti s)) \<le> 63" "same_image s (sti s)"
    using r(2,4,5) by (simp_all add: lookup_def entry_name_def dir_entry_addr_def entry_type_def dir_names_def same_image_def)
  have "open_files (sti s) = open_files s" by (simp add: open_files_def fun_eq_iff)
  then have "least_free (open_files (sti s)) fd" using free by simp
  then obtain m where op: "sys_open ?d (env_temp e) (pg_msg1 pg) (sti s) = Some (fd, set_file fd dir_table 0 ((sti s)\<lparr>ram := m\<rparr>))"
    and m: "\<And>x. \<not> in_region ?d 40 x \<Longrightarrow> m x = ram (sti s) x"
    using sys_open_dir [OF r(3) _ v(3) r(6) v(1,2), of fd "env_temp e"] by auto
  have fd: "2 \<le> fd" "fd < 8"
    using least_free_range [OF free] r(1) by (simp_all add: user_ok_def)
  define t where "t = set_file fd dir_table 0 ((sti s)\<lparr>ram := m\<rparr>)"
  have f: "screen_x t = screen_x s" "screen_y t = screen_y s" "disp_terminal t = disp_terminal s" "scheduled_terminal t = scheduled_terminal s"
    "same_image s t" "boot_block_ptr t = boot_block_ptr s" "\<forall>f. f \<noteq> fd \<longrightarrow> cur_file t f = cur_file s f"
    by (simp_all add: t_def set_file_def same_image_def)
  have ag: "agree_outside [(?d, 40)] (ram t) (ram s)" using m by (simp add: t_def agree_outside_def)
  note k = screens_kept [OF ag _ f(1-3), simplified, OF r(7)]
  have "dir_kept (ram t) s" by (rule agree_outside_dir [OF ag]) (use r(9) in simp)
  then have "dir_names t ns" by (rule dir_names_kept [OF r(2) _ f(5)])
  moreover have "user_ok t"
    using r(1) screen_ok_cong [OF f(1-4)] files_ok_upd [of "file_array (cur_proc s)" fd] fd by (simp add: user_ok_def t_def)
  moreover have "own_screen t = own_screen s" by (simp add: own_screen_def f(4) term_base_eq [OF f(3)])
  ultimately have "ls_ok (scheduled_terminal s) fd (pg_buf pg) ns t"
    using ready r(8) fd k(2) by (simp add: ls_ok_def ls_ready_def f(4,6)) (simp add: t_def)
  moreover have "user_call e Sys_Open (pg_msg1 pg) 0 0 s = Some (fd, t)"
    using fd by (simp add: user_call_def of_result_def op t_def) (subst sint_small, simp_all add: nat_of_int32)
  moreover have "file_pos (cur_file t fd) = 0" by (simp add: t_def)
  ultimately show thesis using that [of t] k(1) ag f(3,5,7) by blast
qed

lemma ls_main_lists:
  assumes ready: "ls_ready e pg ns j s" and free: "least_free (open_files s) fd"
  shows "\<exists>t. ls_main e pg s = Some (0, t)
    \<and> screens t = type_on (scheduled_terminal s) (concat (map (\<lambda>n. n @ [10]) ns)) (screens s)"
proof -
  obtain t where t: "user_call e Sys_Open (pg_msg1 pg) 0 0 s = Some (fd, t)"
    "ls_ok (scheduled_terminal s) fd (pg_buf pg) ns t" "screens t = screens s" "file_pos (cur_file t fd) = 0"
    using ls_opens [OF assms] by blast
  have "fd \<noteq> -1" using free by (simp add: least_free_def)
  then show ?thesis using ls_loop_lists [OF t(2), of 0 e] t(1,3,4) by (simp add: ls_main_def)
qed

section \<open>Properties\<close>

text \<open>
  A process for the witnesses: the directory holds "." and the file "a" with the contents "hi" and
  a newline; the process has the argument "a" and its literals at 0x600100; the line "x" has been
  entered on its terminal.
\<close>

lemma regions_sep:
  "unat a + n \<le> unat b \<and> unat b + k \<le> 4294967296 \<or> unat b + k \<le> unat a \<and> unat a + n \<le> 4294967296
    \<Longrightarrow> disjoint_regions a n b k"
  using disjoint_regions_sep disjoint_regions_sym by blast

definition user_mem :: mem where
  "user_mem = image_mem(0x500000 := 2, 0x500040 := 46, 0x500060 := 1, 0x500080 := 97, 0x5000a0 := 2,
     0x600100 := 46, 0x600200 := 62, 0x600300 := 101, 0x600301 := 120, 0x600302 := 105, 0x600303 := 116, 0x600400 := 63)"

definition user_start :: rtc where
  "user_start = fresh_process\<lparr>ram := user_mem, num_dentry := 2, terminal_read_flag := (\<lambda>_. 1),
     terminal_buffer := (\<lambda>i. if i = 0 then 120 else 0),
     pcbs := (pcbs fresh_process)(pcb_addr 0 := (cur_proc fresh_process)\<lparr>arg := 0x600000\<rparr>)\<rparr>"

definition user_env :: "rtc env" where
  "user_env = sample_env\<lparr>env_dentry := 0x710000, env_temp := 0x710100\<rparr>"

definition user_program :: program where
  "user_program = \<lparr>pg_buf = 0x720000, pg_msg1 = 0x600100, pg_msg2 = 0x600400, pg_msg3 = 0x600400\<rparr>"

lemma user_start_fields [simp]:
  "ram user_start = user_mem" "num_dentry user_start = 2" "num_inode user_start = 1" "num_dblock user_start = 1"
  "inode_base user_start = 0x501000" "data_base user_start = 0x502000" "boot_block_ptr user_start = 0x500000"
  "current_pid user_start = 0" "pcbs user_start (pcb_addr 0) = (cur_proc fresh_process)\<lparr>arg := 0x600000\<rparr>"
  "disp_terminal user_start = 0" "scheduled_terminal user_start = 0" "terminal_read_flag user_start = (\<lambda>_. 1)"
  "terminal_buffer user_start = (\<lambda>i. if i = 0 then 120 else 0)"
  by (simp_all add: user_start_def fresh_process_def upd_pcb_def rtc_start_def terminals.defs)

lemma user_start_ok: "user_ok user_start"
proof -
  have "screen_ok user_start = screen_ok fresh_process" by (rule screen_ok_cong) (simp_all add: user_start_def)
  moreover have "screen_ok fresh_process = screen_ok rtc_start" by (rule screen_ok_cong) (simp_all add: fresh_process_def upd_pcb_def)
  ultimately show ?thesis using fresh_files_ok by (simp add: user_ok_def)
qed

lemma user_start_free: "least_free (open_files user_start) 2"
proof -
  have "open_files user_start = open_files fresh_process" by (simp add: open_files_def fun_eq_iff)
  then show ?thesis using fresh_least_free by simp
qed

lemma user_start_fresh: "fd \<in> {0..7} \<Longrightarrow> open_files user_start fd \<noteq> None \<longleftrightarrow> fd < 2"
proof -
  have "open_files user_start = open_files fresh_process" by (simp add: open_files_def fun_eq_iff)
  then show "fd \<in> {0..7} \<Longrightarrow> open_files user_start fd \<noteq> None \<longleftrightarrow> fd < 2" using fresh_open_files by simp
qed

lemma user_start_apart:
  assumes "0xC0000 \<le> unat a" "unat a + n \<le> 4294967296"
  shows "apart a n user_start"
proof -
  have "disjoint_regions a n (term_base u user_start) 4000" if "u < 3" for u
    by (rule disjoint_regions_sym, rule disjoint_regions_sep)
      (use that assms in \<open>auto simp: u8_less_3 term_base_def video_mem_phys_addr_def\<close>)
  then show ?thesis by (simp add: apart_def)
qed

lemma user_start_screen: "own_screen user_start = (0xB8000, 4000)"
  by (simp add: own_screen_def term_base_def)

lemma user_start_file:
  "file_length user_start 0 = 3" "content user_start 0 = [104, 105, 10]" "good_inode user_start 0"
  "unat a + n \<le> 0x501000 \<or> 0x503000 \<le> unat a \<and> unat a + n \<le> 4294967296 \<Longrightarrow> outside_file user_start 0 a n"
proof -
  show len: "file_length user_start 0 = 3"
    by (simp add: file_length_def inode_addr_def load32_def user_mem_def image_mem_def)
  have b: "block_index user_start 0 0 = 0"
    by (simp add: block_index_def inode_addr_def dblock_idx_addr_def load32_def user_mem_def image_mem_def)
  have k: "4096 * k < (3 :: nat) \<longleftrightarrow> k = 0" for k by (cases k) simp_all
  show "content user_start 0 = [104, 105, 10]"
    by (simp add: content_def len upt_rec block_addr_def b user_mem_def image_mem_def)
  show "good_inode user_start 0" by (auto simp: good_inode_def len k b)
  assume a: "unat a + n \<le> 0x501000 \<or> 0x503000 \<le> unat a \<and> unat a + n \<le> 4294967296"
  have "disjoint_regions a n c 4096" if "c = 0x501000 \<or> c = 0x502000" for c
  proof (cases "unat a + n \<le> 0x501000")
    case True
    then show ?thesis using that by (intro disjoint_regions_sep) auto
  next
    case False
    then show ?thesis using a that by (intro disjoint_regions_sym [OF disjoint_regions_sep]) auto
  qed
  then show "outside_file user_start 0 a n" by (auto simp: outside_file_def len k block_addr_def b inode_addr_def)
qed

lemma user_start_names:
  "lookup user_start [46] = Some 0" "lookup user_start [97] = Some 1" "take 31 n \<notin> {[46], [97]} \<Longrightarrow> lookup user_start n = None"
  "entry_type user_start 0 = 1" "entry_type user_start 1 = 2" "entry_inode user_start 1 = 0"
  "dir_names user_start [[46], [97]]"
proof -
  have n: "strn user_mem 0x500040 (Suc (Suc 29)) = [46]" "strn user_mem 0x500080 (Suc (Suc 29)) = [97]"
    by (simp only: strn_Suc, simp add: user_mem_def image_mem_def)+
  have "entry_name user_start 0 = [46]" "entry_name user_start 1 = [97]"
    using n by (simp_all add: entry_name_def dir_entry_addr_def)
  then show "lookup user_start [46] = Some 0" "lookup user_start [97] = Some 1" "take 31 n \<notin> {[46], [97]} \<Longrightarrow> lookup user_start n = None"
    by (auto simp: lookup_def upt_rec)
  show "entry_type user_start 0 = 1" "entry_type user_start 1 = 2" "entry_inode user_start 1 = 0"
    by (simp_all add: entry_type_def entry_inode_def file_type_addr_def inode_idx_addr_def dir_entry_addr_def
        load32_def user_mem_def image_mem_def)
  show "dir_names user_start [[46], [97]]"
    by (auto simp: dir_names_def less_Suc_eq dir_entry_addr_def cstr_def bytes_Suc user_mem_def image_mem_def)
qed

text \<open>The string literals of a program for the witnesses: each has a slot of 64 bytes from 0x730000 on.\<close>

definition short_literals :: "u8 list list \<Rightarrow> bool" where
  "short_literals lits \<longleftrightarrow> length lits \<le> 16 \<and> (\<forall>l \<in> set lits. length l < 64 \<and> 0 \<notin> set l)"

definition literal_slot :: "u8 list list \<Rightarrow> u8 list \<Rightarrow> u32" where
  "literal_slot lits l = 0x730000 + of_nat (64 * length (takeWhile (\<lambda>x. x \<noteq> l) lits))"

definition literal_pool :: "u8 list list \<Rightarrow> mem \<Rightarrow> mem" where
  "literal_pool lits m x = (if in_region 0x730000 (64 * length lits) x
     then let l = lits ! (unat (x - 0x730000) div 64); j = unat (x - 0x730000) mod 64 in if j < length l then l ! j else 0
     else m x)"

lemma literal_slot_at:
  assumes "l \<in> set lits" "length lits \<le> 16"
  obtains i where "i < length lits" "lits ! i = l" "literal_slot lits l = 0x730000 + of_nat (64 * i)"
    "unat (literal_slot lits l) = 0x730000 + 64 * i"
proof -
  let ?i = "length (takeWhile (\<lambda>x. x \<noteq> l) lits)"
  have "dropWhile (\<lambda>x. x \<noteq> l) lits \<noteq> []" using assms(1) by (simp add: dropWhile_eq_Nil_conv)
  then have i: "?i < length lits"
    using arg_cong [OF takeWhile_dropWhile_id [of "\<lambda>x. x \<noteq> l" lits], of length] by (cases "dropWhile (\<lambda>x. x \<noteq> l) lits") simp_all
  have "lits ! ?i = l" using nth_length_takeWhile [OF i] by simp
  moreover have "unat (literal_slot lits l) = 0x730000 + 64 * ?i"
    using i assms(2) by (simp add: literal_slot_def unat_word_ariths unat_of_nat32)
  ultimately show thesis using that [of ?i] i by (simp add: literal_slot_def)
qed

lemma pool_literal:
  assumes short: "short_literals lits" and l: "l \<in> set lits"
  shows "cstr (literal_pool lits m) (literal_slot lits l) l" "literal_slot lits l \<noteq> 0"
    "apart (literal_slot lits l) (Suc (length l)) user_start"
    "unat a + n \<le> 0x730000 \<Longrightarrow> disjoint_regions a n (literal_slot lits l) (Suc (length l))"
proof -
  have s: "length lits \<le> 16" "length l < 64" "0 \<notin> set l" using short l by (auto simp: short_literals_def)
  obtain i where i: "i < length lits" "lits ! i = l" "literal_slot lits l = 0x730000 + of_nat (64 * i)"
    "unat (literal_slot lits l) = 0x730000 + 64 * i" by (rule literal_slot_at [OF l s(1)])
  have "literal_pool lits m (literal_slot lits l + of_nat j) = (if j < length l then l ! j else 0)" if j: "j < 64" for j
  proof -
    have "64 * i + j < 64 * length lits" "64 * i + j < 4294967296" using i(1) j s(1) by linarith+
    moreover have "literal_slot lits l + of_nat j - 0x730000 = of_nat (64 * i + j)" using i(3) by simp
    ultimately have "unat (literal_slot lits l + of_nat j - 0x730000) = 64 * i + j"
      "in_region 0x730000 (64 * length lits) (literal_slot lits l + of_nat j)"
      by (simp_all only: in_region_def unat_of_nat32)
    moreover have "(64 * i + j) div 64 = i" "(64 * i + j) mod 64 = j" using j by simp_all
    ultimately show ?thesis using i(2) by (simp only: literal_pool_def Let_def if_True)
  qed
  then have "bytes (literal_pool lits m) (literal_slot lits l) (Suc (length l)) = l @ [0]"
    using s by (intro nth_equalityI) (auto simp: nth_append)
  then show "cstr (literal_pool lits m) (literal_slot lits l) l" using s by (simp add: cstr_def)
  show "literal_slot lits l \<noteq> 0" using i(4) by (metis add_is_0 unat_0 zero_neq_numeral)
  show "apart (literal_slot lits l) (Suc (length l)) user_start" by (rule user_start_apart) (use i s in simp_all)
  show "unat a + n \<le> 0x730000 \<Longrightarrow> disjoint_regions a n (literal_slot lits l) (Suc (length l))"
    by (rule regions_sep) (use i s in simp)
qed

text \<open>
  C9: \<open>cat\<close> shows a file: run with the name of a file as argument, it types exactly the bytes of
  the file on the terminal its process runs on (a NUL as a blank), leaves the other screens alone
  and returns 0, however many reads of 1024 bytes the file takes.
\<close>

theorem cat_shows_file:
  assumes "cat_ready e pg str j ino s" "least_free (open_files s) fd"
  shows "\<exists>t. cat_main e pg s = Some (0, t) \<and> screens t = type_on (scheduled_terminal s) (content s ino) (screens s)"
  by (rule cat_main_copies [OF assms])

theorem cat_shows_file_witness:
  "\<exists>t. cat_main user_env user_program user_start = Some (0, t) \<and> screens t = type_on 0 [104, 105, 10] (screens user_start)"
proof -
  have a: "arg (cur_proc user_start) = 0x600000" by simp
  have "cstr user_mem 0x600000 [97]" by (simp add: cstr_def bytes_Suc user_mem_def image_mem_def)
  moreover have "image_safe (own_screen user_start # cat_regions user_env user_program) 0 user_start"
    by (auto simp: image_safe_def cat_regions_def user_env_def user_program_def user_start_screen intro!: user_start_file(4)
        regions_sep)
  moreover have "\<forall>r \<in> set (cat_regions user_env user_program). apart (fst r) (snd r) user_start"
    by (auto simp: cat_regions_def user_env_def user_program_def intro!: user_start_apart)
  moreover have "disjoint_regions 0x720000 1024 0x600000 1024" "disjoint_regions 0x710000 40 0x720000 1024"
    "disjoint_regions 0x710100 40 0x720000 1024" "disjoint_regions 0x710000 40 0x710100 40"
    by (rule regions_sep; simp)+
  ultimately have "cat_ready user_env user_program [97] 1 0 user_start"
    by (simp add: cat_ready_def user_start_ok user_start_names user_start_file user_env_def user_program_def)
  from cat_shows_file [OF this user_start_free] show ?thesis by (simp add: user_start_file)
qed

text \<open>
  C13: \<open>ls\<close> lists the directory: it types the name of every entry, in order, each on a line of its
  own, and returns 0; 33 bytes of buffer are enough for the longest name and its newline.
\<close>

theorem ls_lists_directory:
  assumes "ls_ready e pg ns j s" "least_free (open_files s) fd"
  shows "\<exists>t. ls_main e pg s = Some (0, t)
    \<and> screens t = type_on (scheduled_terminal s) (concat (map (\<lambda>n. n @ [10]) ns)) (screens s)"
  by (rule ls_main_lists [OF assms])

theorem ls_lists_directory_witness:
  "\<exists>t. ls_main user_env user_program user_start = Some (0, t) \<and> screens t = type_on 0 [46, 10, 97, 10] (screens user_start)"
proof -
  have "cstr user_mem 0x600100 [46]" by (simp add: cstr_def bytes_Suc user_mem_def image_mem_def)
  moreover have "scratch_dentry 0x710000 0x600100 [46] user_start"
    by (auto simp: scratch_dentry_def intro!: regions_sep)
  moreover have "apart 0x710000 40 user_start" "apart 0x720000 33 user_start" by (rule user_start_apart; simp)+
  moreover have "disjoint_regions 0x720000 33 0x500000 4096" "disjoint_regions 0xB8000 4000 0x500000 4096"
    by (rule regions_sep; simp)+
  ultimately have "ls_ready user_env user_program [[46], [97]] 0 user_start"
    by (simp add: ls_ready_def user_start_ok user_start_names user_start_screen user_env_def user_program_def)
  from ls_lists_directory [OF this user_start_free] show ?thesis by simp
qed

end
