(* ===== verification/Shell.thy ===== *)
theory Shell
  imports Programs
begin

text \<open>
  The shell (syscalls/ece391shell.c): one turn of its loop from the prompt to the command, and the
  loop. The environment of a turn holds the interrupts that arrive while it waits for a line.
\<close>

section \<open>Operations\<close>

record shell_text =
  sh_buf :: u32
  sh_start :: u32
  sh_prompt :: u32
  sh_read_failed :: u32
  sh_exit :: u32
  sh_no_command :: u32
  sh_exception :: u32
  sh_abnormal :: u32

text \<open>
  A turn of the shell's loop returns from \<open>main\<close>, comes back to the prompt, or enters the program
  that \<open>execute\<close> starts; when that program halts, \<open>execute\<close> returns to the shell
  (\<open>Lifecycle.halt_undoes_execute\<close>) and the turn goes on with \<open>shell_report\<close>.
\<close>

datatype 's shell = Shell_Returns i32 's | Shell_Prompts 's | Shell_Enters "'s outcome"

definition shell_report :: "'a rtc_scheme env \<Rightarrow> shell_text \<Rightarrow> i32 \<Rightarrow> 'a rtc_scheme \<Rightarrow> 'a rtc_scheme option" where
  "shell_report e sh rval s =
     (if -1 = rval then ece391_fdputs e 1 (sh_no_command sh) s
      else if 256 = rval then ece391_fdputs e 1 (sh_exception sh) s
      else if 0 \<noteq> rval then ece391_fdputs e 1 (sh_abnormal sh) s
      else Some s)"

definition shell_execute :: "'a rtc_scheme env \<Rightarrow> shell_text \<Rightarrow> 'a rtc_scheme \<Rightarrow> 'a rtc_scheme shell option" where
  "shell_execute e sh s =
     (case run_service e Sys_Execute (sh_buf sh) 0 0 (sti s) of
        Returned v s \<Rightarrow> map_option Shell_Prompts (shell_report e sh (sint v) s)
      | Transfer out \<Rightarrow> Some (Shell_Enters out)
      | _ \<Rightarrow> None)"

definition shell_turn :: "'a rtc_scheme env \<Rightarrow> shell_text \<Rightarrow> 'a rtc_scheme \<Rightarrow> 'a rtc_scheme shell option" where
  "shell_turn e sh s =
     (case ece391_fdputs e 1 (sh_prompt sh) s of None \<Rightarrow> None
      | Some s \<Rightarrow>
        (case user_call e Sys_Read 0 (sh_buf sh) 1023 s of None \<Rightarrow> None
         | Some (cnt, s) \<Rightarrow>
           if -1 = cnt then map_option (Shell_Returns 3) (ece391_fdputs e 1 (sh_read_failed sh) s)
           else
             let cnt = (if cnt > 0 \<and> ram s (sh_buf sh + of_int (cnt - 1)) = 10 then cnt - 1 else cnt);
                 s = s\<lparr>ram := (ram s)(sh_buf sh + of_int cnt := 0)\<rparr>
             in (case ece391_strcmp (ram s) (sh_buf sh) (sh_exit sh) of None \<Rightarrow> None
                 | Some c \<Rightarrow>
                   if 0 = c then Some (Shell_Returns 0 s)
                   else if ram s (sh_buf sh) = 0 then Some (Shell_Prompts s)
                   else shell_execute e sh s)))"

text \<open>The loop, with the environment of each turn.\<close>

primrec shell_loop :: "shell_text \<Rightarrow> 'a rtc_scheme env list \<Rightarrow> 'a rtc_scheme \<Rightarrow> 'a rtc_scheme shell option" where
  "shell_loop sh [] s = None"
| "shell_loop sh (e # es) s =
     (case shell_turn e sh s of Some (Shell_Prompts s) \<Rightarrow> shell_loop sh es s | r \<Rightarrow> r)"

definition shell_main :: "shell_text \<Rightarrow> 'a rtc_scheme env \<Rightarrow> 'a rtc_scheme env list \<Rightarrow> 'a rtc_scheme \<Rightarrow> 'a rtc_scheme shell option" where
  "shell_main sh e es s =
     (case ece391_fdputs e 1 (sh_start sh) s of None \<Rightarrow> None | Some s \<Rightarrow> shell_loop sh es s)"

text \<open>A shell at its prompt, on a terminal where the line \<open>str\<close> has been entered.\<close>

definition exit_word :: "u8 list" where
  "exit_word = [101, 120, 105, 116]"

definition shell_ready :: "shell_text \<Rightarrow> u8 list \<Rightarrow> u8 list \<Rightarrow> 'a rtc_scheme \<Rightarrow> bool" where
  "shell_ready sh prompt str s \<longleftrightarrow> user_ok s \<and> cstr (ram s) (sh_prompt sh) prompt \<and> length prompt < 2147483648
     \<and> apart (sh_prompt sh) (length prompt) s \<and> sh_prompt sh \<noteq> 0 \<and> cstr (ram s) (sh_exit sh) exit_word
     \<and> apart (sh_exit sh) 5 s \<and> disjoint_regions (sh_buf sh) 129 (sh_exit sh) 5 \<and> apart (sh_buf sh) 129 s \<and> sh_buf sh \<noteq> 0
     \<and> terminal_read_flag s (scheduled_terminal s) \<noteq> 0 \<and> pending_line 1023 s = str"

lemma shell_turn_runs:
  assumes ready: "shell_ready sh prompt str s"
  obtains u where "shell_turn e sh s = (if str = exit_word then Some (Shell_Returns 0 u)
      else if str = [] then Some (Shell_Prompts u) else shell_execute e sh u)"
    "cstr (ram u) (sh_buf sh) str" "screens u = type_on (scheduled_terminal s) prompt (screens s)"
    "agree_outside [own_screen s, (sh_buf sh, 129)] (ram u) (ram s)" "pcbs u = pcbs s" "current_pid u = current_pid s"
    "user_ok u" "same_image s u" "disp_terminal u = disp_terminal s" "scheduled_terminal u = scheduled_terminal s"
proof -
  let ?b = "sh_buf sh"
  have r: "user_ok s" "cstr (ram s) (sh_prompt sh) prompt" "apart (sh_prompt sh) (length prompt) s" "sh_prompt sh \<noteq> 0"
    "length prompt < 2147483648" "cstr (ram s) (sh_exit sh) exit_word" "apart (sh_exit sh) 5 s"
    "disjoint_regions ?b 129 (sh_exit sh) 5" "apart ?b 129 s" "?b \<noteq> 0"
    "terminal_read_flag s (scheduled_terminal s) \<noteq> 0" "pending_line 1023 s = str"
    using ready by (simp_all add: shell_ready_def)
  obtain t where t: "ece391_fdputs e 1 (sh_prompt sh) s = Some t" "user_ok t" "printed_only s t"
    "screens t = type_on (scheduled_terminal s) prompt (screens s)"
    using fdputs_types [OF r(1-5), of e] by blast
  have m: "console.more t = console.more s" and dt: "disp_terminal t = disp_terminal s" "scheduled_terminal t = scheduled_terminal s"
    and ag: "agree_outside [own_screen s] (ram t) (ram s)" using t(3) by (simp_all add: printed_only_def)
  have pl: "pending_line 1023 t = str" using r(12) by (simp add: pending_line_def above_console [OF m])
  have fl: "terminal_read_flag t (scheduled_terminal t) \<noteq> 0" using r(11) by (simp add: above_console [OF m] dt)
  define u where "u = (sti t)\<lparr>ram := write_bytes (ram t) ?b (str @ [0]),
       terminal_read_flag := (terminal_read_flag t)(scheduled_terminal t := 0),
       terminal_buffer := \<lambda>i. if 0 \<le> i \<and> i \<le> 127 then 0 else terminal_buffer t i\<rparr>"
  have rd: "user_call e Sys_Read 0 ?b 1023 t = Some (int (length str) + 1, u\<lparr>ram := write_bytes (ram t) ?b (str @ [10])\<rparr>)"
    using user_call_readline [OF t(2) r(10) fl, of 1023 e] by (simp add: pl u_def)
  have last: "write_bytes (ram t) ?b (str @ [10]) (?b + of_nat (length str)) = 10" by (simp add: write_bytes_snoc)
  have cut: "(write_bytes (ram t) ?b (str @ [10]))(?b + of_nat (length str) := 0) = write_bytes (ram t) ?b (str @ [0])"
    by (simp add: write_bytes_snoc del: fun_upd_apply)
  have len: "length str \<le> 128" using length_pending_line [of 1023 t] pl by simp
  have "0 \<notin> set str" using set_takeWhileD r(12) unfolding pending_line_def by metis
  then have c: "cstr (ram u) ?b str" using cstr_write [of str "ram t" ?b] len by (simp add: u_def)
  have "agree_outside [own_screen s, (?b, 129)] (ram u) (ram t)"
    unfolding u_def by (simp, rule agree_outside_write [of ?b 129]) (use len in simp_all)
  moreover have "agree_outside [own_screen s, (?b, 129)] (ram t) (ram s)" using ag by (rule agree_outside_mono) simp
  ultimately have agu: "agree_outside [own_screen s, (?b, 129)] (ram u) (ram s)" by (rule agree_outside_trans)
  have "bytes (ram u) (sh_exit sh) 5 = bytes (ram s) (sh_exit sh) 5"
  proof (rule agree_outside_bytes [OF agu])
    have "scheduled_terminal s < 3" using r(1) by (simp add: user_ok_def screen_ok_def term_ok_def)
    then have "disjoint_regions (term_base (scheduled_terminal s) s) 4000 (sh_exit sh) 5"
      using r(7) by (simp add: apart_def disjoint_regions_sym)
    then show "\<forall>x \<in> set [own_screen s, (?b, 129)]. disjoint_regions (fst x) (snd x) (sh_exit sh) 5"
      using r(8) by (simp add: own_screen_region)
  qed
  moreover have "Suc (length exit_word) = 5" by (simp add: exit_word_def)
  ultimately have ex: "cstr (ram u) (sh_exit sh) exit_word" using r(6) by (simp add: cstr_def)
  obtain v where v: "ece391_strcmp (ram u) ?b (sh_exit sh) = Some v" "v = 0 \<longleftrightarrow> str = exit_word"
    using ece391_strcmp_cstr [OF c ex] by blast
  have nul: "ram u ?b = 0 \<longleftrightarrow> str = []" using c by (cases str) (auto simp: cstr_def bytes_Suc)
  have w: "(write_bytes (ram t) ?b (str @ [10]))(?b + of_nat (length str) := 0) = ram u" unfolding cut by (simp add: u_def)
  have turn: "shell_turn e sh s = (case ece391_strcmp (ram u) ?b (sh_exit sh) of None \<Rightarrow> None
      | Some c \<Rightarrow> if 0 = c then Some (Shell_Returns 0 u) else if ram u ?b = 0 then Some (Shell_Prompts u) else shell_execute e sh u)"
    by (simp add: shell_turn_def t(1) rd last w del: fun_upd_apply)
  have "shell_turn e sh s = (if str = exit_word then Some (Shell_Returns 0 u)
      else if str = [] then Some (Shell_Prompts u) else shell_execute e sh u)"
    unfolding turn v(1) option.case nul eq_commute [of 0 v] v(2) by (rule refl)
  moreover have "screens u = screens t"
  proof (rule screens_kept)
    show "agree_outside [(?b, 129)] (ram u) (ram t)"
      unfolding u_def by (simp, rule agree_outside_write [of ?b 129]) (use len in simp_all)
    show "\<forall>x \<in> set [(?b, 129)]. apart (fst x) (snd x) t" using r(9) printed_only_keeps(2) [OF t(3)] by simp
  qed (simp_all add: u_def)
  moreover have "pcbs u = pcbs s" "current_pid u = current_pid s" using printed_only_keeps(5,6) [OF t(3)] by (simp_all add: u_def)
  moreover have "user_ok u" using t(2) screen_ok_cong [of u t] by (simp add: user_ok_def u_def)
  moreover have "same_image s u" using printed_only_keeps(3) [OF t(3)] by (simp add: same_image_def u_def)
  moreover have "disp_terminal u = disp_terminal s" "scheduled_terminal u = scheduled_terminal s" using dt by (simp_all add: u_def)
  ultimately show thesis using that c t(4) agu by simp
qed

lemma agree_outside_cstr:
  assumes "agree_outside rs m m'" "cstr m' a str" "\<forall>r \<in> set rs. disjoint_regions (fst r) (snd r) a (Suc (length str))"
  shows "cstr m a str"
  using agree_outside_bytes [OF assms(1,3)] assms(2) by (simp add: cstr_def)

text \<open>
  A shell whose line names no file: the directory and the message are apart from what the shell and
  \<open>execute\<close> write.
\<close>

definition shell_regions :: "'a rtc_scheme env \<Rightarrow> shell_text \<Rightarrow> (u32 \<times> nat) list" where
  "shell_regions e sh = [(sh_buf sh, 129), (fr_program (env_frame e), 128), (fr_arg (env_frame e), 128)]"

definition no_such_ready :: "'a rtc_scheme env \<Rightarrow> shell_text \<Rightarrow> u8 list \<Rightarrow> u8 list \<Rightarrow> 'a rtc_scheme \<Rightarrow> bool" where
  "no_such_ready e sh msg str s \<longleftrightarrow> str \<noteq> [] \<and> str \<noteq> exit_word \<and> hd str \<noteq> 32 \<and> length str < 128
     \<and> length (command_program str) \<le> 31 \<and> unat (num_dentry s) \<le> 63 \<and> lookup s (command_program str) = None
     \<and> cstr (ram s) (sh_no_command sh) msg \<and> length msg < 2147483648 \<and> sh_no_command sh \<noteq> 0
     \<and> apart (sh_no_command sh) (Suc (length msg)) s
     \<and> (\<forall>r \<in> set (shell_regions e sh). apart (fst r) (snd r) s \<and> disjoint_regions (fst r) (snd r) (boot_block_ptr s) 4096
          \<and> disjoint_regions (fst r) (snd r) (sh_no_command sh) (Suc (length msg)))
     \<and> disjoint_regions (fst (own_screen s)) 4000 (boot_block_ptr s) 4096
     \<and> disjoint_regions (sh_buf sh) 129 (fr_program (env_frame e)) 128 \<and> disjoint_regions (sh_buf sh) 129 (fr_arg (env_frame e)) 128
     \<and> disjoint_regions (fr_program (env_frame e)) 128 (fr_arg (env_frame e)) 128
     \<and> disjoint_regions (fr_program (env_frame e)) 128 (fr_temp (env_frame e)) 40"

lemma shell_turn_unknown:
  assumes ready: "shell_ready sh prompt str s" and no: "no_such_ready e sh msg str s"
  shows "\<exists>t. shell_turn e sh s = Some (Shell_Prompts t) \<and> screens t = type_on (scheduled_terminal s) (prompt @ msg) (screens s)
    \<and> pcbs t = pcbs s \<and> current_pid t = current_pid s"
proof -
  let ?f = "env_frame e" and ?b = "sh_buf sh"
  have n: "str \<noteq> []" "str \<noteq> exit_word" "hd str \<noteq> 32" "length str < 128" "length (command_program str) \<le> 31"
    "unat (num_dentry s) \<le> 63" "lookup s (command_program str) = None"
    and msg: "cstr (ram s) (sh_no_command sh) msg" "length msg < 2147483648" "sh_no_command sh \<noteq> 0"
      "apart (sh_no_command sh) (Suc (length msg)) s"
    and reg: "\<forall>r \<in> set (shell_regions e sh). apart (fst r) (snd r) s" "\<forall>r \<in> set (shell_regions e sh). disjoint_regions (fst r) (snd r) (boot_block_ptr s) 4096"
      "\<forall>r \<in> set (shell_regions e sh). disjoint_regions (fst r) (snd r) (sh_no_command sh) (Suc (length msg))"
      "disjoint_regions (fst (own_screen s)) 4000 (boot_block_ptr s) 4096"
    and d: "disjoint_regions ?b 129 (fr_program ?f) 128" "disjoint_regions ?b 129 (fr_arg ?f) 128"
      "disjoint_regions (fr_program ?f) 128 (fr_arg ?f) 128" "disjoint_regions (fr_program ?f) 128 (fr_temp ?f) 40"
    using no by (simp_all add: no_such_ready_def)
  obtain u where u: "shell_turn e sh s = (if str = exit_word then Some (Shell_Returns 0 u)
      else if str = [] then Some (Shell_Prompts u) else shell_execute e sh u)" "cstr (ram u) ?b str"
    "screens u = type_on (scheduled_terminal s) prompt (screens s)" "agree_outside [own_screen s, (?b, 129)] (ram u) (ram s)"
    "pcbs u = pcbs s" "current_pid u = current_pid s" "user_ok u" "same_image s u"
    "disp_terminal u = disp_terminal s" "scheduled_terminal u = scheduled_terminal s"
    using shell_turn_runs [OF ready, of e] by blast
  have b: "boot_block_ptr u = boot_block_ptr s" "unat (num_dentry (sti u)) \<le> 63" using u(8) n(6) by (simp_all add: same_image_def)
  have "dir_kept (ram u) s"
    by (rule agree_outside_dir [OF u(4)]) (use reg(2,4) in \<open>simp add: shell_regions_def own_screen_region\<close>)
  moreover have "same_image s (sti u)" using u(8) by (simp add: same_image_def)
  ultimately have lk: "lookup (sti u) (command_program str) = None"
    using same_image_views(1) [of s "sti u"] dir_kept_lookup [of "ram u" s] n(6,7) by simp
  have cmd: "command_ok ?f ?b str (ram (sti u))"
    using u(2) n(1,3,4) d(1,2) by (auto simp: command_ok_def intro: disjoint_regions_mono)
  have bd: "disjoint_regions (fr_program ?f) 128 (boot_block_ptr (sti u)) 4096" "disjoint_regions (fr_arg ?f) 128 (boot_block_ptr (sti u)) 4096"
    using reg(2) by (simp_all add: b(1) shell_regions_def)
  obtain m where m: "sys_execute ?f ?b (sti u) = Some (Ret (-1) ((sti u)\<lparr>ram := m\<rparr>))"
    "agree_outside [(fr_program ?f, 128), (fr_arg ?f, 128)] m (ram (sti u))"
    using execute_unknown_effect [OF cmd n(5) b(2) d(3,4) bd lk] by blast
  define v where "v = (sti u)\<lparr>ram := m\<rparr>"
  have vf: "screen_x v = screen_x u" "screen_y v = screen_y u" "disp_terminal v = disp_terminal u" "scheduled_terminal v = scheduled_terminal u"
    by (simp_all add: v_def)
  have ap: "apart a k v = apart a k s" "apart a k u = apart a k s" for a k
    using u(9) by (simp_all add: apart_def v_def term_base_def)
  have agv: "agree_outside [(fr_program ?f, 128), (fr_arg ?f, 128)] (ram v) (ram u)" using m(2) by (simp add: v_def)
  have scr: "screens v = screens u"
    by (rule screens_kept [OF agv _ vf(1-3)]) (use reg(1) in \<open>simp add: ap shell_regions_def\<close>)
  have "cstr (ram u) (sh_no_command sh) msg"
  proof (rule agree_outside_cstr [OF u(4) msg(1)])
    have "scheduled_terminal s < 3" using ready by (simp add: shell_ready_def user_ok_def screen_ok_def term_ok_def)
    then show "\<forall>r \<in> set [own_screen s, (?b, 129)]. disjoint_regions (fst r) (snd r) (sh_no_command sh) (Suc (length msg))"
      using msg(4) reg(3) by (simp add: apart_def disjoint_regions_sym own_screen_region shell_regions_def)
  qed
  then have str: "cstr (ram v) (sh_no_command sh) msg"
    by (rule agree_outside_cstr [OF agv]) (use reg(3) in \<open>simp add: shell_regions_def\<close>)
  have vok: "user_ok v" using u(7) screen_ok_cong [OF vf] by (simp add: user_ok_def v_def)
  have "apart (sh_no_command sh) (length msg) v" using apart_less [OF msg(4)] by (simp add: ap)
  from fdputs_types [OF vok str this msg(3,2), of e]
  obtain t where t: "ece391_fdputs e 1 (sh_no_command sh) v = Some t" "printed_only v t"
    "screens t = type_on (scheduled_terminal v) msg (screens v)" by blast
  have "shell_turn e sh s = Some (Shell_Prompts t)"
    using t(1) n(1,2) by (simp add: u(1) shell_execute_def m(1) of_outcome_def v_def [symmetric] shell_report_def)
  moreover have "screens t = type_on (scheduled_terminal s) (prompt @ msg) (screens s)"
    using t(3) scr u(3,10) vf(4) by (simp add: type_on_append)
  moreover have "pcbs t = pcbs s" "current_pid t = current_pid s"
    using printed_only_keeps(5,6) [OF t(2)] u(5,6) by (simp_all add: v_def)
  ultimately show ?thesis by blast
qed

section \<open>Properties\<close>

definition user_shell :: shell_text where
  "user_shell = \<lparr>sh_buf = 0x720000, sh_start = 0x600200, sh_prompt = 0x600200, sh_read_failed = 0x600400, sh_exit = 0x600300,
     sh_no_command = 0x600400, sh_exception = 0x600400, sh_abnormal = 0x600400\<rparr>"

text \<open>
  C10: a turn of the shell: it types the prompt, reads the line that was entered and stores it as a
  string without its newline; "exit" returns 0, the empty line prompts again, every other line is
  handed to \<open>execute\<close> as it was typed.
\<close>

theorem shell_runs_line:
  assumes "shell_ready sh prompt str s"
  shows "\<exists>u. shell_turn e sh s = (if str = exit_word then Some (Shell_Returns 0 u)
      else if str = [] then Some (Shell_Prompts u) else shell_execute e sh u)
    \<and> cstr (ram u) (sh_buf sh) str \<and> screens u = type_on (scheduled_terminal s) prompt (screens s)
    \<and> pcbs u = pcbs s \<and> current_pid u = current_pid s"
  using shell_turn_runs [OF assms, of e] by blast

lemma user_start_shell: "shell_ready user_shell [62] [120] user_start"
proof -
  have "cstr user_mem 0x600200 [62]" "cstr user_mem 0x600300 exit_word"
    by (simp_all add: cstr_def bytes_Suc user_mem_def image_mem_def exit_word_def)
  moreover have "apart 0x600200 1 user_start" "apart 0x600300 5 user_start" "apart 0x720000 129 user_start"
    by (rule user_start_apart; simp)+
  moreover have "disjoint_regions 0x720000 129 0x600300 5" by (rule regions_sep) simp
  moreover have "pending_line 1023 user_start = [120]"
    by (simp add: pending_line_def upt_rec)
  ultimately show ?thesis by (simp add: shell_ready_def user_start_ok user_shell_def)
qed

theorem shell_runs_line_witness:
  "\<exists>u. shell_turn user_env user_shell user_start = shell_execute user_env user_shell u \<and> cstr (ram u) 0x720000 [120]"
  using shell_runs_line [OF user_start_shell, of user_env] by (auto simp: exit_word_def user_shell_def)

text \<open>
  C14: a line that names no file: after the prompt the shell types its message and comes back to
  the prompt, with the processes unchanged.
\<close>

theorem shell_unknown_command:
  assumes "shell_ready sh prompt str s" "no_such_ready e sh msg str s"
  shows "\<exists>t. shell_turn e sh s = Some (Shell_Prompts t) \<and> screens t = type_on (scheduled_terminal s) (prompt @ msg) (screens s)
    \<and> pcbs t = pcbs s \<and> current_pid t = current_pid s"
  by (rule shell_turn_unknown [OF assms])

theorem shell_unknown_command_witness:
  "\<exists>t. shell_turn user_env user_shell user_start = Some (Shell_Prompts t) \<and> screens t = type_on 0 [62, 63] (screens user_start)"
proof -
  have f: "fr_program (env_frame user_env) = 0x700000" "fr_arg (env_frame user_env) = 0x700080" "fr_temp (env_frame user_env) = 0x700100"
    by (simp_all add: user_env_def sample_env_def exec_frame_def)
  have "cstr user_mem 0x600400 [63]" by (simp add: cstr_def bytes_Suc user_mem_def image_mem_def)
  moreover have "apart 0x600400 2 user_start" "apart 0x720000 129 user_start" "apart 0x700000 128 user_start" "apart 0x700080 128 user_start"
    by (rule user_start_apart; simp)+
  moreover have "disjoint_regions 0x720000 129 0x500000 4096" "disjoint_regions 0x700000 128 0x500000 4096"
    "disjoint_regions 0x700080 128 0x500000 4096" "disjoint_regions 0x720000 129 0x600400 2" "disjoint_regions 0x700000 128 0x600400 2"
    "disjoint_regions 0x700080 128 0x600400 2" "disjoint_regions 0xB8000 4000 0x500000 4096" "disjoint_regions 0x720000 129 0x700000 128"
    "disjoint_regions 0x720000 129 0x700080 128" "disjoint_regions 0x700000 128 0x700080 128" "disjoint_regions 0x700000 128 0x700100 40"
    by (rule regions_sep; simp)+
  moreover have "command_program [120] = [120]" by (simp add: command_program_def)
  ultimately have "no_such_ready user_env user_shell [63] [120] user_start"
    by (simp add: no_such_ready_def shell_regions_def f user_shell_def exit_word_def user_start_names user_start_screen numeral_2_eq_2 [symmetric]
        del: One_nat_def)
  from shell_unknown_command [OF user_start_shell this] show ?thesis by auto
qed

end
