(* ===== verification/Syserr.thy ===== *)
theory Syserr
  imports Shell "HOL-Library.Monad_Syntax"
begin

text \<open>
  The test program for the errors of the system calls (syscalls/ece391syserr.c). Each test makes
  calls that have to fail, complains about each one that does not, and types its verdict. The
  program is a client of the whole kernel; the theorem is that every test passes.

  \<open>lit\<close> gives the address of a string literal; the registers that the inline assembly of
  \<open>call_sys\<close> does not set are a parameter.
\<close>

section \<open>Operations\<close>

definition call_sys :: "'a rtc_scheme env \<Rightarrow> u32 \<times> u32 \<times> u32 \<Rightarrow> u32 \<Rightarrow> 'a rtc_scheme \<Rightarrow> (i32 \<times> 'a rtc_scheme) option" where
  "call_sys e regs num s =
     (case regs of (b, c, d) \<Rightarrow>
      (case syscall_entry e num b c d s of Returned v t \<Rightarrow> Some (sint v, t) | _ \<Rightarrow> None))"

text \<open>\<open>if (-1 != call) { fail = 2; ece391_fdputs (1, msg); }\<close> and the verdict at the end of a test.\<close>

definition expect_fail :: "'a rtc_scheme env \<Rightarrow> (u8 list \<Rightarrow> u32) \<Rightarrow> u8 list \<Rightarrow> (i32 \<times> 'a rtc_scheme) option \<Rightarrow> i32 \<Rightarrow>
    (i32 \<times> 'a rtc_scheme) option" where
  "expect_fail e lit msg call fail = do {
     (v, s) \<leftarrow> call;
     if -1 \<noteq> v then do { s \<leftarrow> ece391_fdputs e 1 (lit msg) s; Some (2, s) } else Some (fail, s) }"

definition verdict :: "'a rtc_scheme env \<Rightarrow> (u8 list \<Rightarrow> u32) \<Rightarrow> u8 list \<Rightarrow> u8 list \<Rightarrow> i32 \<times> 'a rtc_scheme \<Rightarrow>
    (i32 \<times> 'a rtc_scheme) option" where
  "verdict e lit bad good r = do {
     let (fail, s) = r;
     s \<leftarrow> ece391_fdputs e 1 (lit (if fail \<noteq> 0 then bad else good)) s;
     Some (fail, s) }"

abbreviation NEG_FD :: u32 where "NEG_FD \<equiv> -1073741823"
abbreviation BIG_FD :: u32 where "BIG_FD \<equiv> 1073741823"

definition err_neg_fd :: "'a rtc_scheme env \<Rightarrow> (u8 list \<Rightarrow> u32) \<Rightarrow> u32 \<Rightarrow> 'a rtc_scheme \<Rightarrow> (i32 \<times> 'a rtc_scheme) option" where
  "err_neg_fd e lit buf s = do {
     (fail, s) \<leftarrow> expect_fail e lit (text_line ''read fail'') (user_call e Sys_Read NEG_FD buf 31 s) 0;
     (fail, s) \<leftarrow> expect_fail e lit (text_line ''write fail'') (user_call e Sys_Write NEG_FD buf 31 s) fail;
     (fail, s) \<leftarrow> expect_fail e lit (text_line ''close fail'') (user_call e Sys_Close NEG_FD 0 0 s) fail;
     verdict e lit (text_line ''err_neg_fd: FAIL'') (text_line ''err_neg_fd: PASS'') (fail, s) }"

definition err_big_fd :: "'a rtc_scheme env \<Rightarrow> (u8 list \<Rightarrow> u32) \<Rightarrow> u32 \<Rightarrow> 'a rtc_scheme \<Rightarrow> (i32 \<times> 'a rtc_scheme) option" where
  "err_big_fd e lit buf s = do {
     (fail, s) \<leftarrow> expect_fail e lit (text_line ''read fail'') (user_call e Sys_Read BIG_FD buf 31 s) 0;
     (fail, s) \<leftarrow> expect_fail e lit (text_line ''write fail'') (user_call e Sys_Write BIG_FD buf 31 s) fail;
     (fail, s) \<leftarrow> expect_fail e lit (text_line ''close fail'') (user_call e Sys_Close BIG_FD 0 0 s) fail;
     verdict e lit (text_line ''err_big_fd: FAIL'') (text_line ''err_big_fd: PASS'') (fail, s) }"

primrec open_lots :: "'a rtc_scheme env \<Rightarrow> (u8 list \<Rightarrow> u32) \<Rightarrow> nat \<Rightarrow> i32 \<Rightarrow> 'a rtc_scheme \<Rightarrow> (i32 \<times> 'a rtc_scheme) option" where
  "open_lots e lit 0 cnt s = Some (cnt, s)"
| "open_lots e lit (Suc n) cnt s = do {
     (v, s) \<leftarrow> user_call e Sys_Open (lit [46]) 0 0 s;
     open_lots e lit n (if -1 = v then cnt + 1 else cnt) s }"

primrec close_fds :: "'a rtc_scheme env \<Rightarrow> i32 list \<Rightarrow> 'a rtc_scheme \<Rightarrow> 'a rtc_scheme option" where
  "close_fds e [] s = Some s"
| "close_fds e (i # is) s = do {
     (v, s) \<leftarrow> user_call e Sys_Close (of_int i) 0 0 s;
     close_fds e is s }"

definition err_open_lots :: "'a rtc_scheme env \<Rightarrow> (u8 list \<Rightarrow> u32) \<Rightarrow> 'a rtc_scheme \<Rightarrow> (i32 \<times> 'a rtc_scheme) option" where
  "err_open_lots e lit s = do {
     (cnt, s) \<leftarrow> open_lots e lit 7 0 s;
     s \<leftarrow> close_fds e [2..7] s;
     if cnt = 1 then do { s \<leftarrow> ece391_fdputs e 1 (lit (text_line ''err_open_lots: PASS'')) s; Some (0, s) }
     else do { s \<leftarrow> ece391_fdputs e 1 (lit (text_line ''err_open_lots: FAIL'')) s; Some (2, s) } }"

definition err_open :: "'a rtc_scheme env \<Rightarrow> (u8 list \<Rightarrow> u32) \<Rightarrow> 'a rtc_scheme \<Rightarrow> (i32 \<times> 'a rtc_scheme) option" where
  "err_open e lit s = do {
     (fail, s) \<leftarrow> expect_fail e lit (text_line (CHR 39 # ''helloo' fail'')) (user_call e Sys_Open (lit (map of_char ''helloo'')) 0 0 s) 0;
     (fail, s) \<leftarrow> expect_fail e lit (text_line (CHR 39 # ''shel' fail'')) (user_call e Sys_Open (lit (map of_char ''shel'')) 0 0 s) fail;
     (fail, s) \<leftarrow> expect_fail e lit (text_line ''empty string fail'') (user_call e Sys_Open (lit []) 0 0 s) fail;
     verdict e lit (text_line ''err_open: FAIL'') (text_line ''err_open: PASS'') (fail, s) }"

text \<open>A \<open>for\<close> loop over descriptors whose every call has to fail.\<close>

primrec each_fails :: "'a rtc_scheme env \<Rightarrow> (u8 list \<Rightarrow> u32) \<Rightarrow> u8 list \<Rightarrow> (i32 \<Rightarrow> 'a rtc_scheme \<Rightarrow> (i32 \<times> 'a rtc_scheme) option) \<Rightarrow>
    i32 list \<Rightarrow> i32 \<times> 'a rtc_scheme \<Rightarrow> (i32 \<times> 'a rtc_scheme) option" where
  "each_fails e lit msg call [] r = Some r"
| "each_fails e lit msg call (i # is) r = do {
     let (fail, s) = r;
     r \<leftarrow> expect_fail e lit msg (call i s) fail;
     each_fails e lit msg call is r }"

definition err_unopened :: "'a rtc_scheme env \<Rightarrow> (u8 list \<Rightarrow> u32) \<Rightarrow> u32 \<Rightarrow> 'a rtc_scheme \<Rightarrow> (i32 \<times> 'a rtc_scheme) option" where
  "err_unopened e lit buf s = do {
     r \<leftarrow> each_fails e lit (text_line ''close unopened or invalid fd fail'') (\<lambda>i. user_call e Sys_Close (of_int i) 0 0) [0..7] (0, s);
     r \<leftarrow> each_fails e lit (text_line ''read from unopened fd fail'') (\<lambda>i. user_call e Sys_Read (of_int i) buf 31) [2..7] r;
     r \<leftarrow> each_fails e lit (text_line ''write to unopened fd fail'') (\<lambda>i. user_call e Sys_Write (of_int i) buf 31) [2..7] r;
     verdict e lit (text_line ''err_unopened: FAIL'') (text_line ''err_unopened: PASS'') r }"

definition err_vidmap :: "'a rtc_scheme env \<Rightarrow> (u8 list \<Rightarrow> u32) \<Rightarrow> 'a rtc_scheme \<Rightarrow> (i32 \<times> 'a rtc_scheme) option" where
  "err_vidmap e lit s = do {
     (fail, s) \<leftarrow> expect_fail e lit (text_line ''Null pointer fail'') (user_call e Sys_Vidmap 0x0 0 0 s) 0;
     (fail, s) \<leftarrow> expect_fail e lit (text_line ''Kernel pointer fail fail'') (user_call e Sys_Vidmap 0x400000 0 0 s) fail;
     verdict e lit (text_line ''err_vidmap: FAIL'') (text_line ''err_vidmap: PASS'') (fail, s) }"

definition err_stdin_out :: "'a rtc_scheme env \<Rightarrow> (u8 list \<Rightarrow> u32) \<Rightarrow> u32 \<Rightarrow> 'a rtc_scheme \<Rightarrow> (i32 \<times> 'a rtc_scheme) option" where
  "err_stdin_out e lit buf s = do {
     (fail, s) \<leftarrow> expect_fail e lit (text_line ''write to stdin fail'') (user_call e Sys_Write 0 buf 31 s) 0;
     (fail, s) \<leftarrow> expect_fail e lit (text_line ''read from stdout fail'') (user_call e Sys_Read 1 buf 31 s) fail;
     verdict e lit (text_line ''err_stdin_out: FAIL'') (text_line ''err_stdin_out: PASS'') (fail, s) }"

definition err_syscall_num :: "'a rtc_scheme env \<Rightarrow> (u8 list \<Rightarrow> u32) \<Rightarrow> u32 \<times> u32 \<times> u32 \<Rightarrow> 'a rtc_scheme \<Rightarrow> (i32 \<times> 'a rtc_scheme) option" where
  "err_syscall_num e lit regs s = do {
     (fail, s) \<leftarrow> expect_fail e lit (text_line ''syscall 0 fail'') (call_sys e regs 1073741823 s) 0;
     (fail, s) \<leftarrow> expect_fail e lit (text_line ''big num syscall fail'') (call_sys e regs (-1073741823) s) fail;
     (fail, s) \<leftarrow> expect_fail e lit (text_line ''neg num syscall fail'') (call_sys e regs 0 s) fail;
     verdict e lit (text_line ''err_syscall_num: FAIL'') (text_line ''err_syscall_num: PASS'') (fail, s) }"

text \<open>\<open>main\<close> runs all tests for the choice 0, and one of them for 1 to 8.\<close>

definition run_all :: "'a rtc_scheme env \<Rightarrow> (u8 list \<Rightarrow> u32) \<Rightarrow> u32 \<Rightarrow> u32 \<times> u32 \<times> u32 \<Rightarrow> 'a rtc_scheme \<Rightarrow> (i32 \<times> 'a rtc_scheme) option" where
  "run_all e lit buf regs s = do {
     (f1, s) \<leftarrow> err_neg_fd e lit buf s;
     (f2, s) \<leftarrow> err_big_fd e lit buf s;
     (f3, s) \<leftarrow> err_open_lots e lit s;
     (f4, s) \<leftarrow> err_open e lit s;
     (f5, s) \<leftarrow> err_unopened e lit buf s;
     (f6, s) \<leftarrow> err_vidmap e lit s;
     (f7, s) \<leftarrow> err_stdin_out e lit buf s;
     (f8, s) \<leftarrow> err_syscall_num e lit regs s;
     let fail = f1 + f2 + f3 + f4 + f5 + f6 + f7 + f8;
     verdict e lit (10 # text_line ''Overall Tests: FAIL'') (10 # text_line ''Overall Tests: PASS'') (fail, s) }"

definition run_test :: "'a rtc_scheme env \<Rightarrow> (u8 list \<Rightarrow> u32) \<Rightarrow> u32 \<Rightarrow> u32 \<times> u32 \<times> u32 \<Rightarrow> i32 \<Rightarrow> 'a rtc_scheme \<Rightarrow>
    (i32 \<times> 'a rtc_scheme) option" where
  "run_test e lit buf regs select s =
     (if select = 0 then run_all e lit buf regs s
      else if select = 1 then err_neg_fd e lit buf s
      else if select = 2 then err_big_fd e lit buf s
      else if select = 3 then err_open_lots e lit s
      else if select = 4 then err_open e lit s
      else if select = 5 then err_unopened e lit buf s
      else if select = 6 then err_vidmap e lit s
      else if select = 7 then err_stdin_out e lit buf s
      else if select = 8 then err_syscall_num e lit regs s
      else do { s \<leftarrow> ece391_fdputs e 1 (lit (map of_char ''Invalid test number. Choose from tests 1-8 or 0'')) s; Some (0, s) })"

definition choose_prompt :: "u8 list" where
  "choose_prompt = map of_char ''Choose from tests 1-8. 0 to run all: ''"

definition syserr_main :: "'a rtc_scheme env \<Rightarrow> (u8 list \<Rightarrow> u32) \<Rightarrow> u32 \<Rightarrow> u32 \<Rightarrow> u32 \<times> u32 \<times> u32 \<Rightarrow> 'a rtc_scheme \<Rightarrow>
    (i32 \<times> 'a rtc_scheme) option" where
  "syserr_main e lit answer buf regs s = do {
     s \<leftarrow> ece391_fdputs e 1 (lit choose_prompt) s;
     (cnt, s) \<leftarrow> user_call e Sys_Read 0 answer 127 s;
     if -1 = cnt then do { s \<leftarrow> ece391_fdputs e 1 (lit (text_line ''Can't read test #'')) s; Some (2, s) }
     else run_test e lit buf regs (int (unat (ram s answer)) - 48) s }"

section \<open>The state the tests keep\<close>

text \<open>The literals that are used when every test passes, and the image and memory the tests rely on.\<close>

definition passed :: "string \<Rightarrow> u8 list" where
  "passed test = text_line (test @ '': PASS'')"

definition syserr_literals :: "u8 list list" where
  "syserr_literals = [46] # map of_char ''helloo'' # map of_char ''shel'' # [] # choose_prompt
     # (10 # passed ''Overall Tests'') # map passed [''err_neg_fd'', ''err_big_fd'', ''err_open_lots'', ''err_open'', ''err_unopened'',
       ''err_vidmap'', ''err_stdin_out'', ''err_syscall_num'']"

definition literal_ok :: "'a rtc_scheme env \<Rightarrow> (u8 list \<Rightarrow> u32) \<Rightarrow> u8 list \<Rightarrow> 'a rtc_scheme \<Rightarrow> bool" where
  "literal_ok e lit l s \<longleftrightarrow> cstr (ram s) (lit l) l \<and> lit l \<noteq> 0 \<and> apart (lit l) (Suc (length l)) s
     \<and> disjoint_regions (env_dentry e) 40 (lit l) (Suc (length l))"

definition test_env :: "'a rtc_scheme env \<Rightarrow> (u8 list \<Rightarrow> u32) \<Rightarrow> 'a rtc_scheme \<Rightarrow> bool" where
  "test_env e lit s \<longleftrightarrow> (\<forall>l \<in> set syserr_literals. literal_ok e lit l s) \<and> unat (num_dentry s) \<le> 63
     \<and> (\<exists>j. lookup s [46] = Some j \<and> entry_type s (of_nat j) = 1)
     \<and> lookup s (map of_char ''helloo'') = None \<and> lookup s (map of_char ''shel'') = None \<and> lookup s [] = None
     \<and> disjoint_regions (env_dentry e) 40 (boot_block_ptr s) 4096 \<and> apart (env_dentry e) 40 s
     \<and> disjoint_regions (fst (own_screen s)) 4000 (boot_block_ptr s) 4096"

definition test_ok :: "'a rtc_scheme env \<Rightarrow> (u8 list \<Rightarrow> u32) \<Rightarrow> u8 \<Rightarrow> (u8 \<Rightarrow> screen option) \<Rightarrow> 'a rtc_scheme \<Rightarrow> bool" where
  "test_ok e lit k scr s \<longleftrightarrow> user_ok s \<and> ifl s \<and> scheduled_terminal s = k \<and> screens s = scr \<and> test_env e lit s"

lemma sti_on [simp]: "ifl s \<Longrightarrow> sti s = s"
  by (simp add: sti_def)

lemma test_env_kept:
  assumes env: "test_env e lit s" and ok: "user_ok s" and same: "same_image s t" "disp_terminal t = disp_terminal s"
    "scheduled_terminal t = scheduled_terminal s" and ag: "agree_outside (own_screen s # (env_dentry e, 40) # rs) (ram t) (ram s)"
    and rs: "\<forall>r \<in> set rs. disjoint_regions (fst r) (snd r) (boot_block_ptr s) 4096
      \<and> (\<forall>l \<in> set syserr_literals. disjoint_regions (fst r) (snd r) (lit l) (Suc (length l)))"
  shows "test_env e lit t"
proof -
  have ap: "apart a n t = apart a n s" for a n using same(2) by (simp add: apart_def term_base_def)
  have own: "own_screen t = own_screen s" using same(2,3) by (simp add: own_screen_def term_base_def)
  have f: "boot_block_ptr t = boot_block_ptr s" "num_dentry t = num_dentry s" using same(1) by (simp_all add: same_image_def)
  have nd: "unat (num_dentry s) \<le> 63" using env by (simp add: test_env_def)
  have kept: "dir_kept (ram t) s"
    by (rule agree_outside_dir [OF ag]) (use env rs in \<open>simp add: test_env_def own_screen_region\<close>)
  have lk: "lookup t n = lookup s n" for n
    using same_image_views(1) [OF same(1)] dir_kept_lookup [OF kept nd] by simp
  have ty: "entry_type t (of_nat j) = entry_type s (of_nat j)" if "lookup s n = Some j" for j n
    using entry_type_same [OF same(1)] dir_kept_entries(2) [OF kept, of j] lookup_Some [OF that] nd by simp
  have "literal_ok e lit l t" if "literal_ok e lit l s" "l \<in> set syserr_literals" for l
  proof -
    have "disjoint_regions (term_base (scheduled_terminal s) s) 4000 (lit l) (Suc (length l))"
      using that(1) user_ok_sched [OF ok] by (simp add: literal_ok_def apart_def disjoint_regions_sym)
    then have "cstr (ram t) (lit l) l"
      by (intro agree_outside_cstr [OF ag]) (use that rs in \<open>simp_all add: literal_ok_def own_screen_region\<close>)
    then show ?thesis using that(1) by (simp add: literal_ok_def ap)
  qed
  then show ?thesis using env ty unfolding test_env_def lk f ap own by auto
qed

text \<open>A step that leaves the screens and the image alone, and writes apart from the literals, keeps all of it.\<close>

definition apart_tests :: "(u8 list \<Rightarrow> u32) \<Rightarrow> 'a rtc_scheme \<Rightarrow> u32 \<times> nat \<Rightarrow> bool" where
  "apart_tests lit s r \<longleftrightarrow> apart (fst r) (snd r) s \<and> disjoint_regions (fst r) (snd r) (boot_block_ptr s) 4096
     \<and> (\<forall>l \<in> set syserr_literals. disjoint_regions (fst r) (snd r) (lit l) (Suc (length l)))"

lemma test_ok_kept:
  assumes ok: "test_ok e lit k scr s" and ag: "agree_outside ((env_dentry e, 40) # rs) (ram t) (ram s)" and rs: "\<forall>r \<in> set rs. apart_tests lit s r"
    and f: "screen_x t = screen_x s" "screen_y t = screen_y s" "disp_terminal t = disp_terminal s" "scheduled_terminal t = scheduled_terminal s"
      "same_image s t" "ifl t = ifl s" "files_ok (file_array (cur_proc t))"
  shows "test_ok e lit k scr t"
proof -
  have o: "user_ok s" "ifl s" "scheduled_terminal s = k" "screens s = scr" "test_env e lit s" using ok by (simp_all add: test_ok_def)
  have "screens t = screens s"
    by (rule screens_kept [OF ag _ f(1-3)]) (use o(5) rs in \<open>simp add: apart_tests_def test_env_def\<close>)
  moreover have "agree_outside (own_screen s # (env_dentry e, 40) # rs) (ram t) (ram s)" using ag by (rule agree_outside_mono) auto
  then have "test_env e lit t"
    by (rule test_env_kept [OF o(5,1) f(5,3,4)]) (use rs in \<open>simp add: apart_tests_def\<close>)
  ultimately show ?thesis using o f screen_ok_cong [OF f(1-4)] by (simp add: test_ok_def user_ok_def)
qed

lemma syserr_literal_length: "l \<in> set syserr_literals \<Longrightarrow> length l < 2147483648"
  by (auto simp: syserr_literals_def passed_def text_line_def choose_prompt_def)

lemma test_says:
  assumes ok: "test_ok e lit k scr s" and l: "l \<in> set syserr_literals"
  obtains t where "ece391_fdputs e 1 (lit l) s = Some t" "test_ok e lit k (type_on k l scr) t" "open_files t = open_files s"
    "printed_only s t"
proof -
  have o: "user_ok s" "scheduled_terminal s = k" "screens s = scr" "test_env e lit s" using ok by (simp_all add: test_ok_def)
  then have lo: "literal_ok e lit l s" using l by (simp add: test_env_def)
  have ap: "apart (lit l) (length l) s" using lo apart_less [of "lit l" "Suc (length l)" s "length l"] by (simp add: literal_ok_def)
  obtain t where t: "ece391_fdputs e 1 (lit l) s = Some t" "user_ok t" "printed_only s t"
    "screens t = type_on (scheduled_terminal s) l (screens s)"
    using fdputs_types [OF o(1) _ ap _ syserr_literal_length [OF l], of e] lo by (auto simp: literal_ok_def)
  note k = printed_only_keeps [OF t(3)]
  have "agree_outside [own_screen s, (env_dentry e, 40)] (ram t) (ram s)"
    by (rule agree_outside_mono [of "[own_screen s]"]) (use t(3) in \<open>simp_all add: printed_only_def\<close>)
  then have "test_env e lit t"
    by (intro test_env_kept [OF o(4,1) k(3), of "[]"]) (use t(3) in \<open>simp_all add: printed_only_def\<close>)
  then have "test_ok e lit k (type_on k l scr) t"
    using t(2-4) o by (simp add: test_ok_def printed_only_def)
  moreover have "open_files t = open_files s" by (simp add: open_files_def fun_eq_iff k(4))
  ultimately show thesis using that t(1,3) by blast
qed

section \<open>The tests\<close>

text \<open>A test that passes: it returns 0, types its verdict and leaves the process as it was.\<close>

definition passes :: "'a rtc_scheme env \<Rightarrow> (u8 list \<Rightarrow> u32) \<Rightarrow> ('a rtc_scheme \<Rightarrow> (i32 \<times> 'a rtc_scheme) option) \<Rightarrow> u8 list \<Rightarrow> bool" where
  "passes e lit test msg \<longleftrightarrow> (\<forall>k scr s. test_ok e lit k scr s \<longrightarrow> fresh_files s \<longrightarrow>
     (\<exists>t. test s = Some (0, t) \<and> test_ok e lit k (type_on k msg scr) t \<and> fresh_files t))"

lemma passesI:
  assumes "\<And>k scr s. test_ok e lit k scr s \<Longrightarrow> fresh_files s \<Longrightarrow>
    \<exists>u. test s = verdict e lit bad msg (0, u) \<and> test_ok e lit k scr u \<and> fresh_files u" "msg \<in> set syserr_literals"
  shows "passes e lit test msg"
  unfolding passes_def
proof (intro allI impI)
  fix k scr s assume "test_ok e lit k scr s" "fresh_files s"
  then obtain u where u: "test s = verdict e lit bad msg (0, u)" "test_ok e lit k scr u" "fresh_files u" using assms(1) by blast
  obtain t where "ece391_fdputs e 1 (lit msg) u = Some t" "test_ok e lit k (type_on k msg scr) t" "open_files t = open_files u"
    by (rule test_says [OF u(2) assms(2)])
  then show "\<exists>t. test s = Some (0, t) \<and> test_ok e lit k (type_on k msg scr) t \<and> fresh_files t"
    using u(1,3) by (simp add: verdict_def fresh_files_def)
qed

lemma passed_literals: "passed ''err_neg_fd'' \<in> set syserr_literals" "passed ''err_big_fd'' \<in> set syserr_literals"
  "passed ''err_open_lots'' \<in> set syserr_literals" "passed ''err_open'' \<in> set syserr_literals" "passed ''err_unopened'' \<in> set syserr_literals"
  "passed ''err_vidmap'' \<in> set syserr_literals" "passed ''err_stdin_out'' \<in> set syserr_literals"
  "passed ''err_syscall_num'' \<in> set syserr_literals" "10 # passed ''Overall Tests'' \<in> set syserr_literals" "choose_prompt \<in> set syserr_literals"
  by (simp_all add: syserr_literals_def)

lemma expect_fail_ok [simp]: "expect_fail e lit msg (Some (-1, s)) fail = Some (fail, s)"
  by (simp add: expect_fail_def)

lemma bad_descriptor:
  assumes "ifl s" "sint fd < 0 \<or> 7 < sint fd"
  shows "user_call e Sys_Read fd buf n s = Some (-1, s)" "user_call e Sys_Write fd buf n s = Some (-1, s)"
    "user_call e Sys_Close fd 0 0 s = Some (-1, s)"
  using assms by (auto simp: user_call_def of_result_def sys_read_def sys_write_def sys_close_def)

lemma err_neg_fd_passes: "passes e lit (err_neg_fd e lit buf) (passed ''err_neg_fd'')"
proof (rule passesI [where bad = "text_line ''err_neg_fd: FAIL''"])
  fix k scr and s :: "'a rtc_scheme" assume ok: "test_ok e lit k scr s" "fresh_files s"
  then have "ifl s" by (simp add: test_ok_def)
  then show "\<exists>u. err_neg_fd e lit buf s = verdict e lit (text_line ''err_neg_fd: FAIL'') (passed ''err_neg_fd'') (0, u)
      \<and> test_ok e lit k scr u \<and> fresh_files u"
    using ok bad_descriptor [of s NEG_FD] by (intro exI [of _ s]) (simp add: err_neg_fd_def passed_def)
qed (rule passed_literals)

lemma err_big_fd_passes: "passes e lit (err_big_fd e lit buf) (passed ''err_big_fd'')"
proof (rule passesI [where bad = "text_line ''err_big_fd: FAIL''"])
  fix k scr and s :: "'a rtc_scheme" assume ok: "test_ok e lit k scr s" "fresh_files s"
  then have "ifl s" by (simp add: test_ok_def)
  then show "\<exists>u. err_big_fd e lit buf s = verdict e lit (text_line ''err_big_fd: FAIL'') (passed ''err_big_fd'') (0, u)
      \<and> test_ok e lit k scr u \<and> fresh_files u"
    using ok bad_descriptor [of s BIG_FD] by (intro exI [of _ s]) (simp add: err_big_fd_def passed_def)
qed (rule passed_literals)

lemma err_vidmap_passes: "passes e lit (err_vidmap e lit) (passed ''err_vidmap'')"
proof (rule passesI [where bad = "text_line ''err_vidmap: FAIL''"])
  fix k scr and s :: "'a rtc_scheme" assume ok: "test_ok e lit k scr s" "fresh_files s"
  then have "ifl s" by (simp add: test_ok_def)
  then have "user_call e Sys_Vidmap p 0 0 s = Some (-1, s)" if "p < 0x08000000" for p
    using that by (simp add: user_call_def of_result_def sys_vidmap_def)
  then show "\<exists>u. err_vidmap e lit s = verdict e lit (text_line ''err_vidmap: FAIL'') (passed ''err_vidmap'') (0, u)
      \<and> test_ok e lit k scr u \<and> fresh_files u"
    using ok by (intro exI [of _ s]) (simp add: err_vidmap_def passed_def)
qed (rule passed_literals)

lemma err_stdin_out_passes: "passes e lit (err_stdin_out e lit buf) (passed ''err_stdin_out'')"
proof (rule passesI [where bad = "text_line ''err_stdin_out: FAIL''"])
  fix k scr and s :: "'a rtc_scheme" assume ok: "test_ok e lit k scr s" "fresh_files s"
  then have o: "ifl s" "files_ok (file_array (cur_proc s))" by (simp_all add: test_ok_def user_ok_def)
  then have "user_call e Sys_Write 0 buf 31 s = Some (-1, s)" "user_call e Sys_Read 1 buf 31 s = Some (-1, s)"
    by (simp_all add: user_call_def of_result_def sys_write_def sys_read_def table_write_def table_read_def files_ok_def)
  then show "\<exists>u. err_stdin_out e lit buf s = verdict e lit (text_line ''err_stdin_out: FAIL'') (passed ''err_stdin_out'') (0, u)
      \<and> test_ok e lit k scr u \<and> fresh_files u"
    using ok by (intro exI [of _ s]) (simp add: err_stdin_out_def passed_def)
qed (rule passed_literals)

lemma err_syscall_num_passes: "passes e lit (err_syscall_num e lit regs) (passed ''err_syscall_num'')"
proof (rule passesI [where bad = "text_line ''err_syscall_num: FAIL''"])
  fix k scr and s :: "'a rtc_scheme" assume ok: "test_ok e lit k scr s" "fresh_files s"
  have "call_sys e regs n s = Some (-1, s)" if "sint n < 1 \<or> 12 < sint n" for n
    using that by (cases regs) (auto simp: call_sys_def syscall_entry_def)
  then show "\<exists>u. err_syscall_num e lit regs s = verdict e lit (text_line ''err_syscall_num: FAIL'') (passed ''err_syscall_num'') (0, u)
      \<and> test_ok e lit k scr u \<and> fresh_files u"
    using ok by (intro exI [of _ s]) (simp add: err_syscall_num_def passed_def)
qed (rule passed_literals)

lemma open_unknown:
  assumes ok: "test_ok e lit k scr s" and l: "str \<in> set syserr_literals" "lookup s str = None" "length str < 40"
  shows "user_call e Sys_Open (lit str) 0 0 s = Some (-1, s)"
proof -
  have o: "ifl s" "literal_ok e lit str s" using ok l(1) by (simp_all add: test_ok_def test_env_def)
  then have c: "cstr (ram s) (lit str) str" "disjoint_regions (env_dentry e) (Suc (length str)) (lit str) (Suc (length str))"
    using l(3) disjoint_regions_mono [of "env_dentry e" 40 "lit str" "Suc (length str)" "Suc (length str)" "Suc (length str)"]
    by (simp_all add: literal_ok_def)
  have "read_dentry_by_name (lit str) (env_dentry e) s = Some (-1, s)"
    using read_dentry_by_name_lookup [OF c] l(2) by simp
  then show ?thesis using o(1) by (simp add: user_call_def of_result_def sys_open_def split: option.split)
qed

lemma err_open_passes: "passes e lit (err_open e lit) (passed ''err_open'')"
proof (rule passesI [where bad = "text_line ''err_open: FAIL''"])
  fix k scr and s :: "'a rtc_scheme" assume ok: "test_ok e lit k scr s" "fresh_files s"
  have n: "lookup s (map of_char ''helloo'') = None" "lookup s (map of_char ''shel'') = None" "lookup s [] = None"
    using ok(1) by (simp_all add: test_ok_def test_env_def)
  have m: "map of_char ''helloo'' \<in> set syserr_literals" "map of_char ''shel'' \<in> set syserr_literals" "[] \<in> set syserr_literals"
    by (simp_all add: syserr_literals_def)
  have "user_call e Sys_Open (lit (map of_char ''helloo'')) 0 0 s = Some (-1, s)"
    "user_call e Sys_Open (lit (map of_char ''shel'')) 0 0 s = Some (-1, s)" "user_call e Sys_Open (lit []) 0 0 s = Some (-1, s)"
    by (rule open_unknown [OF ok(1) m(1) n(1)], simp, rule open_unknown [OF ok(1) m(2) n(2)], simp, rule open_unknown [OF ok(1) m(3) n(3)], simp)
  then show "\<exists>u. err_open e lit s = verdict e lit (text_line ''err_open: FAIL'') (passed ''err_open'') (0, u)
      \<and> test_ok e lit k scr u \<and> fresh_files u"
    using ok by (intro exI [of _ s]) (simp add: err_open_def passed_def del: list.map)
qed (rule passed_literals)

text \<open>Loops over descriptors that are not open.\<close>

lemma each_fails_all:
  "(\<And>i. i \<in> set is \<Longrightarrow> call i s = Some (-1, s)) \<Longrightarrow> each_fails e lit msg call is (f, s) = Some (f, s)"
  by (induction "is") simp_all

lemma sint_fd: "0 \<le> i \<Longrightarrow> i < 2147483648 \<Longrightarrow> sint (of_int i :: u32) = i"
  by (subst sint_small) (simp_all add: nat_of_int32)

lemma unopened_calls:
  assumes ok: "test_ok e lit k scr s" "fresh_files s"
  shows "0 \<le> i \<Longrightarrow> i \<le> 7 \<Longrightarrow> user_call e Sys_Close (of_int i) 0 0 s = Some (-1, s)"
    "2 \<le> i \<Longrightarrow> i \<le> 7 \<Longrightarrow> user_call e Sys_Read (of_int i) buf 31 s = Some (-1, s)"
    "2 \<le> i \<Longrightarrow> i \<le> 7 \<Longrightarrow> user_call e Sys_Write (of_int i) buf 31 s = Some (-1, s)"
proof -
  have o: "ifl s" "files_ok (file_array (cur_proc s))" using ok by (simp_all add: test_ok_def user_ok_def)
  have fl: "flag (cur_file s i) = 0" if "2 \<le> i" "i \<le> 7"
  proof -
    have i: "i \<in> {0..7}" "\<not> i < 2" using that by simp_all
    then have "flag (cur_file s i) = 0 \<or> flag (cur_file s i) = 1" using o(2) unfolding files_ok_def by blast
    moreover have "open_files s i = None" using ok(2) i unfolding fresh_files_def by blast
    ultimately show ?thesis using that by (auto simp: open_files_def)
  qed
  show "0 \<le> i \<Longrightarrow> i \<le> 7 \<Longrightarrow> user_call e Sys_Close (of_int i) 0 0 s = Some (-1, s)"
    using o(1) fl by (auto simp: user_call_def of_result_def sys_close_def sint_fd)
  show "2 \<le> i \<Longrightarrow> i \<le> 7 \<Longrightarrow> user_call e Sys_Read (of_int i) buf 31 s = Some (-1, s)"
    "2 \<le> i \<Longrightarrow> i \<le> 7 \<Longrightarrow> user_call e Sys_Write (of_int i) buf 31 s = Some (-1, s)"
    using o(1) fl by (simp_all add: user_call_def of_result_def sys_read_def sys_write_def sint_fd)
qed

lemma err_unopened_passes: "passes e lit (err_unopened e lit buf) (passed ''err_unopened'')"
proof (rule passesI [where bad = "text_line ''err_unopened: FAIL''"])
  fix k scr and s :: "'a rtc_scheme" assume ok: "test_ok e lit k scr s" "fresh_files s"
  let ?each = "\<lambda>msg call is. each_fails e lit (text_line msg) call is (0, s)"
  have c: "?each msg (\<lambda>i. user_call e Sys_Close (of_int i) 0 0) [0..7] = Some (0, s)"
    "?each msg (\<lambda>i. user_call e Sys_Read (of_int i) buf 31) [2..7] = Some (0, s)"
    "?each msg (\<lambda>i. user_call e Sys_Write (of_int i) buf 31) [2..7] = Some (0, s)" for msg
    by (rule each_fails_all, rule unopened_calls [OF ok]; auto)+
  have p: "passed ''err_unopened'' = text_line ''err_unopened: PASS''" by (simp add: passed_def)
  show "\<exists>u. err_unopened e lit buf s = verdict e lit (text_line ''err_unopened: FAIL'') (passed ''err_unopened'') (0, u)
      \<and> test_ok e lit k scr u \<and> fresh_files u"
    using ok by (intro exI [of _ s]) (simp only: err_unopened_def c p Option.bind.simps simp_thms)
qed (rule passed_literals)

section \<open>The directory opened seven times\<close>

text \<open>The table of a process that opens and closes the directory: a second provider of the contract.\<close>

lemma test_ok_open:
  assumes ok: "test_ok e lit k scr s" and fd: "least_free (open_files s) fd"
  obtains t where "sys_open (env_dentry e) (env_temp e) (lit [46]) s = Some (fd, t)" "test_ok e lit k scr t"
    "open_files t = (open_files s)(fd \<mapsto> (dir_table, 0, 0))"
proof -
  let ?d = "env_dentry e"
  have o: "user_ok s" "ifl s" "scheduled_terminal s = k" "screens s = scr" "test_env e lit s" using ok by (simp_all add: test_ok_def)
  have l: "literal_ok e lit [46] s" and nd: "unat (num_dentry s) \<le> 63" and boot: "disjoint_regions ?d 40 (boot_block_ptr s) 4096"
    using o(5) by (simp_all add: test_env_def syserr_literals_def)
  obtain j where j: "lookup s [46] = Some j" "entry_type s (of_nat j) = 1" using o(5) by (auto simp: test_env_def)
  have c: "cstr (ram s) (lit [46]) [46]" "scratch_dentry ?d (lit [46]) [46] s"
    using l boot by (simp_all add: literal_ok_def scratch_dentry_def)
  obtain m where m: "sys_open ?d (env_temp e) (lit [46]) s = Some (fd, set_file fd dir_table 0 (s\<lparr>ram := m\<rparr>))"
    "\<And>x. \<not> in_region ?d 40 x \<Longrightarrow> m x = ram s x"
    by (rule sys_open_dir [OF c(1) _ nd c(2) j fd, of "env_temp e"]) simp_all
  define t where "t = set_file fd dir_table 0 (s\<lparr>ram := m\<rparr>)"
  have r: "2 \<le> fd" "fd < 8" using least_free_range [OF fd] o(1) by (simp_all add: user_ok_def)
  have f: "screen_x t = screen_x s" "screen_y t = screen_y s" "disp_terminal t = disp_terminal s" "scheduled_terminal t = scheduled_terminal s"
    "same_image s t" "ifl t = ifl s" by (simp_all add: t_def set_file_def same_image_def)
  have ag: "agree_outside [(?d, 40)] (ram t) (ram s)" using m(2) by (simp add: t_def agree_outside_def)
  have "files_ok (file_array (cur_proc t))"
    using o(1) files_ok_upd [of "file_array (cur_proc s)" fd] r by (simp add: user_ok_def t_def)
  then have "test_ok e lit k scr t" by (intro test_ok_kept [OF ok ag _ f]) simp_all
  moreover have "open_files t = (open_files s)(fd \<mapsto> (dir_table, 0, 0))" using r by (simp add: t_def open_files_set_file)
  ultimately show thesis using that m(1) by (simp add: t_def)
qed

lemma test_ok_close:
  assumes ok: "test_ok e lit k scr s"
  shows "test_ok e lit k scr (snd (sys_close fd s))"
proof (rule test_ok_kept [OF ok, where rs = "[]"])
  show "files_ok (file_array (cur_proc (snd (sys_close fd s))))"
    by (rule sys_close_views(3)) (use ok in \<open>simp add: test_ok_def user_ok_def\<close>)
qed (simp_all add: sys_close_def same_image_def)

interpretation dir_descriptors: descriptor_table open_files "opened (env_dentry e) (env_temp e) (lit [46])" sys_close
  "(dir_table, 0, 0)" "test_ok e lit k scr"
  for e :: "'a rtc_scheme env" and lit k scr
proof unfold_locales
  fix s :: "'a rtc_scheme" and fd :: i32 assume ok: "test_ok e lit k scr s"
  have r: "files_ok (file_array (cur_proc s))" using ok by (simp add: test_ok_def user_ok_def)
  note c = sys_close_views [OF r]
  show full: "opened (env_dentry e) (env_temp e) (lit [46]) s = (-1, s)" if "\<forall>fd \<in> {0..7}. open_files s fd \<noteq> None"
    by (simp add: sys_open_def full_find [OF that])
  show "fst (opened (env_dentry e) (env_temp e) (lit [46]) s) = fd
      \<and> open_files (snd (opened (env_dentry e) (env_temp e) (lit [46]) s)) = (open_files s)(fd \<mapsto> (dir_table, 0, 0))"
    if fd: "least_free (open_files s) fd"
    by (rule test_ok_open [OF ok fd]) simp
  show "test_ok e lit k scr (snd (opened (env_dentry e) (env_temp e) (lit [46]) s))"
  proof (cases "\<forall>fd \<in> {0..7}. open_files s fd \<noteq> None")
    case False
    then obtain d where "d \<in> {0..7}" "open_files s d = None" by blast
    then obtain fd where "least_free (open_files s) fd" using least_free_exists [of "open_files s" d] by auto
    then show ?thesis by (rule test_ok_open [OF ok]) simp
  qed (simp add: full ok)
  show "test_ok e lit k scr (snd (sys_close fd s))" by (rule test_ok_close [OF ok])
  show "open_files s 0 \<noteq> None \<and> open_files s 1 \<noteq> None" using r by (simp add: open_files_def files_ok_def)
  show "sys_close fd s = (-1, s)" if "fd \<notin> {2..7} \<or> open_files s fd = None" using c(1) that by blast
  show "fst (sys_close fd s) = 1 \<and> open_files (snd (sys_close fd s)) = (open_files s)(fd := None)"
    if "fd \<in> {2..7}" "open_files s fd \<noteq> None" using c(2) that by blast
qed

abbreviation (input) opened_dir :: "'a rtc_scheme env \<Rightarrow> (u8 list \<Rightarrow> u32) \<Rightarrow> 'a rtc_scheme \<Rightarrow> i32 \<times> 'a rtc_scheme" where
  "opened_dir e lit \<equiv> opened (env_dentry e) (env_temp e) (lit [46])"

lemma user_open_dir:
  assumes ok: "test_ok e lit k scr s"
  shows "user_call e Sys_Open (lit [46]) 0 0 s = Some (opened_dir e lit s)"
proof (cases "\<forall>fd \<in> {0..7}. open_files s fd \<noteq> None")
  case True
  have "sys_open (env_dentry e) (env_temp e) (lit [46]) s = Some (-1, s)" by (simp add: sys_open_def full_find [OF True])
  then show ?thesis using ok by (simp add: user_call_def of_result_def test_ok_def)
next
  case False
  then obtain d where "d \<in> {0..7}" "open_files s d = None" by blast
  then obtain fd where fd: "least_free (open_files s) fd" using least_free_exists [of "open_files s" d] by auto
  then have "sint (of_int fd :: u32) = fd" by (intro sint_fd) (simp_all add: least_free_def)
  then show ?thesis
    by (rule_tac test_ok_open [OF ok fd]) (use ok in \<open>simp add: user_call_def of_result_def test_ok_def\<close>)
qed

lemma open_lots_counts:
  "test_ok e lit k scr s \<Longrightarrow> \<exists>t. open_lots e lit n cnt s
     = Some (cnt + int (length (filter (\<lambda>v. v = -1) (opens (opened_dir e lit) n s))), t) \<and> test_ok e lit k scr t"
proof (induction n arbitrary: cnt s)
  case (Suc n)
  obtain v u where u: "opened_dir e lit s = (v, u)" by fastforce
  have "test_ok e lit k scr u" using dir_descriptors.opn_ok [OF Suc.prems] u by simp
  from Suc.IH [OF this, of "if -1 = v then cnt + 1 else cnt"]
  obtain t where "open_lots e lit n (if -1 = v then cnt + 1 else cnt) u = Some ((if -1 = v then cnt + 1 else cnt)
      + int (length (filter (\<lambda>v. v = -1) (opens (opened_dir e lit) n u))), t)" "test_ok e lit k scr t" by blast
  then show ?case using user_open_dir [OF Suc.prems] u by (intro exI [of _ t]) auto
qed simp

lemma close_fds_all:
  "test_ok e lit k scr s \<Longrightarrow> set is \<subseteq> {2..7} \<Longrightarrow> \<exists>t. close_fds e is s = Some t \<and> test_ok e lit k scr t
     \<and> (\<forall>fd. open_files t fd = (if fd \<in> set is then None else open_files s fd))"
proof (induction "is" arbitrary: s)
  case (Cons i "is")
  have i: "2 \<le> i" "i \<le> 7" "set is \<subseteq> {2..7}" using Cons.prems(2) by auto
  define u where "u = snd (sys_close i s)"
  have ok: "test_ok e lit k scr u" unfolding u_def by (rule test_ok_close [OF Cons.prems(1)])
  have cl: "user_call e Sys_Close (of_int i) 0 0 s = Some (sys_close i s)"
  proof -
    have "sint (of_int (fst (sys_close i s)) :: u32) = fst (sys_close i s)" by (simp add: sys_close_def)
    then show ?thesis using Cons.prems(1) i by (simp add: user_call_def of_result_def test_ok_def sint_fd split_def)
  qed
  have tab: "open_files u = (open_files s)(i := None)"
    using dir_descriptors.cls_bad [OF Cons.prems(1), of i] dir_descriptors.cls_open [OF Cons.prems(1), of i] i(1,2)
    by (cases "open_files s i = None") (auto simp: u_def fun_upd_idem)
  obtain t where "close_fds e is u = Some t" "test_ok e lit k scr t"
    "\<forall>fd. open_files t fd = (if fd \<in> set is then None else open_files u fd)"
    using Cons.IH [OF ok i(3)] by blast
  then show ?case using cl tab by (intro exI [of _ t]) (auto simp: u_def split_def)
qed simp

lemma err_open_lots_passes: "passes e lit (err_open_lots e lit) (passed ''err_open_lots'')"
  unfolding passes_def
proof (intro allI impI)
  fix k scr and s :: "'a rtc_scheme" assume ok: "test_ok e lit k scr s" "fresh_files s"
  have "opens (opened_dir e lit) 7 s = map (\<lambda>i. if 2 + int i \<le> 7 then 2 + int i else -1) [0..<7]"
    by (rule dir_descriptors.opens_results [OF ok(1)]) (use ok(2) in \<open>simp_all add: fresh_files_def\<close>)
  also have "\<dots> = [2, 3, 4, 5, 6, 7, -1]" by (simp add: upt_rec)
  finally have r: "opens (opened_dir e lit) 7 s = [2, 3, 4, 5, 6, 7, -1]" .
  obtain u where u: "open_lots e lit 7 0 s = Some (1, u)" "test_ok e lit k scr u"
    using open_lots_counts [OF ok(1), of 7 0] unfolding r by auto
  obtain v where v: "close_fds e [2..7] u = Some v" "test_ok e lit k scr v"
    "\<forall>fd. open_files v fd = (if fd \<in> set [2..7] then None else open_files u fd)"
    using close_fds_all [OF u(2), of "[2..7]"] by auto
  obtain t where t: "ece391_fdputs e 1 (lit (passed ''err_open_lots'')) v = Some t"
    "test_ok e lit k (type_on k (passed ''err_open_lots'') scr) t" "open_files t = open_files v"
    by (rule test_says [OF v(2) passed_literals(3)])
  have "open_files v fd \<noteq> None \<longleftrightarrow> fd < 2" if "fd \<in> {0..7}" for fd
  proof (cases "fd < 2")
    case True
    then have "fd = 0 \<or> fd = 1" using that by auto
    then show ?thesis using dir_descriptors.std_open [OF v(2)] True by auto
  next
    case False
    then have "fd \<in> set [2..7]" unfolding set_upto using that by simp
    then show ?thesis using spec [OF v(3), of fd] False by (simp only: if_True simp_thms)
  qed
  then have "fresh_files v" by (simp add: fresh_files_def)
  moreover have "passed ''err_open_lots'' = text_line ''err_open_lots: PASS''" by (simp add: passed_def)
  ultimately show "\<exists>t. err_open_lots e lit s = Some (0, t) \<and> test_ok e lit k (type_on k (passed ''err_open_lots'') scr) t \<and> fresh_files t"
    using u(1) v(1) t by (intro exI [of _ t]) (simp only: err_open_lots_def Option.bind.simps prod.case simp_thms if_True fresh_files_def)
qed

section \<open>All tests\<close>

definition all_tests :: "string list" where
  "all_tests = [''err_neg_fd'', ''err_big_fd'', ''err_open_lots'', ''err_open'', ''err_unopened'', ''err_vidmap'', ''err_stdin_out'', ''err_syscall_num'']"

text \<open>After \<open>n\<close> of the tests their verdicts are on the screen.\<close>

definition after_tests :: "'a rtc_scheme env \<Rightarrow> (u8 list \<Rightarrow> u32) \<Rightarrow> u8 \<Rightarrow> (u8 \<Rightarrow> screen option) \<Rightarrow> nat \<Rightarrow> 'a rtc_scheme \<Rightarrow> bool" where
  "after_tests e lit k scr n s \<longleftrightarrow>
     test_ok e lit k (type_on k (concat (map passed (take n all_tests))) scr) s \<and> fresh_files s"

lemma after_next:
  assumes "after_tests e lit k scr n s" "passes e lit test (passed name)" "n < 8" "all_tests ! n = name"
  obtains t where "test s = Some (0, t)" "after_tests e lit k scr (Suc n) t"
proof -
  have "length all_tests = 8" by (simp add: all_tests_def)
  then have "take (Suc n) all_tests = take n all_tests @ [name]"
    using assms(3,4) by (simp add: take_Suc_conv_app_nth)
  then have "type_on k (passed name) (type_on k (concat (map passed (take n all_tests))) scr)
      = type_on k (concat (map passed (take (Suc n) all_tests))) scr"
    by (simp add: type_on_append)
  then show thesis using assms(1,2) that unfolding passes_def after_tests_def by metis
qed

lemma run_all_passes: "passes e lit (run_all e lit buf regs) (concat (map passed all_tests) @ 10 # passed ''Overall Tests'')"
  unfolding passes_def
proof (intro allI impI)
  fix k scr and s :: "'a rtc_scheme" assume "test_ok e lit k scr s" "fresh_files s"
  then have s0: "after_tests e lit k scr 0 s" by (simp add: after_tests_def)
  have nth: "all_tests ! 0 = ''err_neg_fd''" "all_tests ! Suc 0 = ''err_big_fd''" "all_tests ! Suc (Suc 0) = ''err_open_lots''"
    "all_tests ! Suc (Suc (Suc 0)) = ''err_open''" "all_tests ! Suc (Suc (Suc (Suc 0))) = ''err_unopened''"
    "all_tests ! Suc (Suc (Suc (Suc (Suc 0)))) = ''err_vidmap''" "all_tests ! Suc (Suc (Suc (Suc (Suc (Suc 0))))) = ''err_stdin_out''"
    "all_tests ! Suc (Suc (Suc (Suc (Suc (Suc (Suc 0)))))) = ''err_syscall_num''" by (simp_all add: all_tests_def)
  obtain s1 where s1: "err_neg_fd e lit buf s = Some (0, s1)" "after_tests e lit k scr (Suc 0) s1"
    by (rule after_next [OF s0 err_neg_fd_passes _ nth(1)]) simp_all
  obtain s2 where s2: "err_big_fd e lit buf s1 = Some (0, s2)" "after_tests e lit k scr (Suc (Suc 0)) s2"
    by (rule after_next [OF s1(2) err_big_fd_passes _ nth(2)]) simp_all
  obtain s3 where s3: "err_open_lots e lit s2 = Some (0, s3)" "after_tests e lit k scr (Suc (Suc (Suc 0))) s3"
    by (rule after_next [OF s2(2) err_open_lots_passes _ nth(3)]) simp_all
  obtain s4 where s4: "err_open e lit s3 = Some (0, s4)" "after_tests e lit k scr (Suc (Suc (Suc (Suc 0)))) s4"
    by (rule after_next [OF s3(2) err_open_passes _ nth(4)]) simp_all
  obtain s5 where s5: "err_unopened e lit buf s4 = Some (0, s5)" "after_tests e lit k scr (Suc (Suc (Suc (Suc (Suc 0))))) s5"
    by (rule after_next [OF s4(2) err_unopened_passes _ nth(5)]) simp_all
  obtain s6 where s6: "err_vidmap e lit s5 = Some (0, s6)" "after_tests e lit k scr (Suc (Suc (Suc (Suc (Suc (Suc 0)))))) s6"
    by (rule after_next [OF s5(2) err_vidmap_passes _ nth(6)]) simp_all
  obtain s7 where s7: "err_stdin_out e lit buf s6 = Some (0, s7)" "after_tests e lit k scr (Suc (Suc (Suc (Suc (Suc (Suc (Suc 0))))))) s7"
    by (rule after_next [OF s6(2) err_stdin_out_passes _ nth(7)]) simp_all
  obtain s8 where s8: "err_syscall_num e lit regs s7 = Some (0, s8)"
    "after_tests e lit k scr (Suc (Suc (Suc (Suc (Suc (Suc (Suc (Suc 0)))))))) s8"
    by (rule after_next [OF s7(2) err_syscall_num_passes _ nth(8)]) simp_all
  have s8': "test_ok e lit k (type_on k (concat (map passed all_tests)) scr) s8" "fresh_files s8"
    using s8(2) by (simp_all add: after_tests_def all_tests_def)
  obtain t where t: "ece391_fdputs e 1 (lit (10 # passed ''Overall Tests'')) s8 = Some t"
    "test_ok e lit k (type_on k (10 # passed ''Overall Tests'') (type_on k (concat (map passed all_tests)) scr)) t"
    "open_files t = open_files s8"
    by (rule test_says [OF s8'(1) passed_literals(9)])
  have "passed ''Overall Tests'' = text_line ''Overall Tests: PASS''" by (simp add: passed_def)
  then have "run_all e lit buf regs s = Some (0, t)"
    using t(1) by (simp add: run_all_def s1(1) s2(1) s3(1) s4(1) s5(1) s6(1) s7(1) s8(1) verdict_def)
  moreover have "test_ok e lit k (type_on k (concat (map passed all_tests) @ 10 # passed ''Overall Tests'') scr) t"
    using t(2) by (simp only: type_on_append)
  moreover have "fresh_files t" using t(3) s8'(2) by (simp add: fresh_files_def)
  ultimately show "\<exists>t. run_all e lit buf regs s = Some (0, t)
      \<and> test_ok e lit k (type_on k (concat (map passed all_tests) @ 10 # passed ''Overall Tests'') scr) t \<and> fresh_files t" by blast
qed

text \<open>
  The verdicts that \<open>main\<close> types for a choice, and a process at the prompt: the line entered on its
  terminal starts with the digit of the choice.
\<close>

definition verdicts :: "nat \<Rightarrow> u8 list" where
  "verdicts select = (if select = 0 then concat (map passed all_tests) @ 10 # passed ''Overall Tests''
     else passed (all_tests ! (select - 1)))"

definition syserr_ready :: "'a rtc_scheme env \<Rightarrow> (u8 list \<Rightarrow> u32) \<Rightarrow> u32 \<Rightarrow> nat \<Rightarrow> 'a rtc_scheme \<Rightarrow> bool" where
  "syserr_ready e lit answer select s \<longleftrightarrow> test_ok e lit (scheduled_terminal s) (screens s) s \<and> fresh_files s
     \<and> terminal_read_flag s (scheduled_terminal s) \<noteq> 0 \<and> (\<exists>rest. pending_line 127 s = of_nat (48 + select) # rest)
     \<and> answer \<noteq> 0 \<and> apart_tests lit s (answer, 128)"

lemma run_test_passes:
  assumes "select \<le> 8"
  shows "passes e lit (run_test e lit buf regs (int select)) (verdicts select)"
proof -
  have "select = 0 \<or> select = 1 \<or> select = 2 \<or> select = 3 \<or> select = 4 \<or> select = 5 \<or> select = 6 \<or> select = 7 \<or> select = 8"
    using assms by linarith
  then show ?thesis
    using run_all_passes [of e lit buf regs] err_neg_fd_passes [of e lit buf] err_big_fd_passes [of e lit buf] err_open_lots_passes [of e lit]
      err_open_passes [of e lit] err_unopened_passes [of e lit buf] err_vidmap_passes [of e lit] err_stdin_out_passes [of e lit buf]
      err_syscall_num_passes [of e lit regs]
    by (elim disjE) (simp_all add: run_test_def [abs_def] verdicts_def all_tests_def)
qed

lemma syserr_answers:
  assumes ready: "syserr_ready e lit answer select s" and sel: "select \<le> 8"
  obtains t cnt where "ece391_fdputs e 1 (lit choose_prompt) s = Some t" "cnt \<noteq> -1"
    "\<exists>u. user_call e Sys_Read 0 answer 127 t = Some (cnt, u) \<and> unat (ram u answer) = 48 + select \<and> fresh_files u
      \<and> test_ok e lit (scheduled_terminal s) (type_on (scheduled_terminal s) choose_prompt (screens s)) u"
proof -
  let ?k = "scheduled_terminal s"
  have r: "test_ok e lit ?k (screens s) s" "fresh_files s" "terminal_read_flag s ?k \<noteq> 0" "answer \<noteq> 0" "apart_tests lit s (answer, 128)"
    using ready by (simp_all add: syserr_ready_def)
  obtain rest where rest: "pending_line 127 s = of_nat (48 + select) # rest" using ready by (auto simp: syserr_ready_def)
  have o: "user_ok s" "test_env e lit s" using r(1) by (simp_all add: test_ok_def)
  obtain t where t: "ece391_fdputs e 1 (lit choose_prompt) s = Some t" "test_ok e lit ?k (type_on ?k choose_prompt (screens s)) t"
    "open_files t = open_files s" "printed_only s t"
    by (rule test_says [OF r(1) passed_literals(10)])
  have m: "console.more t = console.more s" using t(4) by (simp add: printed_only_def)
  note k = printed_only_keeps [OF t(4)]
  have pl: "pending_line 127 t = of_nat (48 + select) # rest" using rest by (simp add: pending_line_def above_console [OF m])
  have ok: "user_ok t" "ifl t" "scheduled_terminal t = ?k" using t(2) by (simp_all add: test_ok_def)
  have fl: "terminal_read_flag t (scheduled_terminal t) \<noteq> 0" using r(3) ok(3) by (simp add: above_console [OF m])
  define u where "u = t\<lparr>ram := write_bytes (ram t) answer (pending_line 127 t @ [10]),
       terminal_read_flag := (terminal_read_flag t)(scheduled_terminal t := 0),
       terminal_buffer := \<lambda>i. if 0 \<le> i \<and> i \<le> 127 then 0 else terminal_buffer t i\<rparr>"
  have rd: "user_call e Sys_Read 0 answer 127 t = Some (int (length (pending_line 127 t)) + 1, u)"
    using user_call_readline [OF ok(1) r(4) fl, of 127 e] ok(2) by (simp add: u_def)
  have len: "length (pending_line 127 t @ [10]) \<le> 128"
    using length_takeWhile_le [of "\<lambda>c. c \<noteq> 0" "map (\<lambda>j. terminal_buffer t (int j)) [0..<127]"] by (simp add: pending_line_def)
  have "apart_tests lit t (answer, 128)"
    using r(5) k(1-3) by (simp add: apart_tests_def same_image_def)
  moreover have "agree_outside [(env_dentry e, 40), (answer, 128)] (ram u) (ram t)"
    unfolding u_def by (simp, rule agree_outside_write [of answer 128]) (use len in simp_all)
  ultimately have kept: "test_ok e lit ?k (type_on ?k choose_prompt (screens s)) u"
    by (intro test_ok_kept [OF t(2), where rs = "[(answer, 128)]"]) (use ok(1) in \<open>simp_all add: u_def same_image_def user_ok_def\<close>)
  have "open_files u = open_files s" unfolding t(3) [symmetric] by (simp add: u_def open_files_def fun_eq_iff)
  then have fresh: "fresh_files u" using r(2) by (simp add: fresh_files_def)
  have digit: "ram u answer = of_nat (48 + select)"
    using len write_bytes_in [of "pending_line 127 t @ [10]" 0 "ram t" answer] by (simp add: u_def pl)
  have "unat (of_nat (48 + select) :: u8) = 48 + select" using sel unfolding unat_of_nat by simp
  with digit have "unat (ram u answer) = 48 + select" by (simp only:)
  then show thesis using that [OF t(1) _ exI, of "int (length (pending_line 127 t)) + 1" u] rd kept fresh by simp
qed

section \<open>Properties\<close>

text \<open>
  C8: the test program of the system calls passes on this kernel: for every choice from 0 to 8 it
  types the prompt and then exactly the PASS verdicts of the tests it runs, and returns 0.
\<close>

theorem syserr_passes:
  assumes "syserr_ready e lit answer select s" "select \<le> 8"
  shows "\<exists>t. syserr_main e lit answer buf regs s = Some (0, t)
    \<and> screens t = type_on (scheduled_terminal s) (choose_prompt @ verdicts select) (screens s)"
proof -
  obtain t cnt u where t: "ece391_fdputs e 1 (lit choose_prompt) s = Some t" "cnt \<noteq> -1"
    "user_call e Sys_Read 0 answer 127 t = Some (cnt, u)" "unat (ram u answer) = 48 + select" "fresh_files u"
    "test_ok e lit (scheduled_terminal s) (type_on (scheduled_terminal s) choose_prompt (screens s)) u"
    using syserr_answers [OF assms] by blast
  obtain v where "run_test e lit buf regs (int select) u = Some (0, v)"
    "test_ok e lit (scheduled_terminal s) (type_on (scheduled_terminal s) (verdicts select)
      (type_on (scheduled_terminal s) choose_prompt (screens s))) v"
    using run_test_passes [OF assms(2), of e lit buf regs] t(5,6) unfolding passes_def by blast
  moreover have "int (unat (ram u answer)) - 48 = int select" using t(4) by simp
  ultimately show ?thesis using t(1-3)
    by (simp add: syserr_main_def type_on_append test_ok_def eq_commute [of "-1"] del: of_nat_unat int_nat_eq)
qed

text \<open>A process for the witness: its literals are in a pool; the line entered is "0".\<close>

definition syserr_start :: rtc where
  "syserr_start = user_start\<lparr>ram := literal_pool syserr_literals user_mem, ifl := True, terminal_buffer := (\<lambda>i. if i = 0 then 48 else 0)\<rparr>"

abbreviation syserr_slot :: "u8 list \<Rightarrow> u32" where
  "syserr_slot \<equiv> literal_slot syserr_literals"

lemma syserr_literals_short: "short_literals syserr_literals"
  unfolding short_literals_def syserr_literals_def passed_def text_line_def choose_prompt_def by (auto split: if_splits)

lemma length_syserr_literals: "length syserr_literals = 14"
  by (simp add: syserr_literals_def)

lemma syserr_start_env: "test_env user_env syserr_slot syserr_start"
proof -
  have ap: "apart a n syserr_start = apart a n user_start" for a n by (simp add: apart_def term_base_def syserr_start_def)
  have own: "own_screen syserr_start = (0xB8000, 4000)" by (simp add: own_screen_def term_base_def syserr_start_def)
  have e: "env_dentry user_env = 0x710000" by (simp add: user_env_def)
  have lit: "literal_ok user_env syserr_slot l syserr_start" if l: "l \<in> set syserr_literals" for l
  proof -
    note p = pool_literal [OF syserr_literals_short l]
    have "disjoint_regions 0x710000 40 (syserr_slot l) (Suc (length l))" by (rule p(4)) simp
    then show ?thesis using p(1-3) by (simp add: literal_ok_def ap e) (simp add: syserr_start_def)
  qed
  have same: "same_image user_start syserr_start" by (simp add: same_image_def syserr_start_def)
  have ag: "agree_outside [(0x730000, 896)] (ram syserr_start) (ram user_start)"
    by (simp add: agree_outside_def literal_pool_def syserr_start_def length_syserr_literals)
  have boot: "disjoint_regions 0x730000 896 0x500000 4096" "disjoint_regions 0x710000 40 0x500000 4096" "disjoint_regions 0xB8000 4000 0x500000 4096"
    by (rule regions_sep; simp)+
  have kept: "dir_kept (ram syserr_start) user_start" by (rule agree_outside_dir [OF ag]) (use boot in simp)
  have lk: "lookup syserr_start n = lookup user_start n" for n
    using same_image_views(1) [OF same] dir_kept_lookup [OF kept] by simp
  have "entry_type syserr_start 0 = 1"
    using entry_type_same [OF same] dir_kept_entries(2) [OF kept, of 0] user_start_names(4) by simp
  moreover have "lookup user_start n = None" if "take 31 n \<notin> {[46], [97]}" for n
    by (rule user_start_names(3) [OF that])
  moreover have "num_dentry syserr_start = 2" "boot_block_ptr syserr_start = 0x500000" by (simp_all add: syserr_start_def)
  moreover have "apart 0x710000 40 user_start" by (rule user_start_apart) simp_all
  ultimately show ?thesis using lit boot user_start_names(1) by (simp add: test_env_def lk ap own e)
qed

theorem syserr_passes_witness:
  "\<exists>t. syserr_main user_env syserr_slot 0x720000 0x740000 (0, 0, 0) syserr_start = Some (0, t)
    \<and> screens t = type_on 0 (choose_prompt @ concat (map passed all_tests) @ 10 # passed ''Overall Tests'') (screens syserr_start)"
proof -
  have lits: "disjoint_regions 0x720000 128 (syserr_slot l) (Suc (length l))" if l: "l \<in> set syserr_literals" for l
    by (rule pool_literal(4) [OF syserr_literals_short l]) simp
  have "disjoint_regions 0x720000 128 0x500000 4096" by (rule regions_sep) simp
  moreover have "apart 0x720000 128 user_start" by (rule user_start_apart) simp_all
  then have "apart 0x720000 128 syserr_start" by (simp add: apart_def term_base_def syserr_start_def)
  ultimately have a: "apart_tests syserr_slot syserr_start (0x720000, 128)" using lits by (simp add: apart_tests_def) (simp add: syserr_start_def)
  have "screen_ok syserr_start = screen_ok user_start" by (rule screen_ok_cong) (simp_all add: syserr_start_def)
  then have ok: "user_ok syserr_start" using user_start_ok by (simp add: user_ok_def) (simp add: syserr_start_def)
  have "open_files syserr_start = open_files user_start" by (simp add: open_files_def fun_eq_iff syserr_start_def)
  then have "fresh_files syserr_start" using user_start_fresh by (simp add: fresh_files_def del: not_None_eq)
  moreover have "pending_line 127 syserr_start = [48]" by (simp add: pending_line_def upt_rec syserr_start_def)
  ultimately have "syserr_ready user_env syserr_slot 0x720000 0 syserr_start"
    using a ok syserr_start_env by (simp add: syserr_ready_def test_ok_def) (simp add: syserr_start_def)
  from syserr_passes [OF this, of "0x740000" "(0, 0, 0)"] show ?thesis by (simp add: verdicts_def) (simp add: syserr_start_def)
qed

end
