(* ===== verification/Counter.thy ===== *)
theory Counter
  imports Shell "HOL-Library.Monad_Syntax"
begin

text \<open>
  Two more user programs: the one that counts (syscalls/ece391counter.c), which renders numbers with
  the library's \<open>itoa\<close> into the buffer it has read its answer to, and the one that greets
  (syscalls/ece391testprint.c). \<open>lit\<close> gives the address of a string literal.
\<close>

section \<open>Operations\<close>

definition testprint_main :: "'a rtc_scheme env \<Rightarrow> (u8 list \<Rightarrow> u32) \<Rightarrow> 'a rtc_scheme \<Rightarrow> (i32 \<times> 'a rtc_scheme) option" where
  "testprint_main e lit s = do {
     s \<leftarrow> ece391_fdputs e 1 (lit (text_line ''Hello, if this ran, the program was correct. Yay!'')) s;
     Some (0, s) }"

function count_loop :: "'a rtc_scheme env \<Rightarrow> (u8 list \<Rightarrow> u32) \<Rightarrow> u32 \<Rightarrow> u32 \<Rightarrow> u32 \<Rightarrow> 'a rtc_scheme \<Rightarrow> 'a rtc_scheme option" where
  "count_loop e lit buf limit i s =
     (if i < limit then do {
        m \<leftarrow> ece391_itoa (ram s) (i + 1) buf 10;
        s \<leftarrow> ece391_fdputs e 1 buf (s\<lparr>ram := m\<rparr>);
        s \<leftarrow> ece391_fdputs e 1 (lit [10]) s;
        count_loop e lit buf limit (i + 1) s }
      else Some s)"
  by pat_completeness auto
termination
  by (relation "measure (\<lambda>(e, lit, buf, limit, i, s). unat (limit - i))") (auto, unat_arith)

declare count_loop.simps [simp del]

definition count_prompt :: "u8 list" where
  "count_prompt = text_line ''Enter the Test Number: (0): 100, (1): 10000, (2): 100000''"

definition wrong_choice :: "u8 list" where
  "wrong_choice = text_line ''Wrong Choice!''"

text \<open>The line that was read is in the buffer as a string.\<close>

definition count_choice :: "'a rtc_scheme env \<Rightarrow> (u8 list \<Rightarrow> u32) \<Rightarrow> u32 \<Rightarrow> 'a rtc_scheme \<Rightarrow> (i32 \<times> 'a rtc_scheme) option" where
  "count_choice e lit buf s = do {
     n \<leftarrow> ece391_strlen (ram s) buf;
     if n > 2 \<or> n = 2 \<and> (ram s buf < 48 \<or> ram s buf > 50)
     then do { s \<leftarrow> ece391_fdputs e 1 (lit wrong_choice) s; Some (0, s) }
     else do {
       let limit = (if ram s buf = 48 then 100 else if ram s buf = 49 then 10000 else if ram s buf = 50 then 100000 else 0);
       s \<leftarrow> count_loop e lit buf limit 0 s;
       Some (0, s) } }"

definition counter_main :: "'a rtc_scheme env \<Rightarrow> (u8 list \<Rightarrow> u32) \<Rightarrow> u32 \<Rightarrow> 'a rtc_scheme \<Rightarrow> (i32 \<times> 'a rtc_scheme) option" where
  "counter_main e lit buf s = do {
     s \<leftarrow> ece391_fdputs e 1 (lit count_prompt) s;
     (cnt, s) \<leftarrow> user_call e Sys_Read 0 buf 1023 s;
     if -1 = cnt
     then do { s \<leftarrow> ece391_fdputs e 1 (lit (text_line (''Can'' @ CHR 39 # ''t read the number from keyboard.''))) s; Some (3, s) }
     else count_choice e lit buf (s\<lparr>ram := (ram s)(buf + of_int cnt := 0)\<rparr>) }"

section \<open>The state the program keeps\<close>

definition count_literals :: "u8 list list" where
  "count_literals = [count_prompt, wrong_choice, [10]]"

definition count_ok :: "(u8 list \<Rightarrow> u32) \<Rightarrow> u32 \<Rightarrow> u8 \<Rightarrow> (u8 \<Rightarrow> screen option) \<Rightarrow> 'a rtc_scheme \<Rightarrow> bool" where
  "count_ok lit buf k scr s \<longleftrightarrow> user_ok s \<and> scheduled_terminal s = k \<and> screens s = scr \<and> buf \<noteq> 0 \<and> apart buf 1024 s
     \<and> (\<forall>l \<in> set count_literals. cstr (ram s) (lit l) l \<and> lit l \<noteq> 0 \<and> apart (lit l) (Suc (length l)) s
          \<and> disjoint_regions buf 1024 (lit l) (Suc (length l)))"

lemma count_literals_in: "count_prompt \<in> set count_literals" "wrong_choice \<in> set count_literals" "[10] \<in> set count_literals"
  by (simp_all add: count_literals_def)

lemma count_literals_length: "l \<in> set count_literals \<Longrightarrow> length l < 2147483648"
  by (auto simp: count_literals_def count_prompt_def wrong_choice_def text_line_def)

text \<open>Typing, and writing to the buffer, keep the literals.\<close>

lemma count_ok_kept:
  assumes ok: "count_ok lit buf k scr s" and u: "user_ok t" "screens t = scr'"
    and d: "disp_terminal t = disp_terminal s" "scheduled_terminal t = scheduled_terminal s"
    and ag: "agree_outside [own_screen s, (buf, 1024)] (ram t) (ram s)"
  shows "count_ok lit buf k scr' t"
proof -
  have ap: "apart a n t = apart a n s" for a n using d(1) by (simp add: apart_def term_base_def)
  have sch: "scheduled_terminal s < 3" using ok by (auto simp: count_ok_def user_ok_sched)
  have "cstr (ram t) (lit l) l" if l: "l \<in> set count_literals" for l
  proof (rule agree_outside_cstr [OF ag])
    show "cstr (ram s) (lit l) l" using ok l by (simp add: count_ok_def)
    have "disjoint_regions (term_base (scheduled_terminal s) s) 4000 (lit l) (Suc (length l))"
      using ok l sch by (auto simp: count_ok_def apart_def intro: disjoint_regions_sym)
    then show "\<forall>r \<in> set [own_screen s, (buf, 1024)]. disjoint_regions (fst r) (snd r) (lit l) (Suc (length l))"
      using ok l by (simp add: count_ok_def own_screen_region)
  qed
  then show ?thesis using ok u d(2) by (simp add: count_ok_def ap)
qed

lemma count_says:
  assumes ok: "count_ok lit buf k scr s" and str: "cstr (ram s) a str" "apart a (length str) s" "a \<noteq> 0" "length str < 2147483648"
  obtains t where "ece391_fdputs e 1 a s = Some t" "count_ok lit buf k (type_on k str scr) t" "printed_only s t"
proof -
  have o: "user_ok s" "scheduled_terminal s = k" "screens s = scr" using ok by (simp_all add: count_ok_def)
  obtain t where t: "ece391_fdputs e 1 a s = Some t" "user_ok t" "printed_only s t"
    "screens t = type_on (scheduled_terminal s) str (screens s)"
    using fdputs_types [OF o(1) str, of e] by blast
  have "agree_outside [own_screen s, (buf, 1024)] (ram t) (ram s)"
    by (rule agree_outside_mono [of "[own_screen s]"]) (use t(3) in \<open>simp_all add: printed_only_def\<close>)
  then have "count_ok lit buf k (type_on k str scr) t"
    by (intro count_ok_kept [OF ok t(2)]) (use t(3,4) o in \<open>simp_all add: printed_only_def\<close>)
  then show thesis using that t(1,3) by blast
qed

lemma count_says_literal:
  assumes ok: "count_ok lit buf k scr s" and l: "l \<in> set count_literals"
  obtains t where "ece391_fdputs e 1 (lit l) s = Some t" "count_ok lit buf k (type_on k l scr) t" "printed_only s t"
proof -
  have "cstr (ram s) (lit l) l" "apart (lit l) (length l) s" "lit l \<noteq> 0"
    using ok l apart_less [of "lit l" "Suc (length l)" s "length l"] by (simp_all add: count_ok_def)
  then show thesis using count_says [OF ok _ _ _ count_literals_length [OF l], of "lit l" e] that by blast
qed

text \<open>The buffer may be written.\<close>

lemma count_buffer:
  assumes ok: "count_ok lit buf k scr s" and n: "length bs \<le> 1024" and f: "screen_x t = screen_x s" "screen_y t = screen_y s"
    "disp_terminal t = disp_terminal s" "scheduled_terminal t = scheduled_terminal s" "cur_proc t = cur_proc s"
    and m: "ram t = write_bytes (ram s) buf bs"
  shows "count_ok lit buf k scr t"
proof -
  have o: "user_ok s" "screens s = scr" "apart buf 1024 s" using ok by (simp_all add: count_ok_def)
  have w: "agree_outside rs (ram t) (ram s)" if "(buf, 1024) \<in> set rs" for rs
    unfolding m by (rule agree_outside_write [OF that n])
  have "screens t = scr" using screens_kept(1) [OF w [of "[(buf, 1024)]"] _ f(1-3)] o by simp
  moreover have "user_ok t" using o(1) screen_ok_cong [OF f(1-4)] by (simp add: user_ok_def f(5))
  ultimately show ?thesis by (intro count_ok_kept [OF ok _ _ f(3,4) w]) simp_all
qed

lemma count_step:
  assumes ok: "count_ok lit buf k scr s" and i: "i < limit"
  obtains t where "count_loop e lit buf limit i s = count_loop e lit buf limit (i + 1) t"
    "count_ok lit buf k (type_on k (numeral_string 10 (unat (i + 1)) @ [10]) scr) t"
proof -
  let ?n = "numeral_string 10 (unat (i + 1))"
  have len: "length ?n \<le> 32" "0 \<notin> set ?n"
    using numeral_string_length [of 10 "unat (i + 1)"] numeral_string_nonzero [of 10 "unat (i + 1)"] unat_lt_2p32 [of "i + 1"] by simp_all
  define u where "u = s\<lparr>ram := write_bytes (ram s) buf (?n @ [0])\<rparr>"
  have it: "ece391_itoa (ram s) (i + 1) buf 10 = Some (ram u)"
    using itoa_write [of 10 "ram s" "i + 1" buf] by (simp add: ece391_itoa_eq u_def)
  have u: "count_ok lit buf k scr u"
    by (rule count_buffer [OF ok, of "?n @ [0]"]) (use len in \<open>simp_all add: u_def\<close>)
  have "cstr (ram u) buf ?n" using cstr_write [of ?n "ram s" buf] len by (simp add: u_def)
  moreover have "apart buf (length ?n) u" "buf \<noteq> 0" using u apart_less [of buf 1024 u "length ?n"] len by (simp_all add: count_ok_def)
  ultimately obtain v where v: "ece391_fdputs e 1 buf u = Some v" "count_ok lit buf k (type_on k ?n scr) v"
    using count_says [OF u, of buf ?n e] len by auto
  obtain t where t: "ece391_fdputs e 1 (lit [10]) v = Some t" "count_ok lit buf k (type_on k [10] (type_on k ?n scr)) t"
    by (rule count_says_literal [OF v(2) count_literals_in(3)])
  have "count_loop e lit buf limit i s = count_loop e lit buf limit (i + 1) t"
    using i it v(1) t(1) by (subst count_loop.simps) (simp add: u_def)
  then show thesis using that t(2) by (simp only: type_on_append)
qed

text \<open>The numbers of the lines after the first \<open>i\<close>.\<close>

definition count_lines :: "nat \<Rightarrow> nat \<Rightarrow> u8 list" where
  "count_lines i limit = concat (map (\<lambda>j. numeral_string 10 (Suc j) @ [10]) [i..<limit])"

lemma count_loop_counts:
  assumes "count_ok lit buf k scr s"
  shows "\<exists>t. count_loop e lit buf limit i s = Some t \<and> count_ok lit buf k (type_on k (count_lines (unat i) (unat limit)) scr) t"
  using assms
proof (induction "unat (limit - i)" arbitrary: i s scr rule: less_induct)
  case less
  show ?case
  proof (cases "i < limit")
    case True
    obtain t where t: "count_loop e lit buf limit i s = count_loop e lit buf limit (i + 1) t"
      "count_ok lit buf k (type_on k (numeral_string 10 (unat (i + 1)) @ [10]) scr) t"
      by (rule count_step [OF less.prems True])
    have un: "unat (i + 1) = Suc (unat i)" "unat i < unat limit" "unat (limit - (i + 1)) < unat (limit - i)" using True by unat_arith+
    then have "count_lines (unat i) (unat limit) = (numeral_string 10 (unat (i + 1)) @ [10]) @ count_lines (unat (i + 1)) (unat limit)"
      by (simp add: count_lines_def upt_conv_Cons)
    then show ?thesis using less.hyps [OF un(3) t(2)] by (simp only: t(1) type_on_append)
  next
    case False
    then have "unat limit \<le> unat i" by unat_arith
    then show ?thesis using less.prems False by (subst count_loop.simps) (simp add: count_lines_def)
  qed
qed

text \<open>
  What the program types for a line: nothing for the empty line, the numbers for a line that is one
  of the three digits, the complaint for every other line.
\<close>

definition count_answer :: "u8 list \<Rightarrow> u8 list" where
  "count_answer str =
     (if str = [] then []
      else if str = [48] then count_lines 0 100
      else if str = [49] then count_lines 0 10000
      else if str = [50] then count_lines 0 100000
      else wrong_choice)"

lemma count_reads:
  assumes ok: "count_ok lit buf k scr s" and fl: "terminal_read_flag s k \<noteq> 0"
  obtains cnt t where "user_call e Sys_Read 0 buf 1023 s = Some (cnt, t)" "cnt \<noteq> -1"
    "count_ok lit buf k scr (t\<lparr>ram := (ram t)(buf + of_int cnt := 0)\<rparr>)"
    "cstr ((ram t)(buf + of_int cnt := 0)) buf (pending_line 1023 s @ [10])"
proof -
  let ?str = "pending_line 1023 s @ [10]"
  have o: "user_ok s" "buf \<noteq> 0" "scheduled_terminal s = k" using ok by (simp_all add: count_ok_def)
  have len: "length ?str \<le> 129" using length_pending_line [of 1023 s] by simp
  have "0 \<notin> set (pending_line 1023 s)" using set_takeWhileD unfolding pending_line_def by metis
  then have z: "0 \<notin> set ?str" by simp
  define t where "t = (sti s)\<lparr>ram := write_bytes (ram s) buf ?str,
       terminal_read_flag := (terminal_read_flag s)(scheduled_terminal s := 0),
       terminal_buffer := \<lambda>i. if 0 \<le> i \<and> i \<le> 127 then 0 else terminal_buffer s i\<rparr>"
  have rd: "user_call e Sys_Read 0 buf 1023 s = Some (int (length ?str), t)"
    using user_call_readline [OF o(1,2), of 1023 e] fl o(3) by (simp add: t_def)
  have r: "ram t = write_bytes (ram s) buf ?str" by (simp add: t_def)
  have m: "(ram t)(buf + of_int (int (length ?str)) := 0) = write_bytes (ram s) buf (?str @ [0])"
    unfolding write_bytes_snoc [of "ram s" buf ?str] r of_int_of_nat_eq by (rule refl)
  have "cstr (write_bytes (ram s) buf (?str @ [0])) buf ?str" using cstr_write [OF z] len by simp
  moreover have "count_ok lit buf k scr (t\<lparr>ram := write_bytes (ram s) buf (?str @ [0])\<rparr>)"
    by (rule count_buffer [OF ok, of "?str @ [0]"]) (use len in \<open>simp_all add: t_def\<close>)
  ultimately show thesis using that [OF rd] unfolding m by simp
qed

lemma count_decides:
  assumes ok: "count_ok lit buf k scr s" and str: "cstr (ram s) buf (str @ [10])" "length str \<le> 128"
  shows "\<exists>t. count_choice e lit buf s = Some (0, t) \<and> count_ok lit buf k (type_on k (count_answer str) scr) t"
proof -
  let ?c = "ram s buf"
  have sl: "ece391_strlen (ram s) buf = Some (of_nat (Suc (length str)))" using strlen_cstr [OF str(1)] by (simp add: ece391_strlen_eq)
  have un: "unat (of_nat (Suc (length str)) :: u32) = Suc (length str)" using str(2) by (simp only: unat_of_nat32)
  have n: "(2 :: u32) < of_nat (Suc (length str)) \<longleftrightarrow> 2 \<le> length str" "of_nat (Suc (length str)) = (2 :: u32) \<longleftrightarrow> length str = 1"
    unfolding word_less_nat_alt word_unat_eq_iff un by auto
  obtain w where w: "ece391_fdputs e 1 (lit wrong_choice) s = Some w" "count_ok lit buf k (type_on k wrong_choice scr) w"
    by (rule count_says_literal [OF ok count_literals_in(2)])
  have loop: "\<exists>t. count_loop e lit buf limit 0 s = Some t \<and> count_ok lit buf k (type_on k (count_lines 0 (unat limit)) scr) t" for limit
    using count_loop_counts [OF ok, of e limit 0] by simp
  have c: "?c = hd (str @ [10])" using str(1) by (cases str) (auto simp: cstr_def bytes_Suc)
  consider "str = []" | d where "str = [d]" | "2 \<le> length str" by (cases str; cases "tl str") auto
  then show ?thesis
  proof cases
    case 1
    then have "?c = 10" using c by simp
    then show ?thesis using 1 loop [of 0] by (simp add: count_choice_def sl count_answer_def count_lines_def) auto
  next
    case 2
    then have "?c = d" "(d < 48 \<or> 50 < d) \<longleftrightarrow> d \<notin> {48, 49, 50}" using c by (simp, simp, unat_arith)
    then show ?thesis using 2 n w loop [of 100] loop [of 10000] loop [of 100000] by (auto simp: count_choice_def sl count_answer_def)
  next
    case 3
    then show ?thesis using n w by (auto simp: count_choice_def sl count_answer_def)
  qed
qed

section \<open>Properties\<close>

text \<open>
  C12: \<open>counter\<close> counts: it types its prompt and then, for the lines "0", "1" and "2", the decimal
  numerals from 1 to 100, 10000 and 100000, each on a line of its own, nothing for the empty line and
  the complaint for any other line; it returns 0, and the buffer of the line, which it reuses for the
  numerals, is never overrun.
\<close>

theorem counter_counts:
  assumes "count_ok lit buf (scheduled_terminal s) (screens s) s" "terminal_read_flag s (scheduled_terminal s) \<noteq> 0"
  shows "\<exists>t. counter_main e lit buf s = Some (0, t)
    \<and> screens t = type_on (scheduled_terminal s) (count_prompt @ count_answer (pending_line 1023 s)) (screens s)
    \<and> count_ok lit buf (scheduled_terminal s) (screens t) t"
proof -
  let ?k = "scheduled_terminal s"
  obtain t where t: "ece391_fdputs e 1 (lit count_prompt) s = Some t" "count_ok lit buf ?k (type_on ?k count_prompt (screens s)) t"
    "printed_only s t"
    by (rule count_says_literal [OF assms(1) count_literals_in(1)])
  have m: "console.more t = console.more s" using t(3) by (simp add: printed_only_def)
  have line: "pending_line 1023 t = pending_line 1023 s" "terminal_read_flag t ?k \<noteq> 0"
    using assms(2) by (simp_all add: pending_line_def above_console [OF m])
  obtain cnt u where u: "user_call e Sys_Read 0 buf 1023 t = Some (cnt, u)" "cnt \<noteq> -1"
    "count_ok lit buf ?k (type_on ?k count_prompt (screens s)) (u\<lparr>ram := (ram u)(buf + of_int cnt := 0)\<rparr>)"
    "cstr ((ram u)(buf + of_int cnt := 0)) buf (pending_line 1023 s @ [10])"
    using count_reads [OF t(2) line(2), of e] unfolding line(1) by blast
  define v where "v = u\<lparr>ram := (ram u)(buf + of_int cnt := 0)\<rparr>"
  have "cstr (ram v) buf (pending_line 1023 s @ [10])" using u(4) by (simp add: v_def del: fun_upd_apply)
  from count_decides [OF u(3) [folded v_def] this length_pending_line, of e] obtain x where
    x: "counter_main e lit buf s = Some (0, x)" "count_ok lit buf ?k (type_on ?k (count_answer (pending_line 1023 s)) (type_on ?k count_prompt (screens s))) x"
    using t(1) u(1,2) by (auto simp: counter_main_def v_def [symmetric] eq_commute [of "-1"])
  then have "screens x = type_on ?k (count_prompt @ count_answer (pending_line 1023 s)) (screens s)"
    by (simp add: count_ok_def type_on_append)
  then show ?thesis using x by (simp add: type_on_append)
qed

definition count_start :: rtc where
  "count_start = user_start\<lparr>ram := literal_pool count_literals user_mem, terminal_buffer := (\<lambda>i. if i = 0 then 48 else 0)\<rparr>"

theorem counter_counts_witness:
  "\<exists>t. counter_main user_env (literal_slot count_literals) 0x720000 count_start = Some (0, t)
    \<and> screens t = type_on 0 (count_prompt @ count_lines 0 100) (screens count_start)"
proof -
  have short: "short_literals count_literals"
    by (simp add: short_literals_def count_literals_def count_prompt_def wrong_choice_def text_line_def)
  have ap: "apart a n count_start = apart a n user_start" for a n by (simp add: apart_def term_base_def count_start_def)
  have "screen_ok count_start = screen_ok user_start" by (rule screen_ok_cong) (simp_all add: count_start_def)
  then have "user_ok count_start" using user_start_ok by (simp add: user_ok_def) (simp add: count_start_def)
  moreover have "apart 0x720000 1024 user_start" by (rule user_start_apart) simp_all
  moreover have "disjoint_regions 0x720000 1024 (literal_slot count_literals l) (Suc (length l))" if "l \<in> set count_literals" for l
    by (rule pool_literal(4) [OF short that]) simp
  moreover have "ram count_start = literal_pool count_literals user_mem" "scheduled_terminal count_start = 0"
    "terminal_read_flag count_start 0 \<noteq> 0" by (simp_all add: count_start_def)
  moreover from calculation have "count_ok (literal_slot count_literals) 0x720000 0 (screens count_start) count_start"
    using pool_literal(1-3) [OF short] by (simp add: count_ok_def ap)
  moreover have "pending_line 1023 count_start = [48]" by (simp add: pending_line_def upt_rec count_start_def)
  ultimately show ?thesis using counter_counts [of "literal_slot count_literals" "0x720000" count_start user_env]
    by (auto simp: count_answer_def)
qed

end
