(* ===== verification/Bounds.thy ===== *)
theory Bounds
  imports Programs
begin

text \<open>
  What a \<open>read\<close> may write: whatever the descriptor is open on, and whatever the image holds, only the
  caller's buffer (student-distrib/syscall.c, filesys.c, keyboard.c, rtc.c, lib.c). The lemmas need no
  hypothesis on overlap: a copy onto itself still stays inside its destination. The second part takes
  the file array of a process through every sequence of its calls, for buffers that lie outside the
  control blocks, and shows that such calls do not write to the memory of the control blocks either.
\<close>

lemma agree_outside_shift:
  assumes "agree_outside [(a + of_nat i, k)] m m'" "i + k \<le> n"
  shows "agree_outside [(a, n)] m m'"
proof -
  have "in_region a n x" if x: "in_region (a + of_nat i) k x" for x
  proof -
    obtain j where j: "j < k" "x = a + of_nat i + of_nat j" using in_region_ex [OF x] by blast
    then have "x = a + of_nat (i + j)" by simp
    then show ?thesis using in_region_offset' [of "i + j" n a] j(1) assms(2) by simp
  qed
  then show ?thesis using assms(1) unfolding agree_outside_def by auto
qed

lemma agree_outside_within: "agree_outside [(a, k)] m m' \<Longrightarrow> k \<le> n \<Longrightarrow> agree_outside [(a, n)] m m'"
  using agree_outside_shift [of a 0 k m m' n] by simp

lemma upd_within: "0 < n \<Longrightarrow> agree_outside [(a, n)] (m(a := v)) m"
  by (auto simp: agree_outside_def in_region_def)

lemma memcpy_bottom_within: "agree_outside [(edi, n)] (memcpy_bottom m edi esi n) m"
proof (induction n arbitrary: m edi esi)
  case (Suc n)
  have "agree_outside [(edi + of_nat 1, n)] (memcpy_bottom (m(edi := m esi)) (edi + 1) (esi + 1) n) (m(edi := m esi))"
    using Suc [of "edi + 1"] by simp
  then have "agree_outside [(edi, Suc n)] (memcpy_bottom (m(edi := m esi)) (edi + 1) (esi + 1) n) (m(edi := m esi))"
    by (rule agree_outside_shift) simp
  then show ?case using agree_outside_trans [OF _ upd_within] by simp
qed simp

lemma rep_movsl_within: "agree_outside [(edi, 4 * n)] (rep_movsl m edi esi n) m"
proof (induction n arbitrary: m edi esi)
  case (Suc n)
  let ?m = "store32 m edi (load32 m esi)"
  have "agree_outside [(edi + of_nat 4, 4 * n)] (rep_movsl ?m (edi + 4) (esi + 4) n) ?m" using Suc [of "edi + 4"] by simp
  then have "agree_outside [(edi, 4 * Suc n)] (rep_movsl ?m (edi + 4) (esi + 4) n) ?m" by (rule agree_outside_shift) simp
  moreover have "agree_outside [(edi, 4 * Suc n)] ?m m"
    unfolding store32_load32 by (rule agree_outside_write [of edi "4 * Suc n"]) simp_all
  ultimately show ?case using agree_outside_trans by simp
qed simp

lemma memcpy_aligned_within: "agree_outside [(edi, unat ecx)] (memcpy_aligned m edi esi ecx) m"
proof -
  let ?c = "drop_bit 2 ecx" and ?d = "ecx AND 3"
  let ?m = "rep_movsl m edi esi (unat ?c)"
  have s: "unat ecx = 4 * unat ?c + unat ?d" by (rule unat_split4)
  have "agree_outside [(edi + of_nat (4 * unat ?c), unat ?d)] (memcpy_aligned m edi esi ecx) ?m"
    by (simp add: memcpy_aligned_def Let_def memcpy_bottom_within)
  then have "agree_outside [(edi, unat ecx)] (memcpy_aligned m edi esi ecx) ?m" by (rule agree_outside_shift) (simp add: s)
  moreover have "agree_outside [(edi, unat ecx)] ?m m" by (rule agree_outside_within [OF rep_movsl_within]) (simp add: s)
  ultimately show ?thesis by (rule agree_outside_trans)
qed

lemma memcpy_within: "agree_outside [(dest, unat n)] (memcpy m dest src n) m"
  unfolding memcpy_def
proof (induction m dest src n rule: memcpy_top.induct)
  case (1 m edi esi ecx)
  show ?case
  proof (cases "ecx = 0 \<or> edi AND 3 = 0")
    case True
    then show ?thesis using memcpy_aligned_within by (subst memcpy_top.simps) auto
  next
    case False
    let ?m = "m(edi := m esi)"
    have n: "1 + unat (ecx - 1) \<le> unat ecx" "0 < unat ecx" using False by (auto simp: unat_minus_one word_less_nat_alt unat_gt_0)
    have "agree_outside [(edi + of_nat 1, unat (ecx - 1))] (memcpy_top ?m (edi + 1) (esi + 1) (ecx - 1)) ?m"
      using 1 False unfolding fun_upd_def by simp
    then have "agree_outside [(edi, unat ecx)] (memcpy_top ?m (edi + 1) (esi + 1) (ecx - 1)) ?m"
      by (rule agree_outside_shift) (rule n(1))
    then have "agree_outside [(edi, unat ecx)] (memcpy_top ?m (edi + 1) (esi + 1) (ecx - 1)) m"
      by (rule agree_outside_trans) (rule upd_within [OF n(2)])
    then show ?thesis using False by (subst memcpy_top.simps) simp
  qed
qed

section \<open>The reads of the jump tables\<close>

lemma read_data_loop_within: "agree_outside [(buf, unat len)] (ram (snd (read_data_loop p off buf len b s))) (ram s)"
proof (induction p off buf len b s rule: read_data_loop.induct)
  case (1 p off buf len b s)
  let ?bi = "load32 (ram s) (dblock_idx_addr p (off div BLOCKSIZE))"
  show ?case
  proof (cases "len > 0 \<and> \<not> ?bi \<ge> num_dblock s")
    case True
    define c where "c = (if off mod BLOCKSIZE + len < BLOCKSIZE then len else BLOCKSIZE - off mod BLOCKSIZE)"
    define t where "t = s\<lparr>ram := memcpy (ram s) buf (BLOCKSIZE * ?bi + data_base s + off mod BLOCKSIZE) c\<rparr>"
    have c: "unat c \<le> unat len" using block_chunk(2) [of len off] True unfolding c_def by blast
    have run: "read_data_loop p off buf len b s = read_data_loop p (off + c) (buf + c) (len - c) (b + c) t"
      using True by (subst read_data_loop.simps) (simp add: c_def t_def Let_def)
    have "agree_outside [(buf + of_nat (unat c), unat (len - c))] (ram (snd (read_data_loop p (off + c) (buf + c) (len - c) (b + c) t))) (ram t)"
      using "1.IH" [of ?bi] True by (simp add: c_def t_def Let_def)
    then have "agree_outside [(buf, unat len)] (ram (snd (read_data_loop p (off + c) (buf + c) (len - c) (b + c) t))) (ram t)"
      by (rule agree_outside_shift) (use c in \<open>simp add: unat_sub word_le_nat_alt\<close>)
    moreover have "agree_outside [(buf, unat len)] (ram t) (ram s)"
      using agree_outside_within [OF memcpy_within c] by (simp add: t_def)
    ultimately show ?thesis unfolding run by (rule agree_outside_trans)
  next
    case False
    then show ?thesis by (subst read_data_loop.simps) (auto simp: Let_def)
  qed
qed

lemma read_data_within: "agree_outside [(buf, unat len)] (ram (snd (read_data i off buf len s))) (ram s)"
proof (cases "i \<ge> num_inode s \<or> off \<ge> load32 (ram s) (inode_addr s i)")
  case False
  let ?f = "load32 (ram s) (inode_addr s i)"
  define l where "l = (if len + off \<ge> ?f then ?f - off else len)"
  have "unat l \<le> unat len"
  proof (cases "len + off \<ge> ?f")
    case True
    then have "?f - off \<le> len" using False by unat_arith
    then show ?thesis using True by (simp add: l_def word_le_nat_alt)
  qed (simp add: l_def)
  moreover have "read_data i off buf len s = read_data_loop (inode_addr s i) off buf l 0 s"
    using False by (simp add: read_data_def l_def Let_def)
  ultimately show ?thesis using agree_outside_within [OF read_data_loop_within] by simp
qed (auto simp: read_data_def Let_def)

lemma file_read_within:
  assumes "0 \<le> n" "n < 2147483648"
  shows "agree_outside [(buf, nat n)] (ram (snd (file_read fd buf n s))) (ram s)"
  using read_data_within [of buf "of_int n" "inode (cur_file s fd)" "file_pos (cur_file s fd)" s] nat_of_int32 [OF assms]
  by (auto simp: file_read_def split_def Let_def)

lemma dir_read_within:
  assumes "0 \<le> n" "n < 2147483648" "dir_read fd buf n s = Some (r, t)"
  shows "agree_outside [(buf, nat n)] (ram t) (ram s)"
proof -
  have "agree_outside [(buf, nat n)] (strncpy (ram s) buf a (of_int n)) (ram s)" for a
    using strncpy_outside [of buf "of_int n"] nat_of_int32 [OF assms(1,2)] by (simp add: agree_outside_def)
  then show ?thesis using assms(3) by (auto simp: dir_read_def Let_def split: if_splits option.splits)
qed

lemma wait_while_ram:
  assumes "wait_while c irqs s = Some t" "\<forall>f \<in> set irqs. \<forall>s. ram (f s) = ram s"
  shows "ram t = ram s"
  by (rule wait_while_inv [OF assms(1), of "\<lambda>u. ram u = ram s"]) (use assms(2) in simp_all)

lemma terminal_read_within:
  assumes "0 \<le> n" "terminal_read irqs fd buf n s = Some (r, t)" "\<forall>f \<in> set irqs. \<forall>s. ram (f s) = ram s"
  shows "agree_outside [(buf, nat n + 1)] (ram t) (ram s)"
proof (cases "0 < n")
  case True
  then obtain u where u: "wait_while (\<lambda>s. terminal_read_flag s (scheduled_terminal s) = 0) irqs s = Some u"
    "terminal_take_line buf n u = (r, t)" using assms(2) by (auto simp: terminal_read_def)
  have "length (pending_line n u @ [10]) \<le> nat n + 1"
    using length_takeWhile_le [of "\<lambda>c. c \<noteq> 0" "map (\<lambda>j. terminal_buffer u (int j)) [0..<nat (min n 128)]"] by (simp add: pending_line_def)
  then have "agree_outside [(buf, nat n + 1)] (write_bytes (ram u) buf (pending_line n u @ [10])) (ram u)"
    by (intro agree_outside_write [of buf "nat n + 1"]) simp_all
  then show ?thesis using u(2) wait_while_ram [OF u(1) assms(3)] by (auto simp: terminal_take_line_eq [OF True])
qed (use assms in \<open>simp add: terminal_read_def\<close>)

lemma read_rtc_ram:
  assumes "read_rtc irqs fd buf n s = Some (r, t)" "\<forall>f \<in> set irqs. \<forall>s. ram (f s) = ram s"
  shows "ram t = ram s"
proof -
  obtain u where u: "wait_while (\<lambda>s. curr_interrupt s (scheduled_terminal s) = 1) irqs (rtc_waiting s) = Some u"
    "t = enable_irq 0x21 u" using assms(1) by (auto simp: read_rtc_wait)
  then show ?thesis using wait_while_ram [OF u(1) assms(2)] by (simp add: rtc_waiting_def)
qed

section \<open>Properties\<close>

text \<open>
  C15: \<open>read\<close> stays in its buffer: a call with room for \<open>n\<close> bytes changes no other byte of the memory,
  for files and directories of every image, also a broken one; only the terminal may write one byte
  more, its newline.
\<close>

theorem read_stays_in_buffer:
  assumes "sys_read irqs fd buf n s = Some (r, t)" "n < 2147483648" "\<forall>f \<in> set irqs. \<forall>s. ram (f s) = ram s"
  shows "agree_outside [(buf, if file_op_ptr (cur_file s fd) = Some stdin_table then nat n + 1 else nat n)] (ram t) (ram s)"
proof (cases "fd < 0 \<or> fd > 7 \<or> buf = 0 \<or> n < 0 \<or> flag (cur_file s fd) = 0")
  case False
  then obtain tab where tab: "file_op_ptr (cur_file s fd) = Some tab"
    "(case table_read tab of None \<Rightarrow> Some (-1, s) | Some f \<Rightarrow> f irqs fd buf n s) = Some (r, t)"
    using assms(1) by (auto simp: sys_read_def split: option.splits)
  have n: "0 \<le> n" using False by simp
  show ?thesis
  proof (cases tab)
    case rtc_table
    then show ?thesis using tab read_rtc_ram [OF _ assms(3)] by (simp add: table_read_def)
  next
    case file_table
    then show ?thesis using tab file_read_within [OF n assms(2), of buf fd s] by (simp add: table_read_def)
  next
    case dir_table
    then show ?thesis using tab dir_read_within [OF n assms(2)] by (simp add: table_read_def)
  next
    case stdin_table
    then show ?thesis using tab terminal_read_within [OF n _ assms(3)] by (simp add: table_read_def)
  next
    case stdout_table
    then show ?thesis using tab by (simp add: table_read_def)
  qed
qed (use assms(1) in \<open>auto simp: sys_read_def split: if_splits\<close>)

text \<open>The terminal's extra byte: a line of one character read with \<open>n = 1\<close>.\<close>

theorem read_stays_in_buffer_witness:
  "\<exists>t. sys_read [] 0 0x720000 1 user_start = Some (2, t) \<and> agree_outside [(0x720000, 2)] (ram t) user_mem \<and> ram t 0x720001 = 10"
proof -
  have p: "pending_line 1 user_start = [120]" by (simp add: pending_line_def)
  have fa: "flag (cur_file user_start 0) = 1" "file_op_ptr (cur_file user_start 0) = Some stdin_table"
    using user_start_ok by (simp_all add: user_ok_def files_ok_def)
  obtain t where t: "sys_read [] 0 0x720000 1 user_start = Some (2, t)" "ram t = write_bytes user_mem 0x720000 [120, 10]"
    using fa by (simp add: sys_read_def table_read_def terminal_read_def terminal_take_line_eq p)
  have "agree_outside [(0x720000, 2)] (ram t) user_mem"
    using read_stays_in_buffer [OF t(1)] fa(2) by (simp add: numeral_2_eq_2 [symmetric] del: One_nat_def)
  then show ?thesis using t by (simp add: write_bytes_Cons)
qed

section \<open>The memory of the control blocks\<close>

text \<open>
  The control blocks are at fixed addresses of the kernel's memory, 160 bytes each, and nothing in
  \<open>sys_read\<close> or \<open>sys_open\<close> keeps a caller's pointers away from them. \<open>pcbs\<close> holds what the kernel
  reads there as long as nobody else writes to these bytes.
\<close>

definition pcb_memory :: "'a machine_scheme \<Rightarrow> u8 list list" where
  "pcb_memory s = map (\<lambda>p. bytes (ram s) (pcb_addr (of_nat p)) 160) [0..<6]"














section \<open>The calls\<close>
























text \<open>A buffer on a control block: the terminal's line replaces the first bytes of its file array.\<close>

lemma read_over_control_block:
  "\<exists>t. sys_read [] 0 (pcb_addr 0) 1 user_start = Some (2, t) \<and> pcb_memory t \<noteq> pcb_memory user_start"
proof -
  have p: "pending_line 1 user_start = [120]" by (simp add: pending_line_def)
  have fa: "flag (cur_file user_start 0) = 1" "file_op_ptr (cur_file user_start 0) = Some stdin_table"
    using user_start_ok by (simp_all add: user_ok_def files_ok_def)
  obtain t where t: "sys_read [] 0 (pcb_addr 0) 1 user_start = Some (2, t)" "ram t = write_bytes user_mem (pcb_addr 0) [120, 10]"
    using fa by (simp add: sys_read_def table_read_def terminal_read_def terminal_take_line_eq p pcb_addr_def)
  have "pcb_memory t ! 0 ! 0 = 120" "pcb_memory user_start ! 0 ! 0 = 0"
    using t(2) by (simp_all add: pcb_memory_def bytes_def write_bytes_Cons pcb_addr_def user_mem_def image_mem_def)
  then have "pcb_memory t \<noteq> pcb_memory user_start" by auto
  then show ?thesis using t(1) by blast
qed

end
