(* ===== verification/Grep.thy ===== *)
theory Grep
  imports Shell Bounds "HOL-Library.Monad_Syntax" "HOL-Library.Sublist"
begin

text \<open>
  The program grep (syscalls/ece391grep.c): it reads each file of the directory through a buffer of
  1024 bytes, keeping the beginning of a line that the buffer cuts, and types the lines that
  contain the argument of the command line.

  \<open>d\<close> is the address of the array \<open>data\<close>, which has 1025 bytes; \<open>lit\<close> gives the address of a string
  literal. The inner loops of \<open>do_one_file\<close> are functions of their own.
\<close>

section \<open>Operations\<close>

function grep_line_end :: "mem \<Rightarrow> u32 \<Rightarrow> i32 \<Rightarrow> i32 \<Rightarrow> i32" where
  "grep_line_end m d filled line_end =
     (if line_end < filled \<and> m (d + of_int line_end) \<noteq> 10 then grep_line_end m d filled (line_end + 1) else line_end)"
  by pat_completeness auto
termination
  by (relation "measure (\<lambda>(m, d, filled, line_end). nat (filled - line_end))") auto

declare grep_line_end.simps [simp del]

function grep_check :: "mem \<Rightarrow> u32 \<Rightarrow> u32 \<Rightarrow> u32 \<Rightarrow> i32 \<Rightarrow> i32 \<Rightarrow> bool" where
  "grep_check m d str s_len check line_end =
     (if check < line_end
      then if m str = m (d + of_int check) \<and> 0 = ece391_strncmp m (d + of_int check) str s_len then True
           else grep_check m d str s_len (check + 1) line_end
      else False)"
  by pat_completeness auto
termination
  by (relation "measure (\<lambda>(m, d, str, s_len, check, line_end). nat (line_end - check))") auto

declare grep_check.simps [simp del]

definition grep_show :: "'a rtc_scheme env \<Rightarrow> (u8 list \<Rightarrow> u32) \<Rightarrow> u32 \<Rightarrow> u32 \<Rightarrow> 'a rtc_scheme \<Rightarrow> 'a rtc_scheme option" where
  "grep_show e lit fname start s = do {
     s \<leftarrow> ece391_fdputs e 1 fname s;
     s \<leftarrow> ece391_fdputs e 1 (lit [58]) s;
     s \<leftarrow> ece391_fdputs e 1 start s;
     ece391_fdputs e 1 (lit [10]) s }"

text \<open>The loop over the lines in the buffer: the new value of \<open>filled\<close>.\<close>

partial_function (option) grep_lines :: "'a rtc_scheme env \<Rightarrow> (u8 list \<Rightarrow> u32) \<Rightarrow> u32 \<Rightarrow> u32 \<Rightarrow> u32 \<Rightarrow> u32 \<Rightarrow> i32 \<Rightarrow> i32 \<Rightarrow> i32 \<Rightarrow>
    'a rtc_scheme \<Rightarrow> (i32 \<times> 'a rtc_scheme) option" where
  "grep_lines e lit d str fname s_len cnt filled line_start s =
     (let line_end = grep_line_end (ram s) d filled line_start;
          cut = s\<lparr>ram := (ram s)(d + of_int line_end := 0)\<rparr>
      in if ram s (d + of_int line_end) \<noteq> 10 \<and> 0 \<noteq> cnt \<and> line_start \<noteq> 0
         then do {
           m \<leftarrow> ece391_strcpy d (d + of_int line_start) (ram cut);
           Some (filled - line_start, cut\<lparr>ram := m\<rparr>) }
         else do {
           s \<leftarrow> (if grep_check (ram cut) d str s_len line_start line_end
                then grep_show e lit fname (d + of_int line_start) cut else Some cut);
           if line_end + 1 \<ge> filled then Some (0, s)
           else grep_lines e lit d str fname s_len cnt filled (line_end + 1) s })"

partial_function (option) grep_reads :: "'a rtc_scheme env \<Rightarrow> (u8 list \<Rightarrow> u32) \<Rightarrow> u32 \<Rightarrow> u32 \<Rightarrow> u32 \<Rightarrow> u32 \<Rightarrow> u32 \<Rightarrow> i32 \<Rightarrow>
    'a rtc_scheme \<Rightarrow> (i32 \<times> 'a rtc_scheme) option" where
  "grep_reads e lit d str fname s_len fd filled s = do {
     (cnt, s) \<leftarrow> user_call e Sys_Read fd (d + of_int filled) (of_int (1024 - filled)) s;
     if -1 = cnt then complain e (lit (text_line ''file read failed'')) (-1) s
     else do {
       (filled, s) \<leftarrow> grep_lines e lit d str fname s_len cnt (filled + cnt) 0 s;
       if 0 = cnt then Some (0, s) else grep_reads e lit d str fname s_len fd filled s } }"

definition do_one_file :: "'a rtc_scheme env \<Rightarrow> (u8 list \<Rightarrow> u32) \<Rightarrow> u32 \<Rightarrow> u32 \<Rightarrow> u32 \<Rightarrow> 'a rtc_scheme \<Rightarrow> (i32 \<times> 'a rtc_scheme) option" where
  "do_one_file e lit d str fname s = do {
     s_len \<leftarrow> ece391_strlen (ram s) str;
     (fd, s) \<leftarrow> user_call e Sys_Open fname 0 0 s;
     if -1 = fd then complain e (lit (text_line ''file open failed'')) (-1) s
     else do {
       (r, s) \<leftarrow> grep_reads e lit d str fname s_len (of_int fd) 0 s;
       if r = -1 then Some (-1, s)
       else do {
         (c, s) \<leftarrow> user_call e Sys_Close (of_int fd) 0 0 s;
         if -1 = c then complain e (lit (text_line ''file close failed'')) (-1) s else Some (0, s) } } }"

text \<open>The loop over the directory; names that begin with a dot are skipped.\<close>

partial_function (option) grep_dir :: "'a rtc_scheme env \<Rightarrow> (u8 list \<Rightarrow> u32) \<Rightarrow> u32 \<Rightarrow> u32 \<Rightarrow> u32 \<Rightarrow> u32 \<Rightarrow> 'a rtc_scheme \<Rightarrow>
    (i32 \<times> 'a rtc_scheme) option" where
  "grep_dir e lit d buf search fd s = do {
     (cnt, s) \<leftarrow> user_call e Sys_Read fd buf 32 s;
     if cnt = 0 then Some (0, s)
     else if -1 = cnt then complain e (lit (text_line ''directory entry read failed'')) 3 s
     else if 46 = ram s buf then grep_dir e lit d buf search fd s
     else do {
       (r, s) \<leftarrow> do_one_file e lit d search buf (s\<lparr>ram := (ram s)(buf + of_int cnt := 0)\<rparr>);
       if 0 \<noteq> r then Some (3, s) else grep_dir e lit d buf search fd s } }"

definition grep_main :: "'a rtc_scheme env \<Rightarrow> (u8 list \<Rightarrow> u32) \<Rightarrow> u32 \<Rightarrow> u32 \<Rightarrow> u32 \<Rightarrow> 'a rtc_scheme \<Rightarrow> (i32 \<times> 'a rtc_scheme) option" where
  "grep_main e lit d buf search s = do {
     (r, s) \<leftarrow> user_call e Sys_Getargs search 1024 0 s;
     if 0 \<noteq> r then complain e (lit (text_line ''could not read argument'')) 3 s
     else do {
       (fd, s) \<leftarrow> user_call e Sys_Open (lit [46]) 0 0 s;
       if -1 = fd then complain e (lit (text_line ''directory open failed'')) 2 s
       else grep_dir e lit d buf search (of_int fd) s } }"

section \<open>Lines, and what grep types for them\<close>

function file_lines :: "u8 list \<Rightarrow> u8 list list" where
  "file_lines xs = (if xs = [] then [] else takeWhile (\<lambda>c. c \<noteq> 10) xs # file_lines (tl (dropWhile (\<lambda>c. c \<noteq> 10) xs)))"
  by pat_completeness auto
termination
proof (relation "measure length")
  fix xs :: "u8 list" assume "xs \<noteq> []"
  moreover have "length (dropWhile (\<lambda>c. c \<noteq> 10) xs) \<le> length xs" by (rule length_dropWhile_le)
  ultimately have "length (tl (dropWhile (\<lambda>c. c \<noteq> 10) xs)) < length xs"
    unfolding length_tl by (metis One_nat_def diff_less le_neq_implies_less length_greater_0_conv less_imp_diff_less zero_less_one)
  then show "(tl (dropWhile (\<lambda>c. c \<noteq> 10) xs), xs) \<in> measure length" by simp
qed simp

declare file_lines.simps [simp del]

lemma no_newline: "10 \<notin> set l \<Longrightarrow> takeWhile (\<lambda>c. c \<noteq> 10) l = l \<and> dropWhile (\<lambda>c. c \<noteq> 10) l = []"
  by (metis (mono_tags, lifting) dropWhile_eq_Nil_conv takeWhile_eq_all_conv)

lemma file_lines_cut: "10 \<notin> set l \<Longrightarrow> file_lines (l @ 10 # ys) = l # file_lines ys"
  by (subst file_lines.simps) (simp add: takeWhile_append dropWhile_append no_newline)

lemma file_lines_Nil [simp]: "file_lines [] = []"
  by (simp add: file_lines.simps)

lemma file_lines_last: "10 \<notin> set l \<Longrightarrow> l \<noteq> [] \<Longrightarrow> file_lines l = [l]"
  by (subst file_lines.simps) (simp add: no_newline)

definition grep_one :: "u8 list \<Rightarrow> u8 list \<Rightarrow> u8 list \<Rightarrow> u8 list" where
  "grep_one name pat l = (if pat \<noteq> [] \<and> sublist pat l then name @ 58 # l @ [10] else [])"

definition grep_output :: "u8 list \<Rightarrow> u8 list \<Rightarrow> u8 list \<Rightarrow> u8 list" where
  "grep_output name pat xs = concat (map (grep_one name pat) (file_lines xs))"

lemma grep_output_Nil [simp]: "grep_output name pat [] = []"
  by (simp add: grep_output_def)

lemma grep_output_cut: "10 \<notin> set l \<Longrightarrow> grep_output name pat (l @ 10 # ys) = grep_one name pat l @ grep_output name pat ys"
  by (simp add: grep_output_def file_lines_cut)

lemma grep_output_last: "10 \<notin> set l \<Longrightarrow> grep_output name pat l = grep_one name pat l"
  by (cases "l = []") (auto simp: grep_output_def file_lines_last grep_one_def)

section \<open>The loops over the buffer\<close>

lemma grep_line_end_eq:
  "a \<le> n \<Longrightarrow> grep_line_end m d (int n) (int a) = int (a + length (takeWhile (\<lambda>c. c \<noteq> 10) (drop a (bytes m d n))))"
proof (induction "n - a" arbitrary: a)
  case 0
  then show ?case by (subst grep_line_end.simps) simp
next
  case (Suc j)
  then have lt: "a < n" by simp
  have "drop a (bytes m d n) = m (d + of_nat a) # drop (Suc a) (bytes m d n)"
    using Cons_nth_drop_Suc [of a "bytes m d n", symmetric] lt by simp
  moreover have "grep_line_end m d (int n) (int (Suc a)) = int (Suc a + length (takeWhile (\<lambda>c. c \<noteq> 10) (drop (Suc a) (bytes m d n))))"
    by (rule Suc.hyps(1)) (use Suc.hyps(2) lt in simp_all)
  ultimately show ?case using lt by (subst grep_line_end.simps) (simp add: add.commute)
qed

lemma cstr_tail: "cstr m a (x # l) \<Longrightarrow> m a = x \<and> x \<noteq> 0 \<and> cstr m (a + 1) l"
  by (auto simp: cstr_def bytes_Suc)

lemma grep_check_eq:
  assumes pat: "cstr m str pat"
  shows "cstr m (d + of_nat c) l \<Longrightarrow>
    grep_check m d str (of_nat (length pat)) (int c) (int (c + length l)) \<longleftrightarrow> pat \<noteq> [] \<and> sublist pat l"
proof (induction l arbitrary: c)
  case Nil
  then show ?case by (subst grep_check.simps) auto
next
  case (Cons x l)
  note x = cstr_tail [OF Cons.prems]
  have "d + of_nat (Suc c) = d + of_nat c + 1" by simp
  then have IH: "grep_check m d str (of_nat (length pat)) (int (Suc c)) (int (Suc c + length l)) \<longleftrightarrow> pat \<noteq> [] \<and> sublist pat l"
    using Cons.IH [of "Suc c"] x by (simp only: refl simp_thms)
  have un: "unat (of_nat (length pat) :: u32) = length pat" using cstr_length [OF pat] by (simp only: unat_of_nat32)
  have eq: "ece391_strncmp m (d + of_nat c) str (of_nat (length pat)) = 0 \<longleftrightarrow> prefix pat (x # l)"
    unfolding ece391_strncmp_iff un strn_cstr [OF Cons.prems] strn_cstr [OF pat]
    by (metis append_eq_conv_conj order_refl prefix_def take_all take_is_prefix)
  have "(m str = x \<and> 0 = ece391_strncmp m (d + of_nat c) str (of_nat (length pat))) \<longleftrightarrow> pat \<noteq> [] \<and> prefix pat (x # l)"
  proof (cases pat)
    case Nil
    then have "m str = 0" using cstr_end [OF pat] by simp
    then show ?thesis using x Nil by auto
  next
    case (Cons p ps)
    then have "m str = p" using pat cstr_tail by blast
    then show ?thesis using Cons eq by auto
  qed
  moreover have "grep_check m d str (of_nat (length pat)) (int c) (int (c + length (x # l)))
      \<longleftrightarrow> (m str = x \<and> 0 = ece391_strncmp m (d + of_nat c) str (of_nat (length pat)))
        \<or> grep_check m d str (of_nat (length pat)) (int (Suc c)) (int (Suc c + length l))"
    using x by (subst grep_check.simps) (auto simp: add.commute)
  ultimately show ?case using IH by (auto simp: sublist_Cons_right)
qed

text \<open>\<open>strcpy\<close> moves a string down onto itself.\<close>

lemma strcpy_down:
  assumes "cstr m (d + of_nat k) l" "0 < k" "k + length l < 4294967295"
  shows "\<exists>m'. ece391_strcpy d (d + of_nat k) m = Some m' \<and> bytes m' d (length l) = l \<and> agree_outside [(d, Suc (length l))] m' m"
  using assms
proof (induction l arbitrary: m d)
  case Nil
  then have "m (d + of_nat k) = 0" using cstr_end by fastforce
  then have "ece391_strcpy d (d + of_nat k) m = Some (m(d := 0))" by (subst ece391_strcpy.simps) (simp add: Let_def)
  moreover have "agree_outside [(d, 1)] (m(d := 0)) m" by (auto simp: agree_outside_def in_region_def)
  ultimately show ?case by (simp add: bytes_def)
next
  case (Cons x l)
  note x = cstr_tail [OF Cons.prems(1)]
  let ?m = "m(d := x)"
  have "d \<noteq> d + of_nat k + 1 + of_nat i" if "i < Suc (length l)" for i
  proof -
    have "unat (of_nat (k + 1 + i) :: u32) = k + 1 + i" using that Cons.prems(3) by (intro unat_of_nat32) simp
    then have "of_nat (k + 1 + i) \<noteq> (0 :: u32)" by (metis add_is_0 unat_0 zero_neq_one)
    then show ?thesis by (simp add: add_ac)
  qed
  then have "bytes ?m (d + of_nat k + 1) (Suc (length l)) = bytes m (d + of_nat k + 1) (Suc (length l))"
    by (intro bytes_cong) (metis fun_upd_other)
  then have "cstr ?m (d + 1 + of_nat k) l" using x by (simp add: cstr_def add_ac)
  from Cons.IH [OF this Cons.prems(2)] Cons.prems(3) obtain m' where
    m': "ece391_strcpy (d + 1) (d + 1 + of_nat k) ?m = Some m'" "bytes m' (d + 1) (length l) = l"
    "agree_outside [(d + 1, Suc (length l))] m' ?m"
    unfolding fun_upd_def by auto
  have "\<not> in_region (d + 1) (Suc (length l)) d"
    using Cons.prems(3) by (simp add: in_region_def unsigned_minus_1_eq_mask mask_eq_exp_minus_1)
  then have "m' d = x" using m'(3) by (simp add: agree_outside_def)
  moreover have "ece391_strcpy d (d + of_nat k) m = Some m'"
    using x m'(1) by (subst ece391_strcpy.simps) (simp add: Let_def add_ac)
  moreover have "agree_outside [(d, Suc (length (x # l)))] m' m"
  proof -
    have "in_region d (Suc (Suc (length l))) y" if y: "in_region (d + 1) (Suc (length l)) y" for y
    proof -
      obtain i where "i < Suc (length l)" "y = d + 1 + of_nat i" using in_region_ex [OF y] by blast
      then show ?thesis using in_region_offset' [of "Suc i" "Suc (Suc (length l))" d] by (simp add: add.assoc)
    qed
    moreover have "in_region d (Suc (Suc (length l))) d" by (simp add: in_region_def)
    ultimately show ?thesis using m'(3) unfolding agree_outside_def by (auto simp: fun_upd_def) (metis)
  qed
  ultimately show ?case using m'(2) by (simp add: bytes_Suc)
qed

end
