(* ===== verification/Search.thy ===== *)
theory Search
  imports Grep
begin

text \<open>
  \<open>do_one_file\<close> of syscalls/ece391grep.c finds the lines of a file. The state between two reads has the
  beginning of one line in the buffer (\<open>grep_between\<close>); within the loop over the buffer the rest of the
  buffer and of the file is the text that is left (\<open>grep_at\<close>, \<open>typed_for\<close>).
\<close>

section \<open>The state grep keeps\<close>

text \<open>What is left to read of the file, and a state in which the strings \<open>ts\<close> are in memory.\<close>

definition file_left :: "i32 \<Rightarrow> 'a rtc_scheme \<Rightarrow> u8 list" where
  "file_left fd s = drop (unat (file_pos (cur_file s fd))) (content s (inode (cur_file s fd)))"

definition texts_ok :: "u32 \<Rightarrow> (u32 \<times> u8 list) list \<Rightarrow> 'a rtc_scheme \<Rightarrow> bool" where
  "texts_ok d ts s \<longleftrightarrow> (\<forall>t \<in> set ts. cstr (ram s) (fst t) (snd t) \<and> fst t \<noteq> 0 \<and> apart (fst t) (Suc (length (snd t))) s
     \<and> length (snd t) < 2147483648 \<and> disjoint_regions d 1025 (fst t) (Suc (length (snd t))))"

text \<open>What has changed since \<open>s0\<close>: the memory in \<open>rs\<close> and the descriptor \<open>fd\<close>.\<close>

definition kept_since :: "'a rtc_scheme \<Rightarrow> i32 \<Rightarrow> (u32 \<times> nat) list \<Rightarrow> 'a rtc_scheme \<Rightarrow> bool" where
  "kept_since s0 fd rs s \<longleftrightarrow> agree_outside rs (ram s) (ram s0) \<and> same_image s0 s \<and> disp_terminal s = disp_terminal s0
     \<and> scheduled_terminal s = scheduled_terminal s0 \<and> (\<forall>f. f \<noteq> fd \<longrightarrow> cur_file s f = cur_file s0 f)"

lemma kept_since_trans:
  assumes "kept_since s0 fd rs s" "kept_since s fd rs t"
  shows "kept_since s0 fd rs t"
  using assms agree_outside_trans [of rs "ram t" "ram s" "ram s0"] by (simp add: kept_since_def same_image_def)

lemma kept_since_mono: "kept_since s0 fd rs s \<Longrightarrow> set rs \<subseteq> set rs' \<Longrightarrow> kept_since s0 fd rs' s"
  using agree_outside_mono by (auto simp: kept_since_def)

lemma kept_since_own: "kept_since s0 fd rs s \<Longrightarrow> own_screen s = own_screen s0"
  by (simp add: kept_since_def own_screen_def term_base_def)

definition grep_ok :: "'a rtc_scheme \<Rightarrow> u8 \<Rightarrow> i32 \<Rightarrow> u32 \<Rightarrow> (u32 \<times> u8 list) list \<Rightarrow> 'a rtc_scheme \<Rightarrow> bool" where
  "grep_ok s0 k fd d ts s \<longleftrightarrow> copy_ok k fd d 1025 s \<and> texts_ok d ts s \<and> unat d + 1025 \<le> 4294967296
     \<and> kept_since s0 fd [own_screen s0, (d, 1025)] s"

lemma copy_ok_kept:
  assumes ok: "copy_ok k fd buf lim s" and u: "user_ok t" and same: "same_image s t" "cur_proc t = cur_proc s"
    and d: "disp_terminal t = disp_terminal s" "scheduled_terminal t = scheduled_terminal s"
    and ag: "agree_outside [own_screen s, (buf, nat lim)] (ram t) (ram s)"
  shows "copy_ok k fd buf lim t" "file_left fd t = file_left fd s"
proof -
  define i where "i = inode (cur_file s fd)"
  have c: "sys_reader_ok fd buf lim s" "apart buf (nat lim) s" "outside_file s i (fst (own_screen s)) 4000" "scheduled_terminal s = k"
    using ok by (simp_all add: copy_ok_def i_def)
  have r: "good_inode s i" "outside_file s i buf (nat lim)" using c(1) by (simp_all add: sys_reader_ok_def reader_ok_def i_def)
  have o: "\<forall>r \<in> set [own_screen s, (buf, nat lim)]. outside_file s i (fst r) (snd r)" using c(3) r(2) by (simp add: own_screen_region)
  note f = agree_outside_file [OF r(1) ag o] and v = same_image_views [OF same(1)]
  have l: "file_length t i = file_length s i" using f(1) same(1) by (simp add: file_length_def inode_addr_def same_image_def)
  have e: "content t i = content s i" "good_inode t i = good_inode s i" "\<And>a k. outside_file t i a k = outside_file s i a k"
    unfolding v using f r(1) by simp_all
  have "sys_reader_ok fd buf lim t" using c(1) e l same(2) by (simp add: sys_reader_ok_def reader_ok_def i_def)
  moreover have "own_screen t = own_screen s" "apart buf (nat lim) t" using d c(2) by (simp_all add: own_screen_def apart_def term_base_def)
  ultimately show "copy_ok k fd buf lim t" using u c(3,4) d(2) e(3) same(2) by (simp add: copy_ok_def i_def)
  show "file_left fd t = file_left fd s" using e(1) same(2) by (simp add: file_left_def i_def)
qed

lemma texts_kept:
  assumes ok: "texts_ok d ts s" and u: "user_ok s" and ap: "\<And>a n. apart a n t = apart a n s"
    and ag: "agree_outside [own_screen s, (d, 1025)] (ram t) (ram s)"
  shows "texts_ok d ts t"
proof -
  have "cstr (ram t) (fst x) (snd x)" if x: "x \<in> set ts" for x
  proof (rule agree_outside_cstr [OF ag])
    show "cstr (ram s) (fst x) (snd x)" using ok x by (simp add: texts_ok_def)
    have "disjoint_regions (term_base (scheduled_terminal s) s) 4000 (fst x) (Suc (length (snd x)))"
      using ok x user_ok_sched [OF u] by (auto simp: texts_ok_def apart_def intro: disjoint_regions_sym)
    then show "\<forall>r \<in> set [own_screen s, (d, 1025)]. disjoint_regions (fst r) (snd r) (fst x) (Suc (length (snd x)))"
      using ok x by (simp add: texts_ok_def own_screen_region)
  qed
  then show ?thesis using ok by (simp add: texts_ok_def ap)
qed

lemma grep_kept:
  assumes ok: "grep_ok s0 k fd d ts s" and u: "user_ok t" and same: "same_image s t" "cur_proc t = cur_proc s"
    and dt: "disp_terminal t = disp_terminal s" "scheduled_terminal t = scheduled_terminal s"
    and ag: "agree_outside [own_screen s, (d, 1025)] (ram t) (ram s)"
  shows "grep_ok s0 k fd d ts t" "file_left fd t = file_left fd s"
proof -
  have c: "copy_ok k fd d 1025 s" "texts_ok d ts s" "user_ok s" using ok by (simp_all add: grep_ok_def copy_ok_def)
  have ag': "agree_outside [own_screen s, (d, nat 1025)] (ram t) (ram s)" using ag by simp
  note k = copy_ok_kept [OF c(1) u same dt ag']
  have ap: "apart a n t = apart a n s" for a n using dt(1) by (simp add: apart_def term_base_def)
  have s0: "kept_since s0 fd [own_screen s0, (d, 1025)] s" using ok by (simp add: grep_ok_def)
  have "kept_since s fd [own_screen s0, (d, 1025)] t"
    using ag same dt by (simp add: kept_since_def kept_since_own [OF s0, symmetric])
  then show "grep_ok s0 k fd d ts t"
    using k(1) texts_kept [OF c(2,3) ap ag] ok kept_since_trans [OF s0] by (simp add: grep_ok_def)
  show "file_left fd t = file_left fd s" by (rule k(2))
qed

text \<open>Typing a string keeps the buffer.\<close>

lemma grep_says:
  assumes ok: "grep_ok s0 k fd d ts s" and str: "cstr (ram s) a str" "apart a (length str) s" "a \<noteq> 0" "length str < 2147483648"
  obtains t where "ece391_fdputs e 1 a s = Some t" "grep_ok s0 k fd d ts t" "file_left fd t = file_left fd s"
    "screens t = type_on k str (screens s)" "bytes (ram t) d 1025 = bytes (ram s) d 1025" "disp_terminal t = disp_terminal s"
proof -
  have o: "user_ok s" "scheduled_terminal s = k" "apart d 1025 s" using ok by (simp_all add: grep_ok_def copy_ok_def)
  obtain t where t: "ece391_fdputs e 1 a s = Some t" "user_ok t" "printed_only s t"
    "screens t = type_on (scheduled_terminal s) str (screens s)"
    using fdputs_types [OF o(1) str, of e] by blast
  note p = printed_only_keeps [OF t(3)]
  have ag: "agree_outside [own_screen s] (ram t) (ram s)" and d: "disp_terminal t = disp_terminal s" "scheduled_terminal t = scheduled_terminal s"
    using t(3) by (simp_all add: printed_only_def)
  have ag': "agree_outside [own_screen s, (d, 1025)] (ram t) (ram s)" by (rule agree_outside_mono [OF ag]) simp
  note k = grep_kept [OF ok t(2) p(3,4) d ag']
  have "bytes (ram t) d 1025 = bytes (ram s) d 1025"
    by (rule agree_outside_bytes [OF ag])
      (use o user_ok_sched [OF o(1)] in \<open>auto simp: own_screen_region apart_def intro: disjoint_regions_sym\<close>)
  then show thesis using that t(1,4) k d(1) o(2) by simp
qed

text \<open>Writing to the buffer.\<close>

lemma grep_put:
  assumes ok: "grep_ok s0 k fd d ts s" and m: "agree_outside [(d, 1025)] m (ram s)"
  shows "grep_ok s0 k fd d ts (s\<lparr>ram := m\<rparr>)" "file_left fd (s\<lparr>ram := m\<rparr>) = file_left fd s" "screens (s\<lparr>ram := m\<rparr>) = screens s"
proof -
  let ?t = "s\<lparr>ram := m\<rparr>"
  have o: "user_ok s" "apart d 1025 s" using ok by (simp_all add: grep_ok_def copy_ok_def)
  have u: "user_ok ?t" using o(1) screen_ok_cong [of ?t s] by (simp add: user_ok_def)
  have same: "same_image s ?t" by (simp add: same_image_def)
  have ag: "agree_outside [own_screen s, (d, 1025)] (ram ?t) (ram s)" using m by (simp add: agree_outside_def)
  show "grep_ok s0 k fd d ts ?t" "file_left fd ?t = file_left fd s" by (rule grep_kept [OF ok u same _ _ _ ag]; simp)+
  have "agree_outside [(d, 1025)] (ram ?t) (ram s)" using m by simp
  then show "screens ?t = screens s" by (rule screens_kept(1)) (use o(2) in simp_all)
qed

text \<open>A string in the buffer.\<close>

lemma apart_shift: "apart a n s \<Longrightarrow> i + j \<le> n \<Longrightarrow> apart (a + of_nat i) j s"
  unfolding apart_def using disjoint_regions_shift [of a n _ 4000 i j 0 4000] by simp

lemma buffer_string:
  assumes "grep_ok s0 k fd d ts s" "a + length l < 1025"
  shows "apart (d + of_nat a) (length l) s" "d + of_nat a \<noteq> 0"
proof -
  have o: "apart d 1025 s" "unat d + 1025 \<le> 4294967296" "d \<noteq> 0"
    using assms(1) by (simp_all add: grep_ok_def copy_ok_def sys_reader_ok_def)
  show "apart (d + of_nat a) (length l) s" by (rule apart_shift [OF o(1)]) (use assms(2) in simp)
  have "unat (d + of_nat a) = unat d + a" using o(2) assms(2) by (simp add: unat_word_ariths unat_of_nat32)
  then show "d + of_nat a \<noteq> 0" using o(3) by (metis add_is_0 unat_0 unat_eq_0)
qed

lemma sub_cstr: "bytes m d 1025 = bytes m' d 1025 \<Longrightarrow> a + length l < 1025 \<Longrightarrow> cstr m' (d + of_nat a) l \<Longrightarrow> cstr m (d + of_nat a) l"
proof -
  assume a: "bytes m d 1025 = bytes m' d 1025" "a + length l < 1025" "cstr m' (d + of_nat a) l"
  have "bytes m'' (d + of_nat a) (Suc (length l)) = take (Suc (length l)) (drop a (bytes m'' d 1025))" for m''
    using a(2) by (simp add: take_bytes drop_bytes min_def)
  then show "cstr m (d + of_nat a) l" using a(1,3) by (simp add: cstr_def)
qed

definition grep_texts :: "(u8 list \<Rightarrow> u32) \<Rightarrow> u32 \<Rightarrow> u8 list \<Rightarrow> u32 \<Rightarrow> u8 list \<Rightarrow> (u32 \<times> u8 list) list" where
  "grep_texts lit fname name str pat = [(fname, name), (str, pat), (lit [58], [58]), (lit [10], [10])]"

lemma grep_says_text:
  assumes ok: "grep_ok s0 k fd d ts s" and x: "(a, str) \<in> set ts"
  obtains t where "ece391_fdputs e 1 a s = Some t" "grep_ok s0 k fd d ts t" "file_left fd t = file_left fd s"
    "screens t = type_on k str (screens s)" "bytes (ram t) d 1025 = bytes (ram s) d 1025" "disp_terminal t = disp_terminal s"
proof -
  have "cstr (ram s) a str" "apart a (length str) s" "a \<noteq> 0" "length str < 2147483648"
    using ok x apart_less [of a "Suc (length str)" s "length str"] by (force simp: grep_ok_def texts_ok_def)+
  then show thesis by (rule grep_says [OF ok, of a str e]) (rule that)
qed

lemma grep_shows:
  assumes ok: "grep_ok s0 k fd d (grep_texts lit fname name str pat) s" and l: "cstr (ram s) (d + of_nat a) l" "a + length l < 1025"
  obtains t where "grep_show e lit fname (d + of_nat a) s = Some t" "grep_ok s0 k fd d (grep_texts lit fname name str pat) t"
    "file_left fd t = file_left fd s" "screens t = type_on k (name @ 58 # l @ [10]) (screens s)"
    "bytes (ram t) d 1025 = bytes (ram s) d 1025"
proof -
  let ?ts = "grep_texts lit fname name str pat"
  have x: "(fname, name) \<in> set ?ts" "(lit [58], [58]) \<in> set ?ts" "(lit [10], [10]) \<in> set ?ts" by (simp_all add: grep_texts_def)
  obtain s1 where s1: "ece391_fdputs e 1 fname s = Some s1" "grep_ok s0 k fd d ?ts s1" "file_left fd s1 = file_left fd s"
    "screens s1 = type_on k name (screens s)" "bytes (ram s1) d 1025 = bytes (ram s) d 1025"
    by (rule grep_says_text [OF ok x(1)])
  obtain s2 where s2: "ece391_fdputs e 1 (lit [58]) s1 = Some s2" "grep_ok s0 k fd d ?ts s2" "file_left fd s2 = file_left fd s1"
    "screens s2 = type_on k [58] (screens s1)" "bytes (ram s2) d 1025 = bytes (ram s1) d 1025"
    by (rule grep_says_text [OF s1(2) x(2)])
  have b: "bytes (ram s2) d 1025 = bytes (ram s) d 1025" using s1(5) s2(5) by simp
  have l2: "cstr (ram s2) (d + of_nat a) l" by (rule sub_cstr [OF b l(2,1)])
  have n: "length l < 2147483648" using l(2) by simp
  obtain s3 where s3: "ece391_fdputs e 1 (d + of_nat a) s2 = Some s3" "grep_ok s0 k fd d ?ts s3" "file_left fd s3 = file_left fd s2"
    "screens s3 = type_on k l (screens s2)" "bytes (ram s3) d 1025 = bytes (ram s2) d 1025"
    by (rule grep_says [OF s2(2) l2 buffer_string [OF s2(2) l(2)] n])
  obtain s4 where s4: "ece391_fdputs e 1 (lit [10]) s3 = Some s4" "grep_ok s0 k fd d ?ts s4" "file_left fd s4 = file_left fd s3"
    "screens s4 = type_on k [10] (screens s3)" "bytes (ram s4) d 1025 = bytes (ram s3) d 1025"
    by (rule grep_says_text [OF s3(2) x(3)])
  have "screens s4 = type_on k (name @ [58] @ l @ [10]) (screens s)"
    unfolding type_on_append s4(4) s3(4) s2(4) s1(4) by (rule refl)
  then show thesis using that [of s4] s1(1,3) s2(1,3) s3(1,3) s4(1-3,5) b s3(5) by (simp add: grep_show_def)
qed

text \<open>One line of the buffer, with its end already cut.\<close>

lemma grep_line_done:
  assumes ok: "grep_ok s0 k fd d (grep_texts lit fname name str pat) s" and l: "cstr (ram s) (d + of_nat a) l" "a + length l < 1025"
  obtains t where "(if grep_check (ram s) d str (of_nat (length pat)) (int a) (int (a + length l))
      then grep_show e lit fname (d + of_nat a) s else Some s) = Some t"
    "grep_ok s0 k fd d (grep_texts lit fname name str pat) t" "file_left fd t = file_left fd s"
    "screens t = type_on k (grep_one name pat l) (screens s)" "bytes (ram t) d 1025 = bytes (ram s) d 1025"
proof -
  have "cstr (ram s) str pat" using ok by (simp add: grep_ok_def texts_ok_def grep_texts_def)
  note c = grep_check_eq [OF this l(1)]
  show thesis
  proof (cases "pat \<noteq> [] \<and> sublist pat l")
    case True
    obtain t where "grep_show e lit fname (d + of_nat a) s = Some t" "grep_ok s0 k fd d (grep_texts lit fname name str pat) t"
      "file_left fd t = file_left fd s" "screens t = type_on k (name @ 58 # l @ [10]) (screens s)"
      "bytes (ram t) d 1025 = bytes (ram s) d 1025"
      by (rule grep_shows [OF ok l])
    then show ?thesis using that [of t] c True by (simp add: grep_one_def)
  next
    case False
    then show ?thesis using that [of s] ok by (simp only: c if_False grep_one_def type_on_Nil simp_thms)
  qed
qed

lemma cut_bytes:
  assumes "drop a (bytes m d n) = l @ ys" "a \<le> n" "n \<le> 1024"
  shows "bytes (m(d + of_nat (a + length l) := 0)) (d + of_nat a) (Suc (length l)) = l @ [0]"
proof -
  have len: "a + length l \<le> n" using arg_cong [OF assms(1), of length] assms(2) by simp
  let ?m = "m(d + of_nat (a + length l) := 0)"
  have v: "?m (d + of_nat (a + i)) = (if i = length l then 0 else m (d + of_nat (a + i)))" if "i \<le> length l" for i
  proof -
    have "a + i < 4294967296" "a + length l < 4294967296" using that len assms(3) by linarith+
    then have "of_nat (a + i) = (of_nat (a + length l) :: u32) \<longleftrightarrow> i = length l" by (simp only: of_nat32_eq_iff) auto
    then show ?thesis by simp
  qed
  have nth: "m (d + of_nat (a + i)) = l ! i" if "i < length l" for i
  proof -
    have "l ! i = drop a (bytes m d n) ! i" using that by (simp add: assms(1) nth_append)
    then show ?thesis using that len by simp
  qed
  show "bytes ?m (d + of_nat a) (Suc (length l)) = l @ [0]"
  proof (rule nth_equalityI)
    fix i assume "i < length (bytes ?m (d + of_nat a) (Suc (length l)))"
    then have i: "i \<le> length l" by simp
    then have "bytes ?m (d + of_nat a) (Suc (length l)) ! i = ?m (d + of_nat (a + i))" by (simp add: add.assoc)
    then show "bytes ?m (d + of_nat a) (Suc (length l)) ! i = (l @ [0]) ! i" using v [OF i] nth [of i] i by (auto simp: nth_append)
  qed simp
qed

lemma cut_line:
  assumes "drop a (bytes m d n) = l @ ys" "a \<le> n" "n \<le> 1024" "0 \<notin> set l"
  shows "cstr (m(d + of_nat (a + length l) := 0)) (d + of_nat a) l"
proof -
  have "a + length l \<le> n" using arg_cong [OF assms(1), of length] assms(2) by simp
  then show ?thesis using cut_bytes [OF assms(1-3)] assms(3,4) by (simp add: cstr_def)
qed

lemma upd_in_buffer: "j < n \<Longrightarrow> agree_outside [(d, n)] (m(d + of_nat j := v)) m"
  using in_region_offset' [of j n d] by (auto simp: agree_outside_def)

text \<open>
  Between two reads: the beginning of a line is in the buffer, no line of what is left is too long
  for it, and the byte behind the buffer, which the program reads before it writes it, is no newline.
\<close>

definition short_lines :: "u8 list \<Rightarrow> bool" where
  "short_lines xs \<longleftrightarrow> 0 \<notin> set xs \<and> (\<forall>l \<in> set (file_lines xs). length l < 1024)"

definition grep_between :: "'a rtc_scheme \<Rightarrow> u8 \<Rightarrow> i32 \<Rightarrow> u32 \<Rightarrow> (u32 \<times> u8 list) list \<Rightarrow> nat \<Rightarrow> 'a rtc_scheme \<Rightarrow> bool" where
  "grep_between s0 k fd d ts n s \<longleftrightarrow> grep_ok s0 k fd d ts s \<and> n < 1024 \<and> 10 \<notin> set (bytes (ram s) d n)
     \<and> short_lines (bytes (ram s) d n @ file_left fd s) \<and> ram s (d + 1024) \<noteq> 10"

lemma short_lines_cut: "10 \<notin> set l \<Longrightarrow> short_lines (l @ 10 # xs) \<Longrightarrow> short_lines xs"
  by (simp add: short_lines_def file_lines_cut)

lemma short_lines_first:
  assumes "short_lines (l @ xs)" "10 \<notin> set l" "l \<noteq> []"
  shows "length l < 1024"
proof -
  have "length l \<le> length (takeWhile (\<lambda>c. c \<noteq> 10) (l @ xs))" using no_newline [OF assms(2)] by (simp add: takeWhile_append)
  moreover have "takeWhile (\<lambda>c. c \<noteq> 10) (l @ xs) \<in> set (file_lines (l @ xs))"
    using assms(3) by (subst file_lines.simps) simp
  ultimately show ?thesis using assms(1) unfolding short_lines_def by fastforce
qed

text \<open>The state before and after the line that starts at \<open>a\<close>.\<close>

definition grep_at :: "'a rtc_scheme \<Rightarrow> u8 \<Rightarrow> i32 \<Rightarrow> u32 \<Rightarrow> (u32 \<times> u8 list) list \<Rightarrow> nat \<Rightarrow> nat \<Rightarrow> i32 \<Rightarrow> 'a rtc_scheme \<Rightarrow> bool" where
  "grep_at s0 k fd d ts n a cnt s \<longleftrightarrow> grep_ok s0 k fd d ts s \<and> a \<le> n \<and> n \<le> 1024 \<and> (cnt = 0 \<longrightarrow> file_left fd s = [])
     \<and> short_lines (drop a (bytes (ram s) d n) @ file_left fd s)
     \<and> (file_left fd s \<noteq> [] \<longrightarrow> n = 1024) \<and> ram s (d + 1024) \<noteq> 10"

lemma grep_lines_line:
  assumes z: "grep_line_end (ram s) d filled start = int z" and u: "u = s\<lparr>ram := (ram s)(d + of_nat z := 0)\<rparr>"
  shows "ram s (d + of_nat z) \<noteq> 10 \<Longrightarrow> cnt \<noteq> 0 \<Longrightarrow> start \<noteq> 0 \<Longrightarrow> ece391_strcpy d (d + of_int start) (ram u) = Some m
      \<Longrightarrow> grep_lines e lit d str fname s_len cnt filled start s = Some (filled - start, u\<lparr>ram := m\<rparr>)"
    "ram s (d + of_nat z) = 10 \<or> cnt = 0 \<or> start = 0
      \<Longrightarrow> (if grep_check (ram u) d str s_len start (int z) then grep_show e lit fname (d + of_int start) u else Some u) = Some t
      \<Longrightarrow> grep_lines e lit d str fname s_len cnt filled start s
        = (if filled \<le> int z + 1 then Some (0, t) else grep_lines e lit d str fname s_len cnt filled (int z + 1) t)"
proof -
  assume c: "ram s (d + of_nat z) \<noteq> 10" "cnt \<noteq> 0" "start \<noteq> 0" and m: "ece391_strcpy d (d + of_int start) (ram u) = Some m"
  show "grep_lines e lit d str fname s_len cnt filled start s = Some (filled - start, u\<lparr>ram := m\<rparr>)"
    using c by (subst grep_lines.simps)
      (simp only: Let_def z of_int_of_nat_eq u [symmetric] m Option.bind.simps simp_thms if_True eq_commute [of 0])
next
  assume c: "ram s (d + of_nat z) = 10 \<or> cnt = 0 \<or> start = 0"
    and t: "(if grep_check (ram u) d str s_len start (int z) then grep_show e lit fname (d + of_int start) u else Some u) = Some t"
  have f: "(ram s (d + of_nat z) \<noteq> 10 \<and> 0 \<noteq> cnt \<and> start \<noteq> 0) = False" using c by auto
  show "grep_lines e lit d str fname s_len cnt filled start s
      = (if filled \<le> int z + 1 then Some (0, t) else grep_lines e lit d str fname s_len cnt filled (int z + 1) t)"
    by (subst grep_lines.simps) (simp only: Let_def z of_int_of_nat_eq u [symmetric] f t Option.bind.simps if_False)
qed

text \<open>A line with its newline.\<close>

lemma grep_full_line:
  assumes at: "grep_at s0 k fd d (grep_texts lit fname name str pat) n a cnt s"
    and l: "drop a (bytes (ram s) d n) = l @ 10 # ys" "10 \<notin> set l"
  obtains t where "grep_lines e lit d str fname (of_nat (length pat)) cnt (int n) (int a) s
      = (if ys = [] then Some (0, t) else grep_lines e lit d str fname (of_nat (length pat)) cnt (int n) (int (Suc (a + length l))) t)"
    "grep_at s0 k fd d (grep_texts lit fname name str pat) n (Suc (a + length l)) cnt t" "drop (Suc (a + length l)) (bytes (ram t) d n) = ys"
    "file_left fd t = file_left fd s" "screens t = type_on k (grep_one name pat l) (screens s)"
proof -
  let ?z = "a + length l" and ?ts = "grep_texts lit fname name str pat"
  have g: "grep_ok s0 k fd d ?ts s" "a \<le> n" "n \<le> 1024" "short_lines (drop a (bytes (ram s) d n) @ file_left fd s)"
    "cnt = 0 \<longrightarrow> file_left fd s = []" "file_left fd s \<noteq> [] \<longrightarrow> n = 1024" "ram s (d + 1024) \<noteq> 10"
    using at by (simp_all add: grep_at_def)
  have z0: "0 \<notin> set l" using g(4) l(1) by (simp add: short_lines_def)
  have len: "n = ?z + Suc (length ys)" using arg_cong [OF l(1), of length] g(2) by simp
  have z: "grep_line_end (ram s) d (int n) (int a) = int ?z"
    unfolding grep_line_end_eq [OF g(2)] l(1) using no_newline [OF l(2)] by (simp add: takeWhile_append)
  have nl: "ram s (d + of_nat ?z) = 10"
  proof -
    have "drop a (bytes (ram s) d n) ! length l = 10" by (simp add: l(1))
    then show ?thesis using len by simp
  qed
  define u where "u = s\<lparr>ram := (ram s)(d + of_nat ?z := 0)\<rparr>"
  have m: "ram u = (ram s)(d + of_nat ?z := 0)" by (simp add: u_def)
  have "?z < 1025" using len g(3) by simp
  note put = grep_put [OF g(1) upd_in_buffer [OF this, of d "ram s" 0], folded u_def]
  have c: "cstr (ram u) (d + of_nat a) l" unfolding m by (rule cut_line [OF l(1) g(2,3) z0])
  have lt: "a + length l < 1025" using len g(3) by simp
  obtain t where t: "(if grep_check (ram u) d str (of_nat (length pat)) (int a) (int ?z)
      then grep_show e lit fname (d + of_nat a) u else Some u) = Some t"
    "grep_ok s0 k fd d ?ts t" "file_left fd t = file_left fd s"
    "screens t = type_on k (grep_one name pat l) (screens s)" "bytes (ram t) d 1025 = bytes (ram u) d 1025"
    by (rule grep_line_done [OF put(1) c lt, of e]) (simp only: put(2,3))
  have after: "ram t (d + of_nat j) = ram s (d + of_nat j)" if "?z < j" "j < 1025" for j
  proof -
    have "bytes (ram t) d 1025 ! j = bytes (ram u) d 1025 ! j" by (simp only: t(5))
    moreover have "of_nat j \<noteq> (of_nat ?z :: u32)" using that by (subst of_nat32_eq_iff) simp_all
    ultimately show ?thesis using that by (simp add: m)
  qed
  have ys: "drop (Suc ?z) (bytes (ram t) d n) = ys"
  proof (rule nth_equalityI)
    fix i assume "i < length (drop (Suc ?z) (bytes (ram t) d n))"
    then have i: "Suc ?z + i < n" by simp
    then have "drop (Suc ?z) (bytes (ram t) d n) ! i = ram s (d + of_nat (Suc ?z + i))" using after [of "Suc ?z + i"] g(3) by simp
    also have "\<dots> = drop a (bytes (ram s) d n) ! (Suc (length l) + i)" using i by (simp add: add_ac)
    finally show "drop (Suc ?z) (bytes (ram t) d n) ! i = ys ! i" by (simp add: l(1) nth_append)
  qed (simp add: len)
  have "short_lines (ys @ file_left fd s)" using short_lines_cut [of l "ys @ file_left fd s"] g(4) l by simp
  moreover have "ram t (d + 1024) = ram s (d + 1024)" using after [of 1024] len g(3) by simp
  ultimately have "grep_at s0 k fd d ?ts n (Suc ?z) cnt t" using t(2,3) g(3,5-7) len ys by (simp add: grep_at_def)
  moreover have "grep_lines e lit d str fname (of_nat (length pat)) cnt (int n) (int a) s
      = (if ys = [] then Some (0, t) else grep_lines e lit d str fname (of_nat (length pat)) cnt (int n) (int (Suc ?z)) t)"
  proof -
    have more: "int ?z + 1 = int (Suc ?z)" "int n \<le> int (Suc ?z) \<longleftrightarrow> ys = []" using len by auto
    have "grep_lines e lit d str fname (of_nat (length pat)) cnt (int n) (int a) s
        = (if int n \<le> int ?z + 1 then Some (0, t) else grep_lines e lit d str fname (of_nat (length pat)) cnt (int n) (int ?z + 1) t)"
      by (rule grep_lines_line(2) [OF z u_def]) (simp_all only: nl of_int_of_nat_eq t(1) simp_thms)
    then show ?thesis unfolding more .
  qed
  ultimately show thesis using that ys t(3,4) by blast
qed

text \<open>What has been typed is the output for the part of the text that is gone.\<close>

definition typed_for :: "u8 \<Rightarrow> u8 list \<Rightarrow> u8 list \<Rightarrow> u8 list \<times> (u8 \<Rightarrow> screen option) \<Rightarrow> u8 list \<times> (u8 \<Rightarrow> screen option) \<Rightarrow> bool" where
  "typed_for k name pat p q \<longleftrightarrow>
     (\<exists>out. snd q = type_on k out (snd p) \<and> grep_output name pat (fst p) = out @ grep_output name pat (fst q))"

lemma typed_for_trans: "typed_for k name pat p q \<Longrightarrow> typed_for k name pat q r \<Longrightarrow> typed_for k name pat p r"
proof -
  assume "typed_for k name pat p q" "typed_for k name pat q r"
  then obtain a b where "snd q = type_on k a (snd p)" "grep_output name pat (fst p) = a @ grep_output name pat (fst q)"
    "snd r = type_on k b (snd q)" "grep_output name pat (fst q) = b @ grep_output name pat (fst r)"
    unfolding typed_for_def by blast
  then have "snd r = type_on k (a @ b) (snd p) \<and> grep_output name pat (fst p) = (a @ b) @ grep_output name pat (fst r)"
    by (simp add: type_on_append)
  then show ?thesis unfolding typed_for_def by blast
qed

lemma typed_for_refl: "typed_for k name pat p p"
  unfolding typed_for_def by (rule exI [of _ "[]"]) simp

lemma typed_for_line: "10 \<notin> set l \<Longrightarrow> typed_for k name pat (l @ 10 # ys, scr) (ys, type_on k (grep_one name pat l) scr)"
  unfolding typed_for_def by (rule exI [of _ "grep_one name pat l"]) (simp add: grep_output_cut)

lemma typed_for_last: "10 \<notin> set l \<Longrightarrow> typed_for k name pat (l, scr) ([], type_on k (grep_one name pat l) scr)"
  unfolding typed_for_def by (rule exI [of _ "grep_one name pat l"]) (simp add: grep_output_last)

text \<open>The beginning of a line that the buffer cuts is moved down.\<close>

lemma grep_moves:
  assumes at: "grep_at s0 k fd d (grep_texts lit fname name str pat) n a cnt s" and D: "10 \<notin> set (drop a (bytes (ram s) d n))"
    and c: "ram s (d + of_nat n) \<noteq> 10" "cnt \<noteq> 0" "0 < a"
  obtains t where "grep_lines e lit d str fname (of_nat (length pat)) cnt (int n) (int a) s = Some (int (n - a), t)"
    "grep_between s0 k fd d (grep_texts lit fname name str pat) (n - a) t" "bytes (ram t) d (n - a) = drop a (bytes (ram s) d n)"
    "file_left fd t = file_left fd s" "screens t = screens s"
proof -
  let ?ts = "grep_texts lit fname name str pat" and ?D = "drop a (bytes (ram s) d n)"
  have g: "grep_ok s0 k fd d ?ts s" "a \<le> n" "n \<le> 1024" "short_lines (?D @ file_left fd s)"
    "ram s (d + 1024) \<noteq> 10"
    using at by (simp_all add: grep_at_def)
  have len: "length ?D = n - a" by simp
  have z: "grep_line_end (ram s) d (int n) (int a) = int n"
    unfolding grep_line_end_eq [OF g(2)] conjunct1 [OF no_newline [OF D]] len using g(2) by simp
  define u where "u = s\<lparr>ram := (ram s)(d + of_nat n := 0)\<rparr>"
  have m: "ram u = (ram s)(d + of_nat n := 0)" by (simp add: u_def)
  have "n < 1025" using g(3) by simp
  note put = grep_put [OF g(1) upd_in_buffer [OF this, of d "ram s" 0], folded u_def]
  have "0 \<notin> set ?D" using g(4) by (simp add: short_lines_def)
  then have "cstr ((ram s)(d + of_nat (a + length ?D) := 0)) (d + of_nat a) ?D"
    by (intro cut_line [of a "ram s" d n ?D "[]"]) (use g(2,3) in simp_all)
  then have cs: "cstr (ram u) (d + of_nat a) ?D" using g(2) by (simp add: m len)
  obtain m' where m': "ece391_strcpy d (d + of_nat a) (ram u) = Some m'" "bytes m' d (n - a) = ?D"
    "agree_outside [(d, Suc (n - a))] m' (ram u)"
    using strcpy_down [OF cs c(3)] g(2,3) by (auto simp: len)
  have ag: "agree_outside [(d, 1025)] m' (ram u)"
    by (rule agree_outside_within [OF m'(3)]) (use g(2,3) c(3) in linarith)
  define t where "t = u\<lparr>ram := m'\<rparr>"
  note put' = grep_put [OF put(1) ag, folded t_def]
  have r: "ram t = m'" by (simp add: t_def)
  have run: "grep_lines e lit d str fname (of_nat (length pat)) cnt (int n) (int a) s = Some (int n - int a, t)"
    unfolding t_def by (rule grep_lines_line(1) [OF z u_def c(1,2)]) (use c(3) m'(1) in simp_all)
  have "m' (d + 1024) \<noteq> 10"
  proof -
    have "\<not> in_region d (Suc (n - a)) (d + 1024)" using c(3) g(2,3) by (simp add: in_region_def)
    then have "m' (d + 1024) = ram u (d + 1024)" using m'(3) by (simp add: agree_outside_def)
    then show ?thesis using g(5) by (simp add: m)
  qed
  moreover have "n - a < 1024" using g(2,3) c(3) by linarith
  ultimately have "grep_between s0 k fd d ?ts (n - a) t"
    using put'(1,2) put(2) m'(2) g(4) D by (simp add: grep_between_def r)
  moreover have "int n - int a = int (n - a)" using g(2) by simp
  ultimately show thesis using that run m'(2) put(2,3) put'(2,3) by (simp only: r)
qed

text \<open>The last line of the file, without a newline.\<close>

lemma grep_last_line:
  assumes at: "grep_at s0 k fd d (grep_texts lit fname name str pat) n a cnt s" and D: "10 \<notin> set (drop a (bytes (ram s) d n))"
    and c: "ram s (d + of_nat n) = 10 \<or> cnt = 0 \<or> a = 0"
  obtains t where "grep_lines e lit d str fname (of_nat (length pat)) cnt (int n) (int a) s = Some (0, t)"
    "grep_between s0 k fd d (grep_texts lit fname name str pat) 0 t" "file_left fd s = []" "file_left fd t = []"
    "screens t = type_on k (grep_one name pat (drop a (bytes (ram s) d n))) (screens s)"
proof -
  let ?ts = "grep_texts lit fname name str pat" and ?D = "drop a (bytes (ram s) d n)"
  have g: "grep_ok s0 k fd d ?ts s" "a \<le> n" "n \<le> 1024" "short_lines (?D @ file_left fd s)" "cnt = 0 \<longrightarrow> file_left fd s = []"
    "file_left fd s \<noteq> [] \<longrightarrow> n = 1024" "ram s (d + 1024) \<noteq> 10"
    using at by (simp_all add: grep_at_def)
  have len: "length ?D = n - a" by simp
  have R: "file_left fd s = []"
  proof (rule ccontr)
    assume "file_left fd s \<noteq> []"
    then have "a = 0" "n = 1024" using g(5-7) c by auto
    moreover have "length ?D < 1024" if "?D \<noteq> []" by (rule short_lines_first [OF g(4) D that])
    ultimately show False using len by (metis diff_zero length_0_conv less_irrefl zero_neq_numeral)
  qed
  have z: "grep_line_end (ram s) d (int n) (int a) = int n"
    unfolding grep_line_end_eq [OF g(2)] conjunct1 [OF no_newline [OF D]] len using g(2) by simp
  define u where "u = s\<lparr>ram := (ram s)(d + of_nat n := 0)\<rparr>"
  have m: "ram u = (ram s)(d + of_nat n := 0)" by (simp add: u_def)
  have "n < 1025" using g(3) by simp
  note put = grep_put [OF g(1) upd_in_buffer [OF this, of d "ram s" 0], folded u_def]
  have "0 \<notin> set ?D" using g(4) by (simp add: short_lines_def)
  then have "cstr ((ram s)(d + of_nat (a + length ?D) := 0)) (d + of_nat a) ?D"
    by (intro cut_line [of a "ram s" d n ?D "[]"]) (use g(2,3) in simp_all)
  then have cs: "cstr (ram u) (d + of_nat a) ?D" using g(2) by (simp add: m len)
  have lt: "a + length ?D < 1025" using g(2,3) by simp
  obtain t where t: "(if grep_check (ram u) d str (of_nat (length pat)) (int a) (int (a + length ?D))
      then grep_show e lit fname (d + of_nat a) u else Some u) = Some t"
    "grep_ok s0 k fd d ?ts t" "file_left fd t = file_left fd s" "screens t = type_on k (grep_one name pat ?D) (screens s)"
    "bytes (ram t) d 1025 = bytes (ram u) d 1025"
    by (rule grep_line_done [OF put(1) cs lt, of e]) (simp only: put(2,3))
  have "grep_lines e lit d str fname (of_nat (length pat)) cnt (int n) (int a) s
      = (if int n \<le> int n + 1 then Some (0, t) else grep_lines e lit d str fname (of_nat (length pat)) cnt (int n) (int n + 1) t)"
    proof (rule grep_lines_line(2) [OF z u_def])
    show "ram s (d + of_nat n) = 10 \<or> cnt = 0 \<or> int a = 0" using c by simp
    have "a + length ?D = n" using g(2) by (simp add: len)
    with t(1) show "(if grep_check (ram u) d str (of_nat (length pat)) (int a) (int n)
        then grep_show e lit fname (d + of_int (int a)) u else Some u) = Some t" by (simp only: of_int_of_nat_eq)
  qed
  then have run: "grep_lines e lit d str fname (of_nat (length pat)) cnt (int n) (int a) s = Some (0, t)" by simp
  have "bytes (ram t) d 1025 ! 1024 = bytes (ram u) d 1025 ! 1024" by (simp only: t(5))
  then have "ram t (d + 1024) \<noteq> 10" using g(7) by (simp add: m)
  then have "grep_between s0 k fd d ?ts 0 t" using t(2,3) R by (simp add: grep_between_def short_lines_def)
  then show thesis using that run R t(3,4) by simp
qed

lemma grep_lines_run:
  "grep_at s0 k fd d (grep_texts lit fname name str pat) n a cnt s \<Longrightarrow>
    \<exists>n' t. grep_lines e lit d str fname (of_nat (length pat)) cnt (int n) (int a) s = Some (int n', t)
      \<and> grep_between s0 k fd d (grep_texts lit fname name str pat) n' t \<and> file_left fd t = file_left fd s \<and> (cnt = 0 \<longrightarrow> n' = 0)
      \<and> typed_for k name pat (drop a (bytes (ram s) d n) @ file_left fd s, screens s) (bytes (ram t) d n' @ file_left fd s, screens t)"
proof (induction "n - a" arbitrary: a s rule: less_induct)
  case less
  let ?D = "drop a (bytes (ram s) d n)"
  note at = less.prems
  show ?case
  proof (cases "10 \<in> set ?D")
    case True
    then obtain l ys where l: "?D = l @ 10 # ys" "10 \<notin> set l" using split_list_first by metis
    obtain t where t: "grep_lines e lit d str fname (of_nat (length pat)) cnt (int n) (int a) s
        = (if ys = [] then Some (0, t) else grep_lines e lit d str fname (of_nat (length pat)) cnt (int n) (int (Suc (a + length l))) t)"
      "grep_at s0 k fd d (grep_texts lit fname name str pat) n (Suc (a + length l)) cnt t" "drop (Suc (a + length l)) (bytes (ram t) d n) = ys"
      "file_left fd t = file_left fd s" "screens t = type_on k (grep_one name pat l) (screens s)"
      by (rule grep_full_line [OF at l])
    have out: "typed_for k name pat (?D @ file_left fd s, screens s) (ys @ file_left fd s, screens t)"
      using typed_for_line [OF l(2), of k name pat "ys @ file_left fd s" "screens s"] by (simp add: l(1) t(5))
    show ?thesis
    proof (cases "ys = []")
      case True
      have "grep_between s0 k fd d (grep_texts lit fname name str pat) 0 t"
        using t(2,3) True by (simp add: grep_between_def grep_at_def)
      then show ?thesis using t(1,4) out True by (intro exI [of _ 0] exI [of _ t]) simp
    next
      case False
      have "Suc (a + length l) \<le> n" using t(2) by (simp add: grep_at_def)
      then have "n - Suc (a + length l) < n - a" by simp
      from less.hyps [OF this t(2)] obtain n' v where v:
        "grep_lines e lit d str fname (of_nat (length pat)) cnt (int n) (int (Suc (a + length l))) t = Some (int n', v)"
        "grep_between s0 k fd d (grep_texts lit fname name str pat) n' v" "file_left fd v = file_left fd t" "cnt = 0 \<longrightarrow> n' = 0"
        "typed_for k name pat (ys @ file_left fd s, screens t) (bytes (ram v) d n' @ file_left fd s, screens v)"
        unfolding t(3,4) by blast
      then show ?thesis using t(1,4) False typed_for_trans [OF out v(5)] by (intro exI [of _ n'] exI [of _ v]) simp
    qed
  next
    case False
    show ?thesis
    proof (cases "ram s (d + of_nat n) = 10 \<or> cnt = 0 \<or> a = 0")
      case True
      obtain t where t: "grep_lines e lit d str fname (of_nat (length pat)) cnt (int n) (int a) s = Some (0, t)"
        "grep_between s0 k fd d (grep_texts lit fname name str pat) 0 t" "file_left fd s = []" "file_left fd t = []"
        "screens t = type_on k (grep_one name pat ?D) (screens s)"
        by (rule grep_last_line [OF at False True])
      then show ?thesis using typed_for_last [OF False, of k name pat "screens s"] by (intro exI [of _ 0] exI [of _ t]) simp
    next
      case no: False
      then have c: "ram s (d + of_nat n) \<noteq> 10" "cnt \<noteq> 0" "0 < a" by simp_all
      obtain t where t: "grep_lines e lit d str fname (of_nat (length pat)) cnt (int n) (int a) s = Some (int (n - a), t)"
        "grep_between s0 k fd d (grep_texts lit fname name str pat) (n - a) t" "bytes (ram t) d (n - a) = ?D"
        "file_left fd t = file_left fd s" "screens t = screens s"
        by (rule grep_moves [OF at False c])
      then show ?thesis using c(2) typed_for_refl by (intro exI [of _ "n - a"] exI [of _ t]) simp
    qed
  qed
qed

section \<open>Reading the file\<close>

lemma file_read_frame:
  fixes s t :: "'a rtc_scheme"
  assumes t_def: "t = snd (file_read fd buf n s)"
  shows "same_image s t" "disp_terminal t = disp_terminal s" "scheduled_terminal t = scheduled_terminal s"
    "f \<noteq> fd \<Longrightarrow> cur_file t f = cur_file s f"
proof -
  obtain m r where "read_data (inode (cur_file s fd)) (file_pos (cur_file s fd)) buf (of_int n) s = (r, s\<lparr>ram := m\<rparr>)"
    using read_data_ram by blast
  then have "t = s \<or> t = s\<lparr>ram := m\<rparr> \<or> t = upd_file fd (\<lambda>f. f\<lparr>file_pos := file_pos f + of_int r\<rparr>) (s\<lparr>ram := m\<rparr>)"
    by (auto simp: t_def file_read_def)
  then show "same_image s t" "disp_terminal t = disp_terminal s" "scheduled_terminal t = scheduled_terminal s"
    "f \<noteq> fd \<Longrightarrow> cur_file t f = cur_file s f"
    by (auto simp: same_image_def)
qed

lemma grep_gets:
  assumes g: "grep_ok s0 k fd d ts s" "n < 1024"
  defines "cs \<equiv> take (1024 - n) (file_left fd s)"
  obtains t where "user_call e Sys_Read (of_int fd) (d + of_nat n) (of_int (1024 - int n)) s = Some (int (length cs), t)"
    "grep_ok s0 k fd d ts t" "file_left fd t = drop (length cs) (file_left fd s)"
    "bytes (ram t) d (n + length cs) = bytes (ram s) d n @ cs" "screens t = screens s" "ram t (d + 1024) = ram s (d + 1024)"
proof -
  let ?b = "d + of_nat n" and ?n = "1024 - int n"
  have c: "copy_ok k fd d 1025 s" "texts_ok d ts s" "unat d + 1025 \<le> 4294967296" using g(1) by (simp_all add: grep_ok_def)
  have c': "user_ok s" "sys_reader_ok fd d 1025 s" "apart d 1025 s" using c(1) by (simp_all add: copy_ok_def)
  have out: "outside_file s (inode (cur_file s fd)) d 1025" using c'(2) by (simp add: sys_reader_ok_def reader_ok_def)
  have nn: "nat ?n = 1024 - n" "0 \<le> ?n" using g(2) by simp_all
  have "?b \<noteq> 0" using buffer_string(2) [OF g(1), of n "[]"] g(2) by simp
  moreover have "outside_file s (inode (cur_file s fd)) ?b (nat ?n)" using outside_file_shift [OF out, of n "1024 - n"] g(2) by (simp add: nn)
  moreover have "apart ?b (nat ?n) s" using apart_shift [OF c'(3), of n "1024 - n"] g(2) by (simp add: nn)
  ultimately have sub: "copy_ok k fd ?b ?n s" using c(1) g(2) by (simp add: copy_ok_def sys_reader_ok_def reader_ok_def)
  define t where "t = snd (sti_read (env_irqs e) fd ?b ?n s)"
  note rd = file_copier.rd_result [OF sub nn(2) order_refl, of "env_irqs e"] file_copier.rd_got [OF sub nn(2) order_refl, of "env_irqs e", folded t_def]
    file_copier.rd_data [OF sub nn(2) order_refl, of "env_irqs e", folded t_def] file_copier.rd_pos [OF sub nn(2) order_refl, of "env_irqs e", folded t_def]
  have cs: "take (nat ?n) (drop (unat (file_pos (cur_file s fd))) (content s (inode (cur_file s fd)))) = cs"
    by (simp add: cs_def file_left_def nn)
  have "user_call e Sys_Read (of_int fd) ?b (of_int ?n) s = Some (sti_read (env_irqs e) fd ?b ?n s)"
    by (rule user_call_read [OF sub nn(2) order_refl])
  then have call: "user_call e Sys_Read (of_int fd) ?b (of_int ?n) s = Some (int (length cs), t)"
    using rd(1) by (simp only: cs t_def prod.collapse) (metis prod.collapse)
  note eff = sti_read_effect [OF sub nn(2) order_refl, of "env_irqs e", folded t_def]
  have left: "file_left fd t = drop (length cs) (file_left fd s)" using rd(3,4) by (simp add: file_left_def cs add.commute)
  have st: "sys_reader_ok fd ?b ?n (sti s)" "apart ?b (nat ?n) (sti s)" using sub by (simp_all add: copy_ok_def apart_def)
  have fr: "t = snd (file_read fd ?b ?n (sti s))" by (simp add: t_def sti_read_def sys_rd_file [OF st(1) nn(2)])
  note v = file_read_views [OF st(1) nn(2) order_refl st(2), folded fr]
  have ag: "agree_outside [(?b, 1024 - n)] (ram t) (ram s)"
    using file_read_within [OF nn(2), of ?b fd "sti s", folded fr] by (simp add: nn)
  have agd: "agree_outside [(d, 1025)] (ram t) (ram s)" by (rule agree_outside_shift [OF ag]) (use g(2) in simp)
  have ap: "apart a j t = apart a j s" for a j using v(5) by (simp add: apart_def)
  have "outside_file t (inode (cur_file t fd)) d 1025" using v(6) out by simp
  then have "copy_ok k fd d 1025 t" using eff(1) c(1) by (simp add: copy_ok_def ap sys_reader_ok_def reader_ok_def)
  moreover have "agree_outside [own_screen s, (d, 1025)] (ram t) (ram s)" using agd by (simp add: agree_outside_def)
  then have "texts_ok d ts t" by (rule texts_kept [OF c(2) c'(1) ap])
  moreover have "kept_since s0 fd [own_screen s0, (d, 1025)] t"
  proof (rule kept_since_trans)
    show s0: "kept_since s0 fd [own_screen s0, (d, 1025)] s" using g(1) by (simp add: grep_ok_def)
    show "kept_since s fd [own_screen s0, (d, 1025)] t"
      using agd file_read_frame [OF fr]
      by (auto simp: kept_since_def agree_outside_def same_image_def)
  qed
  ultimately have ok: "grep_ok s0 k fd d ts t" using c(3) by (simp add: grep_ok_def)
  have ub: "unat ?b = unat d + n" using c(3) g(2) by (simp add: unat_word_ariths unat_of_nat32)
  have "disjoint_regions ?b (1024 - n) d n" by (rule regions_sep) (use ub c(3) g(2) in linarith)
  then have "bytes (ram t) d n = bytes (ram s) d n" by (intro agree_outside_bytes [OF ag]) simp
  then have b: "bytes (ram t) d (n + length cs) = bytes (ram s) d n @ cs" using rd(2) by (simp add: bytes_add cs)
  have "\<not> in_region ?b (1024 - n) (d + 1024)"
  proof -
    have "(d + 1024) - ?b = of_nat (1024 - n)" using g(2) by (simp add: of_nat_diff)
    then have "unat ((d + 1024) - ?b) = 1024 - n" by (simp only: unat_of_nat32)
    then show ?thesis by (simp add: in_region_def)
  qed
  then have last: "ram t (d + 1024) = ram s (d + 1024)" using ag by (simp add: agree_outside_def)
  show thesis by (rule that [OF call ok left b eff(2) last])
qed

lemma grep_read:
  assumes bt: "grep_between s0 k fd d ts n s"
  defines "cs \<equiv> take (1024 - n) (file_left fd s)"
  obtains t where "user_call e Sys_Read (of_int fd) (d + of_nat n) (of_int (1024 - int n)) s = Some (int (length cs), t)"
    "grep_at s0 k fd d ts (n + length cs) 0 (int (length cs)) t" "file_left fd t = drop (length cs) (file_left fd s)"
    "bytes (ram t) d (n + length cs) = bytes (ram s) d n @ cs" "screens t = screens s"
proof -
  have g: "grep_ok s0 k fd d ts s" "n < 1024" "short_lines (bytes (ram s) d n @ file_left fd s)"
    "ram s (d + 1024) \<noteq> 10" using bt by (simp_all add: grep_between_def)
  obtain t where t: "user_call e Sys_Read (of_int fd) (d + of_nat n) (of_int (1024 - int n)) s = Some (int (length cs), t)"
    "grep_ok s0 k fd d ts t" "file_left fd t = drop (length cs) (file_left fd s)"
    "bytes (ram t) d (n + length cs) = bytes (ram s) d n @ cs" "screens t = screens s" "ram t (d + 1024) = ram s (d + 1024)"
    unfolding cs_def by (rule grep_gets [OF g(1,2)])
  note call = t(1) and ok = t(2) and left = t(3) and b = t(4) and last = t(6)
  have d1: "drop (length cs) (file_left fd s) = drop (1024 - n) (file_left fd s)" by (auto simp: cs_def min_def)
  have app: "cs @ drop (length cs) (file_left fd s) = file_left fd s" unfolding d1 unfolding cs_def by (rule append_take_drop_id)
  have len: "length cs \<le> 1024 - n" "file_left fd t \<noteq> [] \<Longrightarrow> length cs = 1024 - n"
    unfolding left by (auto simp: cs_def)
  have "short_lines (drop 0 (bytes (ram t) d (n + length cs)) @ file_left fd t)" unfolding b left using g(3) app by simp
  moreover have "int (length cs) = 0 \<longrightarrow> file_left fd t = []" using len(2) g(2) by fastforce
  moreover have "file_left fd t \<noteq> [] \<longrightarrow> n + length cs = 1024" using len(2) g(2) by auto
  moreover have "ram t (d + 1024) \<noteq> 10" using g(4) last by simp
  moreover have "n + length cs \<le> 1024" using len(1) g(2) by linarith
  ultimately have "grep_at s0 k fd d ts (n + length cs) 0 (int (length cs)) t" using ok unfolding grep_at_def by blast
  then show thesis using that [OF call _ left b t(5)] by blast
qed

lemma grep_reads_run:
  "grep_between s0 k fd d (grep_texts lit fname name str pat) n s \<Longrightarrow>
    \<exists>t. grep_reads e lit d str fname (of_nat (length pat)) (of_int fd) (int n) s = Some (0, t)
      \<and> grep_ok s0 k fd d (grep_texts lit fname name str pat) t \<and> ram t (d + 1024) \<noteq> 10
      \<and> screens t = type_on k (grep_output name pat (bytes (ram s) d n @ file_left fd s)) (screens s)"
proof (induction "length (file_left fd s)" arbitrary: n s rule: less_induct)
  case less
  let ?ts = "grep_texts lit fname name str pat" and ?L = "file_left fd s"
  define cs where "cs = take (1024 - n) ?L"
  obtain t where t: "user_call e Sys_Read (of_int fd) (d + of_nat n) (of_int (1024 - int n)) s = Some (int (length cs), t)"
    "grep_at s0 k fd d ?ts (n + length cs) 0 (int (length cs)) t" "file_left fd t = drop (length cs) ?L"
    "bytes (ram t) d (n + length cs) = bytes (ram s) d n @ cs" "screens t = screens s"
    unfolding cs_def by (rule grep_read [OF less.prems])
  obtain n' u where u: "grep_lines e lit d str fname (of_nat (length pat)) (int (length cs)) (int (n + length cs)) (int 0) t = Some (int n', u)"
    "grep_between s0 k fd d ?ts n' u" "file_left fd u = file_left fd t" "int (length cs) = 0 \<longrightarrow> n' = 0"
    "typed_for k name pat (drop 0 (bytes (ram t) d (n + length cs)) @ file_left fd t, screens t) (bytes (ram u) d n' @ file_left fd t, screens u)"
    using grep_lines_run [OF t(2), of e] by blast
  have app: "cs @ drop (length cs) ?L = ?L" by (auto simp: cs_def min_def)
  have "typed_for k name pat (bytes (ram s) d n @ ?L, screens s) (bytes (ram u) d n' @ file_left fd u, screens u)"
    using u(5) app by (simp add: t(3-5) u(3))
  then obtain out where o: "screens u = type_on k out (screens s)"
    "grep_output name pat (bytes (ram s) d n @ ?L) = out @ grep_output name pat (bytes (ram u) d n' @ file_left fd u)"
    unfolding typed_for_def by auto
  have run: "grep_reads e lit d str fname (of_nat (length pat)) (of_int fd) (int n) s
      = (if length cs = 0 then Some (0, u) else grep_reads e lit d str fname (of_nat (length pat)) (of_int fd) (int n') u)"
  proof -
    have c: "(-1 = int (length cs)) = False" "(0 = int (length cs)) = (length cs = 0)" by auto
    have g: "grep_lines e lit d str fname (of_nat (length pat)) (int (length cs)) (int n + int (length cs)) 0 t = Some (int n', u)"
      using u(1) by simp
    show ?thesis
      by (subst grep_reads.simps) (simp only: of_int_of_nat_eq t(1) g c Option.bind.simps prod.case if_False)
  qed
  have ok: "grep_ok s0 k fd d ?ts u" "ram u (d + 1024) \<noteq> 10" using u(2) by (simp_all add: grep_between_def)
  show ?case
  proof (cases "cs = []")
    case True
    have "n < 1024" using less.prems by (simp add: grep_between_def)
    then have "?L = []" using True by (simp add: cs_def)
    then have "file_left fd u = []" "n' = 0" using u(3,4) t(3) True by simp_all
    then show ?thesis using run ok o True by simp
  next
    case False
    have "length (file_left fd u) < length ?L" using False by (simp add: u(3) t(3) cs_def)
    from less.hyps [OF this u(2)] obtain v where v:
      "grep_reads e lit d str fname (of_nat (length pat)) (of_int fd) (int n') u = Some (0, v)" "grep_ok s0 k fd d ?ts v" "ram v (d + 1024) \<noteq> 10"
      "screens v = type_on k (grep_output name pat (bytes (ram u) d n' @ file_left fd u)) (screens u)" by blast
    then have "screens v = type_on k (grep_output name pat (bytes (ram s) d n @ ?L)) (screens s)" by (simp only: o v(4) type_on_append)
    then show ?thesis using run v(1-3) False by simp
  qed
qed

section \<open>Any file\<close>

text \<open>
  A file may also hold NULs, at which a line ends for the string functions, and lines longer than
  the buffer, which are searched piece by piece. What is typed is then still a list of lines, each
  after the name of the file.
\<close>

definition report :: "u8 list \<Rightarrow> u8 list \<Rightarrow> bool" where
  "report name out \<longleftrightarrow> (\<exists>ls. out = concat (map (\<lambda>l. name @ 58 # l @ [10]) ls) \<and> (\<forall>l \<in> set ls. 0 \<notin> set l \<and> 10 \<notin> set l))"

lemma report_Nil [simp, intro]: "report name []"
  unfolding report_def by (rule exI [of _ "[]"]) simp

lemma report_line: "0 \<notin> set l \<Longrightarrow> 10 \<notin> set l \<Longrightarrow> report name (name @ 58 # l @ [10])"
  unfolding report_def by (rule exI [of _ "[l]"]) simp

lemma report_append: "report name a \<Longrightarrow> report name b \<Longrightarrow> report name (a @ b)"
proof -
  assume "report name a" "report name b"
  then obtain la lb where "a = concat (map (\<lambda>l. name @ 58 # l @ [10]) la)" "b = concat (map (\<lambda>l. name @ 58 # l @ [10]) lb)"
    "\<forall>l \<in> set (la @ lb). 0 \<notin> set l \<and> 10 \<notin> set l" unfolding report_def by auto
  then show ?thesis unfolding report_def by (intro exI [of _ "la @ lb"]) simp
qed

lemma file_lines_chars: "l \<in> set (file_lines xs) \<Longrightarrow> 10 \<notin> set l \<and> set l \<subseteq> set xs"
proof (induction xs rule: file_lines.induct)
  case (1 xs)
  then have ne: "xs \<noteq> []" by (auto simp: file_lines.simps [of "[]"])
  have "set (tl ys) \<subseteq> set ys" for ys :: "u8 list" by (cases ys) auto
  then have tl: "set (tl (dropWhile (\<lambda>c. c \<noteq> 10) xs)) \<subseteq> set xs" by (meson set_dropWhileD subsetI subset_iff)
  have "l = takeWhile (\<lambda>c. c \<noteq> 10) xs \<or> l \<in> set (file_lines (tl (dropWhile (\<lambda>c. c \<noteq> 10) xs)))"
    using 1(2) ne by (subst (asm) file_lines.simps) auto
  then show ?case
  proof
    assume "l = takeWhile (\<lambda>c. c \<noteq> 10) xs"
    then show ?thesis using set_takeWhileD by fastforce
  next
    assume "l \<in> set (file_lines (tl (dropWhile (\<lambda>c. c \<noteq> 10) xs)))"
    then show ?thesis using 1(1) [OF ne] tl by blast
  qed
qed

lemma report_output:
  assumes "0 \<notin> set xs"
  shows "report name (grep_output name pat xs)"
proof -
  have "report name (concat (map (grep_one name pat) ls))" if "set ls \<subseteq> set (file_lines xs)" for ls
    using that
  proof (induction ls)
    case (Cons l ls)
    then have "10 \<notin> set l \<and> set l \<subseteq> set xs" using file_lines_chars [of l xs] by simp
    then have "0 \<notin> set l" "10 \<notin> set l" using assms by auto
    then have "report name (grep_one name pat l)" by (simp add: grep_one_def report_line)
    then show ?case using Cons by (simp add: report_append)
  qed simp
  then show ?thesis by (simp add: grep_output_def)
qed

lemma cstr_cut: "bytes m a (Suc (length xs)) = xs @ [0] \<Longrightarrow> length xs < 4294967296 \<Longrightarrow> cstr m a (takeWhile (\<lambda>c. c \<noteq> 0) xs)"
proof -
  assume b: "bytes m a (Suc (length xs)) = xs @ [0]" and n: "length xs < 4294967296"
  let ?l = "takeWhile (\<lambda>c. c \<noteq> 0) xs"
  have len: "length ?l \<le> length xs" by (rule length_takeWhile_le)
  have "bytes m a (Suc (length ?l)) = take (Suc (length ?l)) (xs @ [0])"
    using take_bytes [of "Suc (length ?l)" m a "Suc (length xs)"] len by (simp only: b min_def Suc_le_mono if_True)
  also have "\<dots> = take (Suc (length ?l)) (?l @ dropWhile (\<lambda>c. c \<noteq> 0) xs @ [0])"
    by (metis append_assoc takeWhile_dropWhile_id)
  also have "\<dots> = ?l @ [0]"
  proof (cases "dropWhile (\<lambda>c. c \<noteq> 0) xs")
    case (Cons y ys)
    then have "y = 0" using hd_dropWhile [of "\<lambda>c. c \<noteq> 0" xs] by auto
    then show ?thesis using Cons by (simp del: takeWhile_dropWhile_id)
  next
    case Nil
    then show ?thesis by (simp only: append_Nil) simp
  qed
  finally show ?thesis using n len set_takeWhileD by (fastforce simp: cstr_def)
qed

text \<open>One turn of the loop over the buffer: a line is searched, or the rest is moved down.\<close>

lemma grep_any_line:
  assumes ok: "grep_ok s0 k fd d (grep_texts lit fname name str pat) s" and a: "a \<le> n" "n \<le> 1024"
  obtains (moved) t where "grep_lines e lit d str fname s_len cnt (int n) (int a) s = Some (int (n - a), t)" "0 < a" "cnt \<noteq> 0"
      "grep_ok s0 k fd d (grep_texts lit fname name str pat) t" "file_left fd t = file_left fd s" "screens t = screens s"
      "ram s (d + 1024) \<noteq> 10 \<Longrightarrow> ram t (d + 1024) \<noteq> 10"
    | (searched) z t out where "a \<le> z" "z \<le> n"
      "grep_lines e lit d str fname s_len cnt (int n) (int a) s
        = (if n \<le> Suc z then Some (0, t) else grep_lines e lit d str fname s_len cnt (int n) (int (Suc z)) t)"
      "grep_ok s0 k fd d (grep_texts lit fname name str pat) t" "file_left fd t = file_left fd s"
      "screens t = type_on k out (screens s)" "report name out" "ram s (d + 1024) \<noteq> 10 \<Longrightarrow> ram t (d + 1024) \<noteq> 10"
proof -
  let ?ts = "grep_texts lit fname name str pat"
  define D where "D = takeWhile (\<lambda>c. c \<noteq> 10) (drop a (bytes (ram s) d n))"
  define l where "l = takeWhile (\<lambda>c. c \<noteq> 0) D"
  define z where "z = a + length D"
  have "length D \<le> length (drop a (bytes (ram s) d n))" unfolding D_def by (rule length_takeWhile_le)
  then have zn: "a \<le> z" "z \<le> n" using a by (simp_all add: z_def)
  have split: "drop a (bytes (ram s) d n) = D @ dropWhile (\<lambda>c. c \<noteq> 10) (drop a (bytes (ram s) d n))" by (simp add: D_def)
  have z: "grep_line_end (ram s) d (int n) (int a) = int z" unfolding grep_line_end_eq [OF a(1)] by (simp add: z_def D_def)
  define u where "u = s\<lparr>ram := (ram s)(d + of_nat z := 0)\<rparr>"
  have m: "ram u = (ram s)(d + of_nat z := 0)" by (simp add: u_def)
  have "z < 1025" using zn a(2) by simp
  note put = grep_put [OF ok upd_in_buffer [OF this, of d "ram s" 0], folded u_def]
  have "bytes (ram u) (d + of_nat a) (Suc (length D)) = D @ [0]"
    unfolding m z_def by (rule cut_bytes [OF split a])
  then have c: "cstr (ram u) (d + of_nat a) l" unfolding l_def by (rule cstr_cut) (use zn a(2) in \<open>simp add: z_def\<close>)
  have len: "a + length l \<le> z" using length_takeWhile_le [of _ D] by (simp add: l_def z_def)
  have chars: "0 \<notin> set l" "10 \<notin> set l" unfolding l_def D_def by (auto dest!: set_takeWhileD)
  have last_u: "ram u (d + 1024) \<noteq> 10" if "ram s (d + 1024) \<noteq> 10" using that by (simp add: m)
  show thesis
  proof (cases "ram s (d + of_nat z) \<noteq> 10 \<and> cnt \<noteq> 0 \<and> a \<noteq> 0")
    case True
    then have a0: "0 < a" by simp
    obtain m' where m': "ece391_strcpy d (d + of_nat a) (ram u) = Some m'" "agree_outside [(d, Suc (length l))] m' (ram u)"
      using strcpy_down [OF c a0] len zn a(2) by auto
    have sl: "Suc (length l) \<le> 1024" using len zn a(2) a0 by linarith
    then have "Suc (length l) \<le> 1025" by simp
    from grep_put [OF put(1) agree_outside_within [OF m'(2) this]]
    have t: "grep_ok s0 k fd d ?ts (u\<lparr>ram := m'\<rparr>)" "file_left fd (u\<lparr>ram := m'\<rparr>) = file_left fd s" "screens (u\<lparr>ram := m'\<rparr>) = screens s"
      using put(2,3) by simp_all
    have "\<not> in_region d (Suc (length l)) (d + 1024)" using sl by (simp add: in_region_def)
    then have "m' (d + 1024) = ram u (d + 1024)" using m'(2) by (simp add: agree_outside_def)
    then have last: "ram s (d + 1024) \<noteq> 10 \<Longrightarrow> ram (u\<lparr>ram := m'\<rparr>) (d + 1024) \<noteq> 10" using last_u by simp
    have i: "int (n - a) = int n - int a" using a(1) by (rule of_nat_diff)
    have run: "grep_lines e lit d str fname s_len cnt (int n) (int a) s = Some (int (n - a), u\<lparr>ram := m'\<rparr>)"
      unfolding i by (rule grep_lines_line(1) [OF z u_def]) (use True m'(1) in simp_all)
    have "cnt \<noteq> 0" using True by simp
    from moved [OF run a0 this t last] show thesis .
  next
    case False
    have run: "grep_lines e lit d str fname s_len cnt (int n) (int a) s
        = (if n \<le> Suc z then Some (0, t) else grep_lines e lit d str fname s_len cnt (int n) (int (Suc z)) t)"
      if "(if grep_check (ram u) d str s_len (int a) (int z) then grep_show e lit fname (d + of_int (int a)) u else Some u) = Some t" for t
    proof -
      have c: "ram s (d + of_nat z) = 10 \<or> cnt = 0 \<or> int a = 0" using False by auto
      have i: "int z + 1 = int (Suc z)" "int n \<le> int (Suc z) \<longleftrightarrow> n \<le> Suc z" by auto
      show ?thesis using grep_lines_line(2) [OF z u_def c that] unfolding i .
    qed
    show thesis
    proof (cases "grep_check (ram u) d str s_len (int a) (int z)")
      case True
      have lt: "a + length l < 1025" using len zn a(2) by linarith
      obtain t where t: "grep_show e lit fname (d + of_nat a) u = Some t" "grep_ok s0 k fd d ?ts t" "file_left fd t = file_left fd u"
        "screens t = type_on k (name @ 58 # l @ [10]) (screens u)" "bytes (ram t) d 1025 = bytes (ram u) d 1025"
        by (rule grep_shows [OF put(1) c lt])
      have "bytes (ram t) d 1025 ! 1024 = bytes (ram u) d 1025 ! 1024" by (simp only: t(5))
      then have last: "ram s (d + 1024) \<noteq> 10 \<Longrightarrow> ram t (d + 1024) \<noteq> 10" using last_u by simp
      have run': "grep_lines e lit d str fname s_len cnt (int n) (int a) s
          = (if n \<le> Suc z then Some (0, t) else grep_lines e lit d str fname s_len cnt (int n) (int (Suc z)) t)"
        by (rule run) (simp only: True if_True of_int_of_nat_eq t(1))
      show thesis by (rule searched [OF zn run' t(2) _ _ report_line [OF chars] last]) (simp_all only: t(3,4) put(2,3) simp_thms)
    next
      case no: False
      have run': "grep_lines e lit d str fname s_len cnt (int n) (int a) s
          = (if n \<le> Suc z then Some (0, u) else grep_lines e lit d str fname s_len cnt (int n) (int (Suc z)) u)"
        by (rule run) (simp only: no if_False)
      show thesis by (rule searched [OF zn run' put(1,2) _ report_Nil last_u]) (simp_all only: put(3) type_on_Nil simp_thms)
    qed
  qed
qed

lemma grep_any_lines:
  "grep_ok s0 k fd d (grep_texts lit fname name str pat) s \<Longrightarrow> a \<le> n \<Longrightarrow> n \<le> 1024 \<Longrightarrow>
    \<exists>n' t out. grep_lines e lit d str fname s_len cnt (int n) (int a) s = Some (int n', t) \<and> n' < 1024
      \<and> grep_ok s0 k fd d (grep_texts lit fname name str pat) t \<and> file_left fd t = file_left fd s
      \<and> screens t = type_on k out (screens s) \<and> report name out \<and> (ram s (d + 1024) \<noteq> 10 \<longrightarrow> ram t (d + 1024) \<noteq> 10)"
proof (induction "n - a" arbitrary: a s rule: less_induct)
  case less
  show ?case
  proof (cases rule: grep_any_line [OF less.prems, of e s_len cnt, case_names moved searched])
    case (moved t)
    then have "n - a < 1024" using less.prems(3) by linarith
    then show ?thesis using moved by (intro exI [of _ "n - a"] exI [of _ t] exI [of _ "[]"]) simp
  next
    case (searched z t out)
    show ?thesis
    proof (cases "n \<le> Suc z")
      case True
      then show ?thesis using searched by (intro exI [of _ 0] exI [of _ t] exI [of _ out]) simp
    next
      case False
      then have "n - Suc z < n - a" "Suc z \<le> n" using searched(1) by simp_all
      from less.hyps [OF this(1) searched(4) this(2) less.prems(3)] obtain n' v out' where v:
        "grep_lines e lit d str fname s_len cnt (int n) (int (Suc z)) t = Some (int n', v)" "n' < 1024"
        "grep_ok s0 k fd d (grep_texts lit fname name str pat) v" "file_left fd v = file_left fd t"
        "screens v = type_on k out' (screens t)" "report name out'" "ram t (d + 1024) \<noteq> 10 \<longrightarrow> ram v (d + 1024) \<noteq> 10" by blast
      have "grep_lines e lit d str fname s_len cnt (int n) (int a) s = Some (int n', v)" using searched(3) v(1) False by simp
      moreover have "screens v = type_on k (out @ out') (screens s)" using searched(6) v(5) by (simp add: type_on_append)
      moreover have "report name (out @ out')" by (rule report_append [OF searched(7) v(6)])
      ultimately show ?thesis using v(2-4,7) searched(5,8) by (intro exI [of _ n'] exI [of _ v] exI [of _ "out @ out'"]) simp
    qed
  qed
qed

lemma grep_any_reads:
  "grep_ok s0 k fd d (grep_texts lit fname name str pat) s \<Longrightarrow> n < 1024 \<Longrightarrow>
    \<exists>t out. grep_reads e lit d str fname s_len (of_int fd) (int n) s = Some (0, t)
      \<and> grep_ok s0 k fd d (grep_texts lit fname name str pat) t
      \<and> screens t = type_on k out (screens s) \<and> report name out \<and> (ram s (d + 1024) \<noteq> 10 \<longrightarrow> ram t (d + 1024) \<noteq> 10)"
proof (induction "length (file_left fd s)" arbitrary: n s rule: less_induct)
  case less
  let ?ts = "grep_texts lit fname name str pat" and ?L = "file_left fd s"
  define cs where "cs = take (1024 - n) ?L"
  obtain t where t: "user_call e Sys_Read (of_int fd) (d + of_nat n) (of_int (1024 - int n)) s = Some (int (length cs), t)"
    "grep_ok s0 k fd d ?ts t" "file_left fd t = drop (length cs) ?L" "bytes (ram t) d (n + length cs) = bytes (ram s) d n @ cs"
    "screens t = screens s" "ram t (d + 1024) = ram s (d + 1024)"
    unfolding cs_def by (rule grep_gets [OF less.prems])
  have "n + length cs \<le> 1024" using less.prems(2) by (simp add: cs_def)
  from grep_any_lines [OF t(2) le0 this, of e s_len "int (length cs)"] obtain n' u out where
    u: "grep_lines e lit d str fname s_len (int (length cs)) (int (n + length cs)) (int 0) t = Some (int n', u)" "n' < 1024"
    "grep_ok s0 k fd d ?ts u" "file_left fd u = file_left fd t" "screens u = type_on k out (screens t)" "report name out"
    "ram t (d + 1024) \<noteq> 10 \<longrightarrow> ram u (d + 1024) \<noteq> 10" by blast
  have run: "grep_reads e lit d str fname s_len (of_int fd) (int n) s
      = (if length cs = 0 then Some (0, u) else grep_reads e lit d str fname s_len (of_int fd) (int n') u)"
  proof -
    have c: "(-1 = int (length cs)) = False" "(0 = int (length cs)) = (length cs = 0)" by auto
    have g: "grep_lines e lit d str fname s_len (int (length cs)) (int n + int (length cs)) 0 t = Some (int n', u)"
      using u(1) by simp
    show ?thesis
      by (subst grep_reads.simps) (simp only: of_int_of_nat_eq t(1) g c Option.bind.simps prod.case if_False)
  qed
  show ?case
  proof (cases "cs = []")
    case True
    then show ?thesis using run u t by (intro exI [of _ u] exI [of _ out]) simp
  next
    case False
    have "length (file_left fd u) < length ?L" using False by (simp add: u(4) t(3) cs_def)
    from less.hyps [OF this u(3,2)] obtain v out' where v:
      "grep_reads e lit d str fname s_len (of_int fd) (int n') u = Some (0, v)" "grep_ok s0 k fd d ?ts v"
      "screens v = type_on k out' (screens u)" "report name out'" "ram u (d + 1024) \<noteq> 10 \<longrightarrow> ram v (d + 1024) \<noteq> 10" by blast
    have "screens v = type_on k (out @ out') (screens s)" using v(3) u(5) t(5) by (simp add: type_on_append)
    then show ?thesis using run v(1,2,5) False u(7) t(6) report_append [OF u(6) v(4)]
      by (intro exI [of _ v] exI [of _ "out @ out'"]) simp
  qed
qed

end
