(* ===== verification/Grepping.thy ===== *)
theory Grepping
  imports Search
begin

text \<open>
  \<open>do_one_file\<close> and \<open>main\<close> of syscalls/ece391grep.c: opening, searching and closing one file leaves the
  rest of the state as it was (\<open>kept_since\<close>), so that the loop over the directory can go on with the
  next name (\<open>dir_world\<close>, \<open>grep_walk\<close>) and the whole program goes through all files: for each it types a list of lines,
  and for the files of the first kind below exactly the lines that match.
\<close>

section \<open>One file\<close>

text \<open>
  A process that can search a file: the name is that of entry \<open>j\<close>, an ordinary file with index node
  \<open>ino\<close>; the buffer, the scratch entries of \<open>open\<close>, the strings, the
  image and the screens do not overlap.
\<close>

definition grep_ready :: "'a rtc_scheme env \<Rightarrow> (u8 list \<Rightarrow> u32) \<Rightarrow> u32 \<Rightarrow> u32 \<Rightarrow> u8 list \<Rightarrow> u32 \<Rightarrow> u8 list \<Rightarrow> nat \<Rightarrow> u32 \<Rightarrow> 'a rtc_scheme \<Rightarrow> bool" where
  "grep_ready e lit d fname name str pat j ino s \<longleftrightarrow> user_ok s \<and> file_ready (env_dentry e) (env_temp e) fname name j ino s
     \<and> good_inode s ino \<and> d \<noteq> 0 \<and> unat d + 1025 \<le> 4294967296
     \<and> (\<forall>r \<in> set [(d, 1025), (env_dentry e, 40), (env_temp e, 40)]. apart (fst r) (snd r) s \<and> outside_file s ino (fst r) (snd r))
     \<and> outside_file s ino (fst (own_screen s)) 4000 \<and> texts_ok d (grep_texts lit fname name str pat) s
     \<and> (\<forall>r \<in> {env_dentry e, env_temp e}. disjoint_regions r 40 d 1025
          \<and> (\<forall>t \<in> set (grep_texts lit fname name str pat). disjoint_regions r 40 (fst t) (Suc (length (snd t)))))"

lemma file_ready_sti:
  fixes s :: "'a rtc_scheme"
  shows "file_ready a b fname name j ino (sti s) = file_ready a b fname name j ino s"
  by (simp add: file_ready_def openable_def scratch_dentry_def lookup_def entry_name_def dir_entry_addr_def entry_type_def entry_inode_def)

lemma grep_opens:
  assumes ready: "grep_ready e lit d fname name str pat j ino s" and free: "least_free (open_files s) fd"
  obtains t where "user_call e Sys_Open fname 0 0 s = Some (fd, t)" "fd \<noteq> -1" "screens t = screens s"
    "grep_ok t (scheduled_terminal s) fd d (grep_texts lit fname name str pat) t" "file_left fd t = content s ino"
    "kept_since s fd [(env_dentry e, 40), (env_temp e, 40)] t" "ram t (d + 1024) = ram s (d + 1024)"
proof -
  let ?d = "env_dentry e" and ?p = "env_temp e" and ?ts = "grep_texts lit fname name str pat"
  have r: "user_ok s" "file_ready ?d ?p fname name j ino s" "good_inode s ino"
    "d \<noteq> 0" "unat d + 1025 \<le> 4294967296" "outside_file s ino (fst (own_screen s)) 4000" "texts_ok d ?ts s"
    and rs: "\<forall>r \<in> set [(d, 1025), (?d, 40), (?p, 40)]. apart (fst r) (snd r) s \<and> outside_file s ino (fst r) (snd r)"
    and dis: "\<forall>r \<in> {?d, ?p}. disjoint_regions r 40 d 1025 \<and> (\<forall>t \<in> set ?ts. disjoint_regions r 40 (fst t) (Suc (length (snd t))))"
    using ready unfolding grep_ready_def by blast+
  have opn: "open_files (sti s) = open_files s" by (simp add: open_files_def fun_eq_iff)
  have s1: "user_ok (sti s)" "file_ready ?d ?p fname name j ino (sti s)" "least_free (open_files (sti s)) fd"
    "outside_file (sti s) ino (fst (own_screen (sti s))) 4000" "apart a n (sti s) = apart a n s" "screens (sti s) = screens s" for a n
    using r(1,2,6) free by (simp_all only: opn file_ready_sti) (simp_all add: user_ok_def own_screen_def apart_def screens_def fun_eq_iff)
  have good: "good_inode (sti s) ino" using same_image_views(4) [of s "sti s" ino] r(3) by (simp add: same_image_def)
  have rs': "\<forall>r \<in> set [(d, nat 1025), (?d, 40), (?p, 40)]. apart (fst r) (snd r) (sti s) \<and> outside_file (sti s) ino (fst r) (snd r)"
    using rs by (simp add: s1(5))
  obtain t where t: "sys_open ?d ?p fname (sti s) = Some (fd, t)" "copy_ok (scheduled_terminal (sti s)) fd d 1025 t" "screens t = screens (sti s)"
    "content t (inode (cur_file t fd)) = content (sti s) ino" "file_pos (cur_file t fd) = 0"
    "agree_outside [(?d, 40), (?p, 40)] (ram t) (ram (sti s))" "disp_terminal t = disp_terminal (sti s)" "2 \<le> fd" "fd < 8"
    "scheduled_terminal t = scheduled_terminal (sti s)" "same_image (sti s) t" "\<forall>f. f \<noteq> fd \<longrightarrow> cur_file t f = cur_file (sti s) f"
    by (rule opens_reader [OF s1(2,3) good s1(1) rs' s1(4) r(4)]) simp_all
  have ag: "agree_outside [(?d, 40), (?p, 40)] (ram t) (ram s)" using t(6) by simp
  have "cstr (ram t) (fst x) (snd x)" if "x \<in> set ?ts" for x
    by (rule agree_outside_cstr [OF ag]) (use r(7) dis that in \<open>simp_all add: texts_ok_def\<close>)
  moreover have ap: "apart a n t = apart a n s" for a n using t(7) by (simp add: apart_def term_base_def)
  ultimately have "texts_ok d ?ts t" using r(7) by (simp add: texts_ok_def)
  then have "grep_ok t (scheduled_terminal s) fd d ?ts t" using t(2) r(5) by (simp add: grep_ok_def kept_since_def same_image_def)
  moreover have "ram t (d + 1024) = ram s (d + 1024)"
    by (rule agree_outsideD [OF ag, of d 1025]) (use dis in \<open>simp_all add: in_region_def\<close>)
  moreover have left: "file_left fd t = content s ino" using t(4,5) by (simp add: file_left_def)
  moreover have "sint (of_int fd :: u32) = fd" using t(8,9) by (subst sint_small) (simp_all add: nat_of_int32)
  then have "user_call e Sys_Open fname 0 0 s = Some (fd, t)" by (simp add: user_call_def of_result_def t(1))
  moreover have "kept_since s fd [(?d, 40), (?p, 40)] t"
    using ag t(7,10-12) by (simp add: kept_since_def same_image_def)
  ultimately show thesis using that t(3,8) left s1(6) by simp
qed

lemma grep_closes:
  assumes ok: "copy_ok k fd d lim s"
  obtains t where "user_call e Sys_Close (of_int fd) 0 0 s = Some (1, t)" "screens t = screens s" "user_ok t"
    "kept_since s fd [] t" "flag (cur_file t fd) = 0"
proof -
  have fd: "2 \<le> fd" "fd < 8" "flag (cur_file s fd) = 1" and u: "user_ok s"
    using ok by (simp_all add: copy_ok_def sys_reader_ok_def reader_ok_def)
  define t where "t = snd (sys_close fd (sti s))"
  have "sys_close fd (sti s) = (1, t)" using fd by (simp add: sys_close_def t_def)
  moreover have "sint (of_int fd :: u32) = fd" using fd by (subst sint_small) (simp_all add: nat_of_int32)
  ultimately have "user_call e Sys_Close (of_int fd) 0 0 s = Some (1, t)" by (simp add: user_call_def of_result_def)
  moreover have f: "screen_x t = screen_x s" "screen_y t = screen_y s" "disp_terminal t = disp_terminal s" "scheduled_terminal t = scheduled_terminal s"
    "ram t = ram s" "same_image s t" "flag (cur_file t fd) = 0" "\<forall>f. f \<noteq> fd \<longrightarrow> cur_file t f = cur_file s f"
    using fd by (simp_all add: t_def sys_close_def same_image_def)
  have "screens t = screens s" by (rule screens_kept(1) [of "[]"]) (simp_all add: f)
  moreover have "user_ok t"
    using u sys_close_views(3) [of "sti s" fd] screen_ok_cong [OF f(1-4)] by (simp add: user_ok_def t_def)
  moreover have "kept_since s fd [] t" using f by (simp add: kept_since_def)
  ultimately show thesis using that f(7) by blast
qed

text \<open>
  The search of one file, and what it leaves as it was. What is typed is known exactly for a text
  whose lines fit the buffer, unless the byte behind the buffer happens to be a newline.
\<close>

definition report_on :: "u8 list \<Rightarrow> bool \<Rightarrow> u8 list \<Rightarrow> u8 list \<Rightarrow> u8 list \<Rightarrow> bool" where
  "report_on pat clean name txt out \<longleftrightarrow> report name out \<and> (clean \<and> short_lines txt \<longrightarrow> out = grep_output name pat txt)"

lemma grep_searches_open:
  assumes ok: "grep_ok t k fd d (grep_texts lit fname name str pat) t" and left: "file_left fd t = txt"
  obtains u out where "grep_reads e lit d str fname (of_nat (length pat)) (of_int fd) 0 t = Some (0, u)"
    "grep_ok t k fd d (grep_texts lit fname name str pat) u" "screens u = type_on k out (screens t)"
    "report_on pat (ram t (d + 1024) \<noteq> 10) name txt out" "ram t (d + 1024) \<noteq> 10 \<longrightarrow> ram u (d + 1024) \<noteq> 10"
proof (cases "ram t (d + 1024) \<noteq> 10 \<and> short_lines txt")
  case True
  then have "grep_between t k fd d (grep_texts lit fname name str pat) 0 t" using ok left by (simp add: grep_between_def)
  from grep_reads_run [OF this, of e] obtain u where u:
    "grep_reads e lit d str fname (of_nat (length pat)) (of_int fd) 0 t = Some (0, u)"
    "grep_ok t k fd d (grep_texts lit fname name str pat) u" "screens u = type_on k (grep_output name pat txt) (screens t)"
    "ram u (d + 1024) \<noteq> 10"
    by (auto simp: left)
  have "report_on pat (ram t (d + 1024) \<noteq> 10) name txt (grep_output name pat txt)"
    using True report_output [of "txt"] by (simp add: report_on_def short_lines_def)
  then show ?thesis using that u by blast
next
  case False
  have "(0 :: nat) < 1024" by simp
  from grep_any_reads [OF ok this, of e "of_nat (length pat)"] obtain u out where u:
    "grep_reads e lit d str fname (of_nat (length pat)) (of_int fd) 0 t = Some (0, u)"
    "grep_ok t k fd d (grep_texts lit fname name str pat) u" "screens u = type_on k out (screens t)"
    "report name out" "ram t (d + 1024) \<noteq> 10 \<longrightarrow> ram u (d + 1024) \<noteq> 10"
    by auto
  then show ?thesis using that False by (auto simp: report_on_def)
qed

lemma grep_searches:
  assumes ready: "grep_ready e lit d fname name str pat j ino s" and free: "least_free (open_files s) fd"
  obtains t out where "do_one_file e lit d str fname s = Some (0, t)" "screens t = type_on (scheduled_terminal s) out (screens s)"
    "report_on pat (ram s (d + 1024) \<noteq> 10) name (content s ino) out"
    "user_ok t" "kept_since s fd [own_screen s, (d, 1025), (env_dentry e, 40), (env_temp e, 40)] t"
    "open_files t = open_files s" "ram s (d + 1024) \<noteq> 10 \<longrightarrow> ram t (d + 1024) \<noteq> 10"
proof -
  let ?k = "scheduled_terminal s" and ?rs = "[own_screen s, (d, 1025), (env_dentry e, 40), (env_temp e, 40)]"
  have "cstr (ram s) str pat" using ready by (simp add: grep_ready_def texts_ok_def grep_texts_def)
  then have len: "ece391_strlen (ram s) str = Some (of_nat (length pat))" by (simp add: ece391_strlen_eq strlen_cstr)
  obtain t where t: "user_call e Sys_Open fname 0 0 s = Some (fd, t)" "fd \<noteq> -1" "screens t = screens s"
    "grep_ok t ?k fd d (grep_texts lit fname name str pat) t" "file_left fd t = content s ino"
    "kept_since s fd [(env_dentry e, 40), (env_temp e, 40)] t" "ram t (d + 1024) = ram s (d + 1024)"
    by (rule grep_opens [OF assms])
  obtain u out where u: "grep_reads e lit d str fname (of_nat (length pat)) (of_int fd) 0 t = Some (0, u)"
    "grep_ok t ?k fd d (grep_texts lit fname name str pat) u" "screens u = type_on ?k out (screens t)"
    "report_on pat (ram t (d + 1024) \<noteq> 10) name (content s ino) out" "ram t (d + 1024) \<noteq> 10 \<longrightarrow> ram u (d + 1024) \<noteq> 10"
    by (rule grep_searches_open [OF t(4,5), of e])
  have "copy_ok ?k fd d 1025 u" using u(2) by (simp add: grep_ok_def)
  then obtain v where v: "user_call e Sys_Close (of_int fd) 0 0 u = Some (1, v)" "screens v = screens u" "user_ok v"
    "kept_since u fd [] v" "flag (cur_file v fd) = 0" by (rule grep_closes)
  have run: "do_one_file e lit d str fname s = Some (0, v)"
    using t(2) by (simp add: do_one_file_def len t(1) u(1) v(1))
  have st: "kept_since s fd ?rs t" by (rule kept_since_mono [OF t(6)]) simp
  have "kept_since t fd [own_screen t, (d, 1025)] u" using u(2) by (simp add: grep_ok_def)
  then have "kept_since t fd ?rs u" by (rule kept_since_mono) (simp add: kept_since_own [OF st])
  moreover have "kept_since u fd ?rs v" by (rule kept_since_mono [OF v(4)]) simp
  ultimately have k: "kept_since s fd ?rs v" using kept_since_trans st by blast
  have "open_files s fd = None" using free by (simp add: least_free_def)
  then have "open_files v f = open_files s f" for f
    using k v(5) by (cases "f = fd") (simp_all add: open_files_def kept_since_def)
  then have op: "open_files v = open_files s" by (simp add: fun_eq_iff)
  have "ram v = ram u" using v(4) by (simp add: kept_since_def agree_outside_def fun_eq_iff)
  then have last: "ram s (d + 1024) \<noteq> 10 \<longrightarrow> ram v (d + 1024) \<noteq> 10" using u(5) t(7) by simp
  have scr: "screens v = type_on ?k out (screens s)" using v(2) u(3) t(3) by simp
  show thesis using that [OF run scr _ v(3) k op last] u(4) t(7) by simp
qed

section \<open>The directory\<close>

text \<open>The file a name stands for, and its text.\<close>

definition named_file :: "'a filesys_scheme \<Rightarrow> u8 list \<Rightarrow> u32" where
  "named_file s name = entry_inode s (of_nat (the (lookup s name)))"

definition file_text :: "'a filesys_scheme \<Rightarrow> u8 list \<Rightarrow> u8 list" where
  "file_text s name = content s (named_file s name)"

definition searchable :: "(u32 \<times> nat) list \<Rightarrow> 'a rtc_scheme \<Rightarrow> u8 list \<Rightarrow> bool" where
  "searchable rs s name \<longleftrightarrow> (case lookup s name of None \<Rightarrow> False | Some j \<Rightarrow> entry_type s (of_nat j) = 2)
     \<and> length name \<le> 31 \<and> hd name \<noteq> 32 \<and> good_inode s (named_file s name)
     \<and> image_safe rs (named_file s name) s"

text \<open>
  The names \<open>ns\<close> of the directory, those without a dot searchable, and the strings \<open>ts\<close>, with the regions
  \<open>ws\<close> that are written apart from them, from the image and from the screens.
\<close>

definition dir_world :: "(u32 \<times> nat) list \<Rightarrow> (u32 \<times> u8 list) list \<Rightarrow> u8 list list \<Rightarrow> 'a rtc_scheme \<Rightarrow> bool" where
  "dir_world ws ts ns s \<longleftrightarrow> user_ok s \<and> dir_names s ns
     \<and> (\<forall>x \<in> set ts. cstr (ram s) (fst x) (snd x) \<and> fst x \<noteq> 0 \<and> apart (fst x) (Suc (length (snd x))) s \<and> length (snd x) < 2147483648
          \<and> (\<forall>r \<in> set ws. disjoint_regions (fst r) (snd r) (fst x) (Suc (length (snd x)))))
     \<and> (\<forall>r \<in> set ws. apart (fst r) (snd r) s)
     \<and> (\<forall>r \<in> set (own_screen s # ws). disjoint_regions (fst r) (snd r) (boot_block_ptr s) 4096)
     \<and> (\<forall>name \<in> set ns. hd name \<noteq> 46 \<longrightarrow> searchable (own_screen s # ws) s name)"

lemma searchable_kept:
  assumes ok: "searchable rs s name" and same: "same_image s t" and ag: "agree_outside rs (ram t) (ram s)"
    and nd: "unat (num_dentry s) \<le> 63"
  shows "searchable rs t name" "file_text t name = file_text s name"
proof -
  define ino where "ino = named_file s name"
  obtain j where j: "lookup s name = Some j" "entry_type s (of_nat j) = 2" using ok by (auto simp: searchable_def split: option.splits)
  have o: "good_inode s ino" "image_safe rs ino s" "length name \<le> 31" "hd name \<noteq> 32"
    using ok by (simp_all add: searchable_def ino_def)
  note img = image_kept [OF same ag o(2) nd o(1)]
  have n: "named_file t name = ino" using img(1,2) j(1) by (simp add: named_file_def ino_def)
  have "dir_kept (ram t) s" by (rule agree_outside_dir [OF ag]) (use o(2) in \<open>auto simp: image_safe_def\<close>)
  then have ty: "entry_type t (of_nat j) = 2"
    using dir_kept_entries(2) [of "ram t" s j] lookup_Some [OF j(1)] nd j(2) by (simp add: entry_type_same [OF same])
  show "file_text t name = file_text s name" by (simp add: file_text_def n img(3) ino_def [symmetric])
  have "image_safe rs ino t" using o(2) same by (simp add: image_safe_def img(5) same_image_def)
  then show "searchable rs t name" using ty o img(1,4) j(1) by (simp add: searchable_def n)
qed

lemma dir_world_kept:
  assumes ok: "dir_world ws ts ns s" and same: "same_image s t" and u: "user_ok t"
    and d: "disp_terminal t = disp_terminal s" "scheduled_terminal t = scheduled_terminal s"
    and ag: "agree_outside (own_screen s # ws) (ram t) (ram s)"
  shows "dir_world ws ts ns t" "name \<in> set ns \<Longrightarrow> hd name \<noteq> 46 \<Longrightarrow> file_text t name = file_text s name"
proof -
  have own: "own_screen t = own_screen s" and ap: "apart a n t = apart a n s" for a n
    using d by (simp_all add: own_screen_def apart_def term_base_def)
  have o: "dir_names s ns" "\<forall>r \<in> set (own_screen s # ws). disjoint_regions (fst r) (snd r) (boot_block_ptr s) 4096"
    "\<forall>name \<in> set ns. hd name \<noteq> 46 \<longrightarrow> searchable (own_screen s # ws) s name" "user_ok s"
    using ok by (simp_all add: dir_world_def)
  have nd: "unat (num_dentry s) \<le> 63" using o(1) by (simp add: dir_names_def)
  have sr: "searchable (own_screen s # ws) t name" "file_text t name = file_text s name" if "name \<in> set ns" "hd name \<noteq> 46" for name
    using searchable_kept [OF _ same ag nd] o(3) that by blast+
  show "name \<in> set ns \<Longrightarrow> hd name \<noteq> 46 \<Longrightarrow> file_text t name = file_text s name" by (rule sr)
  have "dir_names t ns" by (rule dir_names_kept [OF o(1) agree_outside_dir [OF ag o(2)] same])
  moreover have "cstr (ram t) (fst x) (snd x)" if x: "x \<in> set ts" for x
  proof (rule agree_outside_cstr [OF ag])
    show "cstr (ram s) (fst x) (snd x)" using ok x by (simp add: dir_world_def)
    have "apart (fst x) (Suc (length (snd x))) s" using ok x by (simp add: dir_world_def)
    then have "disjoint_regions (fst (own_screen s)) 4000 (fst x) (Suc (length (snd x)))"
      using user_ok_sched [OF o(4)] by (auto simp: apart_def own_screen_region intro: disjoint_regions_sym)
    then show "\<forall>r \<in> set (own_screen s # ws). disjoint_regions (fst r) (snd r) (fst x) (Suc (length (snd x)))"
      using ok x by (simp add: dir_world_def own_screen_region)
  qed
  moreover have "boot_block_ptr t = boot_block_ptr s" using same by (simp add: same_image_def)
  ultimately show "dir_world ws ts ns t" using ok u sr(1) by (simp add: dir_world_def ap own)
qed

text \<open>The memory that grep writes, and the strings it types or searches for.\<close>

definition grep_regions :: "'a rtc_scheme env \<Rightarrow> u32 \<Rightarrow> u32 \<Rightarrow> (u32 \<times> nat) list" where
  "grep_regions e d buf = [(d, 1025), (env_dentry e, 40), (env_temp e, 40), (buf, 33)]"

definition grep_strings :: "(u8 list \<Rightarrow> u32) \<Rightarrow> u32 \<Rightarrow> u8 list \<Rightarrow> (u32 \<times> u8 list) list" where
  "grep_strings lit str pat = [(str, pat), (lit [58], [58]), (lit [10], [10])]"

definition separate :: "(u32 \<times> nat) list \<Rightarrow> bool" where
  "separate rs \<longleftrightarrow> sorted_wrt (\<lambda>r q. disjoint_regions (fst r) (snd r) (fst q) (snd q)) rs"

definition grep_layout :: "'a rtc_scheme env \<Rightarrow> u32 \<Rightarrow> u32 \<Rightarrow> bool" where
  "grep_layout e d buf \<longleftrightarrow> separate (grep_regions e d buf) \<and> d \<noteq> 0 \<and> unat d + 1025 \<le> 4294967296 \<and> buf \<noteq> 0"

lemma grep_layout_apart:
  assumes "grep_layout e d buf"
  shows "disjoint_regions d 1025 buf 33" "disjoint_regions (env_dentry e) 40 buf 33" "disjoint_regions (env_temp e) 40 buf 33"
    "disjoint_regions (env_dentry e) 40 d 1025" "disjoint_regions (env_temp e) 40 d 1025"
    "disjoint_regions (env_dentry e) 40 (env_temp e) 40" "d \<noteq> 0" "buf \<noteq> 0" "unat d + 1025 \<le> 4294967296"
  using assms disjoint_regions_sym by (auto simp: grep_layout_def grep_regions_def separate_def)

text \<open>The state after the name of a file has been read is one in which it can be searched.\<close>

lemma grep_named_ready:
  assumes lay: "grep_layout e d buf" and ok: "dir_world (grep_regions e d buf) (grep_strings lit str pat) ns s"
    and name: "name \<in> set ns" "hd name \<noteq> 46" "cstr (ram s) buf name"
  obtains j where "grep_ready e lit d buf name str pat j (named_file s name) s"
proof -
  let ?d = "env_dentry e" and ?p = "env_temp e" and ?rs = "grep_regions e d buf" and ?ino = "named_file s name"
  note lay = grep_layout_apart [OF lay]
  have o: "user_ok s" "dir_names s ns" "searchable (own_screen s # ?rs) s name"
    and strs: "\<forall>x \<in> set (grep_strings lit str pat). cstr (ram s) (fst x) (snd x) \<and> fst x \<noteq> 0 \<and> apart (fst x) (Suc (length (snd x))) s
      \<and> length (snd x) < 2147483648 \<and> (\<forall>r \<in> set ?rs. disjoint_regions (fst r) (snd r) (fst x) (Suc (length (snd x))))"
    and ap: "\<forall>r \<in> set ?rs. apart (fst r) (snd r) s"
    using ok name by (simp_all add: dir_world_def)
  obtain j where j: "lookup s name = Some j" "entry_type s (of_nat j) = 2" using o(3) by (auto simp: searchable_def split: option.splits)
  have f: "good_inode s ?ino" "0 \<le> length name" "length name \<le> 31" "hd name \<noteq> 32" "image_safe (own_screen s # ?rs) ?ino s"
    using o(3) by (simp_all add: searchable_def)
  have nm: "name \<noteq> []" "unat (num_dentry s) \<le> 63" using o(2) name(1) by (auto simp: dir_names_def in_set_conv_nth)
  have sub: "disjoint_regions a n buf (Suc (length name))" if "disjoint_regions a n buf 33" for a n
    using that f(3) by (auto intro: disjoint_regions_mono)
  have boot: "disjoint_regions ?d 40 (boot_block_ptr s) 4096" "disjoint_regions ?p 40 (boot_block_ptr s) 4096"
    using f(5) by (simp_all add: image_safe_def grep_regions_def)
  have "openable ?d ?p buf name j s"
    using name(3) f(3,4) nm j(1) boot sub [OF lay(2)] sub [OF lay(3)] lay(6) by (simp add: openable_def scratch_dentry_def)
  then have ready: "file_ready ?d ?p buf name j ?ino s"
    using j o(1) by (simp add: file_ready_def user_ok_def named_file_def)
  have "apart buf 33 s" using ap by (simp add: grep_regions_def)
  then have bufs: "apart buf (Suc (length name)) s" by (rule apart_less) (use f(3) in simp)
  have dis: "\<forall>x \<in> set (grep_texts lit buf name str pat). disjoint_regions a n (fst x) (Suc (length (snd x)))"
    if "(a, n) \<in> set ?rs" "disjoint_regions a n buf 33" for a n
    using strs that sub by (auto simp: grep_texts_def grep_strings_def)
  have "texts_ok d (grep_texts lit buf name str pat) s"
    using strs name(3) lay(8) bufs f(3) dis [OF _ lay(1)]
    by (auto simp: texts_ok_def grep_texts_def grep_strings_def grep_regions_def)
  moreover have "\<forall>r \<in> set [(d, 1025), (?d, 40), (?p, 40)]. apart (fst r) (snd r) s \<and> outside_file s ?ino (fst r) (snd r)"
    using ap f(5) by (simp add: grep_regions_def image_safe_def)
  moreover have "\<forall>r \<in> {?d, ?p}. disjoint_regions r 40 d 1025
      \<and> (\<forall>t \<in> set (grep_texts lit buf name str pat). disjoint_regions r 40 (fst t) (Suc (length (snd t))))"
    using lay(2-5) dis [of ?d 40] dis [of ?p 40] by (simp add: grep_regions_def)
  moreover have "outside_file s ?ino (fst (own_screen s)) 4000" using f(5) by (simp add: image_safe_def own_screen_region)
  ultimately have "grep_ready e lit d buf name str pat j ?ino s"
    unfolding grep_ready_def using o(1) ready f(1) lay(7,9) by blast
  then show thesis by (rule that)
qed

text \<open>The state between two names of the directory.\<close>

definition grep_walk :: "'a rtc_scheme env \<Rightarrow> (u8 list \<Rightarrow> u32) \<Rightarrow> u32 \<Rightarrow> u32 \<Rightarrow> u32 \<Rightarrow> u8 list \<Rightarrow> u8 list list \<Rightarrow> i32 \<Rightarrow> nat \<Rightarrow> 'a rtc_scheme \<Rightarrow> bool" where
  "grep_walk e lit d buf str pat ns fd p s \<longleftrightarrow> dir_world (grep_regions e d buf) (grep_strings lit str pat) ns s
     \<and> 2 \<le> fd \<and> fd < 8 \<and> flag (cur_file s fd) = 1 \<and> file_op_ptr (cur_file s fd) = Some dir_table
     \<and> unat (file_pos (cur_file s fd)) = p \<and> (\<exists>fd'. least_free (open_files s) fd')"

lemma grep_walk_ls:
  assumes "grep_layout e d buf" "grep_walk e lit d buf str pat ns fd p s"
  shows "ls_ok (scheduled_terminal s) fd buf ns s"
proof -
  have "dir_world (grep_regions e d buf) (grep_strings lit str pat) ns s" using assms(2) by (simp add: grep_walk_def)
  then show ?thesis
    using grep_layout_apart(8) [OF assms(1)] assms(2)
    by (simp add: ls_ok_def grep_walk_def dir_world_def grep_regions_def own_screen_region)
qed

text \<open>The name of an entry in the buffer, as it is read and with \<open>c\<close> behind it.\<close>

lemma named_state:
  assumes lay: "grep_layout e d buf" and ok: "grep_walk e lit d buf str pat ns fd p s" and p: "p < length ns"
    and t: "t = ls_entry fd buf (ns ! p) s \<or> t = ls_named fd buf (ns ! p) 0 s"
  shows "grep_walk e lit d buf str pat ns fd (Suc p) t" "screens t = screens s" "scheduled_terminal t = scheduled_terminal s"
    "ram t (d + 1024) = ram s (d + 1024)"
    "\<forall>name \<in> set ns. hd name \<noteq> 46 \<longrightarrow> file_text t name = file_text s name"
proof -
  have w: "dir_world (grep_regions e d buf) (grep_strings lit str pat) ns s" "2 \<le> fd" "fd < 8"
    using ok by (simp_all add: grep_walk_def)
  have o: "user_ok s" "dir_names s ns" "apart buf 33 s" using w(1) by (simp_all add: dir_world_def grep_regions_def)
  have name: "length (ns ! p) \<le> 32" "length ns \<le> 63" using o(2) p by (simp_all add: dir_names_def)
  have ag: "agree_outside [(buf, 33)] (ram t) (ram s)" using t ls_entry_memory(2) [OF name(1)] ls_named_memory(2) [OF name(1)] by blast
  have f: "screen_x t = screen_x s" "screen_y t = screen_y s" "disp_terminal t = disp_terminal s" "scheduled_terminal t = scheduled_terminal s"
    "same_image s t" "file_array (cur_proc t) = (file_array (cur_proc s))(fd := (cur_file s fd)\<lparr>file_pos := file_pos (cur_file s fd) + 1\<rparr>)"
    using t by (auto simp: ls_entry_def ls_named_def same_image_def upd_file_def upd_pcb_def fun_upd_def)
  show "scheduled_terminal t = scheduled_terminal s" by (rule f)
  show "ram t (d + 1024) = ram s (d + 1024)"
    by (rule agree_outsideD [OF ag, of d 1025])
      (use grep_layout_apart(1) [OF lay] in \<open>simp_all add: in_region_def disjoint_regions_sym\<close>)
  show "screens t = screens s" by (rule screens_kept(1) [OF ag _ f(1-3)]) (use o(3) in simp)
  have "files_ok (file_array (cur_proc t))" unfolding f(6) using file_pos_ok [of s fd] o(1) w(2,3) by (simp add: user_ok_def)
  then have u: "user_ok t" using o(1) screen_ok_cong [OF f(1-4)] by (simp add: user_ok_def)
  have "agree_outside (own_screen s # grep_regions e d buf) (ram t) (ram s)"
    by (rule agree_outside_mono [OF ag]) (simp add: grep_regions_def)
  note k = dir_world_kept [OF w(1) f(5) u f(3,4) this]
  show "\<forall>name \<in> set ns. hd name \<noteq> 46 \<longrightarrow> file_text t name = file_text s name" using k(2) by blast
  have "open_files t fd' = None \<longleftrightarrow> open_files s fd' = None" for fd' by (simp add: open_files_def f(6))
  then have "least_free (open_files t) fd' \<longleftrightarrow> least_free (open_files s) fd'" for fd' by (simp add: least_free_def)
  then show "grep_walk e lit d buf str pat ns fd (Suc p) t"
    using ok k(1) p name(2) by (simp add: grep_walk_def f(6) unat_word_ariths)
qed

lemma grep_turn:
  assumes lay: "grep_layout e d buf" and ok: "grep_walk e lit d buf str pat ns fd p s" and p: "p < length ns"
  shows "\<exists>t out. grep_dir e lit d buf str (of_int fd) s = grep_dir e lit d buf str (of_int fd) t
    \<and> grep_walk e lit d buf str pat ns fd (Suc p) t \<and> scheduled_terminal t = scheduled_terminal s
    \<and> (\<forall>name \<in> set ns. hd name \<noteq> 46 \<longrightarrow> file_text t name = file_text s name)
    \<and> (ram s (d + 1024) \<noteq> 10 \<longrightarrow> ram t (d + 1024) \<noteq> 10)
    \<and> screens t = type_on (scheduled_terminal s) out (screens s)
    \<and> (if hd (ns ! p) = 46 then out = [] else report_on pat (ram s (d + 1024) \<noteq> 10) (ns ! p) (file_text s (ns ! p)) out)"
proof -
  let ?name = "ns ! p" and ?rs = "grep_regions e d buf"
  have "dir_names s ns" using ok by (simp add: grep_walk_def dir_world_def)
  then have name: "?name \<noteq> []" "length ?name \<le> 32" "0 \<notin> set ?name" "?name \<in> set ns" using p by (auto simp: dir_names_def cstr_def)
  define u where "u = ls_entry fd buf ?name s"
  define v where "v = ls_named fd buf ?name 0 s"
  have read: "user_call e Sys_Read (of_int fd) buf 32 s = Some (int (length ?name), u)"
    unfolding u_def by (rule ls_read [OF grep_walk_ls [OF lay ok] _ p]) (use ok in \<open>simp add: grep_walk_def\<close>)
  have "bytes (ram u) buf 32 ! 0 = ram u buf" by simp
  then have first: "ram u buf = hd ?name"
    using ls_entry_memory(1) [OF name(2), of fd buf s] name(1) by (simp add: u_def nth_append hd_conv_nth)
  have put: "u\<lparr>ram := (ram u)(buf + of_int (int (length ?name)) := 0)\<rparr> = v" by (simp add: u_def v_def ls_named_def)
  have cnt: "(int (length ?name) = 0) = False" "(-1 = int (length ?name)) = False" using name(1) by auto
  show ?thesis
  proof (cases "hd ?name = 46")
    case True
    have "grep_dir e lit d buf str (of_int fd) s = grep_dir e lit d buf str (of_int fd) u"
      by (subst grep_dir.simps) (simp only: read Option.bind.simps prod.case cnt if_False first True simp_thms if_True)
    then show ?thesis using named_state [OF lay ok p, of u] True
      by (intro exI [of _ u] exI [of _ "[]"]) (simp add: u_def)
  next
    case False
    note vs = named_state [OF lay ok p, of v, OF disjI2 [OF v_def]]
    have c: "cstr (ram v) buf ?name"
      using ls_named_memory(1) [OF name(2), of fd buf 0 s] name(2,3) by (simp add: cstr_def v_def)
    have w: "dir_world ?rs (grep_strings lit str pat) ns v" using vs(1) by (simp add: grep_walk_def)
    obtain j where ready: "grep_ready e lit d buf ?name str pat j (named_file v ?name) v"
      by (rule grep_named_ready [OF lay w name(4) False c])
    obtain fd' where free: "least_free (open_files v) fd'" using vs(1) by (auto simp: grep_walk_def)
    obtain t out where t: "do_one_file e lit d str buf v = Some (0, t)" "screens t = type_on (scheduled_terminal v) out (screens v)"
      "report_on pat (ram v (d + 1024) \<noteq> 10) ?name (file_text v ?name) out" "user_ok t"
      "kept_since v fd' [own_screen v, (d, 1025), (env_dentry e, 40), (env_temp e, 40)] t"
      "open_files t = open_files v" "ram v (d + 1024) \<noteq> 10 \<longrightarrow> ram t (d + 1024) \<noteq> 10"
      unfolding file_text_def by (rule grep_searches [OF ready free])
    have run: "grep_dir e lit d buf str (of_int fd) s = grep_dir e lit d buf str (of_int fd) t"
      by (subst grep_dir.simps)
        (use False in \<open>simp only: read Option.bind.simps prod.case cnt if_False first put t(1) simp_thms eq_commute [of 46]\<close>)
    have k: "kept_since v fd' (own_screen v # ?rs) t" by (rule kept_since_mono [OF t(5)]) (auto simp: grep_regions_def)
    have kw: "dir_world ?rs (grep_strings lit str pat) ns t" "\<forall>name \<in> set ns. hd name \<noteq> 46 \<longrightarrow> file_text t name = file_text v name"
      using dir_world_kept [OF w _ t(4)] k by (auto simp: kept_since_def)
    have "open_files v fd \<noteq> None" using vs(1) by (simp add: grep_walk_def open_files_def)
    then have "fd \<noteq> fd'" using free by (auto simp: least_free_def)
    then have "cur_file t fd = cur_file v fd" using t(5) by (simp add: kept_since_def)
    then have "grep_walk e lit d buf str pat ns fd (Suc p) t" using vs(1) kw(1) t(6) by (simp add: grep_walk_def)
    moreover have "scheduled_terminal t = scheduled_terminal v" using t(5) by (simp add: kept_since_def)
    moreover have "report_on pat (ram s (d + 1024) \<noteq> 10) ?name (file_text s ?name) out" using t(3) vs(4,5) False name(4) by simp
    moreover have "\<forall>name \<in> set ns. hd name \<noteq> 46 \<longrightarrow> file_text t name = file_text s name" using kw(2) vs(5) by simp
    ultimately show ?thesis using run t(2,7) vs(2-4) False by (intro exI [of _ t] exI [of _ out]) simp
  qed
qed

text \<open>What grep types for a directory: a report for each file, in order.\<close>

definition dir_report :: "u8 list \<Rightarrow> bool \<Rightarrow> (u8 list \<Rightarrow> u8 list) \<Rightarrow> u8 list list \<Rightarrow> u8 list list \<Rightarrow> bool" where
  "dir_report pat clean txt ns outs \<longleftrightarrow>
     list_all2 (\<lambda>name out. report_on pat clean name (txt name) out) (filter (\<lambda>name. hd name \<noteq> 46) ns) outs"

lemma report_on_weaken: "report_on pat c name txt out \<Longrightarrow> (c' \<longrightarrow> c) \<Longrightarrow> report_on pat c' name txt out"
  by (auto simp: report_on_def)

lemma grep_dir_walks:
  assumes lay: "grep_layout e d buf"
  shows "grep_walk e lit d buf str pat ns fd p s \<Longrightarrow> p \<le> length ns
    \<Longrightarrow> \<forall>name \<in> set ns. hd name \<noteq> 46 \<longrightarrow> file_text s name = txt name \<Longrightarrow> clean \<longrightarrow> ram s (d + 1024) \<noteq> 10
    \<Longrightarrow> \<exists>t outs. grep_dir e lit d buf str (of_int fd) s = Some (0, t)
      \<and> screens t = type_on (scheduled_terminal s) (concat outs) (screens s) \<and> dir_report pat clean txt (drop p ns) outs"
proof (induction "length ns - p" arbitrary: p s)
  case 0
  then have "unat (file_pos (cur_file s fd)) = length ns" by (simp add: grep_walk_def)
  then obtain t where "user_call e Sys_Read (of_int fd) buf 32 s = Some (0, t)" "screens t = screens s"
    using ls_end [OF grep_walk_ls [OF lay 0(2)], of e] by blast
  then show ?case using 0 by (subst grep_dir.simps) (simp add: dir_report_def)
next
  case (Suc i)
  then have lt: "p < length ns" by simp
  obtain t out where t: "grep_dir e lit d buf str (of_int fd) s = grep_dir e lit d buf str (of_int fd) t"
    "grep_walk e lit d buf str pat ns fd (Suc p) t" "scheduled_terminal t = scheduled_terminal s"
    "\<forall>name \<in> set ns. hd name \<noteq> 46 \<longrightarrow> file_text t name = file_text s name" "ram s (d + 1024) \<noteq> 10 \<longrightarrow> ram t (d + 1024) \<noteq> 10"
    "screens t = type_on (scheduled_terminal s) out (screens s)"
    "if hd (ns ! p) = 46 then out = [] else report_on pat (ram s (d + 1024) \<noteq> 10) (ns ! p) (file_text s (ns ! p)) out"
    using grep_turn [OF lay Suc.prems(1) lt] by blast
  have "i = length ns - Suc p" "Suc p \<le> length ns" "\<forall>name \<in> set ns. hd name \<noteq> 46 \<longrightarrow> file_text t name = txt name"
    "clean \<longrightarrow> ram t (d + 1024) \<noteq> 10"
    using Suc.hyps(2) lt t(4,5) Suc.prems(3,4) by simp_all
  from Suc.hyps(1) [OF this(1) t(2) this(2-4)] obtain u outs where u: "grep_dir e lit d buf str (of_int fd) t = Some (0, u)"
    "screens u = type_on (scheduled_terminal t) (concat outs) (screens t)" "dir_report pat clean txt (drop (Suc p) ns) outs" by blast
  have run: "grep_dir e lit d buf str (of_int fd) s = Some (0, u)" using t(1) u(1) by simp
  have scr: "screens u = type_on (scheduled_terminal s) (out @ concat outs) (screens s)"
    by (simp add: u(2) t(3,6) type_on_append)
  have dr: "drop p ns = ns ! p # drop (Suc p) ns" by (rule Cons_nth_drop_Suc [OF lt, symmetric])
  show ?case
  proof (cases "hd (ns ! p) = 46")
    case True
    then have "dir_report pat clean txt (drop p ns) outs" "out = []" using u(3) t(7) by (simp_all add: dr dir_report_def)
    then show ?thesis using run scr by auto
  next
    case False
    then have "report_on pat clean (ns ! p) (txt (ns ! p)) out"
      using t(7) Suc.prems(3,4) lt by (auto intro: report_on_weaken)
    then have "dir_report pat clean txt (drop p ns) (out # outs)" using u(3) False by (simp add: dr dir_report_def)
    then show ?thesis using run scr by (intro exI [of _ u] exI [of _ "out # outs"]) simp
  qed
qed

lemma dir_lookup_same:
  assumes "dir_kept (ram t) s" "same_image s t" "unat (num_dentry s) \<le> 63"
  shows "lookup t n = lookup s n" "lookup s n = Some j \<Longrightarrow> entry_type t (of_nat j) = entry_type s (of_nat j)"
proof -
  show "lookup t n = lookup s n" using same_image_views(1) [OF assms(2)] dir_kept_lookup [OF assms(1,3)] by simp
  show "entry_type t (of_nat j) = entry_type s (of_nat j)" if "lookup s n = Some j"
    using dir_kept_entries(2) [OF assms(1)] lookup_Some [OF that] assms(3) by (simp add: entry_type_same [OF assms(2)])
qed

text \<open>
  A process that can search the directory for its argument: only the two standard descriptors are
  open, \<open>"."\<close> is a directory, and what grep writes is apart from all it reads.
\<close>

definition grep_begins :: "'a rtc_scheme env \<Rightarrow> (u8 list \<Rightarrow> u32) \<Rightarrow> u32 \<Rightarrow> u32 \<Rightarrow> u32 \<Rightarrow> u8 list \<Rightarrow> u8 list list \<Rightarrow> 'a rtc_scheme \<Rightarrow> bool" where
  "grep_begins e lit d buf str pat ns s \<longleftrightarrow> grep_layout e d buf
     \<and> dir_world ((str, 1024) # grep_regions e d buf) [(lit [46], [46]), (lit [58], [58]), (lit [10], [10])] ns s
     \<and> (\<forall>r \<in> set (grep_regions e d buf). disjoint_regions (fst r) (snd r) str 1024) \<and> str \<noteq> 0
     \<and> cstr (ram s) (arg (cur_proc s)) pat \<and> pat \<noteq> [] \<and> length pat < 1024 \<and> disjoint_regions str 1024 (arg (cur_proc s)) 1024
     \<and> fresh_files s \<and> (case lookup s [46] of None \<Rightarrow> False | Some j \<Rightarrow> entry_type s (of_nat j) = 1)"

lemma fresh_none:
  assumes "fresh_files s" "2 \<le> f" "f \<le> 7"
  shows "open_files s f = None"
proof -
  have "open_files s f \<noteq> None \<longleftrightarrow> f < 2" using assms unfolding fresh_files_def by (metis atLeastAtMost_iff order_trans zero_le_numeral)
  then show ?thesis using assms(2) by linarith
qed

lemma fresh_least_free_2:
  assumes "fresh_files s"
  shows "least_free (open_files s) 2"
proof -
  have "open_files s f \<noteq> None" if "0 \<le> f" "f < 2" for f using assms that by (simp add: fresh_files_def)
  moreover have "open_files s 2 = None" by (rule fresh_none [OF assms]) simp_all
  ultimately show ?thesis by (simp add: least_free_def)
qed

lemma grep_gets_argument:
  assumes ok: "grep_begins e lit d buf str pat ns s"
  obtains t where "user_call e Sys_Getargs str 1024 0 s = Some (0, t)" "screens t = screens s" "scheduled_terminal t = scheduled_terminal s"
    "dir_world (grep_regions e d buf) ((lit [46], [46]) # grep_strings lit str pat) ns t" "ram t (d + 1024) = ram s (d + 1024)" "fresh_files t"
    "\<exists>j. lookup t [46] = Some j \<and> entry_type t (of_nat j) = 1"
    "\<forall>name \<in> set ns. hd name \<noteq> 46 \<longrightarrow> file_text t name = file_text s name"
proof -
  let ?rs = "grep_regions e d buf" and ?ts = "[(lit [46], [46]), (lit [58], [58]), (lit [10], [10])]"
  have a: "cstr (ram s) (arg (cur_proc s)) pat" "pat \<noteq> []" "length pat < 1024" "(1024 :: nat) < 2147483648"
    "disjoint_regions str 1024 (arg (cur_proc s)) 1024"
    and w: "dir_world ((str, 1024) # ?rs) ?ts ns s"
    and g: "\<forall>r \<in> set ?rs. disjoint_regions (fst r) (snd r) str 1024" "str \<noteq> 0" "fresh_files s"
    using ok by (simp_all add: grep_begins_def)
  obtain j where j: "lookup s [46] = Some j" "entry_type s (of_nat j) = 1" using ok by (auto simp: grep_begins_def split: option.splits)
  obtain m where m: "user_call e Sys_Getargs str 1024 0 s = Some (0, (sti s)\<lparr>ram := m\<rparr>)" "cstr m str pat" "agree_outside [(str, 1024)] m (ram s)"
    using user_call_getargs [OF a, of e] by auto
  define t where "t = (sti s)\<lparr>ram := m\<rparr>"
  have f: "screen_x t = screen_x s" "screen_y t = screen_y s" "disp_terminal t = disp_terminal s" "scheduled_terminal t = scheduled_terminal s"
    "same_image s t" "cur_proc t = cur_proc s" "ram t = m"
    by (simp_all add: t_def same_image_def)
  have u: "user_ok s" "apart str 1024 s" "dir_names s ns" "disjoint_regions str 1024 (boot_block_ptr s) 4096"
    using w by (simp_all add: dir_world_def)
  have ag: "agree_outside [(str, 1024)] (ram t) (ram s)" using m(3) by (simp add: f(7))
  have ut: "user_ok t" using u(1) screen_ok_cong [OF f(1-4)] by (simp add: user_ok_def f(6))
  note sk = screens_kept [OF ag _ f(1-3), simplified, OF u(2)]
  have "agree_outside (own_screen s # (str, 1024) # ?rs) (ram t) (ram s)" by (rule agree_outside_mono [OF ag]) auto
  note k = dir_world_kept [OF w f(5) ut f(3,4) this]
  have own: "own_screen t = own_screen s" by (simp add: own_screen_def f(4) term_base_eq [OF f(3)])
  have "searchable (own_screen t # ?rs) t name" if "searchable (own_screen t # (str, 1024) # ?rs) t name" for name
    using that by (simp add: searchable_def image_safe_def)
  moreover have "apart str (Suc (length pat)) t" using apart_less [OF u(2)] a(3) sk(2) by simp
  moreover have "\<forall>r \<in> set ?rs. disjoint_regions (fst r) (snd r) str (Suc (length pat))"
    using g(1) a(3) by (auto intro: disjoint_regions_mono)
  ultimately have "dir_world ?rs ((lit [46], [46]) # grep_strings lit str pat) ns t"
    using k(1) m(2) g(2) a(3) by (auto simp: dir_world_def grep_strings_def f(7))
  moreover have "dir_kept (ram t) s" by (rule agree_outside_dir [OF ag]) (use u(4) in simp)
  then have "lookup t [46] = Some j" "entry_type t (of_nat j) = 1"
    using dir_lookup_same [OF _ f(5)] u(3) j by (simp_all add: dir_names_def)
  moreover have "ram t (d + 1024) = ram s (d + 1024)"
    by (rule agree_outsideD [OF ag, of d 1025])
      (use g(1) in \<open>simp_all add: in_region_def grep_regions_def disjoint_regions_sym\<close>)
  moreover have "open_files t fd = open_files s fd" for fd by (simp add: open_files_def f(6))
  then have "fresh_files t" using g(3) by (simp only: fresh_files_def)
  ultimately show thesis using that [of t] m(1) sk(1) k(2) f(4) by (simp add: t_def)
qed

lemma grep_main_types:
  assumes ok: "grep_begins e lit d buf str pat ns s"
  shows "\<exists>t outs. grep_main e lit d buf str s = Some (0, t) \<and> screens t = type_on (scheduled_terminal s) (concat outs) (screens s)
    \<and> dir_report pat (ram s (d + 1024) \<noteq> 10) (file_text s) ns outs"
proof -
  let ?rs = "grep_regions e d buf" and ?k = "scheduled_terminal s"
  have lay: "grep_layout e d buf" using ok by (simp add: grep_begins_def)
  obtain t where t: "user_call e Sys_Getargs str 1024 0 s = Some (0, t)" "screens t = screens s" "scheduled_terminal t = ?k"
    "dir_world ?rs ((lit [46], [46]) # grep_strings lit str pat) ns t" "ram t (d + 1024) = ram s (d + 1024)" "fresh_files t"
    "\<exists>j. lookup t [46] = Some j \<and> entry_type t (of_nat j) = 1"
    "\<forall>name \<in> set ns. hd name \<noteq> 46 \<longrightarrow> file_text t name = file_text s name"
    by (rule grep_gets_argument [OF ok])
  obtain j where j: "lookup t [46] = Some j" "entry_type t (of_nat j) = 1" using t(7) by blast
  define pg where "pg = \<lparr>pg_buf = buf, pg_msg1 = lit [46], pg_msg2 = 0, pg_msg3 = 0\<rparr>"
  have ready: "ls_ready e pg ns j t"
    using t(4) j grep_layout_apart(8) [OF lay]
    by (simp add: ls_ready_def dir_world_def pg_def scratch_dentry_def grep_regions_def own_screen_region)
  obtain u where u: "user_call e Sys_Open (pg_msg1 pg) 0 0 t = Some (2, u)"
    "ls_ok (scheduled_terminal t) 2 (pg_buf pg) ns u" "screens u = screens t" "file_pos (cur_file u 2) = 0"
    "agree_outside [(env_dentry e, 40)] (ram u) (ram t)" "same_image t u" "disp_terminal u = disp_terminal t"
    "\<forall>f. f \<noteq> 2 \<longrightarrow> cur_file u f = cur_file t f"
    by (rule ls_opens [OF ready fresh_least_free_2 [OF t(6)]])
  have uk: "user_ok u" "scheduled_terminal u = scheduled_terminal t" "flag (cur_file u 2) = 1" "file_op_ptr (cur_file u 2) = Some dir_table"
    using u(2) by (simp_all add: ls_ok_def)
  have "agree_outside (own_screen t # ?rs) (ram u) (ram t)" by (rule agree_outside_mono [OF u(5)]) (simp add: grep_regions_def)
  note k = dir_world_kept [OF t(4) u(6) uk(1) u(7) uk(2) this]
  have w: "dir_world ?rs (grep_strings lit str pat) ns u" using k(1) by (simp add: dir_world_def)
  have "open_files u f \<noteq> None" if "0 \<le> f" "f < 3" for f
  proof (cases "f = 2")
    case True
    then show ?thesis by (simp add: open_files_def uk(3))
  next
    case False
    then have "open_files u f = open_files t f" "f < 2" using u(8) that by (simp_all add: open_files_def)
    then show ?thesis using t(6) that by (simp add: fresh_files_def)
  qed
  moreover have "open_files u 3 = open_files t 3" using u(8) by (simp add: open_files_def)
  then have "open_files u 3 = None" using fresh_none [OF t(6)] by simp
  ultimately have free: "least_free (open_files u) 3" by (simp add: least_free_def)
  have last: "ram u (d + 1024) = ram t (d + 1024)"
    by (rule agree_outsideD [OF u(5), of d 1025]) (use grep_layout_apart(4) [OF lay] in \<open>simp_all add: in_region_def\<close>)
  then have walk: "grep_walk e lit d buf str pat ns 2 0 u" using w uk(3,4) u(4) free by (auto simp: grep_walk_def)
  have texts: "\<forall>name \<in> set ns. hd name \<noteq> 46 \<longrightarrow> file_text u name = file_text s name" using k(2) t(8) by simp
  have clean: "ram s (d + 1024) \<noteq> 10 \<longrightarrow> ram u (d + 1024) \<noteq> 10" using last t(5) by simp
  obtain v outs where v: "grep_dir e lit d buf str (of_int 2) u = Some (0, v)"
    "screens v = type_on (scheduled_terminal u) (concat outs) (screens u)"
    "dir_report pat (ram s (d + 1024) \<noteq> 10) (file_text s) (drop 0 ns) outs"
    using grep_dir_walks [OF lay walk le0 texts clean] by blast
  have "grep_main e lit d buf str s = Some (0, v)"
    using u(1) v(1) by (simp add: grep_main_def t(1) pg_def)
  moreover have "screens v = type_on ?k (concat outs) (screens s)" using v(2) u(3) uk(2) t(2,3) by simp
  ultimately show ?thesis using v(3) by auto
qed

section \<open>Properties\<close>

text \<open>
  C11: \<open>grep\<close> searches the directory: run with a search string as its argument, in a directory whose
  entries without a leading dot are ordinary files of any contents, it goes through these files in
  the order of the directory, types for each a list of lines without newlines and NULs, each after the
  file's name and a colon, and returns 0. For a text, a file without NULs whose lines have at most
  1023 characters, these are exactly the lines that contain the string, wherever the reads of the
  buffer cut the file, provided that the byte behind the buffer, which the program compares before
  it writes it, was not a newline when the program started.
\<close>

theorem grep_searches_directory:
  assumes "grep_begins e lit d buf str pat ns s"
  shows "\<exists>t outs. grep_main e lit d buf str s = Some (0, t) \<and> screens t = type_on (scheduled_terminal s) (concat outs) (screens s)
    \<and> list_all2 (\<lambda>name out.
        (\<exists>ls. out = concat (map (\<lambda>l. name @ 58 # l @ [10]) ls) \<and> (\<forall>l \<in> set ls. 0 \<notin> set l \<and> 10 \<notin> set l))
        \<and> (short_lines (file_text s name) \<and> ram s (d + 1024) \<noteq> 10 \<longrightarrow>
            out = concat (map (\<lambda>l. if sublist pat l then name @ 58 # l @ [10] else []) (file_lines (file_text s name)))))
      (filter (\<lambda>name. hd name \<noteq> 46) ns) outs"
proof -
  have "pat \<noteq> []" using assms by (simp add: grep_begins_def)
  then have one: "grep_one name pat = (\<lambda>l. if sublist pat l then name @ 58 # l @ [10] else [])" for name by (simp add: grep_one_def fun_eq_iff)
  obtain t outs where t: "grep_main e lit d buf str s = Some (0, t)" "screens t = type_on (scheduled_terminal s) (concat outs) (screens s)"
    "dir_report pat (ram s (d + 1024) \<noteq> 10) (file_text s) ns outs"
    using grep_main_types [OF assms] by blast
  show ?thesis
    using t(3) unfolding dir_report_def report_on_def report_def grep_output_def one
    by (intro exI [of _ t] exI [of _ outs] conjI t(1,2)) (erule list_all2_mono, blast)
qed

text \<open>A process whose argument is "hi", in the directory with the file "a" that has the line "hi".\<close>

definition grep_literals :: "u8 list list" where
  "grep_literals = [[46], [58], [10], [104, 105]]"

definition grep_start :: rtc where
  "grep_start = user_start\<lparr>ram := literal_pool grep_literals user_mem,
     pcbs := (pcbs user_start)(pcb_addr 0 := (cur_proc user_start)\<lparr>arg := literal_slot grep_literals [104, 105]\<rparr>)\<rparr>"

lemma grep_start_fields [simp]:
  "ram grep_start = literal_pool grep_literals user_mem" "disp_terminal grep_start = 0" "scheduled_terminal grep_start = 0"
  "cur_proc grep_start = (cur_proc user_start)\<lparr>arg := literal_slot grep_literals [104, 105]\<rparr>"
  "boot_block_ptr grep_start = 0x500000" "num_dentry grep_start = 2"
  by (simp_all add: grep_start_def)

lemma grep_start_views:
  "same_image user_start grep_start" "apart a n grep_start = apart a n user_start"
  "own_screen grep_start = (0xB8000, 4000)" "user_ok grep_start" "open_files grep_start = open_files user_start"
proof -
  show "same_image user_start grep_start" by (simp add: same_image_def grep_start_def)
  show "apart a n grep_start = apart a n user_start" "own_screen grep_start = (0xB8000, 4000)"
    by (simp_all add: apart_def own_screen_def term_base_def)
  have "screen_ok grep_start = screen_ok user_start" by (rule screen_ok_cong) (simp_all add: grep_start_def)
  then show "user_ok grep_start" using user_start_ok by (simp add: user_ok_def)
  show "open_files grep_start = open_files user_start" by (simp add: open_files_def fun_eq_iff)
qed

lemma grep_start_names:
  "dir_names grep_start [[46], [97]]" "lookup grep_start [46] = Some 0" "entry_type grep_start 0 = 1"
  "named_file grep_start [97] = 0" "file_text grep_start [97] = [104, 105, 10]"
  "(\<forall>r \<in> set rs. disjoint_regions (fst r) (snd r) 0x500000 4096 \<and> outside_file user_start 0 (fst r) (snd r))
    \<Longrightarrow> searchable rs grep_start [97]"
proof -
  note same = grep_start_views(1)
  have ag: "agree_outside [(0x730000, 256)] (ram grep_start) (ram user_start)"
    by (simp add: agree_outside_def literal_pool_def grep_literals_def)
  have "disjoint_regions 0x730000 256 0x500000 4096" by (rule regions_sep) simp
  moreover have "outside_file user_start 0 0x730000 256" by (rule user_start_file(4)) simp
  ultimately have safe: "image_safe [(0x730000, 256)] 0 user_start" by (simp add: image_safe_def)
  have nd: "unat (num_dentry user_start) \<le> 63" by simp
  note img = image_kept [OF same ag safe nd user_start_file(3)]
  have kept: "dir_kept (ram grep_start) user_start"
    by (rule agree_outside_dir [OF ag]) (use safe in \<open>simp add: image_safe_def\<close>)
  note dl = dir_lookup_same [OF kept same nd]
  show "dir_names grep_start [[46], [97]]" by (rule dir_names_kept [OF user_start_names(7) kept same])
  show "lookup grep_start [46] = Some 0" "entry_type grep_start 0 = 1"
    using dl(1) dl(2) [of "[46]" 0] user_start_names(1,4) by simp_all
  have a: "lookup grep_start [97] = Some 1" "entry_type grep_start 1 = 2"
    using dl(1) dl(2) [of "[97]" 1] user_start_names(2,5) by simp_all
  show n: "named_file grep_start [97] = 0" using img(2) [OF user_start_names(2)] user_start_names(6) a(1) by (simp add: named_file_def)
  show tx: "file_text grep_start [97] = [104, 105, 10]" using img(3) user_start_file(2) by (simp add: file_text_def n)
  have "file_lines ([104, 105] @ 10 # []) = [[104, 105]]" by (subst file_lines_cut) simp_all
  then have "short_lines [104, 105, 10]" by (simp add: short_lines_def)
  then show "searchable rs grep_start [97]"
    if "\<forall>r \<in> set rs. disjoint_regions (fst r) (snd r) 0x500000 4096 \<and> outside_file user_start 0 (fst r) (snd r)"
    using that a n tx img(4,5) by (simp add: searchable_def image_safe_def)
qed

lemma grep_start_world:
  assumes rs: "\<forall>r \<in> set rs. 0x700000 \<le> unat (fst r) \<and> unat (fst r) + snd r \<le> 0x730000"
    and ts: "\<forall>x \<in> set ts. \<exists>l \<in> set grep_literals. x = (literal_slot grep_literals l, l)"
  shows "dir_world rs ts [[46], [97]] grep_start"
proof -
  have short: "short_literals grep_literals" by (simp add: short_literals_def grep_literals_def)
  have str: "cstr (ram grep_start) (fst x) (snd x) \<and> fst x \<noteq> 0 \<and> apart (fst x) (Suc (length (snd x))) grep_start \<and> length (snd x) < 2147483648
      \<and> (\<forall>r \<in> set rs. disjoint_regions (fst r) (snd r) (fst x) (Suc (length (snd x))))" if x: "x \<in> set ts" for x
  proof -
    obtain l where l: "l \<in> set grep_literals" "x = (literal_slot grep_literals l, l)"
      using ts x by blast
    have "length l < 64" using short l(1) by (simp add: short_literals_def)
    moreover have "cstr (ram grep_start) (literal_slot grep_literals l) l"
      unfolding grep_start_fields by (rule pool_literal(1) [OF short l(1)])
    moreover have "apart (literal_slot grep_literals l) (Suc (length l)) grep_start"
      unfolding grep_start_views(2) by (rule pool_literal(3) [OF short l(1)])
    moreover have "disjoint_regions (fst r) (snd r) (literal_slot grep_literals l) (Suc (length l))" if "r \<in> set rs" for r
      by (rule pool_literal(4) [OF short l(1)]) (use rs that in blast)
    ultimately show ?thesis using pool_literal(2) [OF short l(1)] unfolding l(2) fst_conv snd_conv by simp
  qed
  have "disjoint_regions (fst r) (snd r) 0x500000 4096" "outside_file user_start 0 (fst r) (snd r)" "apart (fst r) (snd r) grep_start"
    if "r \<in> set rs" for r
  proof -
    have r: "0x700000 \<le> unat (fst r)" "unat (fst r) + snd r \<le> 0x730000" using rs that by simp_all
    show "disjoint_regions (fst r) (snd r) 0x500000 4096" by (rule regions_sep) (use r in simp)
    show "outside_file user_start 0 (fst r) (snd r)" by (rule user_start_file(4)) (use r in simp)
    show "apart (fst r) (snd r) grep_start" unfolding grep_start_views(2) by (rule user_start_apart) (use r in simp_all)
  qed
  moreover have "disjoint_regions 0xB8000 4000 0x500000 4096" "outside_file user_start 0 0xB8000 4000"
    by (rule regions_sep, simp) (rule user_start_file(4), simp)
  ultimately show ?thesis
    using str grep_start_names(1) grep_start_names(6) [of "own_screen grep_start # rs"] grep_start_views(4)
    by (simp add: dir_world_def grep_start_views(3))
qed

theorem grep_searches_directory_witness:
  "\<exists>t. grep_main user_env (literal_slot grep_literals) 0x720000 0x721000 0x722000 grep_start = Some (0, t)
    \<and> screens t = type_on 0 [97, 58, 104, 105, 10] (screens grep_start)"
proof -
  let ?lit = "literal_slot grep_literals" and ?rs = "grep_regions user_env 0x720000 0x721000"
  have rs: "?rs = [(0x720000, 1025), (0x710000, 40), (0x710100, 40), (0x721000, 33)]" by (simp add: grep_regions_def user_env_def)
  have short: "short_literals grep_literals" by (simp add: short_literals_def grep_literals_def)
  have arg: "?lit [104, 105] = 0x7300C0" by (simp add: literal_slot_def grep_literals_def)
  have "cstr (ram grep_start) (?lit [104, 105]) [104, 105]"
    unfolding grep_start_fields by (rule pool_literal(1) [OF short]) (simp add: grep_literals_def)
  moreover have "dir_world ((0x722000, 1024) # ?rs) [(?lit [46], [46]), (?lit [58], [58]), (?lit [10], [10])] [[46], [97]] grep_start"
    by (rule grep_start_world) (simp_all add: rs grep_literals_def)
  moreover have "separate ?rs" unfolding rs separate_def by (simp, intro conjI regions_sep) simp_all
  moreover have "\<forall>r \<in> set ?rs. disjoint_regions (fst r) (snd r) 0x722000 1024"
    unfolding rs by (simp, intro conjI regions_sep) simp_all
  moreover have "disjoint_regions 0x722000 1024 (?lit [104, 105]) 1024" unfolding arg by (rule regions_sep) simp
  moreover have "fresh_files grep_start" using user_start_fresh by (simp add: fresh_files_def grep_start_views(5))
  moreover have byte: "ram grep_start (0x720000 + 1024) = 0"
    by (simp add: literal_pool_def in_region_def grep_literals_def user_mem_def image_mem_def)
  ultimately have "grep_begins user_env ?lit 0x720000 0x721000 0x722000 [104, 105] [[46], [97]] grep_start"
    by (simp add: grep_begins_def grep_layout_def grep_start_names(2,3))
  from grep_searches_directory [OF this] obtain t outs where
    t: "grep_main user_env ?lit 0x720000 0x721000 0x722000 grep_start = Some (0, t)"
    "screens t = type_on (scheduled_terminal grep_start) (concat outs) (screens grep_start)"
    and l: "list_all2 (\<lambda>name out.
        (\<exists>ls. out = concat (map (\<lambda>l. name @ 58 # l @ [10]) ls) \<and> (\<forall>l \<in> set ls. 0 \<notin> set l \<and> 10 \<notin> set l))
        \<and> (short_lines (file_text grep_start name) \<and> ram grep_start (0x720000 + 1024) \<noteq> 10 \<longrightarrow>
            out = concat (map (\<lambda>l. if sublist [104, 105] l then name @ 58 # l @ [10] else []) (file_lines (file_text grep_start name)))))
      (filter (\<lambda>name. hd name \<noteq> 46) [[46], [97]]) outs" by blast
  have lines: "file_lines [104, 105, 10] = [[104, 105]]" using file_lines_cut [of "[104, 105]" "[]"] by simp
  then have "short_lines (file_text grep_start [97])" by (simp add: short_lines_def grep_start_names(5))
  moreover have "ram grep_start (0x720000 + 1024) \<noteq> 10" using byte by simp
  ultimately have "outs = [[97, 58, 104, 105, 10]]"
    using l by (auto simp: list_all2_Cons1 grep_start_names(5) lines simp del: grep_start_fields)
  then show ?thesis using t by (intro exI [of _ t]) simp
qed

end
