(* ===== verification/Vidmap.thy ===== *)
theory Vidmap
  imports Scheduling
begin

text \<open>
  The video memory that \<open>sys_vidmap\<close> (student-distrib/syscall.c) hands to a program, over
  everything that can happen to it afterwards: the steps below are the operations of keyboard.c,
  syscall.c and paging.c that change the page tables, the displayed or the scheduled terminal or
  the screens, and the invariant is the part of the tables that the page of a terminal needs. The
  steps for memory and for the control blocks are arbitrary, so that they cover what programs and
  the file calls store.
\<close>

section \<open>Steps\<close>

fun left :: "'s outcome \<Rightarrow> 's" where
  "left (Ret r s) = s"
| "left (EnterUser e p c d s) = s"
| "left (Resume e b s) = s"

inductive screen_step :: "'a rtc_scheme \<Rightarrow> 'a rtc_scheme \<Rightarrow> bool" where
  switched: "t < 3 \<Longrightarrow> screen_step s (switch_terminal t s)"
| ticked: "do_pit_handler fr sh r s = Some out \<Longrightarrow> screen_step s (left out)"
| executed: "sys_execute fr command s = Some out \<Longrightarrow> screen_step s (left out)"
| halted: "sys_halt fr sh st s = Some out \<Longrightarrow> screen_step s (left out)"
| mapped: "screen_step s (snd (sys_vidmap a s))"
| written: "screen_step s (snd (terminal_write fd buf n s))"
| printed: "screen_step s (put_literal str s)"
| cleared: "screen_step s (clear s)"
| filed: "screen_step s (s\<lparr>pcbs := p\<rparr>)"
| stored: "screen_step s (s\<lparr>ram := m\<rparr>)"

section \<open>The invariant\<close>

text \<open>\<open>t\<close> has the tables, the displayed terminal and the validity of the screens of \<open>s\<close>.\<close>

definition same_view :: "'a paging_scheme \<Rightarrow> 'a paging_scheme \<Rightarrow> bool" where
  "same_view s t \<longleftrightarrow> pageDir t 33 = pageDir s 33 \<and> videoMem_4kb_Page t = videoMem_4kb_Page s
     \<and> disp_terminal t = disp_terminal s \<and> (tlb_coherent s \<longrightarrow> tlb_coherent t) \<and> (screen_ok s \<longrightarrow> screen_ok t)"

lemma same_view_refl [simp]: "same_view s s"
  by (simp add: same_view_def)

lemma same_view_trans [trans]: "same_view s t \<Longrightarrow> same_view t u \<Longrightarrow> same_view s u"
  by (auto simp: same_view_def)

lemma same_view_vidmap: "same_view s t \<Longrightarrow> vidmap_ok vid s \<Longrightarrow> vidmap_ok vid t"
  by (simp add: same_view_def vidmap_ok_def term_base_def)

lemma same_view_fields:
  fixes s t :: "'a paging_scheme"
  assumes "tables t = tables s" "tlb t = tlb s" "disp_terminal t = disp_terminal s" "screen_x t = screen_x s"
    "screen_y t = screen_y s" "scheduled_terminal t < 3 \<or> scheduled_terminal t = scheduled_terminal s"
  shows "same_view s t"
  using assms by (auto simp: same_view_def tables_def tlb_coherent_def screen_ok_def term_ok_def cursor_ok_def)

lemma same_view_console:
  fixes s t :: "'a rtc_scheme"
  assumes "console.more t = console.more s" "disp_terminal t = disp_terminal s" "screen_ok s \<longrightarrow> screen_ok t"
  shows "same_view s t"
  using assms console_frame [OF assms(1)] by (simp add: same_view_def tlb_coherent_def tables_def)

lemma same_view_allocate: "same_view s (snd (allocatePage 0x20 1 phys s))"
  by (simp add: same_view_def allocatePage_coherent screen_ok_def term_ok_def cursor_ok_def)

lemma same_view_ram: "same_view s (s\<lparr>ram := m\<rparr>)"
  by (rule same_view_fields) (simp_all add: tables_def)

lemma same_view_read_data: "same_view s (snd (read_data i off buf len s))"
proof -
  obtain m r where "read_data i off buf len s = (r, s\<lparr>ram := m\<rparr>)" using read_data_ram by blast
  then show ?thesis by (simp add: same_view_ram)
qed

lemma same_view_put_literal:
  fixes s :: "'a rtc_scheme"
  shows "same_view s (put_literal str s)"
  by (rule same_view_console) (simp_all add: put_literal_screen_ok)

lemma same_view_new_process:
  fixes s :: "'a rtc_scheme"
  assumes "new_process s = Some (i, par, t)"
  shows "same_view s t"
  using assms by (rule new_process_cases; intro same_view_fields) (simp_all add: tables_def)

lemma same_view_intros:
  fixes s t :: "'a rtc_scheme"
  assumes "same_view s t"
  shows "same_view s (upd_pcb a f t)" "same_view s (t\<lparr>pidlist := p\<rparr>)" "same_view s (t\<lparr>tss := q\<rparr>)"
    "same_view s (allocate_user phys t)" "same_view s (snd (read_data ino off buf len t))"
proof -
  have "same_view t (upd_pcb a f t)" by (rule same_view_fields) (simp_all add: upd_pcb_def tables_def)
  then show "same_view s (upd_pcb a f t)" using assms same_view_trans by blast
  have "same_view t (t\<lparr>pidlist := p\<rparr>)" by (rule same_view_fields) (simp_all add: tables_def)
  then show "same_view s (t\<lparr>pidlist := p\<rparr>)" using assms same_view_trans by blast
  have "same_view t (t\<lparr>tss := q\<rparr>)" by (rule same_view_fields) (simp_all add: tables_def)
  then show "same_view s (t\<lparr>tss := q\<rparr>)" using assms same_view_trans by blast
  show "same_view s (allocate_user phys t)" "same_view s (snd (read_data ino off buf len t))"
    using same_view_trans [OF assms] same_view_allocate same_view_read_data unfolding allocate_user_eq by blast+
qed

lemma same_view_launch:
  fixes s :: "'a rtc_scheme"
  shows "same_view s (left (launch fr ino i par s))"
  unfolding launch_def Let_def split_def left.simps by (intro same_view_intros same_view_refl)

lemma same_view_execute:
  fixes s :: "'a rtc_scheme"
  assumes "sys_execute fr command s = Some out"
  shows "same_view s (left out)"
proof (cases "ram s command = 0 \<or> ram s command = 32")
  case True
  then show ?thesis using assms by (auto simp: sys_execute_def same_view_put_literal simp del: put_literal_simps list.map append.simps)
next
  case False
  then obtain m r t where m: "parse_command (fr_program fr) (fr_arg fr) command (ram s) = Some m"
    and t: "read_dentry_by_name (fr_program fr) (fr_temp fr) (s\<lparr>ram := m\<rparr>) = Some (r, t)"
    using assms by (auto simp: sys_execute_def split: option.splits)
  have st: "same_view s t" using read_dentry_ram [OF t] by (auto simp: same_view_ram)
  show ?thesis
  proof (cases "r = -1")
    case True
    then show ?thesis using assms False m t st by (auto simp: sys_execute_def)
  next
    case ok: False
    define u where "u = snd (read_data (load32 (ram t) (inode_idx_addr (fr_temp fr))) 0 (fr_Magic fr) 4 t)"
    have tu: "same_view s u" using st same_view_read_data same_view_trans unfolding u_def by blast
    note v = same_view_trans [OF tu]
    have "(\<exists>str r. out = Ret r (put_literal str u)) \<or>
        (\<exists>i p w ino. new_process u = Some (i, p, w) \<and> out = launch fr ino i p w)"
      using assms False m t ok
      by (auto simp: sys_execute_def Let_def split_def u_def split: if_splits option.splits simp del: put_literal_simps list.map append.simps)
    then show ?thesis
      using v same_view_put_literal same_view_launch same_view_new_process same_view_trans by (metis left.simps(1))
  qed
qed

lemma same_view_halt:
  fixes s :: "'a rtc_scheme"
  assumes "sys_halt fr sh st s = Some out"
  shows "same_view s (left out)"
proof -
  define cur where "cur = pcb_addr (current_pid s)"
  define c where "c = foldl (\<lambda>s fd. snd (sys_close fd s)) s [2..7]"
  define t where "t = recover_terminal_curr_pid (sint (ucast (current_pid c) :: u8)) (int (unat (parent_pid (pcbs c cur))))
     (set_pid_flag (current_pid c) 0 (c\<lparr>tss := (tss c)\<lparr>tss_ss0 := ucast (ss0 (pcbs c cur)), tss_esp0 := esp0 (pcbs c cur)\<rparr>\<rparr>))"
  obtain fa where fa: "c = s\<lparr>pcbs := (pcbs s)(pcb_addr (current_pid s) := (cur_proc s)\<lparr>file_array := fa\<rparr>)\<rparr>"
    using close_all [of "[2..7]" s] unfolding c_def by auto
  have st: "same_view s t"
    by (rule same_view_fields)
      (simp_all add: t_def fa set_pid_flag_def tables_def recover_terminal_curr_pid_def upd_terminal_def split: option.splits)
  have resume: "same_view x (left (halt_resume cur p x))" for p and x :: "'a rtc_scheme"
    by (simp add: halt_resume_def Let_def allocate_user_eq same_view_allocate)
  have "(\<exists>p q. out = halt_resume cur p (t\<lparr>current_pid := q\<rparr>)) \<or> sys_execute fr sh (set_current_flag 1 t) = Some out
    \<or> (\<exists>r u p. sys_execute fr sh (set_current_flag 1 t) = Some (Ret r u) \<and> out = halt_resume cur p u)"
    using assms unfolding sys_halt_def Let_def cur_def [symmetric] c_def [symmetric]
    by (auto simp: t_def set_pid_flag_def split: if_splits option.splits outcome.splits)
  moreover have "same_view t (t\<lparr>current_pid := q\<rparr>)" "same_view t (set_current_flag 1 t)" for q
    by (rule same_view_fields; simp add: tables_def set_current_flag_def)+
  ultimately show ?thesis
    using same_view_trans [OF st] same_view_trans resume same_view_execute [of fr sh] by (metis left.simps(1))
qed

lemma same_view_write:
  fixes s :: "'a rtc_scheme"
  shows "same_view s (snd (terminal_write fd buf n s))"
proof -
  have w: "screen_ok s \<longrightarrow> screen_ok (snd (write_chars on buf k i w s))" "disp_terminal (snd (write_chars on buf k i w s)) = disp_terminal s"
    for on k i w and s :: "'a rtc_scheme"
    by (induction on buf k i w s rule: write_chars.induct) (auto simp: putc_screen_ok)
  show ?thesis
    by (rule same_view_console [OF terminal_write_more])
      (use w in \<open>simp_all add: terminal_write_def Let_def split_def\<close>)
qed

lemma same_view_tick:
  fixes s :: "'a rtc_scheme"
  assumes "do_pit_handler fr sh r s = Some out"
  shows "same_view s (left out)"
proof -
  define t where "t = upd_terminal (scheduled_terminal s) (\<lambda>t. t\<lparr>term_ebp := snd r, term_esp := fst r\<rparr>)
    ((send_eoi 0 s)\<lparr>scheduled_terminal := of_nat ((unat (scheduled_terminal s) + 1) mod 3)\<rparr>)"
  let ?n = "scheduled_terminal t"
  have n3: "of_nat ((unat (scheduled_terminal s) + 1) mod 3) < (3 :: u8)" by (simp add: word_less_nat_alt unat_of_nat)
  have st: "same_view s t" by (rule same_view_fields) (use n3 in \<open>simp_all add: t_def upd_terminal_def tables_def\<close>)
  define e where "e = upd_terminal ?n (\<lambda>t. t\<lparr>init := 1\<rparr>) (upd_terminal ?n (\<lambda>x. x\<lparr>shell_pid := int (unat ?n)\<rparr>) (set_current_flag 1 t))"
  define w where "w = t\<lparr>current_pid := of_int (shell_pid (terminals t ?n))\<rparr>"
  have te: "same_view t e" by (rule same_view_fields) (simp_all add: e_def upd_terminal_def set_current_flag_def tables_def)
  have tw: "same_view t w" by (rule same_view_fields) (simp_all add: w_def tables_def)
  have "sys_execute fr sh e = Some out \<or> (\<exists>x b p q. out = Resume x b ((snd (allocatePage 0x20 1 p w))\<lparr>tss := q\<rparr>))"
    using assms by (auto simp: do_pit_handler_def schedule_def context_switch_def Let_def split_def t_def e_def w_def upd_terminal_def
      split: if_splits)
  then show ?thesis
  proof (elim disjE exE)
    assume "sys_execute fr sh e = Some out"
    then show ?thesis using same_view_trans [OF st same_view_trans [OF te same_view_execute]] by blast
  next
    fix x b p q assume o: "out = Resume x b ((snd (allocatePage 0x20 1 p w))\<lparr>tss := q\<rparr>)"
    have "same_view s (snd (allocatePage 0x20 1 p w))" by (rule same_view_trans [OF st same_view_trans [OF tw same_view_allocate]])
    then show ?thesis unfolding o left.simps by (rule same_view_intros)
  qed
qed

lemma same_view_ok: "same_view s t \<Longrightarrow> screen_ok s \<Longrightarrow> vidmap_ok vid s \<Longrightarrow> screen_ok t \<and> vidmap_ok vid t"
  using same_view_vidmap by (auto simp: same_view_def)

lemma same_view_clear:
  fixes s :: "'a rtc_scheme"
  shows "same_view s (clear s)"
  by (rule same_view_console) (simp_all add: clear_screen_ok)

lemma same_view_pcbs:
  fixes s :: "'a rtc_scheme"
  shows "same_view s (s\<lparr>pcbs := p\<rparr>)"
  by (rule same_view_fields) (simp_all add: tables_def)

lemma screen_step_ok:
  "screen_step s t \<Longrightarrow> screen_ok s \<Longrightarrow> vidmap_ok vid s \<Longrightarrow> screen_ok t \<and> vidmap_ok vid t"
proof (induction rule: screen_step.induct)
  case (switched t s)
  then show ?case
    using switch_terminal_views(4) [of s t 0] switch_terminal_vidmap [of s vid t] by (simp add: vidmap_ok_def)
next
  case (ticked fr sh r s out)
  then show ?case by (intro same_view_ok [OF same_view_tick])
next
  case (executed fr command s out)
  then show ?case by (intro same_view_ok [OF same_view_execute])
next
  case (halted fr sh st s out)
  then show ?case by (intro same_view_ok [OF same_view_halt])
next
  case (mapped s a)
  have "same_view s (snd (sys_vidmap a s))" by (simp add: sys_vidmap_def same_view_ram)
  then show ?case using mapped by (rule same_view_ok)
qed (rule same_view_ok [OF same_view_write] same_view_ok [OF same_view_put_literal] same_view_ok [OF same_view_ram]
    same_view_ok [OF same_view_clear] same_view_ok [OF same_view_pcbs]; assumption)+

lemma screen_steps_ok:
  "screen_step\<^sup>*\<^sup>* s t \<Longrightarrow> screen_ok s \<Longrightarrow> vidmap_ok vid s \<Longrightarrow> screen_ok t \<and> vidmap_ok vid t"
  by (induction rule: rtranclp_induct) (use screen_step_ok in blast)+

lemma sys_vidmap_page:
  assumes "scheduled_terminal s < 3"
  shows "sys_vidmap a s = (if 0x08000000 \<le> a \<and> a < 0x08400000
     then (0, s\<lparr>ram := store32 (ram s) a (fish_page (scheduled_terminal s))\<rparr>) else (-1, s))"
  using assms by (auto simp: sys_vidmap_def fish_page_def u8_less_3 not_le not_less)

lemma page_offset:
  fixes a off :: u32
  assumes "a AND 0xFFF = 0" "off < 0x1000"
  shows "a + off = a OR off" "drop_bit 12 (a + off) = drop_bit 12 a" "(a + off) AND 0xFFF = off"
proof -
  have m: "0xFFF = (mask 12 :: u32)" by (simp add: mask_eq_exp_minus_1)
  have "unat off < 2 ^ 12" using assms(2) by (simp add: word_less_nat_alt)
  then have "take_bit 12 off = off" by (simp add: word_unat_eq_iff unsigned_take_bit_eq take_bit_nat_eq_self)
  then have off: "off AND 0xFFF = off" unfolding m by (simp add: take_bit_eq_mask)
  have "a AND off = a AND (off AND 0xFFF)" unfolding off ..
  also have "\<dots> = (a AND 0xFFF) AND off" by (simp only: and.assoc and.commute and.left_commute)
  finally have "a AND off = 0" unfolding assms(1) by simp
  then show e: "a + off = a OR off" by (rule disjunctive_add_eq_or)
  have "drop_bit 12 (off AND mask 12) = 0" by (rule bit_eqI) (simp add: bit_simps)
  then show "drop_bit 12 (a + off) = drop_bit 12 a" using off unfolding e m by simp
  show "(a + off) AND 0xFFF = off" unfolding e bit.conj_disj_distrib2 assms(1) off by simp
qed

lemma fish_page_aligned: "t < 3 \<Longrightarrow> fish_page t AND 0xFFF = 0" "t < 3 \<Longrightarrow> term_base t s AND 0xFFF = 0"
  unfolding u8_less_3 by (elim disjE; simp add: fish_page_def term_base_def video_mem_phys_addr_def)+

text \<open>
  C24: a program whose call of \<open>sys_vidmap\<close> succeeds, which is when its pointer lies in the user
  page, finds there the address of a page that shows the screen of the terminal that was scheduled
  at the call, and from then on no other: whatever happened since the tables were built, and
  whatever terminal switches, timer ticks, programs started and ended, calls, output and stores
  follow, the page translates in user mode to the memory that holds the screen of that terminal
  at that moment, which no other terminal's screen overlaps.
\<close>

theorem vidmap_own_screen:
  fixes s :: "'a rtc_scheme"
  assumes "videoMem_4kb_Page s = (\<lambda>_. 0)" "vid AND 0xFFF = 0" "low \<noteq> vid" "disp_terminal s = 0" "screen_ok s"
    and "screen_step\<^sup>*\<^sup>* (pagingInit dir low vid s) t" "sys_vidmap a t = (r, u)" "screen_step\<^sup>*\<^sup>* u v" "off < 0x1000"
  shows "if 0x08000000 \<le> a \<and> a < 0x08400000
    then r = 0 \<and> translate low vid user (load32 (ram u) a + off) v = Some (term_base (scheduled_terminal t) v + off)
      \<and> (\<forall>x < 3. x \<noteq> scheduled_terminal t \<longrightarrow>
          disjoint_regions (term_base x v) 4000 (term_base (scheduled_terminal t) v) 4000)
    else r = -1 \<and> u = t"
proof -
  let ?k = "scheduled_terminal t"
  have "screen_ok (pagingInit dir low vid s)" using assms(5) by (simp add: screen_ok_def term_ok_def cursor_ok_def)
  then have t: "screen_ok t" "vidmap_ok vid t"
    using screen_steps_ok [OF assms(6)] pagingInit_vidmap [OF assms(1,2,4)] by blast+
  then have k: "?k < 3" by (simp add: screen_ok_def term_ok_def)
  note vm = assms(7) [unfolded sys_vidmap_page [OF k]]
  have "screen_step t u" using mapped [of t a] assms(7) by simp
  then have v: "vidmap_ok vid v" using screen_steps_ok [OF assms(8)] screen_step_ok t by blast
  have "translate low vid user (fish_page ?k + off) v = Some (term_base ?k v + off)"
    using vidmap_translate [OF v assms(2,3) k page_offset(2) [OF fish_page_aligned(1) [OF k] assms(9)]]
    unfolding page_offset(3) [OF fish_page_aligned(1) [OF k] assms(9)] page_offset(1) [OF fish_page_aligned(2) [OF k] assms(9)] .
  then show ?thesis using vm term_base_disjoint k by (auto simp: load_store32)
qed

theorem vidmap_own_screen_witness:
  "\<exists>t u. sys_vidmap 0x08000010 (pagingInit 0x405000 0x406000 0x407000 (rtc_start\<lparr>videoMem_4kb_Page := \<lambda>_. 0\<rparr>)) = (0, t)
    \<and> disp_terminal t = 0 \<and> u = switch_terminal 1 t
    \<and> translate 0x406000 0x407000 True (load32 (ram t) 0x08000010 + 0x123) t = Some 0xB8123
    \<and> translate 0x406000 0x407000 True (load32 (ram t) 0x08000010 + 0x123) u = Some 0xBA123"
proof -
  let ?s = "rtc_start\<lparr>videoMem_4kb_Page := \<lambda>_. 0\<rparr>"
  let ?p = "pagingInit 0x405000 0x406000 0x407000 ?s"
  obtain r t where t: "sys_vidmap 0x08000010 ?p = (r, t)" by (cases "sys_vidmap 0x08000010 ?p")
  have s: "videoMem_4kb_Page ?s = (\<lambda>_. 0)" "(0x407000 :: u32) AND 0xFFF = 0" "(0x406000 :: u32) \<noteq> 0x407000"
    "disp_terminal ?s = 0" "scheduled_terminal ?s = 0" "screen_ok ?s"
    by (simp_all add: rtc_start_def terminals.defs screen_ok_def term_ok_def cursor_ok_def)
  have pt: "t = ?p\<lparr>ram := store32 (ram ?p) 0x08000010 0x084ba000\<rparr>" using t s(5) by (simp add: sys_vidmap_def)
  have f: "disp_terminal t = 0" "scheduled_terminal ?p = 0" using s(4,5) by (simp_all add: pt)
  have "tlb_coherent ?p" using pagingInit_vidmap [OF s(1,2,4)] by (simp add: vidmap_ok_def)
  then have "tlb_coherent t" by (simp add: pt tlb_coherent_def tables_def)
  then have d: "disp_terminal (switch_terminal 1 t) = 1" using switch_terminal_effect(2) [of t 1] f(1) by simp
  have step: "screen_step\<^sup>*\<^sup>* t (switch_terminal 1 t)" by (intro r_into_rtranclp switched) simp
  note own = vidmap_own_screen [OF s(1-4,6) rtranclp.rtrancl_refl t, where off = "0x123" and user = True]
  have "r = 0 \<and> translate 0x406000 0x407000 True (load32 (ram t) 0x08000010 + 0x123) t = Some 0xB8123"
    using own [OF rtranclp.rtrancl_refl] f by (simp add: term_base_def)
  moreover have "translate 0x406000 0x407000 True (load32 (ram t) 0x08000010 + 0x123) (switch_terminal 1 t) = Some 0xBA123"
    using own [OF step] f(2) d by (simp add: term_base_def video_mem_phys_addr_def)
  ultimately show ?thesis using t f(1) by blast
qed

end
